(* ===== verification/Prelude.thy ===== *)
theory Prelude
  imports Main "HOL-Library.Word" "HOL-Library.List_Lexorder" "HOL-Library.Char_ord"
    "HOL-Library.Product_Lexorder"
begin

text \<open>
  What every component shares: Go error values, fallible state-passing operations, a relational
  database whose statements may fail, keyed tables as lists of rows, and 64-bit wrap-around.

  \<^item> \<open>eff\<close> is a Go function with a receiver that it mutates and an \<open>error\<close> result: it takes the
    state and returns the error or the value together with the state it left behind. \<open>andThen\<close> is
    the \<open>if err != nil { return ..., err }\<close> idiom, \<open>ignoring\<close> the \<open>_ = f()\<close> idiom.
  \<^item> \<open>db\<close> is a database handle: the tables, and a script that decides for each statement still to
    come whether the driver fails it (and with which message). An empty script means that no
    statement fails. Safety results hold for every script.
  \<^item> \<open>within R m\<close> says that \<open>m\<close> moves the state along \<open>R\<close>, on every branch, errors included.
\<close>

named_theorems eff_simps \<open>unfolding of the effect combinators\<close>
named_theorems within_intros \<open>composition rules for relations between the states of a run\<close>

subsection \<open>Error values\<close>

text \<open>
  The sentinel errors the packages compare against, a literal text, a format with its arguments
  (the rendering is \<open>fmt\<close>'s), an error wrapped with a context, several joined, and an error of the database driver
  or of an external command with the text that the outside world chose.
\<close>

datatype err =
    DbErr string
  | Msg string
  | Fmt string "string list"
  | Wrapped string err
  | Joined "err list"
  | ErrNotFound
  | ErrAborted
  | ErrUnauthorized
  | ErrInvalidBranch
  | ErrFeedbackRequired
  | ErrBadDecision

subsection \<open>Fallible state-passing operations\<close>

type_synonym ('s, 'a) eff = "'s \<Rightarrow> (err + 'a) \<times> 's"

definition ret :: "'a \<Rightarrow> ('s, 'a) eff" where
  "ret x = (\<lambda>s. (Inr x, s))"

definition failing :: "err \<Rightarrow> ('s, 'a) eff" where
  "failing e = (\<lambda>s. (Inl e, s))"

definition andThen :: "('s, 'a) eff \<Rightarrow> ('a \<Rightarrow> ('s, 'b) eff) \<Rightarrow> ('s, 'b) eff" where
  "andThen m f = (\<lambda>s. case m s of (Inl e, s') \<Rightarrow> (Inl e, s') | (Inr x, s') \<Rightarrow> f x s')"

definition attempt :: "('s, 'a) eff \<Rightarrow> ('s, err + 'a) eff" where
  "attempt m = (\<lambda>s. case m s of (r, s') \<Rightarrow> (Inr r, s'))"

definition ignoring :: "('s, 'a) eff \<Rightarrow> ('s, unit) eff" where
  "ignoring m = (\<lambda>s. (Inr (), snd (m s)))"

lemma ret_eq [eff_simps, simp]: "ret x s = (Inr x, s)"
  by (simp add: ret_def)

lemma failing_eq [eff_simps, simp]: "failing e s = (Inl e, s)"
  by (simp add: failing_def)

lemma ignoring_eq [eff_simps, simp]: "ignoring m s = (Inr (), snd (m s))"
  by (simp add: ignoring_def)

lemma attempt_eq [eff_simps, simp]: "attempt m s = (Inr (fst (m s)), snd (m s))"
  by (simp add: attempt_def split: prod.split)

lemma andThen_eq [eff_simps]:
  "andThen m f s = (case fst (m s) of Inl e \<Rightarrow> (Inl e, snd (m s)) | Inr x \<Rightarrow> f x (snd (m s)))"
  by (simp add: andThen_def split: prod.split sum.split)

lemma andThen_Inr:
  "andThen m f s = (Inr y, t) \<longleftrightarrow> (\<exists>x u. m s = (Inr x, u) \<and> f x u = (Inr y, t))"
  by (auto simp: andThen_def split: prod.splits sum.splits)

lemma andThen_Inl:
  "andThen m f s = (Inl e, t) \<longleftrightarrow>
     m s = (Inl e, t) \<or> (\<exists>x u. m s = (Inr x, u) \<and> f x u = (Inl e, t))"
  by (auto simp: andThen_def split: prod.splits sum.splits)

lemma andThen_ret [simp]: "andThen (ret x) f = f x"
  by (simp add: andThen_def ret_def)

lemma andThen_failing [simp]: "andThen (failing e) f = failing e"
  by (simp add: andThen_def failing_def)

lemma andThen_step:
  "m s = (Inr x, t) \<Longrightarrow> andThen m f s = f x t"
  by (simp add: andThen_def)

lemma andThen_stop:
  "m s = (Inl e, t) \<Longrightarrow> andThen m f s = (Inl e, t)"
  by (simp add: andThen_def)

lemma run_obtain:
  assumes "fst x = r"
  obtains s where "x = (r, s)"
  using assms by (cases x) auto

subsection \<open>Relations between the states before and after an operation\<close>

definition within :: "('s \<Rightarrow> 's \<Rightarrow> bool) \<Rightarrow> ('s, 'a) eff \<Rightarrow> bool" where
  "within R m \<longleftrightarrow> (\<forall>s. R s (snd (m s)))"

lemma withinI: "(\<And>s. R s (snd (m s))) \<Longrightarrow> within R m"
  by (simp add: within_def)

lemma withinD: "within R m \<Longrightarrow> R s (snd (m s))"
  by (simp add: within_def)

lemma withinD_eq: "within R m \<Longrightarrow> m s = (r, s') \<Longrightarrow> R s s'"
  by (metis within_def snd_conv)

lemma within_ret [within_intros]: "reflp R \<Longrightarrow> within R (ret x)"
  by (simp add: within_def reflpD)

lemma within_Pair [within_intros]: "reflp R \<Longrightarrow> within R (Pair r)"
  by (simp add: within_def reflpD)

lemma within_failing [within_intros]: "reflp R \<Longrightarrow> within R (failing e)"
  by (simp add: within_def reflpD)

lemma within_ignoring [within_intros]: "within R m \<Longrightarrow> within R (ignoring m)"
  by (simp add: within_def)

lemma within_attempt [within_intros]: "within R m \<Longrightarrow> within R (attempt m)"
  by (simp add: within_def)

lemma within_andThen [within_intros]:
  assumes "transp R" and "within R m" and "\<And>x. within R (f x)"
  shows "within R (andThen m f)"
proof (rule withinI)
  fix s
  have "R s (snd (m s))"
    using assms(2) by (rule withinD)
  moreover have "R (snd (m s)) (snd (f x (snd (m s))))" for x
    using assms(3) by (rule withinD)
  ultimately show "R s (snd (andThen m f s))"
    using assms(1) by (auto simp: andThen_eq split: sum.split intro: transpD)
qed

definition preserves :: "('s \<Rightarrow> bool) \<Rightarrow> 's \<Rightarrow> 's \<Rightarrow> bool" where
  "preserves P s s' \<longleftrightarrow> (P s \<longrightarrow> P s')"

lemma preserves_reflp [simp, intro]: "reflp (preserves P)"
  by (simp add: reflp_def preserves_def)

lemma preserves_transp [simp, intro]: "transp (preserves P)"
  by (auto simp: transp_def preserves_def)

subsection \<open>The database handle\<close>

record 'a db =
  script :: "string option list"
  tabs :: 'a

definition sql :: "('a \<Rightarrow> 'b \<times> 'a) \<Rightarrow> ('a db, 'b) eff" where
  "sql f = (\<lambda>d. case script d of
       Some m # rest \<Rightarrow> (Inl (DbErr m), d\<lparr>script := rest\<rparr>)
     | None # rest \<Rightarrow> (Inr (fst (f (tabs d))), d\<lparr>script := rest, tabs := snd (f (tabs d))\<rparr>)
     | [] \<Rightarrow> (Inr (fst (f (tabs d))), d\<lparr>tabs := snd (f (tabs d))\<rparr>))"

definition reading :: "('a \<Rightarrow> 'b) \<Rightarrow> ('a db, 'b) eff" where
  "reading q = sql (\<lambda>t. (q t, t))"

text \<open>
  A transaction: the body runs against the tables and says whether it reached the commit. An error
  of the body or of the commit, or a return before the commit, restores the tables of the beginning
  (\<open>defer tx.Rollback()\<close>). The statements already taken from the script stay taken.
\<close>

definition rolled_back :: "'a db \<Rightarrow> 'a db \<Rightarrow> 'a db" where
  "rolled_back d d' = d'\<lparr>tabs := tabs d\<rparr>"

definition txn :: "('a db, bool \<times> 'b) eff \<Rightarrow> ('a db, 'b) eff" where
  "txn body = andThen (reading (\<lambda>_. ())) (\<lambda>_ d.
     case body d of
       (Inl e, d') \<Rightarrow> (Inl e, rolled_back d d')
     | (Inr (commit, x), d') \<Rightarrow>
         if commit then
           (case reading (\<lambda>_. ()) d' of
              (Inl e, d'') \<Rightarrow> (Inl e, rolled_back d d'')
            | (Inr _, d'') \<Rightarrow> (Inr x, d''))
         else (Inr x, rolled_back d d'))"

definition healthy :: "'a db \<Rightarrow> bool" where
  "healthy d \<longleftrightarrow> script d = []"

lemma sql_healthy [eff_simps]:
  "healthy d \<Longrightarrow> sql f d = (Inr (fst (f (tabs d))), d\<lparr>tabs := snd (f (tabs d))\<rparr>)"
  by (simp add: sql_def healthy_def)

lemma reading_healthy [eff_simps]:
  "healthy d \<Longrightarrow> reading q d = (Inr (q (tabs d)), d)"
  by (simp add: reading_def sql_healthy)

lemma healthy_tabs [simp]: "healthy (d\<lparr>tabs := t\<rparr>) = healthy d"
  by (simp add: healthy_def)

lemma sql_Inr:
  "sql f d = (Inr x, d') \<Longrightarrow> x = fst (f (tabs d)) \<and> tabs d' = snd (f (tabs d))"
  by (auto simp: sql_def split: list.splits option.splits)

lemma sql_Inl: "sql f d = (Inl e, d') \<Longrightarrow> tabs d' = tabs d"
  by (auto simp: sql_def split: list.splits option.splits)

lemma reading_Inr: "reading q d = (Inr x, d') \<Longrightarrow> x = q (tabs d) \<and> tabs d' = tabs d"
  by (auto simp: reading_def dest: sql_Inr)

lemma reading_tabs [simp]: "tabs (snd (reading q d)) = tabs d"
  by (auto simp: reading_def sql_def split: list.splits option.splits)

lemma sql_tabs_cases:
  "tabs (snd (sql f d)) = tabs d \<or> tabs (snd (sql f d)) = snd (f (tabs d))"
  by (auto simp: sql_def split: list.splits option.splits)

definition on_tabs :: "('a \<Rightarrow> 'a \<Rightarrow> bool) \<Rightarrow> 'a db \<Rightarrow> 'a db \<Rightarrow> bool" where
  "on_tabs R d d' \<longleftrightarrow> R (tabs d) (tabs d')"

lemma on_tabs_reflp [simp]: "reflp R \<Longrightarrow> reflp (on_tabs R)"
  by (simp add: reflp_def on_tabs_def)

lemma on_tabs_transp [simp]: "transp R \<Longrightarrow> transp (on_tabs R)"
  unfolding transp_def on_tabs_def by blast

lemma within_sql [within_intros]:
  assumes "reflp R" and "\<And>t. R t (snd (f t))"
  shows "within (on_tabs R) (sql f)"
proof (rule withinI)
  fix d
  show "on_tabs R d (snd (sql f d))"
    using sql_tabs_cases [of f d] assms by (auto simp: on_tabs_def reflp_def)
qed

lemma within_reading [within_intros]: "reflp R \<Longrightarrow> within (on_tabs R) (reading q)"
  by (simp add: within_def on_tabs_def reflpD)

lemma within_txn [within_intros]:
  fixes R :: "'t \<Rightarrow> 't \<Rightarrow> bool"
  assumes "reflp R" and "within (on_tabs R) body"
  shows "within (on_tabs R) (txn body)"
proof (rule withinI)
  fix d :: "'t db"
  define d1 where "d1 = snd (reading (\<lambda>_. ()) d)"
  have t1: "tabs d1 = tabs d" by (simp add: d1_def)
  have b: "R (tabs d1) (tabs (snd (body d1)))"
    using withinD [OF assms(2), of d1] by (simp add: on_tabs_def)
  have c: "tabs (snd (reading (\<lambda>_. ()) x)) = tabs x" for x :: "'t db"
    by simp
  show "on_tabs R d (snd (txn body d))"
    using b c [of "snd (body d1)"] assms(1) t1
    by (auto simp: txn_def andThen_eq on_tabs_def rolled_back_def reflpD d1_def [symmetric]
        simp del: reading_tabs split: sum.split prod.split)
qed

lemma txn_Inl: "txn body d = (Inl e, d') \<Longrightarrow> tabs d' = tabs d"
  by (auto simp: txn_def andThen_def rolled_back_def
      split: prod.splits sum.splits if_splits dest: reading_Inr)
    (metis reading_tabs snd_conv)+

lemma txn_Inr:
  "txn body d = (Inr x, d') \<Longrightarrow>
     \<exists>d1 b d2. tabs d1 = tabs d \<and> body d1 = (Inr (b, x), d2)
       \<and> tabs d' = (if b then tabs d2 else tabs d)"
  by (auto simp: txn_def andThen_def rolled_back_def
      split: prod.splits sum.splits if_splits dest!: reading_Inr)
    (metis reading_tabs snd_conv)+

subsection \<open>Tables as lists of rows\<close>

text \<open>
  \<open>UPDATE\<close> and \<open>DELETE\<close> return the number of affected rows, which the code reads as the verdict of
  its compare-and-swap. \<open>upsert\<close> is \<open>INSERT ... ON CONFLICT DO UPDATE ... WHERE\<close>.
\<close>

definition upd_where :: "('r \<Rightarrow> bool) \<Rightarrow> ('r \<Rightarrow> 'r) \<Rightarrow> 'r list \<Rightarrow> nat \<times> 'r list" where
  "upd_where p f rs = (length (filter p rs), map (\<lambda>r. if p r then f r else r) rs)"

definition del_where :: "('r \<Rightarrow> bool) \<Rightarrow> 'r list \<Rightarrow> nat \<times> 'r list" where
  "del_where p rs = (length (filter p rs), filter (\<lambda>r. \<not> p r) rs)"

definition upsert :: "('r \<Rightarrow> bool) \<Rightarrow> 'r \<Rightarrow> ('r \<Rightarrow> bool) \<Rightarrow> ('r \<Rightarrow> 'r) \<Rightarrow> 'r list \<Rightarrow> nat \<times> 'r list" where
  "upsert conflict row guard f rs =
     (if List.find conflict rs = None then (1, rs @ [row])
      else upd_where (\<lambda>r. conflict r \<and> guard r) f rs)"

lemma find_None_filter: "List.find p rs = None \<longleftrightarrow> filter p rs = []"
  by (auto simp: find_None_iff filter_empty_conv)

lemma find_map_same:
  assumes "\<And>r. p (f r) = p r"
  shows "List.find p (map f rs) = map_option f (List.find p rs)"
  by (induction rs) (auto simp: assms)

lemma find_filter_keep:
  assumes "\<And>r. p r \<Longrightarrow> q r"
  shows "List.find p (filter q rs) = List.find p rs"
  by (induction rs) (auto dest: assms)

lemma find_append: "List.find p (xs @ ys) = (case List.find p xs of None \<Rightarrow> List.find p ys | Some r \<Rightarrow> Some r)"
  by (induction xs) auto

lemma find_SomeD: "List.find p rs = Some r \<Longrightarrow> r \<in> set rs \<and> p r"
  by (induction rs) (auto split: if_splits)

lemma find_distinct:
  assumes "distinct (map k rs)"
  shows "List.find (\<lambda>r. k r = x) rs = Some r \<longleftrightarrow> r \<in> set rs \<and> k r = x"
  using assms
proof (induction rs)
  case Nil
  then show ?case by simp
next
  case (Cons a rs)
  have "k r = k a \<Longrightarrow> r \<notin> set rs"
    using Cons.prems by (metis distinct.simps(2) image_eqI list.set_map list.simps(9))
  with Cons show ?case by auto
qed

lemma filter_key_distinct:
  assumes "distinct (map k rs)"
  shows "filter (\<lambda>r. k r = x \<and> g r) rs =
     (case List.find (\<lambda>r. k r = x) rs of None \<Rightarrow> [] | Some r \<Rightarrow> if g r then [r] else [])"
  using assms
proof (induction rs)
  case Nil
  then show ?case by simp
next
  case (Cons a rs)
  show ?case
  proof (cases "k a = x")
    case True
    with Cons.prems have "\<forall>r \<in> set rs. k r \<noteq> x" by (auto simp: image_iff)
    then have "filter (\<lambda>r. k r = x \<and> g r) rs = []" by (simp add: filter_empty_conv)
    with True show ?thesis by simp
  next
    case False
    with Cons show ?thesis by simp
  qed
qed

subsection \<open>64-bit integers\<close>

text \<open>
  Go's \<open>int64\<close> and \<open>time.Duration\<close> wrap around; \<open>wrap64\<close> is the two's complement reading, the same
  as \<open>sint\<close> of the 64-bit word.
\<close>

definition wrap64 :: "int \<Rightarrow> int" where
  "wrap64 x = (x + 2 ^ 63) mod 2 ^ 64 - 2 ^ 63"

lemma wrap64_range: "- (2 ^ 63) \<le> wrap64 x \<and> wrap64 x < 2 ^ 63"
  by (simp add: wrap64_def)

lemma wrap64_id: "- (2 ^ 63) \<le> x \<Longrightarrow> x < 2 ^ 63 \<Longrightarrow> wrap64 x = x"
  by (simp add: wrap64_def)

lemma wrap64_word: "wrap64 x = sint (word_of_int x :: 64 word)"
  by (simp add: wrap64_def signed_of_int take_bit_eq_mod signed_take_bit_eq_take_bit_shift)

end
