(* ===== verification/GoText.thy ===== *)
theory GoText
  imports Prelude
begin

text \<open>
  The part of Go's \<open>strings\<close>, \<open>unicode/utf8\<close>, \<open>encoding/hex\<close> and \<open>encoding/base64\<close> that the
  program uses. A Go string is a sequence of bytes, an Isabelle \<open>char\<close> is a byte; where the program
  ranges over runes, \<open>runes\<close> decodes UTF-8 the way \<open>for _, r := range s\<close> does (an invalid byte is
  one rune \<open>0xFFFD\<close>).
\<close>

abbreviation byte :: "char \<Rightarrow> nat" where
  "byte c \<equiv> of_char c"

subsection \<open>Prefixes, splitting, containment\<close>

definition has_prefix :: "string \<Rightarrow> string \<Rightarrow> bool" where
  "has_prefix s p \<longleftrightarrow> take (length p) s = p"

definition trim_prefix :: "string \<Rightarrow> string \<Rightarrow> string" where
  "trim_prefix s p = (if has_prefix s p then drop (length p) s else s)"

fun contains :: "string \<Rightarrow> string \<Rightarrow> bool" where
  "contains [] p = (p = [])"
| "contains (c # s) p = (has_prefix (c # s) p \<or> contains s p)"

fun split_on :: "char \<Rightarrow> string \<Rightarrow> string list" where
  "split_on d [] = [[]]"
| "split_on d (c # s) =
     (if c = d then [] # split_on d s
      else (case split_on d s of [] \<Rightarrow> [[c]] | x # xs \<Rightarrow> (c # x) # xs))"

lemma has_prefix_append [simp]: "has_prefix (p @ s) p"
  by (simp add: has_prefix_def)

lemma has_prefix_ex: "has_prefix s p \<longleftrightarrow> (\<exists>r. s = p @ r)"
  by (metis append_eq_conv_conj append_take_drop_id has_prefix_def)

lemma trim_prefix_append [simp]: "trim_prefix (p @ s) p = s"
  by (simp add: trim_prefix_def)

lemma split_on_nonempty [simp]: "split_on d s \<noteq> []"
  by (cases s) (auto split: list.split)

subsection \<open>White space\<close>

text \<open>The UTF-8 encodings of the runes of \<open>unicode.IsSpace\<close>.\<close>

definition space_runes :: "string list" where
  "space_runes =
     map (\<lambda>n. [char_of n]) [9, 10, 11, 12, 13, 32 :: nat]
     @ map (map char_of) [[0xC2, 0x85], [0xC2, 0xA0 :: nat]]
     @ [map char_of [0xE1, 0x9A, 0x80 :: nat]]
     @ map (\<lambda>n. map char_of [0xE2, 0x80, n]) [0x80 ..< 0x8B]
     @ map (map char_of) [[0xE2, 0x80, 0xA8], [0xE2, 0x80, 0xA9], [0xE2, 0x80, 0xAF],
         [0xE2, 0x81, 0x9F], [0xE3, 0x80, 0x80 :: nat]]"

fun trim_left :: "nat \<Rightarrow> string list \<Rightarrow> string \<Rightarrow> string" where
  "trim_left 0 ws s = s"
| "trim_left (Suc n) ws s =
     (case List.find (has_prefix s) ws of None \<Rightarrow> s | Some w \<Rightarrow> trim_left n ws (drop (length w) s))"

text \<open>Each round removes at least one byte, so \<open>length s\<close> rounds are enough.\<close>

definition trim_space :: "string \<Rightarrow> string" where
  "trim_space s =
     (let l = trim_left (length s) space_runes s
      in rev (trim_left (length l) (map rev space_runes) (rev l)))"

text \<open>A text that begins and ends with a visible ASCII character is left as it is.\<close>

definition visible :: "char \<Rightarrow> bool" where
  "visible c \<longleftrightarrow> 33 \<le> byte c \<and> byte c \<le> 126"

lemma space_runes_ends: "w \<in> set space_runes \<Longrightarrow> w \<noteq> [] \<and> \<not> visible (hd w) \<and> \<not> visible (last w)"
  by (auto simp: space_runes_def visible_def upt_rec)

lemma trim_left_visible:
  assumes "s \<noteq> []" and "visible (hd s)" and "\<forall>w \<in> set ws. w \<noteq> [] \<and> \<not> visible (hd w)"
  shows "trim_left n ws s = s"
proof -
  have "\<not> has_prefix s w" if "w \<in> set ws" for w
    using that assms by (auto simp: has_prefix_ex)
  then have "List.find (has_prefix s) ws = None"
    by (simp add: find_None_iff)
  then show ?thesis by (cases n) simp_all
qed

lemma trim_space_visible:
  assumes "s \<noteq> []" and "visible (hd s)" and "visible (last s)"
  shows "trim_space s = s"
proof -
  have "trim_left (length s) space_runes s = s"
    using assms space_runes_ends by (intro trim_left_visible) auto
  moreover have "trim_left (length s) (map rev space_runes) (rev s) = rev s"
    using assms space_runes_ends by (intro trim_left_visible) (auto simp: hd_rev)
  ultimately show ?thesis by (simp add: trim_space_def)
qed

definition trim_space_any :: "string \<Rightarrow> string" where
  "trim_space_any = trim_space"

lemma trim_space_any_code [code]:
  "trim_space_any s = (let l = trim_left (length s) space_runes s
      in rev (trim_left (length l) (map rev space_runes) (rev l)))"
  by (simp add: trim_space_any_def trim_space_def)

lemma trim_space_code [code]:
  "trim_space [] = []"
  "trim_space (c # s) = (if visible c \<and> visible (last (c # s)) then c # s else trim_space_any (c # s))"
  by (simp add: trim_space_def) (simp add: trim_space_visible trim_space_any_def)

lemma trim_left_le: "length (trim_left n ws s) \<le> length s"
proof (induction n arbitrary: s)
  case 0
  then show ?case by simp
next
  case (Suc n)
  then show ?case
    by (auto split: option.split) (metis diff_le_self le_trans length_drop)
qed

lemma trim_space_le: "length (trim_space s) \<le> length s"
  by (simp add: trim_space_def Let_def) (metis length_rev order_trans trim_left_le)

lemma trim_space_Nil [simp]: "trim_space [] = []"
  by (simp add: trim_space_def)

subsection \<open>Character classes\<close>

definition is_lower :: "char \<Rightarrow> bool" where
  "is_lower c \<longleftrightarrow> 97 \<le> byte c \<and> byte c \<le> 122"

definition is_upper :: "char \<Rightarrow> bool" where
  "is_upper c \<longleftrightarrow> 65 \<le> byte c \<and> byte c \<le> 90"

definition is_digit :: "char \<Rightarrow> bool" where
  "is_digit c \<longleftrightarrow> 48 \<le> byte c \<and> byte c \<le> 57"

definition is_alnum :: "char \<Rightarrow> bool" where
  "is_alnum c \<longleftrightarrow> is_lower c \<or> is_upper c \<or> is_digit c"

subsection \<open>Case mapping\<close>

text \<open>
  \<open>strings.ToLower\<close> and \<open>strings.ToUpper\<close> on ASCII, with the only non-ASCII runes whose image is
  ASCII: the Kelvin sign and the dotted capital I (lower), the dotless i and the long s (upper).
  Every other rune keeps a non-ASCII image, which the callers only compare with ASCII text or
  replace by an underscore, so it is left as it is.
\<close>

fun to_lower :: "string \<Rightarrow> string" where
  "to_lower [] = []"
| "to_lower (c # s) =
     (if byte c = 0xE2 \<and> has_prefix s [char_of (0x84 :: nat), char_of (0xAA :: nat)]
        then CHR ''k'' # to_lower (drop 2 s)
      else if byte c = 0xC4 \<and> has_prefix s [char_of (0xB0 :: nat)]
        then CHR ''i'' # to_lower (drop 1 s)
      else (if is_upper c then char_of (byte c + 32) else c) # to_lower s)"

fun to_upper :: "string \<Rightarrow> string" where
  "to_upper [] = []"
| "to_upper (c # s) =
     (if byte c = 0xC4 \<and> has_prefix s [char_of (0xB1 :: nat)]
        then CHR ''I'' # to_upper (drop 1 s)
      else if byte c = 0xC5 \<and> has_prefix s [char_of (0xBF :: nat)]
        then CHR ''S'' # to_upper (drop 1 s)
      else (if is_lower c then char_of (byte c - 32) else c) # to_upper s)"

subsection \<open>Runes\<close>

definition continuation :: "nat \<Rightarrow> nat \<Rightarrow> char \<Rightarrow> bool" where
  "continuation lo hi c \<longleftrightarrow> lo \<le> byte c \<and> byte c \<le> hi"

text \<open>
  \<open>utf8.DecodeRuneInString\<close>: the rune at the front of the string and the number of bytes it takes.
  The bounds of the second byte exclude overlong forms and surrogates.
\<close>

definition decode_rune :: "char \<Rightarrow> string \<Rightarrow> nat \<times> nat" where
  "decode_rune c s =
     (let b = byte c;
          lo = (if b = 0xE0 then 0xA0 else if b = 0xF0 then 0x90 else 0x80);
          hi = (if b = 0xED then 0x9F else if b = 0xF4 then 0x8F else 0xBF)
      in if b < 0x80 then (b, 1)
         else if 0xC2 \<le> b \<and> b \<le> 0xDF then
           (case s of c1 # _ \<Rightarrow>
              if continuation 0x80 0xBF c1 then ((b - 0xC0) * 64 + (byte c1 - 0x80), 2)
              else (0xFFFD, 1)
            | _ \<Rightarrow> (0xFFFD, 1))
         else if 0xE0 \<le> b \<and> b \<le> 0xEF then
           (case s of c1 # c2 # _ \<Rightarrow>
              if continuation lo hi c1 \<and> continuation 0x80 0xBF c2
              then ((b - 0xE0) * 4096 + (byte c1 - 0x80) * 64 + (byte c2 - 0x80), 3)
              else (0xFFFD, 1)
            | _ \<Rightarrow> (0xFFFD, 1))
         else if 0xF0 \<le> b \<and> b \<le> 0xF4 then
           (case s of c1 # c2 # c3 # _ \<Rightarrow>
              if continuation lo hi c1 \<and> continuation 0x80 0xBF c2 \<and> continuation 0x80 0xBF c3
              then ((b - 0xF0) * 262144 + (byte c1 - 0x80) * 4096 + (byte c2 - 0x80) * 64
                      + (byte c3 - 0x80), 4)
              else (0xFFFD, 1)
            | _ \<Rightarrow> (0xFFFD, 1))
         else (0xFFFD, 1))"

fun rune_steps :: "nat \<Rightarrow> string \<Rightarrow> (nat \<times> nat) list" where
  "rune_steps 0 s = []"
| "rune_steps (Suc n) [] = []"
| "rune_steps (Suc n) (c # s) =
     (case decode_rune c s of (r, k) \<Rightarrow> (r, k) # rune_steps n (drop (k - 1) s))"

definition runes :: "string \<Rightarrow> nat list" where
  "runes s = map fst (rune_steps (length s) s)"

definition encode_rune :: "nat \<Rightarrow> string" where
  "encode_rune r =
     (if r < 0x80 then [char_of r]
      else if r < 0x800 then map char_of [0xC0 + r div 64, 0x80 + r mod 64]
      else if 0x110000 \<le> r \<or> (0xD800 \<le> r \<and> r < 0xE000) then map char_of [0xEF, 0xBF, 0xBD :: nat]
      else if r < 0x10000 then
        map char_of [0xE0 + r div 4096, 0x80 + (r div 64) mod 64, 0x80 + r mod 64]
      else map char_of [0xF0 + r div 262144, 0x80 + (r div 4096) mod 64,
        0x80 + (r div 64) mod 64, 0x80 + r mod 64])"

lemma rune_steps_ascii:
  "\<forall>c \<in> set s. byte c < 128 \<Longrightarrow> length s \<le> n \<Longrightarrow> rune_steps n s = map (\<lambda>c. (byte c, 1)) s"
  by (induction n s rule: rune_steps.induct) (auto simp: decode_rune_def Let_def)

lemma runes_ascii: "\<forall>c \<in> set s. byte c < 128 \<Longrightarrow> runes s = map byte s"
  by (simp add: runes_def rune_steps_ascii o_def)

text \<open>
  \<open>fmt\<close>'s \<open>%q\<close> renders a string as a Go literal. The literal is also a JSON string unless it holds an
  escape that JSON does not know: \<open>\a\<close>, \<open>\v\<close>, \<open>\x..\<close> (control bytes, delete, bytes that are not UTF-8)
  or \<open>\U........\<close> (an unprintable rune beyond the basic plane; \<open>pr\<close> is \<open>strconv\<close>'s table).
\<close>

definition json_escape :: "(nat \<Rightarrow> bool) \<Rightarrow> nat \<times> nat \<Rightarrow> bool" where
  "json_escape pr rw =
     (case rw of (r, w) \<Rightarrow>
        \<not> (w = 1 \<and> r = 0xFFFD) \<and> (r < 32 \<longrightarrow> r \<in> {8, 9, 10, 12, 13}) \<and> r \<noteq> 0x7F
        \<and> (0x10000 \<le> r \<longrightarrow> pr r))"

definition quoted_is_json :: "(nat \<Rightarrow> bool) \<Rightarrow> string \<Rightarrow> bool" where
  "quoted_is_json pr s = list_all (json_escape pr) (rune_steps (length s) s)"

lemma quoted_is_json_printable:
  assumes "\<forall>c \<in> set s. 32 \<le> byte c \<and> byte c < 127"
  shows "quoted_is_json pr s"
proof -
  have "rune_steps (length s) s = map (\<lambda>c. (byte c, 1)) s"
    using assms by (intro rune_steps_ascii) (auto dest: bspec)
  with assms show ?thesis
    by (auto simp: quoted_is_json_def list_all_iff json_escape_def dest: bspec)
qed

subsection \<open>Numbers and hexadecimal\<close>

fun digits10 :: "nat \<Rightarrow> nat \<Rightarrow> string" where
  "digits10 0 n = []"
| "digits10 (Suc k) n =
     (if n < 10 then [char_of (48 + n)] else digits10 k (n div 10) @ [char_of (48 + n mod 10)])"

definition itoa :: "int \<Rightarrow> string" where
  "itoa n = (if n < 0 then CHR ''-'' # digits10 (Suc (nat (- n))) (nat (- n))
     else digits10 (Suc (nat n)) (nat n))"

definition hex_digit :: "nat \<Rightarrow> char" where
  "hex_digit n = (if n < 10 then char_of (48 + n) else char_of (87 + n))"

definition hex_encode :: "string \<Rightarrow> string" where
  "hex_encode s = concat (map (\<lambda>c. [hex_digit (byte c div 16), hex_digit (byte c mod 16)]) s)"

lemma of_char_lt: "byte c < 256"
  using nat_of_char_less_256 [of c] by simp

lemma hex_digit_inj: "m < 16 \<Longrightarrow> n < 16 \<Longrightarrow> hex_digit m = hex_digit n \<Longrightarrow> m = n"
  by (auto simp: hex_digit_def char_of_eq_iff take_bit_eq_mod split: if_splits)

lemma hex_encode_inj: "hex_encode s = hex_encode t \<Longrightarrow> s = t"
proof (induction s arbitrary: t)
  case Nil
  then show ?case by (cases t) (auto simp: hex_encode_def)
next
  case (Cons a s)
  then obtain b t' where t: "t = b # t'" by (cases t) (auto simp: hex_encode_def)
  have lt: "byte a div 16 < 16" "byte b div 16 < 16"
    by (rule less_mult_imp_div_less, simp add: of_char_lt)+
  from Cons.prems t have "hex_digit (byte a div 16) = hex_digit (byte b div 16)"
    and "hex_digit (byte a mod 16) = hex_digit (byte b mod 16)"
    and r: "hex_encode s = hex_encode t'"
    by (auto simp: hex_encode_def)
  with lt have "byte a div 16 = byte b div 16" and "byte a mod 16 = byte b mod 16"
    by (auto intro: hex_digit_inj)
  then have "byte a = byte b" by (metis div_mult_mod_eq)
  with r t Cons.IH show ?case by (simp add: of_char_eq_iff)
qed

end
