(* ===== verification/Wire.thy ===== *)
theory Wire
  imports GoText
begin

text \<open>
  The frozen wire contract of \<open>internal/protocol\<close>, with the part of \<open>encoding/base64\<close> and
  \<open>encoding/json\<close> that the handlers use. Parameters reach a handler as \<open>json.RawMessage\<close>: \<open>None\<close>
  when the envelope has no \<open>params\<close>, otherwise a syntactically valid JSON value (the connection's
  decoder has parsed the envelope already), so the only way for \<open>json.Unmarshal\<close> to fail is a value
  of the wrong type.
\<close>

subsection \<open>Base64\<close>

definition b64_char :: "nat \<Rightarrow> char" where
  "b64_char n =
     (if n < 26 then char_of (65 + n) else if n < 52 then char_of (71 + n)
      else if n < 62 then char_of (n - 4) else if n = 62 then CHR ''+'' else CHR ''/'')"

definition b64_val :: "char \<Rightarrow> nat option" where
  "b64_val c =
     (if is_upper c then Some (byte c - 65) else if is_lower c then Some (byte c - 71)
      else if is_digit c then Some (byte c + 4) else if c = CHR ''+'' then Some 62
      else if c = CHR ''/'' then Some 63 else None)"

fun b64_encode :: "string \<Rightarrow> string" where
  "b64_encode [] = []"
| "b64_encode [a] = [b64_char (byte a div 4), b64_char (byte a mod 4 * 16), CHR ''='', CHR ''='']"
| "b64_encode [a, b] =
     [b64_char (byte a div 4), b64_char (byte a mod 4 * 16 + byte b div 16),
      b64_char (byte b mod 16 * 4), CHR ''='']"
| "b64_encode (a # b # c # s) =
     b64_char (byte a div 4) # b64_char (byte a mod 4 * 16 + byte b div 16)
     # b64_char (byte b mod 16 * 4 + byte c div 64) # b64_char (byte c mod 64) # b64_encode s"

text \<open>\<open>StdEncoding.DecodeString\<close>: line ends are skipped, padding is required and closes the input.\<close>

fun b64_quads :: "string \<Rightarrow> string option" where
  "b64_quads [] = Some []"
| "b64_quads (a # b # c # d # s) =
     (case (b64_val a, b64_val b) of
        (Some x, Some y) \<Rightarrow>
          (if c = CHR ''='' then
             (if d = CHR ''='' \<and> s = [] then Some [char_of (x * 4 + y div 16)] else None)
           else case b64_val c of
              None \<Rightarrow> None
            | Some z \<Rightarrow>
                (if d = CHR ''='' then
                   (if s = [] then Some [char_of (x * 4 + y div 16), char_of (y mod 16 * 16 + z div 4)]
                    else None)
                 else case b64_val d of
                    None \<Rightarrow> None
                  | Some w \<Rightarrow>
                      map_option (\<lambda>r. char_of (x * 4 + y div 16) # char_of (y mod 16 * 16 + z div 4)
                        # char_of (z mod 4 * 64 + w) # r) (b64_quads s)))
      | _ \<Rightarrow> None)"
| "b64_quads _ = None"

definition b64_decode :: "string \<Rightarrow> string option" where
  "b64_decode s = b64_quads (filter (\<lambda>c. c \<noteq> CHR 0x0A \<and> c \<noteq> CHR 0x0D) s)"

lemma byte_char_of: "n < 256 \<Longrightarrow> byte (char_of n) = n"
  by simp

lemma b64_char_cases:
  assumes "n < 64"
  shows "b64_val (b64_char n) = Some n \<and> b64_char n \<noteq> CHR ''='' \<and> b64_char n \<noteq> CHR 0x0A
    \<and> b64_char n \<noteq> CHR 0x0D"
  using assms
  by (auto simp: b64_char_def b64_val_def is_upper_def is_lower_def is_digit_def char_of_eq_iff
      take_bit_eq_mod)

lemma b64_val_char [simp]: "n < 64 \<Longrightarrow> b64_val (b64_char n) = Some n"
  and b64_char_not_pad [simp]: "n < 64 \<Longrightarrow> b64_char n \<noteq> CHR ''=''"
  and b64_char_not_lf: "n < 64 \<Longrightarrow> b64_char n \<noteq> CHR 0x0A"
  and b64_char_not_cr: "n < 64 \<Longrightarrow> b64_char n \<noteq> CHR 0x0D"
  using b64_char_cases by blast+

lemma sextets:
  "byte a div 4 < 64" "byte a mod 4 * 16 < 64" "byte a mod 4 * 16 + byte b div 16 < 64"
  "byte b mod 16 * 4 < 64" "byte b mod 16 * 4 + byte c div 64 < 64" "byte c mod 64 < 64"
  using of_char_lt [of a] of_char_lt [of b] of_char_lt [of c] by linarith+

lemma sextet_parts:
  "byte b div 16 div 16 = 0" "byte b div 16 mod 16 = byte b div 16"
  "byte c div 64 div 4 = 0" "byte c div 64 mod 4 = byte c div 64"
  using of_char_lt [of b] of_char_lt [of c]
  by (auto simp: div_mult2_eq [symmetric] less_mult_imp_div_less intro!: mod_less)

lemma b64_encode_plain:
  "\<forall>x \<in> set (b64_encode s). x \<noteq> CHR 0x0A \<and> x \<noteq> CHR 0x0D"
  by (induction s rule: b64_encode.induct) (auto simp: b64_char_not_lf b64_char_not_cr sextets)

lemma b64_quads_encode: "b64_quads (b64_encode s) = Some s"
  by (induction s rule: b64_encode.induct) (simp_all add: sextets sextet_parts)

lemma b64_decode_encode [simp]: "b64_decode (b64_encode s) = Some s"
proof -
  have "filter (\<lambda>c. c \<noteq> CHR 0x0A \<and> c \<noteq> CHR 0x0D) (b64_encode s) = b64_encode s"
    using b64_encode_plain by (auto intro: filter_True)
  then show ?thesis by (simp add: b64_decode_def b64_quads_encode)
qed

subsection \<open>JSON values and struct fields\<close>

datatype json =
    JNull
  | JBool bool
  | JInt int           \<comment> \<open>a number literal that is an integer\<close>
  | JNum string        \<comment> \<open>any other number literal\<close>
  | JStr string
  | JArr "json list"
  | JObj "(string \<times> json) list"

text \<open>
  \<open>json.Unmarshal\<close> into a struct: a key matches a field up to case (the long s and the Kelvin sign
  fold to ASCII too), a later key overwrites an earlier one, \<open>null\<close> leaves the field alone, a value of
  another type is an error. A field that no key matches keeps its zero value.
\<close>

definition same_key :: "string \<Rightarrow> string \<Rightarrow> bool" where
  "same_key k name \<longleftrightarrow> to_lower (to_upper k) = to_lower (to_upper name)"

fun obj_fields :: "json \<Rightarrow> (string \<times> json) list option" where
  "obj_fields (JObj kvs) = Some kvs"
| "obj_fields JNull = Some []"
| "obj_fields _ = None"

definition field :: "(json \<Rightarrow> 'a option) \<Rightarrow> string \<Rightarrow> 'a \<Rightarrow> (string \<times> json) list \<Rightarrow> 'a option" where
  "field conv name zero kvs =
     foldl (\<lambda>acc (k, v).
        if same_key k name then
          (case acc of None \<Rightarrow> None | Some x \<Rightarrow> (if v = JNull then Some x else conv v))
        else acc) (Some zero) kvs"

fun as_str :: "json \<Rightarrow> string option" where
  "as_str (JStr s) = Some s"
| "as_str _ = None"

fun as_int64 :: "json \<Rightarrow> int option" where
  "as_int64 (JInt n) = (if - (2 ^ 63) \<le> n \<and> n < 2 ^ 63 then Some n else None)"
| "as_int64 _ = None"

definition str_field :: "string \<Rightarrow> (string \<times> json) list \<Rightarrow> string option" where
  "str_field name kvs = field as_str name [] kvs"

definition int_field :: "string \<Rightarrow> (string \<times> json) list \<Rightarrow> int option" where
  "int_field name kvs = field as_int64 name 0 kvs"

subsection \<open>Error taxonomy and envelopes\<close>

record rpc_error =
  e_code :: int
  e_msg :: err

definition new_error :: "int \<Rightarrow> err \<Rightarrow> rpc_error" where
  "new_error c m = \<lparr>e_code = c, e_msg = m\<rparr>"

definition code_parse :: int where "code_parse = -32700"
definition code_invalid_request :: int where "code_invalid_request = -32600"
definition code_method_not_found :: int where "code_method_not_found = -32601"
definition code_invalid_params :: int where "code_invalid_params = -32602"
definition code_internal :: int where "code_internal = -32603"
definition code_authz :: int where "code_authz = -32001"
definition code_not_found :: int where "code_not_found = -32002"
definition code_conflict :: int where "code_conflict = -32003"
definition code_not_implemented :: int where "code_not_implemented = -32004"

lemmas code_defs = code_parse_def code_invalid_request_def code_method_not_found_def
  code_invalid_params_def code_internal_def code_authz_def code_not_found_def code_conflict_def
  code_not_implemented_def

definition contract_version :: int where "contract_version = 1"
definition jsonrpc_version :: string where "jsonrpc_version = ''2.0''"

record request =
  q_jsonrpc :: string
  q_v :: int
  q_id :: "json option"
  q_method :: string
  q_params :: "json option"

record response =
  r_jsonrpc :: string
  r_v :: int
  r_id :: "json option"
  r_body :: "rpc_error + json"

definition validate :: "request \<Rightarrow> rpc_error option" where
  "validate r =
     (if q_jsonrpc r \<noteq> jsonrpc_version then
        Some (new_error code_invalid_request (Msg ''jsonrpc must be \"2.0\"''))
      else if q_v r \<noteq> contract_version then
        Some (new_error code_invalid_request
          (Fmt ''unsupported contract version %d (want %d)'' [itoa (q_v r), itoa contract_version]))
      else if q_method r = [] then
        Some (new_error code_invalid_request (Msg ''method required''))
      else None)"

lemma validate_None:
  "validate r = None \<longleftrightarrow> q_jsonrpc r = jsonrpc_version \<and> q_v r = contract_version \<and> q_method r \<noteq> []"
  by (simp add: validate_def)

subsection \<open>Handler results\<close>

type_synonym ('s, 'a) handled = "'s \<Rightarrow> (rpc_error + 'a) \<times> 's"

text \<open>The \<open>decodeParams\<close> of the packages that require parameters, and of those that do not.\<close>

definition params_required :: "json option \<Rightarrow> rpc_error + (string \<times> json) list" where
  "params_required p =
     (case p of
        None \<Rightarrow> Inl (new_error code_invalid_params (Msg ''params required''))
      | Some j \<Rightarrow> (case obj_fields j of
          None \<Rightarrow> Inl (new_error code_invalid_params (Msg ''invalid params''))
        | Some kvs \<Rightarrow> Inr kvs))"

definition params_optional :: "json option \<Rightarrow> rpc_error + (string \<times> json) list" where
  "params_optional p =
     (case p of
        None \<Rightarrow> Inr []
      | Some j \<Rightarrow> (case obj_fields j of
          None \<Rightarrow> Inl (new_error code_invalid_params (Msg ''invalid params''))
        | Some kvs \<Rightarrow> Inr kvs))"

definition invalid_params :: rpc_error where
  "invalid_params = new_error code_invalid_params (Msg ''invalid params'')"

text \<open>An internal fault of an operation becomes a response with the error's own text.\<close>

definition internal_fault :: "(err + 'a) \<Rightarrow> rpc_error + 'a" where
  "internal_fault r = (case r of Inl e \<Rightarrow> Inl (new_error code_internal e) | Inr x \<Rightarrow> Inr x)"

lemma internal_fault_simps [simp]:
  "internal_fault (Inl e) = Inl (new_error code_internal e)"
  "internal_fault (Inr x) = Inr x"
  by (simp_all add: internal_fault_def)

definition opt_value :: "'a option \<Rightarrow> rpc_error + 'a" where
  "opt_value v = (case v of None \<Rightarrow> Inl invalid_params | Some x \<Rightarrow> Inr x)"

text \<open>
  \<open>checked\<close> is \<open>if perr != nil { return nil, perr }\<close>, \<open>served\<close> runs an operation and turns an error
  into an internal fault and a value into the result.
\<close>

definition checked :: "rpc_error + 'a \<Rightarrow> ('a \<Rightarrow> ('s, 'b) handled) \<Rightarrow> ('s, 'b) handled" where
  "checked r f = (case r of Inl e \<Rightarrow> (\<lambda>s. (Inl e, s)) | Inr x \<Rightarrow> f x)"

definition served :: "('s, 'a) eff \<Rightarrow> ('a \<Rightarrow> 'b) \<Rightarrow> ('s, 'b) handled" where
  "served m f = (\<lambda>s. case m s of
     (Inl e, s') \<Rightarrow> (Inl (new_error code_internal e), s') | (Inr x, s') \<Rightarrow> (Inr (f x), s'))"

definition handled_within :: "('s \<Rightarrow> 's \<Rightarrow> bool) \<Rightarrow> ('s, 'a) handled \<Rightarrow> bool" where
  "handled_within R h \<longleftrightarrow> (\<forall>s. R s (snd (h s)))"

lemma handled_within_checked [within_intros]:
  "reflp R \<Longrightarrow> (\<And>x. handled_within R (f x)) \<Longrightarrow> handled_within R (checked r f)"
  by (cases r) (auto simp: handled_within_def checked_def dest: reflpD)

lemma handled_within_served [within_intros]: "within R m \<Longrightarrow> handled_within R (served m f)"
  by (auto simp: handled_within_def within_def served_def split: prod.split sum.split)
    (metis snd_conv)+

lemma handled_within_stop [within_intros]: "reflp R \<Longrightarrow> handled_within R (\<lambda>s. (r, s))"
  by (simp add: handled_within_def reflpD)

lemma checked_simps [simp]:
  "checked (Inl e) f s = (Inl e, s)" "checked (Inr x) f s = f x s"
  by (simp_all add: checked_def)

lemma served_Inr: "m s = (Inr x, s') \<Longrightarrow> served m f s = (Inr (f x), s')"
  by (simp add: served_def)

lemma served_Inl: "m s = (Inl e, s') \<Longrightarrow> served m f s = (Inl (new_error code_internal e), s')"
  by (simp add: served_def)

end
