(* ===== verification/Ledger.thy ===== *)
theory Ledger
  imports Wire
begin

text \<open>
  The lease ledger (\<open>internal/lease/ledger.go\<close>, \<open>audit.go\<close>): leases, the intent queue of waiters,
  the durable session tokens and the append-only audit log, all tables of one SQLite database with
  one connection, so the statements of concurrent callers do not overlap. Each reading of the
  injected clock is an argument (nanoseconds since the epoch).
\<close>

subsection \<open>Tables\<close>

record lease_row =
  l_key :: string
  l_holder :: string
  l_acquired :: int
  l_expires :: int
  l_fence :: int

record waiter_row =
  w_key :: string
  w_session :: string
  w_enqueued :: int
  w_expires :: int

record token_row =
  t_hash :: string
  t_session :: string
  t_created :: int

text \<open>
  The bytes of an audit payload: a JSON value, a \<open>Sprintf\<close> of an object whose string values are
  written with \<open>%q\<close>, or none.
\<close>

datatype payload = PNone | PJson json | PQuoted "(string \<times> string) list"

record audit_row =
  a_id :: int
  a_time :: int
  a_session :: string
  a_project :: string
  a_kind :: string
  a_payload :: payload

record ledger_tabs =
  leases :: "lease_row list"
  waiters :: "waiter_row list"
  tokens :: "token_row list"
  audits :: "audit_row list"
  audit_seq :: int

type_synonym ledger = "ledger_tabs db"

definition empty_tabs :: ledger_tabs where
  "empty_tabs = \<lparr>leases = [], waiters = [], tokens = [], audits = [], audit_seq = 0\<rparr>"

text \<open>A statement on one table: the affected rows and the tables after it.\<close>

definition on_leases :: "(lease_row list \<Rightarrow> 'a \<times> lease_row list) \<Rightarrow> ledger_tabs \<Rightarrow> 'a \<times> ledger_tabs" where
  "on_leases f t = (fst (f (leases t)), t\<lparr>leases := snd (f (leases t))\<rparr>)"

definition on_waiters :: "(waiter_row list \<Rightarrow> 'a \<times> waiter_row list) \<Rightarrow> ledger_tabs \<Rightarrow> 'a \<times> ledger_tabs" where
  "on_waiters f t = (fst (f (waiters t)), t\<lparr>waiters := snd (f (waiters t))\<rparr>)"

definition on_tokens :: "(token_row list \<Rightarrow> 'a \<times> token_row list) \<Rightarrow> ledger_tabs \<Rightarrow> 'a \<times> ledger_tabs" where
  "on_tokens f t = (fst (f (tokens t)), t\<lparr>tokens := snd (f (tokens t))\<rparr>)"

subsection \<open>Results\<close>

text \<open>A \<open>time.Time\<close> made from nanoseconds, or its zero value.\<close>

type_synonym go_time = "int option"

record acquire_result =
  ar_granted :: bool
  ar_holder :: string
  ar_expires :: go_time
  ar_fence :: int
  ar_head :: string
  ar_ahead :: nat

record lease_info =
  i_key :: string
  i_holder :: string
  i_expires :: go_time
  i_fence :: int
  i_held :: bool

record queue_snapshot =
  qs_held :: bool
  qs_holder :: string
  qs_waiters :: "(string \<times> nat) list"

definition refused :: "lease_info \<Rightarrow> string \<Rightarrow> nat \<Rightarrow> acquire_result" where
  "refused info head ahead = \<lparr>ar_granted = False, ar_holder = i_holder info,
     ar_expires = i_expires info, ar_fence = i_fence info, ar_head = head, ar_ahead = ahead\<rparr>"

subsection \<open>The intent queue\<close>

definition prune_stmt :: "int \<Rightarrow> ledger_tabs \<Rightarrow> nat \<times> ledger_tabs" where
  "prune_stmt now = on_waiters (del_where (\<lambda>w. w_expires w \<le> now))"

definition prune_waiters :: "int \<Rightarrow> (ledger, unit) eff" where
  "prune_waiters now = andThen (sql (prune_stmt now)) (\<lambda>_. ret ())"

definition live_query :: "string \<Rightarrow> int \<Rightarrow> ledger_tabs \<Rightarrow> string list" where
  "live_query key now t =
     map w_session (sort_key (\<lambda>w. (w_enqueued w, w_session w))
       (filter (\<lambda>w. w_key w = key \<and> now < w_expires w) (waiters t)))"

definition live_waiters :: "string \<Rightarrow> int \<Rightarrow> (ledger, string list) eff" where
  "live_waiters key now = reading (live_query key now)"

fun index_from :: "nat \<Rightarrow> string \<Rightarrow> string list \<Rightarrow> nat option" where
  "index_from i x [] = None"
| "index_from i x (y # ys) = (if y = x then Some i else index_from (Suc i) x ys)"

definition queue_head :: "string list \<Rightarrow> string \<Rightarrow> string \<times> nat \<times> bool" where
  "queue_head ws session =
     (case ws of
        [] \<Rightarrow> ([], 0, False)
      | w # _ \<Rightarrow> (w, (case index_from 0 session ws of None \<Rightarrow> length ws | Some i \<Rightarrow> i), True))"

definition head_waiter :: "string \<Rightarrow> string \<Rightarrow> int \<Rightarrow> (ledger, string \<times> nat \<times> bool) eff" where
  "head_waiter key session now =
     andThen (live_waiters key now) (\<lambda>ws. ret (queue_head ws session))"

subsection \<open>Reading a lease\<close>

definition find_lease :: "string \<Rightarrow> ledger_tabs \<Rightarrow> lease_row option" where
  "find_lease key t = List.find (\<lambda>r. l_key r = key) (leases t)"

definition row_held :: "int \<Rightarrow> lease_row \<Rightarrow> bool" where
  "row_held now r \<longleftrightarrow> l_holder r \<noteq> [] \<and> now < l_expires r"

definition info_of :: "int \<Rightarrow> lease_row \<Rightarrow> lease_info" where
  "info_of now r = \<lparr>i_key = l_key r, i_holder = l_holder r, i_expires = Some (l_expires r),
     i_fence = l_fence r, i_held = row_held now r\<rparr>"

definition absent_info :: "string \<Rightarrow> lease_info" where
  "absent_info key = \<lparr>i_key = key, i_holder = [], i_expires = None, i_fence = 0, i_held = False\<rparr>"

definition inspect :: "int \<Rightarrow> string \<Rightarrow> (ledger, lease_info \<times> bool) eff" where
  "inspect now key = andThen (reading (find_lease key)) (\<lambda>r.
     ret (case r of None \<Rightarrow> (absent_info key, False) | Some row \<Rightarrow> (info_of now row, True)))"

definition list_where :: "bool \<Rightarrow> int \<Rightarrow> (ledger, lease_info list) eff" where
  "list_where live now = andThen
     (reading (\<lambda>t. sort_key l_key
        (filter (\<lambda>r. l_holder r \<noteq> [] \<and> (if live then now < l_expires r else l_expires r \<le> now))
           (leases t))))
     (\<lambda>rows. ret (map (\<lambda>r. (info_of now r)\<lparr>i_held := live\<rparr>) rows))"

definition list_holders :: "int \<Rightarrow> (ledger, lease_info list) eff" where
  "list_holders now = list_where True now"

definition expired_leases :: "int \<Rightarrow> (ledger, lease_info list) eff" where
  "expired_leases now = list_where False now"

subsection \<open>Acquire, renew, release, reclaim\<close>

definition deadline :: "int \<Rightarrow> int \<Rightarrow> int" where
  "deadline now ttl = wrap64 (now + ttl)"

text \<open>The upsert whose \<open>WHERE\<close> clause is the lock predicate.\<close>

definition acquire_stmt ::
  "string \<Rightarrow> string \<Rightarrow> int \<Rightarrow> int \<Rightarrow> ledger_tabs \<Rightarrow> nat \<times> ledger_tabs" where
  "acquire_stmt key holder now expires = on_leases
     (upsert (\<lambda>r. l_key r = key)
        \<lparr>l_key = key, l_holder = holder, l_acquired = now, l_expires = expires, l_fence = 1\<rparr>
        (\<lambda>r. l_holder r = [] \<or> l_expires r \<le> now)
        (\<lambda>r. r\<lparr>l_holder := holder, l_acquired := now, l_expires := expires,
           l_fence := l_fence r + 1\<rparr>))"

definition drop_waiter_stmt :: "string \<Rightarrow> string \<Rightarrow> ledger_tabs \<Rightarrow> nat \<times> ledger_tabs" where
  "drop_waiter_stmt key session =
     on_waiters (del_where (\<lambda>w. w_key w = key \<and> w_session w = session))"

definition acquire_turn ::
  "int \<Rightarrow> string \<Rightarrow> string \<Rightarrow> int \<Rightarrow> string \<times> nat \<times> bool \<Rightarrow> (ledger, acquire_result) eff" where
  "acquire_turn now key holder ttl = (\<lambda>(head, ahead, has_queue).
     if has_queue \<and> holder \<noteq> head then
       andThen (inspect now key) (\<lambda>(info, _). ret (refused info head ahead))
     else
       andThen (sql (acquire_stmt key holder now (deadline now ttl))) (\<lambda>n.
       andThen (inspect now key) (\<lambda>(info, _).
       if n = 1 then
         andThen (if has_queue then andThen (sql (drop_waiter_stmt key holder)) (\<lambda>_. ret ())
                  else ret ()) (\<lambda>_.
         ret \<lparr>ar_granted = True, ar_holder = holder, ar_expires = Some (deadline now ttl),
              ar_fence = i_fence info, ar_head = [], ar_ahead = 0\<rparr>)
       else ret (refused info head ahead))))"

definition acquire :: "int \<Rightarrow> string \<Rightarrow> string \<Rightarrow> int \<Rightarrow> (ledger, acquire_result) eff" where
  "acquire now key holder ttl =
     (if holder = [] then failing (Msg ''lease: holder token required'')
      else
        andThen (prune_waiters now) (\<lambda>_.
        andThen (head_waiter key holder now) (acquire_turn now key holder ttl)))"

definition renew_stmt :: "string \<Rightarrow> string \<Rightarrow> int \<Rightarrow> int \<Rightarrow> ledger_tabs \<Rightarrow> nat \<times> ledger_tabs" where
  "renew_stmt key holder now expires = on_leases
     (upd_where (\<lambda>r. l_key r = key \<and> l_holder r = holder \<and> l_holder r \<noteq> [] \<and> now < l_expires r)
        (\<lambda>r. r\<lparr>l_expires := expires\<rparr>))"

definition renew :: "int \<Rightarrow> string \<Rightarrow> string \<Rightarrow> int \<Rightarrow> (ledger, bool \<times> go_time) eff" where
  "renew now key holder ttl =
     andThen (sql (renew_stmt key holder now (deadline now ttl))) (\<lambda>n.
     ret (if n = 1 then (True, Some (deadline now ttl)) else (False, None)))"

definition release_stmt :: "string \<Rightarrow> string \<Rightarrow> ledger_tabs \<Rightarrow> nat \<times> ledger_tabs" where
  "release_stmt key holder = on_leases
     (upd_where (\<lambda>r. l_key r = key \<and> l_holder r = holder \<and> l_holder r \<noteq> [])
        (\<lambda>r. r\<lparr>l_holder := [], l_expires := 0\<rparr>))"

definition release :: "string \<Rightarrow> string \<Rightarrow> (ledger, bool) eff" where
  "release key holder =
     (if holder = [] then ret False
      else andThen (sql (release_stmt key holder)) (\<lambda>n. ret (n = 1)))"

definition reclaim_stmt :: "string \<Rightarrow> int \<Rightarrow> ledger_tabs \<Rightarrow> nat \<times> ledger_tabs" where
  "reclaim_stmt key now = on_leases
     (upd_where (\<lambda>r. l_key r = key \<and> l_holder r \<noteq> [] \<and> l_expires r \<le> now)
        (\<lambda>r. r\<lparr>l_holder := [], l_expires := 0, l_fence := l_fence r + 1\<rparr>))"

definition reclaim_if_expired :: "int \<Rightarrow> string \<Rightarrow> (ledger, bool \<times> string) eff" where
  "reclaim_if_expired now key = txn (
     andThen (reading (find_lease key)) (\<lambda>r.
     case r of
       None \<Rightarrow> ret (False, False, [])
     | Some row \<Rightarrow>
         andThen (sql (reclaim_stmt key now)) (\<lambda>n.
         ret (True, if n = 1 then (True, l_holder row) else (False, [])))))"

subsection \<open>Enqueue, dequeue, queue\<close>

definition default_waiter_ttl :: int where
  "default_waiter_ttl = 90 * 10 ^ 9"

definition enqueue_stmt :: "string \<Rightarrow> string \<Rightarrow> int \<Rightarrow> int \<Rightarrow> ledger_tabs \<Rightarrow> nat \<times> ledger_tabs" where
  "enqueue_stmt key session now expires = on_waiters
     (upsert (\<lambda>w. w_key w = key \<and> w_session w = session)
        \<lparr>w_key = key, w_session = session, w_enqueued = now, w_expires = expires\<rparr>
        (\<lambda>_. True) (\<lambda>w. w\<lparr>w_expires := expires\<rparr>))"

definition enqueue :: "int \<Rightarrow> string \<Rightarrow> string \<Rightarrow> int \<Rightarrow> (ledger, nat \<times> nat) eff" where
  "enqueue now key session ttl0 =
     (if session = [] then failing (Msg ''lease: session required to enqueue'')
      else
        let ttl = (if ttl0 \<le> 0 then default_waiter_ttl else ttl0) in
        andThen (prune_waiters now) (\<lambda>_.
        andThen (sql (enqueue_stmt key session now (deadline now ttl))) (\<lambda>_.
        andThen (head_waiter key session now) (\<lambda>(_, ahead, _). ret (ahead, ahead)))))"

definition dequeue :: "string \<Rightarrow> string \<Rightarrow> (ledger, bool) eff" where
  "dequeue key session =
     (if session = [] then ret False
      else andThen (sql (drop_waiter_stmt key session)) (\<lambda>n. ret (n = 1)))"

definition queue :: "int \<Rightarrow> int \<Rightarrow> string \<Rightarrow> (ledger, queue_snapshot) eff" where
  "queue now now2 key =
     andThen (prune_waiters now) (\<lambda>_.
     andThen (inspect now2 key) (\<lambda>(info, _).
     andThen (live_waiters key now) (\<lambda>ws.
     ret \<lparr>qs_held = i_held info, qs_holder = (if i_held info then i_holder info else []),
          qs_waiters = zip ws [0 ..< length ws]\<rparr>)))"

subsection \<open>Durable session tokens\<close>

definition put_stmt :: "string \<Rightarrow> string \<Rightarrow> int \<Rightarrow> ledger_tabs \<Rightarrow> nat \<times> ledger_tabs" where
  "put_stmt hash sid created = on_tokens
     (upsert (\<lambda>r. t_hash r = hash) \<lparr>t_hash = hash, t_session = sid, t_created = created\<rparr>
        (\<lambda>_. True) (\<lambda>r. r\<lparr>t_session := sid, t_created := created\<rparr>))"

definition put_session_token :: "string \<Rightarrow> string \<Rightarrow> int \<Rightarrow> (ledger, unit) eff" where
  "put_session_token hash sid created =
     andThen (sql (put_stmt hash sid created)) (\<lambda>_. ret ())"

definition get_session_token :: "string \<Rightarrow> (ledger, string \<times> bool) eff" where
  "get_session_token hash =
     andThen (reading (\<lambda>t. List.find (\<lambda>r. t_hash r = hash) (tokens t))) (\<lambda>r.
     ret (case r of None \<Rightarrow> ([], False) | Some row \<Rightarrow> (t_session row, True)))"

definition delete_stmt :: "string \<Rightarrow> ledger_tabs \<Rightarrow> nat \<times> ledger_tabs" where
  "delete_stmt hash = on_tokens (del_where (\<lambda>r. t_hash r = hash))"

definition delete_session_token :: "string \<Rightarrow> (ledger, unit) eff" where
  "delete_session_token hash = andThen (sql (delete_stmt hash)) (\<lambda>_. ret ())"

definition list_session_tokens :: "(ledger, token_row list) eff" where
  "list_session_tokens = reading tokens"

subsection \<open>The audit log\<close>

record audit_record =
  rec_time :: int
  rec_session :: string
  rec_project :: string
  rec_kind :: string
  rec_payload :: payload

definition audit_stmt :: "audit_record \<Rightarrow> ledger_tabs \<Rightarrow> unit \<times> ledger_tabs" where
  "audit_stmt r t = ((), t\<lparr>audits := audits t @ [\<lparr>a_id = audit_seq t + 1, a_time = rec_time r,
      a_session = rec_session r, a_project = rec_project r, a_kind = rec_kind r,
      a_payload = rec_payload r\<rparr>], audit_seq := audit_seq t + 1\<rparr>)"

definition sink_append :: "audit_record \<Rightarrow> (ledger, unit) eff" where
  "sink_append r = sql (audit_stmt r)"

definition record_of :: "audit_row \<Rightarrow> audit_record" where
  "record_of a = \<lparr>rec_time = a_time a, rec_session = a_session a, rec_project = a_project a,
     rec_kind = a_kind a, rec_payload = a_payload a\<rparr>"

definition sink_tail :: "int \<Rightarrow> (ledger, audit_record list) eff" where
  "sink_tail limit0 =
     (let limit = (if limit0 \<le> 0 then 1 else limit0) in
      andThen (reading (\<lambda>t. take (nat limit) (rev (sort_key a_id (audits t))))) (\<lambda>rows.
      ret (map record_of rows)))"

definition audit_count :: "(ledger, nat) eff" where
  "audit_count = reading (\<lambda>t. length (audits t))"


section \<open>Facts about the statements\<close>

lemmas stmt_defs = prune_stmt_def acquire_stmt_def drop_waiter_stmt_def renew_stmt_def
  release_stmt_def reclaim_stmt_def enqueue_stmt_def put_stmt_def delete_stmt_def

lemmas on_table_defs = on_leases_def on_waiters_def on_tokens_def

lemma other_tables [simp]:
  "waiters (snd (on_leases f t)) = waiters t" "tokens (snd (on_leases f t)) = tokens t"
  "audits (snd (on_leases f t)) = audits t" "audit_seq (snd (on_leases f t)) = audit_seq t"
  "leases (snd (on_waiters g t)) = leases t" "tokens (snd (on_waiters g t)) = tokens t"
  "audits (snd (on_waiters g t)) = audits t" "audit_seq (snd (on_waiters g t)) = audit_seq t"
  "leases (snd (on_tokens h t)) = leases t" "waiters (snd (on_tokens h t)) = waiters t"
  "audits (snd (on_tokens h t)) = audits t" "audit_seq (snd (on_tokens h t)) = audit_seq t"
  by (simp_all add: on_table_defs)

lemma own_table [simp]:
  "leases (snd (on_leases f t)) = snd (f (leases t))"
  "waiters (snd (on_waiters g t)) = snd (g (waiters t))"
  "tokens (snd (on_tokens h t)) = snd (h (tokens t))"
  "fst (on_leases f t) = fst (f (leases t))"
  "fst (on_waiters g t) = fst (g (waiters t))"
  "fst (on_tokens h t) = fst (h (tokens t))"
  by (simp_all add: on_table_defs)

lemma audit_stmt_tables [simp]:
  "leases (snd (audit_stmt r t)) = leases t" "waiters (snd (audit_stmt r t)) = waiters t"
  "tokens (snd (audit_stmt r t)) = tokens t"
  by (simp_all add: audit_stmt_def)

lemma find_leaseD: "find_lease k t = Some r \<Longrightarrow> r \<in> set (leases t) \<and> l_key r = k"
  unfolding find_lease_def by (drule find_SomeD) simp

lemma find_lease_frame [simp]:
  "find_lease k (snd (on_waiters g t)) = find_lease k t"
  "find_lease k (snd (on_tokens h t)) = find_lease k t"
  "find_lease k (snd (audit_stmt r t)) = find_lease k t"
  by (simp_all add: find_lease_def)

lemma find_lease_upd:
  assumes "\<And>r. l_key (g r) = l_key r"
  shows "find_lease k (snd (on_leases (upd_where (\<lambda>r. l_key r = key \<and> p r) g) t)) =
     (if k \<noteq> key then find_lease k t
      else map_option (\<lambda>r. if p r then g r else r) (find_lease key t))"
proof -
  have "find_lease k (snd (on_leases (upd_where (\<lambda>r. l_key r = key \<and> p r) g) t)) =
      map_option (\<lambda>r. if l_key r = key \<and> p r then g r else r) (find_lease k t)"
    by (simp add: find_lease_def upd_where_def find_map_same assms)
  then show ?thesis
    by (auto simp: map_option_case dest: find_leaseD split: option.split)
qed

lemma acquire_stmt_find:
  "find_lease k (snd (acquire_stmt key h now e t)) =
     (if k \<noteq> key then find_lease k t
      else case find_lease key t of
        None \<Rightarrow> Some \<lparr>l_key = key, l_holder = h, l_acquired = now, l_expires = e, l_fence = 1\<rparr>
      | Some r \<Rightarrow>
          if l_holder r = [] \<or> l_expires r \<le> now
          then Some (r\<lparr>l_holder := h, l_acquired := now, l_expires := e, l_fence := l_fence r + 1\<rparr>)
          else Some r)"
proof (cases "find_lease key t")
  case None
  then show ?thesis
    by (auto simp: acquire_stmt_def upsert_def find_lease_def find_append split: option.split)
next
  case (Some r)
  then have "snd (acquire_stmt key h now e t) = snd (on_leases (upd_where (\<lambda>r. l_key r = key \<and>
      (l_holder r = [] \<or> l_expires r \<le> now)) (\<lambda>r. r\<lparr>l_holder := h, l_acquired := now,
      l_expires := e, l_fence := l_fence r + 1\<rparr>)) t)"
    by (simp add: acquire_stmt_def on_leases_def upsert_def find_lease_def)
  with Some show ?thesis by (simp add: find_lease_upd)
qed

lemma renew_stmt_find:
  "find_lease k (snd (renew_stmt key h now e t)) =
     (if k \<noteq> key then find_lease k t
      else map_option (\<lambda>r. if l_holder r = h \<and> l_holder r \<noteq> [] \<and> now < l_expires r
        then r\<lparr>l_expires := e\<rparr> else r) (find_lease key t))"
  by (simp add: renew_stmt_def find_lease_upd)

lemma release_stmt_find:
  "find_lease k (snd (release_stmt key h t)) =
     (if k \<noteq> key then find_lease k t
      else map_option (\<lambda>r. if l_holder r = h \<and> l_holder r \<noteq> []
        then r\<lparr>l_holder := [], l_expires := 0\<rparr> else r) (find_lease key t))"
  by (simp add: release_stmt_def find_lease_upd)

lemma reclaim_stmt_find:
  "find_lease k (snd (reclaim_stmt key now t)) =
     (if k \<noteq> key then find_lease k t
      else map_option (\<lambda>r. if l_holder r \<noteq> [] \<and> l_expires r \<le> now
        then r\<lparr>l_holder := [], l_expires := 0, l_fence := l_fence r + 1\<rparr> else r) (find_lease key t))"
  by (simp add: reclaim_stmt_def find_lease_upd)

lemma find_lease_queue_stmts [simp]:
  "find_lease k (snd (prune_stmt now t)) = find_lease k t"
  "find_lease k (snd (drop_waiter_stmt key s t)) = find_lease k t"
  "find_lease k (snd (enqueue_stmt key s now e t)) = find_lease k t"
  "find_lease k (snd (put_stmt hash sid c t)) = find_lease k t"
  "find_lease k (snd (delete_stmt hash t)) = find_lease k t"
  by (simp_all add: stmt_defs)

lemmas stmt_find = acquire_stmt_find renew_stmt_find release_stmt_find reclaim_stmt_find

section \<open>Well-formed tables\<close>

text \<open>
  What the primary keys and the autoincrement column of the schema guarantee; every operation keeps
  it, whichever statements fail.
\<close>

definition ledger_wf :: "ledger_tabs \<Rightarrow> bool" where
  "ledger_wf t \<longleftrightarrow> distinct (map l_key (leases t))
     \<and> distinct (map (\<lambda>w. (w_key w, w_session w)) (waiters t))
     \<and> distinct (map t_hash (tokens t))
     \<and> sorted (map a_id (audits t)) \<and> distinct (map a_id (audits t))
     \<and> (\<forall>a \<in> set (audits t). a_id a \<le> audit_seq t)"

lemma ledger_wf_empty [simp]: "ledger_wf empty_tabs"
  by (simp add: ledger_wf_def empty_tabs_def)

lemma upd_keys:
  assumes "\<And>r. k (f r) = k r"
  shows "map k (snd (upd_where p f rs)) = map k rs"
  by (simp add: upd_where_def assms)

lemma upsert_keys:
  assumes "\<And>r. k (f r) = k r" and "\<And>r. c r \<longleftrightarrow> k r = k row" and "distinct (map k rs)"
  shows "distinct (map k (snd (upsert c row g f rs)))"
  using assms by (auto simp: upsert_def find_None_iff upd_keys)

lemma del_keys: "distinct (map k rs) \<Longrightarrow> distinct (map k (snd (del_where p rs)))"
  by (simp add: del_where_def distinct_map_filter)

definition keeps_wf :: "ledger_tabs \<Rightarrow> ledger_tabs \<Rightarrow> bool" where
  "keeps_wf = preserves ledger_wf"

lemma keeps_wf_order [simp]: "reflp keeps_wf" "transp keeps_wf"
  by (simp_all add: keeps_wf_def)

lemma keeps_wf_leases:
  "(distinct (map l_key (leases t)) \<Longrightarrow> distinct (map l_key (snd (f (leases t))))) \<Longrightarrow>
     keeps_wf t (snd (on_leases f t))"
  by (auto simp: keeps_wf_def preserves_def ledger_wf_def)

lemma keeps_wf_waiters:
  "(distinct (map (\<lambda>w. (w_key w, w_session w)) (waiters t)) \<Longrightarrow>
      distinct (map (\<lambda>w. (w_key w, w_session w)) (snd (f (waiters t))))) \<Longrightarrow>
     keeps_wf t (snd (on_waiters f t))"
  by (auto simp: keeps_wf_def preserves_def ledger_wf_def)

lemma keeps_wf_tokens:
  "(distinct (map t_hash (tokens t)) \<Longrightarrow> distinct (map t_hash (snd (f (tokens t))))) \<Longrightarrow>
     keeps_wf t (snd (on_tokens f t))"
  by (auto simp: keeps_wf_def preserves_def ledger_wf_def)

lemma keeps_wf_stmts [simp]:
  "keeps_wf t (snd (prune_stmt now t))"
  "keeps_wf t (snd (drop_waiter_stmt key s t))"
  "keeps_wf t (snd (acquire_stmt key h now e t))"
  "keeps_wf t (snd (renew_stmt key h now e t))"
  "keeps_wf t (snd (release_stmt key h t))"
  "keeps_wf t (snd (reclaim_stmt key now t))"
  "keeps_wf t (snd (enqueue_stmt key s now e t))"
  "keeps_wf t (snd (put_stmt hash sid c t))"
  "keeps_wf t (snd (delete_stmt hash t))"
  unfolding stmt_defs
  by (rule keeps_wf_leases keeps_wf_waiters keeps_wf_tokens;
      force intro: upsert_keys del_keys simp: upd_keys)+

lemma keeps_wf_audit [simp]: "keeps_wf t (snd (audit_stmt r t))"
  by (force simp: keeps_wf_def preserves_def ledger_wf_def audit_stmt_def sorted_append)

section \<open>How an operation moves the tables\<close>

text \<open>
  Every operation is a sequence of statements, so a reflexive and transitive relation that holds
  across each of its statements holds across the operation, on every branch and for every script.
\<close>

lemma within_inspect [within_intros]: "reflp R \<Longrightarrow> transp R \<Longrightarrow> within (on_tabs R) (inspect now key)"
  by (auto simp: inspect_def intro!: within_intros)

lemma within_head_waiter [within_intros]:
  "reflp R \<Longrightarrow> transp R \<Longrightarrow> within (on_tabs R) (head_waiter key s now)"
  by (auto simp: head_waiter_def live_waiters_def intro!: within_intros)

lemma within_prune [within_intros]:
  "reflp R \<Longrightarrow> transp R \<Longrightarrow> (\<And>t. R t (snd (prune_stmt now t))) \<Longrightarrow>
     within (on_tabs R) (prune_waiters now)"
  by (auto simp: prune_waiters_def intro!: within_intros)

lemma within_list_where [within_intros]:
  "reflp R \<Longrightarrow> transp R \<Longrightarrow> within (on_tabs R) (list_where live now)"
  by (auto simp: list_where_def intro!: within_intros)

lemma within_acquire:
  assumes "reflp R" "transp R" and "\<And>t. R t (snd (prune_stmt now t))"
    and "\<And>t. R t (snd (acquire_stmt key h now (deadline now ttl) t))"
    and "\<And>t. R t (snd (drop_waiter_stmt key h t))"
  shows "within (on_tabs R) (acquire now key h ttl)"
  using assms by (auto simp: acquire_def acquire_turn_def intro!: within_intros split: prod.split)

lemma within_renew:
  assumes "reflp R" "transp R" and "\<And>t. R t (snd (renew_stmt key h now (deadline now ttl) t))"
  shows "within (on_tabs R) (renew now key h ttl)"
  using assms by (auto simp: renew_def intro!: within_intros)

lemma within_release:
  assumes "reflp R" "transp R" and "\<And>t. h \<noteq> [] \<Longrightarrow> R t (snd (release_stmt key h t))"
  shows "within (on_tabs R) (release key h)"
  using assms by (auto simp: release_def intro!: within_intros)

lemma within_reclaim:
  assumes "reflp R" "transp R" and "\<And>t. R t (snd (reclaim_stmt key now t))"
  shows "within (on_tabs R) (reclaim_if_expired now key)"
  using assms by (auto simp: reclaim_if_expired_def intro!: within_intros split: option.split)

lemma within_enqueue:
  assumes "reflp R" "transp R" and "\<And>t. R t (snd (prune_stmt now t))"
    and "\<And>t e. R t (snd (enqueue_stmt key s now e t))"
  shows "within (on_tabs R) (enqueue now key s ttl)"
  using assms by (auto simp: enqueue_def Let_def intro!: within_intros split: prod.split)

lemma within_dequeue:
  assumes "reflp R" "transp R" and "\<And>t. R t (snd (drop_waiter_stmt key s t))"
  shows "within (on_tabs R) (dequeue key s)"
  using assms by (auto simp: dequeue_def intro!: within_intros)

lemma within_queue:
  assumes "reflp R" "transp R" and "\<And>t. R t (snd (prune_stmt now t))"
  shows "within (on_tabs R) (queue now now2 key)"
  using assms by (auto simp: queue_def live_waiters_def intro!: within_intros split: prod.split)

lemma within_tokens:
  assumes "reflp R" "transp R" and "\<And>t. R t (snd (put_stmt hash sid c t))"
    and "\<And>t. R t (snd (delete_stmt hash t))"
  shows "within (on_tabs R) (put_session_token hash sid c)"
    and "within (on_tabs R) (get_session_token hash)"
    and "within (on_tabs R) (delete_session_token hash)"
    and "within (on_tabs R) list_session_tokens"
  using assms
  by (auto simp: put_session_token_def get_session_token_def delete_session_token_def
      list_session_tokens_def intro!: within_intros)

lemma within_audit:
  assumes "reflp R" "transp R" and "\<And>t. R t (snd (audit_stmt r t))"
  shows "within (on_tabs R) (sink_append r)" and "within (on_tabs R) (sink_tail n)"
    and "within (on_tabs R) audit_count"
  using assms by (auto simp: sink_append_def sink_tail_def audit_count_def Let_def intro!: within_intros)

section \<open>Runs of the ledger\<close>

text \<open>
  The operations a caller can make, each at its reading of the clock, and the state they leave
  behind, errors included.
\<close>

datatype ledger_op =
    Acquire string string int
  | Renew string string int
  | Release string string
  | Reclaim string
  | Inspect string
  | ListHolders
  | ExpiredLeases
  | Enqueue string string int
  | Dequeue string string
  | Queue int string
  | PutToken string string int
  | GetToken string
  | DeleteToken string
  | ListTokens
  | Append audit_record
  | Tail int

fun run_op :: "int \<Rightarrow> ledger_op \<Rightarrow> ledger \<Rightarrow> ledger" where
  "run_op now (Acquire k h ttl) d = snd (acquire now k h ttl d)"
| "run_op now (Renew k h ttl) d = snd (renew now k h ttl d)"
| "run_op now (Release k h) d = snd (release k h d)"
| "run_op now (Reclaim k) d = snd (reclaim_if_expired now k d)"
| "run_op now (Inspect k) d = snd (inspect now k d)"
| "run_op now ListHolders d = snd (list_holders now d)"
| "run_op now ExpiredLeases d = snd (expired_leases now d)"
| "run_op now (Enqueue k s ttl) d = snd (enqueue now k s ttl d)"
| "run_op now (Dequeue k s) d = snd (dequeue k s d)"
| "run_op now (Queue now2 k) d = snd (queue now now2 k d)"
| "run_op now (PutToken h s c) d = snd (put_session_token h s c d)"
| "run_op now (GetToken h) d = snd (get_session_token h d)"
| "run_op now (DeleteToken h) d = snd (delete_session_token h d)"
| "run_op now ListTokens d = snd (list_session_tokens d)"
| "run_op now (Append r) d = snd (sink_append r d)"
| "run_op now (Tail n) d = snd (sink_tail n d)"

fun run_ops :: "(int \<times> ledger_op) list \<Rightarrow> ledger \<Rightarrow> ledger" where
  "run_ops [] d = d"
| "run_ops ((now, op) # tr) d = run_ops tr (run_op now op d)"

lemma run_ops_append: "run_ops (tr @ tr') d = run_ops tr' (run_ops tr d)"
  by (induction tr d rule: run_ops.induct) auto

text \<open>The lease statements an operation can execute at a reading of the clock.\<close>

fun lease_stmts :: "int \<Rightarrow> ledger_op \<Rightarrow> (ledger_tabs \<Rightarrow> nat \<times> ledger_tabs) list" where
  "lease_stmts now (Acquire k h ttl) = [acquire_stmt k h now (deadline now ttl)]"
| "lease_stmts now (Renew k h ttl) = [renew_stmt k h now (deadline now ttl)]"
| "lease_stmts now (Release k h) = (if h = [] then [] else [release_stmt k h])"
| "lease_stmts now (Reclaim k) = [reclaim_stmt k now]"
| "lease_stmts now _ = []"

text \<open>The other statements, which leave the lease table alone.\<close>

definition side_stmts_in :: "(ledger_tabs \<Rightarrow> ledger_tabs \<Rightarrow> bool) \<Rightarrow> bool" where
  "side_stmts_in R \<longleftrightarrow>
     (\<forall>t now. R t (snd (prune_stmt now t))) \<and> (\<forall>t k s. R t (snd (drop_waiter_stmt k s t)))
     \<and> (\<forall>t k s now e. R t (snd (enqueue_stmt k s now e t)))
     \<and> (\<forall>t h s c. R t (snd (put_stmt h s c t))) \<and> (\<forall>t h. R t (snd (delete_stmt h t)))
     \<and> (\<forall>t r. R t (snd (audit_stmt r t)))"

lemma side_stmts_inD:
  assumes "side_stmts_in R"
  shows "R t (snd (prune_stmt now t))" and "R t (snd (drop_waiter_stmt k s t))"
    and "R t (snd (enqueue_stmt k s now e t))" and "R t (snd (put_stmt h s c t))"
    and "R t (snd (delete_stmt h t))" and "R t (snd (audit_stmt r t))"
  using assms by (simp_all add: side_stmts_in_def)

lemma run_op_in:
  assumes "reflp R" "transp R" and "side_stmts_in R"
    and "\<And>f t. f \<in> set (lease_stmts now op) \<Longrightarrow> R t (snd (f t))"
  shows "R (tabs d) (tabs (run_op now op d))"
proof -
  note sides = assms(1,2) side_stmts_inD [OF assms(3)]
  have "on_tabs R d (run_op now op d)"
  proof (cases op)
    case (Acquire k h ttl)
    with assms(4) show ?thesis by (simp add: withinD [OF within_acquire] sides)
  next
    case (Renew k h ttl)
    with assms(4) show ?thesis by (simp add: withinD [OF within_renew] sides)
  next
    case (Release k h)
    with assms(4) show ?thesis by (simp add: withinD [OF within_release] sides)
  next
    case (Reclaim k)
    with assms(4) show ?thesis by (simp add: withinD [OF within_reclaim] sides)
  qed (simp_all add: list_holders_def expired_leases_def withinD [OF within_enqueue]
      withinD [OF within_dequeue] withinD [OF within_queue] withinD [OF within_tokens(1)]
      withinD [OF within_tokens(2)] withinD [OF within_tokens(3)] withinD [OF within_tokens(4)]
      withinD [OF within_audit(1)] withinD [OF within_audit(2)] withinD [OF within_inspect]
      withinD [OF within_list_where] sides)
  then show ?thesis by (simp add: on_tabs_def)
qed

lemma run_ops_in:
  assumes "reflp R" "transp R" and "side_stmts_in R"
    and "\<And>now op f t. (now, op) \<in> set tr \<Longrightarrow> f \<in> set (lease_stmts now op) \<Longrightarrow> R t (snd (f t))"
  shows "R (tabs d) (tabs (run_ops tr d))"
  using assms(4)
proof (induction tr d rule: run_ops.induct)
  case (1 d)
  then show ?case using assms(1) by (simp add: reflpD)
next
  case (2 now op tr d)
  have "R (tabs d) (tabs (run_op now op d))"
    by (rule run_op_in [OF assms(1-3)]) (rule 2(2), simp_all)
  moreover have "R (tabs (run_op now op d)) (tabs (run_ops tr (run_op now op d)))"
    by (rule 2(1)) (rule 2(2), simp_all)
  ultimately show ?case using transpD [OF assms(2)] by simp
qed

lemma side_stmts_leases:
  assumes "\<And>t t'. (\<And>k. find_lease k t' = find_lease k t) \<Longrightarrow> R t t'"
  shows "side_stmts_in R"
  by (auto simp: side_stmts_in_def intro!: assms)

lemma wf_run:
  assumes "ledger_wf (tabs d)"
  shows "ledger_wf (tabs (run_ops tr d))"
proof -
  have "keeps_wf (tabs d) (tabs (run_ops tr d))"
  proof (rule run_ops_in)
    show "side_stmts_in keeps_wf" by (simp add: side_stmts_in_def)
    show "(now, op) \<in> set tr \<Longrightarrow> f \<in> set (lease_stmts now op) \<Longrightarrow> keeps_wf t (snd (f t))"
      for now op f t by (cases op) (auto split: if_splits)
  qed simp_all
  with assms show ?thesis by (simp add: keeps_wf_def preserves_def)
qed

text \<open>
  The schema's keys (one lease per key, one waiter per key and session, one binding per token
  hash, growing audit numbers) hold in every state the ledger reaches, whichever statements fail.
\<close>

theorem ledger_wf_reachable: "ledger_wf (tabs (run_ops tr \<lparr>script = sc, tabs = empty_tabs\<rparr>))"
  by (simp add: wf_run)

end
