(* ===== verification/LeaseFacts.thy ===== *)
theory LeaseFacts
  imports Ledger
begin

text \<open>
  What the lease ledger promises: exclusion while a lease is live, growing fences, verdicts that are
  decided by the lock predicate alone, first-in-first-out hand-off, reclaim of expired leases only,
  an append-only audit log, and the contracts (as locales) that its clients rely on.
\<close>

section \<open>Exclusion\<close>

text \<open>An operation by which a holder itself gives up or moves its lease.\<close>

fun own_move :: "string \<Rightarrow> string \<Rightarrow> ledger_op \<Rightarrow> bool" where
  "own_move k h (Renew k' h' ttl) = (k' = k \<and> h' = h)"
| "own_move k h (Release k' h') = (k' = k \<and> h' = h)"
| "own_move k h _ = False"

definition keeps_row :: "string \<Rightarrow> lease_row \<Rightarrow> ledger_tabs \<Rightarrow> ledger_tabs \<Rightarrow> bool" where
  "keeps_row k r = preserves (\<lambda>t. find_lease k t = Some r)"

lemma keeps_row_order [simp]: "reflp (keeps_row k r)" "transp (keeps_row k r)"
  by (simp_all add: keeps_row_def)

lemma keeps_row_side: "side_stmts_in (keeps_row k r)"
  by (rule side_stmts_leases) (simp add: keeps_row_def preserves_def)

lemma keeps_row_stmts:
  assumes "l_holder r \<noteq> []" and "now < l_expires r" and "\<not> own_move k (l_holder r) op"
    and "f \<in> set (lease_stmts now op)"
  shows "keeps_row k r t (snd (f t))"
  using assms by (cases op) (auto simp: keeps_row_def preserves_def stmt_find split: if_splits)

lemma held_row_stable:
  assumes "find_lease k (tabs d) = Some r" and "l_holder r \<noteq> []"
    and "\<forall>(now, op) \<in> set tr. now < l_expires r \<and> \<not> own_move k (l_holder r) op"
  shows "find_lease k (tabs (run_ops tr d)) = Some r"
proof -
  have "keeps_row k r (tabs d) (tabs (run_ops tr d))"
  proof (rule run_ops_in [OF keeps_row_order keeps_row_side])
    show "keeps_row k r t (snd (f t))"
      if "(now, op) \<in> set tr" "f \<in> set (lease_stmts now op)" for now op f t
      using assms(2,3) that by (auto intro!: keeps_row_stmts [of r now k op f])
  qed
  with assms(1) show ?thesis by (simp add: keeps_row_def preserves_def)
qed

section \<open>The functional behaviour of acquire\<close>

definition takeable :: "int \<Rightarrow> string \<Rightarrow> ledger_tabs \<Rightarrow> bool" where
  "takeable now k t \<longleftrightarrow>
     (case find_lease k t of None \<Rightarrow> True | Some r \<Rightarrow> l_holder r = [] \<or> l_expires r \<le> now)"

definition info_now :: "int \<Rightarrow> string \<Rightarrow> ledger_tabs \<Rightarrow> lease_info" where
  "info_now now k t = (case find_lease k t of None \<Rightarrow> absent_info k | Some r \<Rightarrow> info_of now r)"

definition fence_now :: "string \<Rightarrow> ledger_tabs \<Rightarrow> int" where
  "fence_now k t = (case find_lease k t of None \<Rightarrow> 0 | Some r \<Rightarrow> l_fence r)"

definition held_by :: "int \<Rightarrow> string \<Rightarrow> string \<Rightarrow> ledger_tabs \<Rightarrow> bool" where
  "held_by now k h t \<longleftrightarrow> (\<exists>r. find_lease k t = Some r \<and> l_holder r = h \<and> row_held now r)"

lemma held_by_not_takeable: "held_by now k h t \<Longrightarrow> \<not> takeable now k t"
  by (auto simp: held_by_def takeable_def row_held_def)

lemma not_takeable_held: "\<not> takeable now k t \<Longrightarrow> \<exists>h. held_by now k h t"
  by (auto simp: held_by_def takeable_def row_held_def split: option.splits)

lemma held_by_unique: "held_by now k h t \<Longrightarrow> held_by now k h' t \<Longrightarrow> h = h'"
  by (auto simp: held_by_def)

lemma inspect_Inr:
  "inspect now k d = (Inr (info, b), d') \<Longrightarrow> info = info_now now k (tabs d) \<and> tabs d' = tabs d"
  by (auto simp: inspect_def andThen_Inr info_now_def dest!: reading_Inr split: option.splits)

lemma inspect_tabs [simp]: "tabs (snd (inspect now k d)) = tabs d"
  using withinD [OF within_inspect [of "(=)" now k], of d] by (simp add: on_tabs_def)

lemma head_waiter_Inr:
  "head_waiter k s now d = (Inr x, d') \<Longrightarrow>
     x = queue_head (live_query k now (tabs d)) s \<and> tabs d' = tabs d"
  by (auto simp: head_waiter_def live_waiters_def andThen_Inr dest!: reading_Inr)

lemma prune_waiters_Inr:
  "prune_waiters now d = (Inr x, d') \<Longrightarrow> tabs d' = snd (prune_stmt now (tabs d))"
  by (auto simp: prune_waiters_def andThen_Inr dest!: sql_Inr)

text \<open>Pruning at a time hides nothing from a query at that time or later.\<close>

lemma live_query_prune:
  assumes "now \<le> now'"
  shows "live_query k now' (snd (prune_stmt now t)) = live_query k now' t"
proof -
  have "filter (\<lambda>w. w_key w = k \<and> now' < w_expires w)
      (filter (\<lambda>w. \<not> w_expires w \<le> now) (waiters t)) =
      filter (\<lambda>w. w_key w = k \<and> now' < w_expires w) (waiters t)"
    using assms by (auto simp: intro!: filter_cong)
  then show ?thesis by (simp add: live_query_def prune_stmt_def del_where_def)
qed

definition queue_ok :: "int \<Rightarrow> string \<Rightarrow> string \<Rightarrow> ledger_tabs \<Rightarrow> bool" where
  "queue_ok now k h t \<longleftrightarrow> live_query k now t = [] \<or> hd (live_query k now t) = h"

lemma queue_head_blocks:
  "queue_head ws h = (head, ahead, q) \<Longrightarrow> (q \<and> h \<noteq> head) = (ws \<noteq> [] \<and> hd ws \<noteq> h)"
  by (cases ws) (auto simp: queue_head_def)

lemma queue_head_has: "queue_head ws h = (head, ahead, q) \<Longrightarrow> q = (ws \<noteq> [])"
  by (cases ws) (auto simp: queue_head_def)

lemma acquire_stmt_count:
  assumes "ledger_wf t"
  shows "fst (acquire_stmt k h now e t) = (if takeable now k t then 1 else 0)"
proof -
  have "distinct (map l_key (leases t))"
    using assms by (simp add: ledger_wf_def)
  then show ?thesis
    by (simp add: acquire_stmt_def upsert_def upd_where_def filter_key_distinct takeable_def
        find_lease_def split: option.split)
qed

text \<open>
  The outcome of a successful call as a function of the tables: refused behind another waiter,
  refused by a live holder, or granted, with the caller's waiter row gone.
\<close>

definition acquire_spec ::
  "int \<Rightarrow> string \<Rightarrow> string \<Rightarrow> int \<Rightarrow> ledger_tabs \<Rightarrow> acquire_result \<times> ledger_tabs" where
  "acquire_spec now k h ttl t =
     (let t1 = snd (prune_stmt now t);
          (head, ahead, q) = queue_head (live_query k now t1) h;
          t2 = snd (acquire_stmt k h now (deadline now ttl) t1)
      in if \<not> queue_ok now k h t1 then (refused (info_now now k t1) head ahead, t1)
         else if takeable now k t1 then
           (\<lparr>ar_granted = True, ar_holder = h, ar_expires = Some (deadline now ttl),
              ar_fence = fence_now k t1 + 1, ar_head = [], ar_ahead = 0\<rparr>,
            if q then snd (drop_waiter_stmt k h t2) else t2)
         else (refused (info_now now k t1) head ahead, t2))"

lemma info_after_grant:
  "takeable now k t \<Longrightarrow> i_fence (info_now now k (snd (acquire_stmt k h now e t))) = fence_now k t + 1"
  by (auto simp: info_now_def fence_now_def takeable_def acquire_stmt_find info_of_def
      split: option.splits)

lemma info_after_refusal:
  "\<not> takeable now k t \<Longrightarrow> info_now now k (snd (acquire_stmt k h now e t)) = info_now now k t"
  by (auto simp: info_now_def takeable_def acquire_stmt_find split: option.splits)

lemma wf_prune: "ledger_wf t \<Longrightarrow> ledger_wf (snd (prune_stmt now t))"
  using keeps_wf_stmts(1) by (simp add: keeps_wf_def preserves_def)

lemma acquire_Inr:
  assumes run: "acquire now k h ttl d = (Inr res, d')" and wf: "ledger_wf (tabs d)"
  shows "h \<noteq> [] \<and> (res, tabs d') = acquire_spec now k h ttl (tabs d)"
proof -
  define t1 where "t1 = snd (prune_stmt now (tabs d))"
  define t2 where "t2 = snd (acquire_stmt k h now (deadline now ttl) t1)"
  obtain head ahead q where qh: "queue_head (live_query k now t1) h = (head, ahead, q)"
    by (cases "queue_head (live_query k now t1) h")
  have wf1: "ledger_wf t1" using wf by (simp add: t1_def wf_prune)
  have h: "h \<noteq> []" using run by (auto simp: acquire_def)
  have "\<exists>d1. tabs d1 = t1 \<and> acquire_turn now k h ttl (head, ahead, q) d1 = (Inr res, d')"
    using run h unfolding acquire_def
    by (auto simp: andThen_Inr t1_def qh [unfolded t1_def] dest!: prune_waiters_Inr head_waiter_Inr)
  then obtain d1 where d1: "tabs d1 = t1"
    and body: "acquire_turn now k h ttl (head, ahead, q) d1 = (Inr res, d')"
    by blast
  show ?thesis
  proof (cases "queue_ok now k h t1")
    case False
    then have "q \<and> h \<noteq> head" using queue_head_blocks [OF qh] by (simp add: queue_ok_def)
    with False body h d1 show ?thesis
      by (auto simp: acquire_turn_def andThen_Inr acquire_spec_def Let_def t1_def [symmetric] qh dest!: inspect_Inr)
  next
    case True
    then have nb: "\<not> (q \<and> h \<noteq> head)" using queue_head_blocks [OF qh] by (simp add: queue_ok_def)
    show ?thesis
    proof (cases "takeable now k t1")
      case tk: True
      then have "fst (acquire_stmt k h now (deadline now ttl) t1) = 1"
        using acquire_stmt_count [OF wf1] by simp
      with True tk body nb h d1 show ?thesis
        by (auto simp: acquire_turn_def andThen_Inr acquire_spec_def Let_def t1_def [symmetric] qh info_after_grant
            split: if_splits dest!: inspect_Inr sql_Inr)
    next
      case tk: False
      then have "fst (acquire_stmt k h now (deadline now ttl) t1) = 0"
        using acquire_stmt_count [OF wf1] by simp
      with True tk body nb h d1 show ?thesis
        by (auto simp: acquire_turn_def andThen_Inr acquire_spec_def Let_def t1_def [symmetric] qh info_after_refusal
            dest!: inspect_Inr sql_Inr)
    qed
  qed
qed

text \<open>On a healthy database the operation returns, so the specification is total there.\<close>

definition after :: "'a db \<Rightarrow> 'a \<Rightarrow> 'a db" where
  "after d t = d\<lparr>tabs := t\<rparr>"

lemma after_simps [simp]: "tabs (after d t) = t" "healthy (after d t) = healthy d"
  "after (after d t) t' = after d t'" "d\<lparr>tabs := t\<rparr> = after d t" "after d (tabs d) = d"
  by (simp_all add: after_def healthy_def)

lemma healthy_steps:
  assumes "healthy d"
  shows "prune_waiters now d = (Inr (), after d (snd (prune_stmt now (tabs d))))"
    and "inspect now k d = (Inr (info_now now k (tabs d), find_lease k (tabs d) \<noteq> None), d)"
    and "head_waiter k s now d = (Inr (queue_head (live_query k now (tabs d)) s), d)"
    and "sql f d = (Inr (fst (f (tabs d))), after d (snd (f (tabs d))))"
  using assms
  by (simp_all add: prune_waiters_def inspect_def head_waiter_def live_waiters_def eff_simps
      info_now_def split: option.split)

lemma acquire_healthy_ok:
  assumes "healthy d" and "h \<noteq> []"
  shows "\<exists>res d'. acquire now k h ttl d = (Inr res, d') \<and> healthy d'"
proof -
  have "\<exists>res d'. acquire_turn now k h ttl x d1 = (Inr res, d') \<and> healthy d'"
    if "healthy d1" for x d1
    using that by (cases x) (auto simp: acquire_turn_def eff_simps healthy_steps split: prod.split)
  with assms show ?thesis
    by (simp add: acquire_def eff_simps healthy_steps)
qed

section \<open>Fences\<close>

definition fence_le :: "ledger_tabs \<Rightarrow> ledger_tabs \<Rightarrow> bool" where
  "fence_le t t' \<longleftrightarrow> (\<forall>k. fence_now k t \<le> fence_now k t')"

lemma fence_le_order [simp]: "reflp fence_le" "transp fence_le"
  by (auto simp: reflp_def transp_def fence_le_def intro: order_trans)

definition fences_ok :: "ledger_tabs \<Rightarrow> bool" where
  "fences_ok t \<longleftrightarrow> (\<forall>k. 0 \<le> fence_now k t)"

lemma fence_le_stmts:
  assumes "fences_ok t" and "f \<in> set (lease_stmts now op)"
  shows "fence_le t (snd (f t))"
  using assms
  by (cases op) (auto simp: fence_le_def fences_ok_def fence_now_def stmt_find
      split: if_splits option.splits)

definition fence_rel :: "ledger_tabs \<Rightarrow> ledger_tabs \<Rightarrow> bool" where
  "fence_rel t t' \<longleftrightarrow> (fences_ok t \<longrightarrow> fence_le t t' \<and> fences_ok t')"

lemma fence_rel_order [simp]: "reflp fence_rel" "transp fence_rel"
  by (auto simp: reflp_def transp_def fence_rel_def fence_le_def intro: order_trans)

lemma fence_rel_stmts: "f \<in> set (lease_stmts now op) \<Longrightarrow> fence_rel t (snd (f t))"
  by (auto simp: fence_rel_def fence_le_stmts)
    (metis fence_le_def fence_le_stmts fences_ok_def order_trans)

lemma fence_run:
  assumes "fences_ok (tabs d)"
  shows "fence_le (tabs d) (tabs (run_ops tr d)) \<and> fences_ok (tabs (run_ops tr d))"
proof -
  have "fence_rel (tabs d) (tabs (run_ops tr d))"
  proof (rule run_ops_in [OF fence_rel_order])
    show "side_stmts_in fence_rel"
      by (rule side_stmts_leases) (simp add: fence_rel_def fence_le_def fences_ok_def fence_now_def)
  qed (rule fence_rel_stmts)
  with assms show ?thesis by (simp add: fence_rel_def)
qed

section \<open>The queue\<close>

text \<open>
  The order of the waiters does not depend on the expiry of their rows, a row added with the latest
  time goes to the end.
\<close>

lemma insort_key_map:
  "(\<And>x. f (g x) = f x) \<Longrightarrow> insort_key f (g x) (map g xs) = map g (insort_key f x xs)"
  by (induction xs) auto

lemma sort_key_map_same:
  "(\<And>x. f (g x) = f x) \<Longrightarrow> sort_key f (map g xs) = map g (sort_key f xs)"
  by (induction xs) (simp_all add: insort_key_map)

lemma insort_key_snoc: "f y \<le> f x \<Longrightarrow> insort_key f y (zs @ [x]) = insort_key f y zs @ [x]"
  by (induction zs) auto

lemma sort_key_snoc: "\<forall>y \<in> set xs. f y \<le> f x \<Longrightarrow> sort_key f (xs @ [x]) = sort_key f xs @ [x]"
  by (induction xs) (simp_all add: insort_key_snoc)

lemma filter_insort_key:
  "filter P (insort_key f x xs) = (if P x then insort_key f x (filter P xs) else filter P xs)"
  if "sorted (map f xs)"
  using that by (auto simp: filter_insort filter_insort_triv)

lemma live_query_drop:
  "live_query k' now (snd (drop_waiter_stmt k h t)) =
     (if k' = k then filter (\<lambda>s. s \<noteq> h) (live_query k now t) else live_query k' now t)"
proof (cases "k' = k")
  case True
  have "filter (\<lambda>w. w_key w = k \<and> now < w_expires w)
      (filter (\<lambda>w. \<not> (w_key w = k \<and> w_session w = h)) (waiters t)) =
      filter (\<lambda>w. w_session w \<noteq> h) (filter (\<lambda>w. w_key w = k \<and> now < w_expires w) (waiters t))"
    by (auto intro!: filter_cong)
  with True show ?thesis
    by (simp add: live_query_def drop_waiter_stmt_def del_where_def filter_sort [symmetric]
        filter_map o_def)
next
  case False
  then have "filter (\<lambda>w. w_key w = k' \<and> now < w_expires w)
      (filter (\<lambda>w. \<not> (w_key w = k \<and> w_session w = h)) (waiters t)) =
      filter (\<lambda>w. w_key w = k' \<and> now < w_expires w) (waiters t)"
    by (auto intro!: filter_cong)
  with False show ?thesis by (simp add: live_query_def drop_waiter_stmt_def del_where_def)
qed

lemma live_query_leases [simp]: "live_query k now (snd (on_leases f t)) = live_query k now t"
  by (simp add: live_query_def)

lemma queue_ok_prune: "queue_ok now k h (snd (prune_stmt now t)) = queue_ok now k h t"
  by (simp add: queue_ok_def live_query_prune)

lemma leases_side [simp]:
  "leases (snd (prune_stmt now t)) = leases t" "leases (snd (drop_waiter_stmt k h t)) = leases t"
  by (simp_all add: stmt_defs)

lemma lease_views_side [simp]:
  "takeable now k (snd (prune_stmt now' t)) = takeable now k t"
  "info_now now k (snd (prune_stmt now' t)) = info_now now k t"
  "fence_now k (snd (prune_stmt now' t)) = fence_now k t"
  by (simp_all add: takeable_def info_now_def fence_now_def)

lemma acquire_stmt_refused:
  assumes "\<not> takeable now k t" and "ledger_wf t"
  shows "snd (acquire_stmt k h now e t) = t"
proof -
  have "\<not> (l_key r = k \<and> (l_holder r = [] \<or> l_expires r \<le> now))"
    if "r \<in> set (leases t)" for r
    using assms that find_distinct [of l_key "leases t" k r]
    by (auto simp: takeable_def find_lease_def ledger_wf_def)
  then have "map (\<lambda>r. if l_key r = k \<and> (l_holder r = [] \<or> l_expires r \<le> now)
      then r\<lparr>l_holder := h, l_acquired := now, l_expires := e, l_fence := l_fence r + 1\<rparr> else r)
      (leases t) = leases t"
    by (intro map_idI) auto
  moreover have "List.find (\<lambda>r. l_key r = k) (leases t) \<noteq> None"
    using assms(1) by (auto simp: takeable_def find_lease_def split: option.splits)
  ultimately show ?thesis
    by (simp add: acquire_stmt_def on_leases_def upsert_def upd_where_def)
qed

lemma acquire_grant_row:
  assumes "takeable now k t"
  shows "find_lease k (snd (acquire_stmt k h now e t)) = Some \<lparr>l_key = k, l_holder = h,
     l_acquired = now, l_expires = e, l_fence = fence_now k t + 1\<rparr>"
  using assms
  by (auto simp: acquire_stmt_find takeable_def fence_now_def dest: find_leaseD split: option.split)

lemma acquire_stmt_other:
  "k' \<noteq> k \<Longrightarrow> find_lease k' (snd (acquire_stmt k h now e t)) = find_lease k' t"
  by (simp add: acquire_stmt_find)

lemma live_query_acquire [simp]:
  "live_query k' now' (snd (acquire_stmt k h now e t)) = live_query k' now' t"
  by (simp add: acquire_stmt_def)

lemma reclaim_stmt_count:
  assumes "ledger_wf t"
  shows "fst (reclaim_stmt k now t) = (case find_lease k t of None \<Rightarrow> 0
     | Some r \<Rightarrow> if l_holder r \<noteq> [] \<and> l_expires r \<le> now then 1 else 0)"
proof -
  have "distinct (map l_key (leases t))"
    using assms by (simp add: ledger_wf_def)
  then show ?thesis
    by (simp add: reclaim_stmt_def upd_where_def filter_key_distinct find_lease_def split: option.split)
qed

lemma upd_where_idle: "fst (upd_where p f rs) = 0 \<Longrightarrow> snd (upd_where p f rs) = rs"
  by (auto simp: upd_where_def filter_empty_conv intro!: map_idI)

lemma reclaim_stmt_idle:
  "ledger_wf t \<Longrightarrow> fst (reclaim_stmt k now t) = 0 \<Longrightarrow> snd (reclaim_stmt k now t) = t"
  by (auto simp: reclaim_stmt_def on_leases_def dest: upd_where_idle)

lemma renew_stmt_count:
  assumes "ledger_wf t"
  shows "fst (renew_stmt k h now e t) = (case find_lease k t of None \<Rightarrow> 0
     | Some r \<Rightarrow> if l_holder r = h \<and> l_holder r \<noteq> [] \<and> now < l_expires r then 1 else 0)"
proof -
  have "distinct (map l_key (leases t))"
    using assms by (simp add: ledger_wf_def)
  then show ?thesis
    by (auto simp: renew_stmt_def upd_where_def filter_key_distinct find_lease_def split: option.split)
qed

lemma release_stmt_count:
  assumes "ledger_wf t"
  shows "fst (release_stmt k h t) = (case find_lease k t of None \<Rightarrow> 0
     | Some r \<Rightarrow> if l_holder r = h \<and> l_holder r \<noteq> [] then 1 else 0)"
proof -
  have "distinct (map l_key (leases t))"
    using assms by (simp add: ledger_wf_def)
  then show ?thesis
    by (auto simp: release_stmt_def upd_where_def filter_key_distinct find_lease_def split: option.split)
qed

lemma stmt_idle:
  "fst (renew_stmt k h now e t) = 0 \<Longrightarrow> snd (renew_stmt k h now e t) = t"
  "fst (release_stmt k h t) = 0 \<Longrightarrow> snd (release_stmt k h t) = t"
  by (auto simp: renew_stmt_def release_stmt_def on_leases_def dest: upd_where_idle)

lemma live_query_all:
  assumes "\<forall>w \<in> set (waiters t). now < w_expires w"
  shows "live_query k now t = map w_session (sort_key (\<lambda>w. (w_enqueued w, w_session w))
     (filter (\<lambda>w. w_key w = k) (waiters t)))"
  using assms by (auto simp: live_query_def intro!: arg_cong [where f = "\<lambda>x. map w_session (sort_key _ x)"]
      filter_cong)

lemma index_from_member: "index_from i x ys = None \<longleftrightarrow> x \<notin> set ys"
  by (induction i x ys rule: index_from.induct) auto

lemma live_query_member:
  "s \<in> set (live_query k now t) \<longleftrightarrow>
     (\<exists>w \<in> set (waiters t). w_key w = k \<and> w_session w = s \<and> now < w_expires w)"
  by (auto simp: live_query_def)

lemma pruned_alive: "\<forall>w \<in> set (waiters (snd (prune_stmt now t))). now < w_expires w"
  by (auto simp: prune_stmt_def del_where_def)

lemma enqueue_stmt_live:
  assumes "\<forall>w \<in> set (waiters t). now < w_expires w" and "now < e"
    and "\<forall>w \<in> set (waiters t). w_enqueued w < now"
  shows "live_query k' now (snd (enqueue_stmt k s now e t)) =
      (if k' = k \<and> s \<notin> set (live_query k now t) then live_query k now t @ [s]
       else live_query k' now t)"
proof (cases "List.find (\<lambda>w. w_key w = k \<and> w_session w = s) (waiters t)")
  case None
  then have fresh: "s \<notin> set (live_query k now t)"
    by (auto simp: live_query_member find_None_iff)
  have rows: "waiters (snd (enqueue_stmt k s now e t)) = waiters t
      @ [\<lparr>w_key = k, w_session = s, w_enqueued = now, w_expires = e\<rparr>]"
    using None by (simp add: enqueue_stmt_def upsert_def)
  then have "\<forall>w \<in> set (waiters (snd (enqueue_stmt k s now e t))). now < w_expires w"
    using assms(1,2) by auto
  moreover have "sort_key (\<lambda>w. (w_enqueued w, w_session w)) (filter (\<lambda>w. w_key w = k) (waiters t)
        @ [\<lparr>w_key = k, w_session = s, w_enqueued = now, w_expires = e\<rparr>]) =
      sort_key (\<lambda>w. (w_enqueued w, w_session w)) (filter (\<lambda>w. w_key w = k) (waiters t))
        @ [\<lparr>w_key = k, w_session = s, w_enqueued = now, w_expires = e\<rparr>]"
    using assms(3) by (intro sort_key_snoc) auto
  ultimately show ?thesis
    using assms(1) fresh by (simp add: live_query_all rows)
next
  case (Some w0)
  define g where "g = (\<lambda>w :: waiter_row.
     if w_key w = k \<and> w_session w = s then w\<lparr>w_expires := e\<rparr> else w)"
  have g: "w_key (g w) = w_key w" "w_session (g w) = w_session w" "w_enqueued (g w) = w_enqueued w" for w
    by (simp_all add: g_def)
  have rows: "waiters (snd (enqueue_stmt k s now e t)) = map g (waiters t)"
    using Some by (simp add: enqueue_stmt_def upsert_def upd_where_def g_def)
  then have alive: "\<forall>w \<in> set (waiters (snd (enqueue_stmt k s now e t))). now < w_expires w"
    using assms(1,2) by (auto simp: g_def)
  have "s \<in> set (live_query k now t)"
    using find_SomeD [OF Some] assms(1) by (auto simp: live_query_member)
  then show ?thesis
    using assms(1) alive
    by (simp add: live_query_all rows filter_map o_def g sort_key_map_same)
qed

section \<open>Properties of the ledger\<close>

text \<open>
  C1: mutual exclusion. Once a row records a live holder, then whatever operations anybody runs
  before its expiry (any statement of which may fail), as long as the holder itself neither renews
  nor releases it, the row stays and no acquire before the expiry is granted, not even to the
  holder.
\<close>

theorem lease_exclusive:
  assumes "find_lease k (tabs d) = Some r" and "l_holder r \<noteq> []" and "ledger_wf (tabs d)"
    and "\<forall>(now, op) \<in> set tr. now < l_expires r \<and> \<not> own_move k (l_holder r) op"
    and "acquire now' k h ttl (run_ops tr d) = (Inr res, d')" and "now' < l_expires r"
  shows "\<not> ar_granted res \<and> find_lease k (tabs d') = Some r"
proof -
  have wf: "ledger_wf (tabs (run_ops tr d))"
    using assms(3) wf_run by blast
  have row: "find_lease k (tabs (run_ops tr d)) = Some r"
    by (rule held_row_stable) (use assms in auto)
  then have nt: "\<not> takeable now' k (tabs (run_ops tr d))"
    using assms(2,6) by (simp add: takeable_def)
  have "(res, tabs d') = acquire_spec now' k h ttl (tabs (run_ops tr d))"
    using acquire_Inr [OF assms(5) wf] by simp
  with nt row wf_prune [OF wf] show ?thesis
    by (auto simp: acquire_spec_def Let_def refused_def acquire_stmt_refused
        split: prod.splits if_splits)
qed

definition demo :: ledger where
  "demo = run_ops [(0, Acquire ''k'' ''a'' 10), (1, Enqueue ''k'' ''b'' 50)]
     \<lparr>script = [], tabs = empty_tabs\<rparr>"

definition demo_row :: lease_row where
  "demo_row = \<lparr>l_key = ''k'', l_holder = ''a'', l_acquired = 0, l_expires = 10, l_fence = 1\<rparr>"

lemma demo_wf: "ledger_wf (tabs demo)"
  unfolding demo_def by (rule wf_run) simp

lemma demo_healthy: "healthy demo"
  by code_simp

lemma demo_find: "find_lease ''k'' (tabs demo) = Some demo_row"
  by code_simp

lemma demo_head: "queue_ok 20 ''k'' ''b'' (tabs demo)"
  by code_simp

lemma lease_exclusive_witness:
  "\<exists>res d'. acquire 5 ''k'' ''b'' 10 (run_ops [(3, Release ''k'' ''b''), (4, Reclaim ''k'')] demo)
     = (Inr res, d') \<and> \<not> ar_granted res \<and> find_lease ''k'' (tabs d') = Some demo_row"
proof -
  have h: "healthy (run_ops [(3, Release ''k'' ''b''), (4, Reclaim ''k'')] demo)"
    by code_simp
  then obtain res d' where a: "acquire 5 ''k'' ''b'' 10
      (run_ops [(3, Release ''k'' ''b''), (4, Reclaim ''k'')] demo) = (Inr res, d')"
    using acquire_healthy_ok [OF h, of "''b''" 5 "''k''" 10] by auto
  have "\<not> ar_granted res \<and> find_lease ''k'' (tabs d') = Some demo_row"
    by (rule lease_exclusive [OF demo_find _ demo_wf _ a]) (simp_all add: demo_row_def)
  with a show ?thesis by blast
qed

lemma acquire_outcome:
  assumes "acquire now k h ttl d = (Inr res, d')" and "ledger_wf (tabs d)"
  shows "(ar_granted res \<longleftrightarrow> takeable now k (tabs d) \<and> queue_ok now k h (tabs d))
    \<and> (if ar_granted res then
         find_lease k (tabs d') = Some \<lparr>l_key = k, l_holder = h, l_acquired = now,
           l_expires = deadline now ttl, l_fence = fence_now k (tabs d) + 1\<rparr>
         \<and> ar_holder res = h \<and> ar_fence res = fence_now k (tabs d) + 1
         \<and> (\<forall>k'. k' \<noteq> k \<longrightarrow> find_lease k' (tabs d') = find_lease k' (tabs d))
       else leases (tabs d') = leases (tabs d)
         \<and> ar_holder res = i_holder (info_now now k (tabs d)))
    \<and> (\<forall>k'. live_query k' now (tabs d') =
          (if k' = k \<and> ar_granted res then filter (\<lambda>s. s \<noteq> h) (live_query k now (tabs d))
           else live_query k' now (tabs d)))"
proof -
  define t1 where "t1 = snd (prune_stmt now (tabs d))"
  have spec: "(res, tabs d') = acquire_spec now k h ttl (tabs d)"
    using acquire_Inr [OF assms] by simp
  have wf1: "ledger_wf t1" using assms(2) by (simp add: t1_def wf_prune)
  obtain head ahead q where qh: "queue_head (live_query k now t1) h = (head, ahead, q)"
    by (cases "queue_head (live_query k now t1) h")
  have q: "q = (live_query k now (tabs d) \<noteq> [])"
    using queue_head_has [OF qh] by (simp add: t1_def live_query_prune)
  have st: "takeable now k t1 = takeable now k (tabs d)" "queue_ok now k h t1 = queue_ok now k h (tabs d)"
    "info_now now k t1 = info_now now k (tabs d)" "fence_now k t1 = fence_now k (tabs d)"
    "leases t1 = leases (tabs d)" "\<And>k. live_query k now t1 = live_query k now (tabs d)"
    "\<And>k. find_lease k t1 = find_lease k (tabs d)"
    by (simp_all add: t1_def queue_ok_prune live_query_prune)
  show ?thesis
  proof (cases "takeable now k t1 \<and> queue_ok now k h t1")
    case True
    then have "(res, tabs d') = (\<lparr>ar_granted = True, ar_holder = h,
        ar_expires = Some (deadline now ttl), ar_fence = fence_now k t1 + 1, ar_head = [], ar_ahead = 0\<rparr>,
        (if q then snd (drop_waiter_stmt k h (snd (acquire_stmt k h now (deadline now ttl) t1)))
         else snd (acquire_stmt k h now (deadline now ttl) t1)))"
      using spec by (simp add: acquire_spec_def Let_def t1_def [symmetric] qh)
    with True show ?thesis
      by (simp add: acquire_grant_row acquire_stmt_other st live_query_drop q)
  next
    case False
    then have "tabs d' = t1 \<and> res = refused (info_now now k t1) head ahead"
      using spec wf1
      by (auto simp: acquire_spec_def Let_def t1_def [symmetric] qh acquire_stmt_refused split: if_splits)
    with False show ?thesis by (auto simp: refused_def st)
  qed
qed

text \<open>
  C2: what acquire decides. A call that returns grants the lease exactly when the lock predicate
  holds (the key has no row, no holder, or an expired one) and nobody waits in front of the caller;
  a grant records the caller, the deadline and the next fence, and a refusal leaves every lease
  alone and reports the recorded holder. The queue loses the caller on a grant and nothing else.
\<close>

theorem acquire_verdict:
  assumes "acquire now k h ttl d = (Inr res, d')" and "ledger_wf (tabs d)"
  shows "(ar_granted res \<longleftrightarrow> takeable now k (tabs d) \<and> queue_ok now k h (tabs d))
    \<and> (if ar_granted res then
         find_lease k (tabs d') = Some \<lparr>l_key = k, l_holder = h, l_acquired = now,
           l_expires = deadline now ttl, l_fence = fence_now k (tabs d) + 1\<rparr>
         \<and> ar_holder res = h \<and> ar_fence res = fence_now k (tabs d) + 1
         \<and> (\<forall>k'. k' \<noteq> k \<longrightarrow> find_lease k' (tabs d') = find_lease k' (tabs d))
       else leases (tabs d') = leases (tabs d)
         \<and> ar_holder res = i_holder (info_now now k (tabs d)))
    \<and> (\<forall>k'. live_query k' now (tabs d') =
          (if k' = k \<and> ar_granted res then filter (\<lambda>s. s \<noteq> h) (live_query k now (tabs d))
           else live_query k' now (tabs d)))"
  using assms by (rule acquire_outcome)

lemma acquire_verdict_witness:
  "fst (acquire 20 ''k'' ''c'' 10 demo) = Inr (refused (info_of 20 demo_row) ''b'' 1)
   \<and> (\<exists>res d'. acquire 20 ''k'' ''b'' 10 demo = (Inr res, d') \<and> ar_granted res \<and> ar_fence res = 2)"
proof -
  obtain res d' where a: "acquire 20 ''k'' ''b'' 10 demo = (Inr res, d')"
    using acquire_healthy_ok [OF demo_healthy, of "''b''" 20 "''k''" 10] by auto
  have "takeable 20 ''k'' (tabs demo) \<and> queue_ok 20 ''k'' ''b'' (tabs demo)
      \<and> fence_now ''k'' (tabs demo) = 1"
    by code_simp
  then have "ar_granted res \<and> ar_fence res = 2"
    using acquire_verdict [OF a demo_wf] by auto
  moreover have "fst (acquire 20 ''k'' ''c'' 10 demo) = Inr (refused (info_of 20 demo_row) ''b'' 1)"
    by code_simp
  ultimately show ?thesis using a by blast
qed

text \<open>
  C3: fencing. Of two grants of a key, whoever made them and whatever ran in between, the later one
  carries a strictly greater fence.
\<close>

theorem fence_grows:
  assumes "acquire now k h ttl d = (Inr res, d')" and "ar_granted res"
    and "acquire now' k h' ttl' (run_ops tr d') = (Inr res', d'')" and "ar_granted res'"
    and "ledger_wf (tabs d)" and "fences_ok (tabs d)"
  shows "ar_fence res < ar_fence res'"
proof -
  have d': "d' = run_ops [(now, Acquire k h ttl)] d" using assms(1) by simp
  then have wf: "ledger_wf (tabs (run_ops tr d'))" and f: "fences_ok (tabs d')"
    using assms(5,6) wf_run fence_run by blast+
  have "ar_fence res = fence_now k (tabs d')"
    using acquire_outcome [OF assms(1,5)] assms(2) by (simp add: fence_now_def)
  also have "\<dots> \<le> fence_now k (tabs (run_ops tr d'))"
    using fence_run [OF f, of tr] by (simp add: fence_le_def)
  also have "\<dots> < ar_fence res'"
    using acquire_outcome [OF assms(3) wf] assms(4) by simp
  finally show ?thesis .
qed

lemma fence_grows_witness:
  "\<exists>res d' res' d''. acquire 0 ''k'' ''a'' 10 \<lparr>script = [], tabs = empty_tabs\<rparr> = (Inr res, d')
     \<and> acquire 20 ''k'' ''b'' 10 (run_ops [(1, Enqueue ''k'' ''b'' 50)] d') = (Inr res', d'')
     \<and> ar_fence res < ar_fence res'"
proof -
  let ?d0 = "\<lparr>script = [], tabs = empty_tabs\<rparr>"
  obtain res d' where a: "acquire 0 ''k'' ''a'' 10 ?d0 = (Inr res, d')"
    using acquire_healthy_ok [of ?d0 "''a''" 0 "''k''" 10] by (auto simp: healthy_def)
  then have dd: "run_ops [(1, Enqueue ''k'' ''b'' 50)] d' = demo"
    by (simp add: demo_def)
  obtain res' d'' where b: "acquire 20 ''k'' ''b'' 10 demo = (Inr res', d'')"
    using acquire_healthy_ok [OF demo_healthy, of "''b''" 20 "''k''" 10] by auto
  have "takeable 0 ''k'' empty_tabs \<and> queue_ok 0 ''k'' ''a'' empty_tabs"
    by code_simp
  then have "ar_granted res"
    using acquire_outcome [OF a] by simp
  have "ar_granted res'"
    using acquire_outcome [OF b demo_wf] demo_find by (simp add: takeable_def demo_row_def demo_head)
  have "ar_fence res < ar_fence res'"
    by (rule fence_grows [OF a \<open>ar_granted res\<close> b [folded dd] \<open>ar_granted res'\<close>])
      (simp_all add: ledger_wf_def fences_ok_def fence_now_def find_lease_def empty_tabs_def)
  with a b dd show ?thesis by auto
qed

text \<open>
  C4: reclaim is a transaction and never frees a live lease. Whatever fails, the tables afterwards
  are the old ones, except in the case that the row was held and expired: then the holder is gone,
  the fence has grown, and the result names the prior holder.
\<close>

theorem reclaim_safe:
  assumes "ledger_wf (tabs d)"
  shows "case reclaim_if_expired now k d of
     (Inl e, d') \<Rightarrow> tabs d' = tabs d
   | (Inr (done_, prior), d') \<Rightarrow>
       if done_ then (\<exists>r. find_lease k (tabs d) = Some r \<and> prior = l_holder r \<and> prior \<noteq> []
           \<and> l_expires r \<le> now \<and> tabs d' = snd (reclaim_stmt k now (tabs d))
           \<and> find_lease k (tabs d') =
               Some (r\<lparr>l_holder := [], l_expires := 0, l_fence := l_fence r + 1\<rparr>))
       else prior = [] \<and> tabs d' = tabs d \<and> (\<forall>r. find_lease k (tabs d) = Some r \<longrightarrow>
           l_holder r = [] \<or> now < l_expires r)"
proof -
  obtain r d' where run: "reclaim_if_expired now k d = (r, d')"
    by (cases "reclaim_if_expired now k d")
  show ?thesis
  proof (cases r)
    case (Inl e)
    then show ?thesis using run by (auto simp: reclaim_if_expired_def dest: txn_Inl)
  next
    case (Inr x)
    then have r: "reclaim_if_expired now k d = (Inr x, d')" using run by simp
    show ?thesis
    proof (cases "find_lease k (tabs d)")
      case None
      then have "x = (False, [])" and "tabs d' = tabs d"
        using r by (auto simp: reclaim_if_expired_def andThen_Inr dest!: txn_Inr reading_Inr)
      with None r show ?thesis by simp
    next
      case (Some row)
      then have "tabs d' = snd (reclaim_stmt k now (tabs d))"
        and "x = (if fst (reclaim_stmt k now (tabs d)) = 1 then (True, l_holder row) else (False, []))"
        using r by (auto simp: reclaim_if_expired_def andThen_Inr dest!: txn_Inr reading_Inr sql_Inr
            split: option.splits)
      with Some r show ?thesis
        using reclaim_stmt_count [OF assms, of k now] reclaim_stmt_idle [OF assms, of k now]
        by (auto simp: reclaim_stmt_find)
    qed
  qed
qed

lemma reclaim_safe_witness:
  "reclaim_if_expired 9 ''k'' demo = (Inr (False, []), demo)
   \<and> (case reclaim_if_expired 10 ''k'' demo of (r, d') \<Rightarrow> r = Inr (True, ''a'')
       \<and> find_lease ''k'' (tabs d') = Some (demo_row\<lparr>l_holder := [], l_expires := 0, l_fence := 2\<rparr>))"
proof -
  obtain d' where r: "reclaim_if_expired 10 ''k'' demo = (Inr (True, ''a''), d')"
  proof
    show "reclaim_if_expired 10 ''k'' demo = (Inr (True, ''a''), snd (reclaim_if_expired 10 ''k'' demo))"
      by code_simp
  qed
  have "find_lease ''k'' (tabs d') = Some (demo_row\<lparr>l_holder := [], l_expires := 0, l_fence := 2\<rparr>)"
    using reclaim_safe [OF demo_wf, where now = 10 and k = "''k''"] r demo_find by (auto simp: demo_row_def)
  moreover have "reclaim_if_expired 9 ''k'' demo = (Inr (False, []), demo)"
    by code_simp
  ultimately show ?thesis using r by simp
qed

definition recorded_holder :: "string \<Rightarrow> ledger_tabs \<Rightarrow> string" where
  "recorded_holder k t = (case find_lease k t of None \<Rightarrow> [] | Some r \<Rightarrow> l_holder r)"

lemma renew_outcome:
  assumes "ledger_wf (tabs d)" and "renew now k h ttl d = (Inr (ok, e), d')"
  shows "(ok \<longleftrightarrow> h \<noteq> [] \<and> held_by now k h (tabs d))
    \<and> (if ok then e = Some (deadline now ttl) \<and> find_lease k (tabs d') =
           map_option (\<lambda>r. r\<lparr>l_expires := deadline now ttl\<rparr>) (find_lease k (tabs d))
       else tabs d' = tabs d)"
proof -
  note cnt = renew_stmt_count [OF assms(1), of k h now "deadline now ttl"]
  have r: "ok = (fst (renew_stmt k h now (deadline now ttl) (tabs d)) = 1)"
    "e = (if ok then Some (deadline now ttl) else None)"
    "tabs d' = snd (renew_stmt k h now (deadline now ttl) (tabs d))"
    using assms(2) by (auto simp: renew_def andThen_Inr dest!: sql_Inr split: if_splits)
  have ok: "ok \<longleftrightarrow> h \<noteq> [] \<and> held_by now k h (tabs d)"
    using r(1) cnt by (auto simp: held_by_def row_held_def split: option.splits if_splits)
  have "e = Some (deadline now ttl) \<and> find_lease k (tabs d') =
      map_option (\<lambda>r. r\<lparr>l_expires := deadline now ttl\<rparr>) (find_lease k (tabs d))" if "ok"
    using that r ok by (auto simp: held_by_def row_held_def renew_stmt_find)
  moreover have "tabs d' = tabs d" if "\<not> ok"
    using that r cnt stmt_idle(1) by (simp split: option.splits if_splits)
  ultimately show ?thesis using ok by simp
qed

lemma release_outcome:
  assumes "ledger_wf (tabs d)" and "release k h d = (Inr rel, d')"
  shows "(rel \<longleftrightarrow> h \<noteq> [] \<and> recorded_holder k (tabs d) = h)
    \<and> (if rel then find_lease k (tabs d') =
           map_option (\<lambda>r. r\<lparr>l_holder := [], l_expires := 0\<rparr>) (find_lease k (tabs d))
       else tabs d' = tabs d)"
proof -
  note cnt = release_stmt_count [OF assms(1), of k h]
  have rel: "rel \<longleftrightarrow> h \<noteq> [] \<and> recorded_holder k (tabs d) = h"
    using assms(2) cnt
    by (auto simp: release_def andThen_Inr recorded_holder_def dest!: sql_Inr
        split: option.splits if_splits)
  moreover have "find_lease k (tabs d') =
      map_option (\<lambda>r. r\<lparr>l_holder := [], l_expires := 0\<rparr>) (find_lease k (tabs d))" if "rel"
    using that assms(2) rel
    by (auto simp: release_def andThen_Inr recorded_holder_def release_stmt_find dest!: sql_Inr
        split: option.splits if_splits)
  moreover have "tabs d' = tabs d" if "\<not> rel"
    using that assms(2) cnt stmt_idle(2)
    by (auto simp: release_def andThen_Inr dest!: sql_Inr split: option.splits if_splits)
  ultimately show ?thesis by simp
qed

text \<open>
  Only a live holder renews and only the holder releases. A renewal succeeds exactly when the
  caller holds the key live, and then moves the expiry only; a release succeeds exactly when the
  caller is recorded, live or not, and then frees the key and keeps the fence; a call without
  success changes nothing.
\<close>

theorem renew_release_own:
  assumes "ledger_wf (tabs d)" and "renew now k h ttl d = (Inr (ok, e), d')"
    and "release k h' d = (Inr rel, d'')"
  shows "(ok \<longleftrightarrow> h \<noteq> [] \<and> held_by now k h (tabs d))
    \<and> (if ok then e = Some (deadline now ttl) \<and> find_lease k (tabs d') =
           map_option (\<lambda>r. r\<lparr>l_expires := deadline now ttl\<rparr>) (find_lease k (tabs d))
       else tabs d' = tabs d)
    \<and> (rel \<longleftrightarrow> h' \<noteq> [] \<and> recorded_holder k (tabs d) = h')
    \<and> (if rel then find_lease k (tabs d'') =
           map_option (\<lambda>r. r\<lparr>l_holder := [], l_expires := 0\<rparr>) (find_lease k (tabs d))
       else tabs d'' = tabs d)"
  using renew_outcome [OF assms(1,2)] release_outcome [OF assms(1,3)] by simp

lemma renew_release_own_witness:
  "\<exists>d' d''. renew 5 ''k'' ''a'' 10 demo = (Inr (True, Some 15), d')
     \<and> release ''k'' ''b'' demo = (Inr False, d'') \<and> tabs d'' = tabs demo
     \<and> find_lease ''k'' (tabs d') = Some (demo_row\<lparr>l_expires := 15\<rparr>)"
proof -
  have "fst (renew 5 ''k'' ''a'' 10 demo) = Inr (True, Some 15)" by code_simp
  then obtain d' where a: "renew 5 ''k'' ''a'' 10 demo = (Inr (True, Some 15), d')"
    by (rule run_obtain)
  have "fst (release ''k'' ''b'' demo) = Inr False" by code_simp
  then obtain d'' where b: "release ''k'' ''b'' demo = (Inr False, d'')"
    by (rule run_obtain)
  have "deadline 5 10 = 15" by code_simp
  then show ?thesis
    using renew_release_own [OF demo_wf a b] a b demo_find by simp
qed

text \<open>
  The intent queue is first in, first out, and a heartbeat does not cost the place. A live
  waiter that enqueues again keeps its place; a new one, arriving no earlier than anyone recorded
  for the key, goes to the end; everybody else stays where they are, on this key and on every other.
  The position returned is the place in the new queue.
\<close>

theorem enqueue_fifo:
  assumes "enqueue now k s ttl d = (Inr (pos, ahead), d')"
    and "now < deadline now (if ttl \<le> 0 then default_waiter_ttl else ttl)"
    and "\<forall>w \<in> set (waiters (tabs d)). w_enqueued w < now"
  shows "live_query k now (tabs d') =
      (if s \<in> set (live_query k now (tabs d)) then live_query k now (tabs d)
       else live_query k now (tabs d) @ [s])
    \<and> (\<forall>k'. k' \<noteq> k \<longrightarrow> live_query k' now (tabs d') = live_query k' now (tabs d))
    \<and> pos = ahead \<and> index_from 0 s (live_query k now (tabs d')) = Some pos"
proof -
  define t1 where "t1 = snd (prune_stmt now (tabs d))"
  define e where "e = deadline now (if ttl \<le> 0 then default_waiter_ttl else ttl)"
  have alive: "\<forall>w \<in> set (waiters t1). now < w_expires w"
    using pruned_alive by (simp add: t1_def)
  have old: "\<forall>w \<in> set (waiters t1). w_enqueued w < now"
    using assms(3) by (simp add: t1_def prune_stmt_def del_where_def)
  have d': "tabs d' = snd (enqueue_stmt k s now e t1)" and p: "pos = ahead"
    and qh: "pos = fst (snd (queue_head (live_query k now (tabs d')) s))"
    using assms(1)
    by (auto simp: enqueue_def Let_def andThen_Inr t1_def e_def split: if_splits prod.splits
        dest!: prune_waiters_Inr sql_Inr head_waiter_Inr) (metis fst_conv snd_conv)+
  have live: "live_query k' now (tabs d') = (if k' = k \<and> s \<notin> set (live_query k now t1)
      then live_query k now t1 @ [s] else live_query k' now t1)" for k'
    using enqueue_stmt_live [OF alive _ old] assms(2) by (simp add: d' e_def)
  have "s \<in> set (live_query k now (tabs d'))"
    by (simp add: live)
  then have "index_from 0 s (live_query k now (tabs d')) = Some pos"
    using qh by (auto simp: queue_head_def index_from_member split: list.splits option.splits)
  with live p show ?thesis
    by (simp add: t1_def live_query_prune)
qed

lemma enqueue_fifo_witness:
  "\<exists>d'. enqueue 3 ''k'' ''c'' 50 demo = (Inr (1, 1), d')
     \<and> live_query ''k'' 3 (tabs d') = [''b'', ''c'']"
proof -
  have "fst (enqueue 3 ''k'' ''c'' 50 demo) = Inr (1, 1)" by code_simp
  then obtain d' where a: "enqueue 3 ''k'' ''c'' 50 demo = (Inr (1, 1), d')"
    by (rule run_obtain)
  have "3 < deadline 3 (if (50 :: int) \<le> 0 then default_waiter_ttl else 50)
      \<and> (\<forall>w \<in> set (waiters (tabs demo)). w_enqueued w < 3) \<and> live_query ''k'' 3 (tabs demo) = [''b'']"
    by code_simp
  then show ?thesis using enqueue_fifo [OF a] a by simp
qed

definition audit_grows :: "ledger_tabs \<Rightarrow> ledger_tabs \<Rightarrow> bool" where
  "audit_grows t t' \<longleftrightarrow> (\<exists>more. audits t' = audits t @ more)"

lemma audit_grows_order [simp]: "reflp audit_grows" "transp audit_grows"
  by (auto simp: reflp_def transp_def audit_grows_def)

lemma audit_grows_run: "audit_grows (tabs d) (tabs (run_ops tr d))"
proof (rule run_ops_in [OF audit_grows_order])
  show "side_stmts_in audit_grows"
    by (simp add: side_stmts_in_def audit_grows_def stmt_defs audit_stmt_def)
  show "audit_grows t (snd (f t))" if "f \<in> set (lease_stmts now op)" for now op f t
    using that by (cases op) (auto simp: audit_grows_def stmt_defs split: if_splits)
qed

text \<open>
  The audit log is append-only and its tail is the newest records first. No operation removes,
  changes or reorders a record, and a tail that is read shows the last records in reverse order, at
  least one if there is one.
\<close>

theorem audit_tail_newest:
  assumes "sink_tail n (run_ops tr d) = (Inr rs, d')" and "ledger_wf (tabs d)"
  shows "\<exists>more. audits (tabs d') = audits (tabs d) @ more
     \<and> rs = take (nat (if n \<le> 0 then 1 else n)) (rev (map record_of (audits (tabs d) @ more)))"
proof -
  have "sorted (map a_id (audits (tabs (run_ops tr d))))"
    using wf_run [OF assms(2)] by (simp add: ledger_wf_def)
  then have "sort_key a_id (audits (tabs (run_ops tr d))) = audits (tabs (run_ops tr d))"
    by (rule sort_key_id_if_sorted)
  then have "rs = take (nat (if n \<le> 0 then 1 else n)) (rev (map record_of (audits (tabs (run_ops tr d)))))"
    and "tabs d' = tabs (run_ops tr d)"
    using assms(1)
    by (auto simp: sink_tail_def Let_def andThen_Inr take_map rev_map dest!: reading_Inr)
  with audit_grows_run [of d tr] show ?thesis
    by (auto simp: audit_grows_def)
qed

definition demo_rec :: "string \<Rightarrow> audit_record" where
  "demo_rec s = \<lparr>rec_time = 7, rec_session = s, rec_project = ''p'', rec_kind = ''k'', rec_payload = PNone\<rparr>"

lemma audit_tail_newest_witness:
  "\<exists>d'. sink_tail 0 (run_ops [(1, Append (demo_rec ''a'')), (2, Append (demo_rec ''b''))] demo)
     = (Inr [demo_rec ''b''], d') \<and> length (audits (tabs d')) = 2"
proof -
  let ?tr = "[(1, Append (demo_rec ''a'')), (2, Append (demo_rec ''b''))]"
  have "fst (sink_tail 0 (run_ops ?tr demo)) = Inr [demo_rec ''b'']" by code_simp
  then obtain d' where a: "sink_tail 0 (run_ops ?tr demo) = (Inr [demo_rec ''b''], d')"
    by (rule run_obtain)
  obtain more where "audits (tabs d') = audits (tabs demo) @ more"
    and "[demo_rec ''b''] = take (nat (if (0 :: int) \<le> 0 then 1 else 0)) (rev (map record_of (audits (tabs demo) @ more)))"
    using audit_tail_newest [OF a demo_wf] by blast
  moreover have "length (audits (tabs (snd (sink_tail 0 (run_ops ?tr demo))))) = 2" by code_simp
  ultimately show ?thesis using a by simp
qed

end
