(* ===== verification/LedgerRpc.thy ===== *)
theory LedgerRpc
  imports LeaseFacts
begin

text \<open>
  The \<open>lease.*\<close> methods (\<open>internal/lease/rpc.go\<close>). The holder of every call is the session of the
  connection; a key travels in base64.
\<close>

section \<open>Handlers\<close>

definition ms :: int where "ms = 10 ^ 6"

text \<open>\<open>time.Duration(n) * time.Millisecond\<close>, which wraps around.\<close>

definition millis :: "int \<Rightarrow> int" where
  "millis n = wrap64 (n * ms)"

text \<open>\<open>UnixMilli\<close> of a time, the zero time included (1 January of the year 1).\<close>

definition unix_milli :: "go_time \<Rightarrow> int" where
  "unix_milli t = (case t of None \<Rightarrow> -62135596800000 | Some n \<Rightarrow> n div ms)"

definition decode_key :: "string \<Rightarrow> rpc_error + string" where
  "decode_key s = (case b64_decode s of
       None \<Rightarrow> Inl (new_error code_invalid_params (Msg ''key must be base64''))
     | Some b \<Rightarrow> if b = [] then Inl (new_error code_invalid_params (Msg ''key required'')) else Inr b)"

definition key_param :: "json option \<Rightarrow> rpc_error + string" where
  "key_param p = (case params_required p of
       Inl e \<Rightarrow> Inl e
     | Inr kvs \<Rightarrow> (case opt_value (str_field ''key'' kvs) of Inl e \<Rightarrow> Inl e | Inr s \<Rightarrow> decode_key s))"

definition key_ttl_params :: "json option \<Rightarrow> rpc_error + string \<times> int" where
  "key_ttl_params p = (case params_required p of
       Inl e \<Rightarrow> Inl e
     | Inr kvs \<Rightarrow> (case (str_field ''key'' kvs, int_field ''ttl_ms'' kvs) of
           (Some s, Some n) \<Rightarrow> (case decode_key s of Inl e \<Rightarrow> Inl e | Inr k \<Rightarrow> Inr (k, n))
         | _ \<Rightarrow> Inl invalid_params))"

definition positive_ttl :: "int \<Rightarrow> rpc_error + unit" where
  "positive_ttl n =
     (if n \<le> 0 then Inl (new_error code_invalid_params (Msg ''ttl_ms must be > 0'')) else Inr ())"

definition acquire_handler :: "int \<Rightarrow> string \<Rightarrow> json option \<Rightarrow> (ledger, json) handled" where
  "acquire_handler now session p =
     checked (key_ttl_params p) (\<lambda>(key, n).
     checked (positive_ttl n) (\<lambda>_.
     served (acquire now key session (millis n)) (\<lambda>res. JObj [
       (''granted'', JBool (ar_granted res)), (''holder'', JStr (ar_holder res)),
       (''expires_at_ms'', JInt (unix_milli (ar_expires res))), (''fence'', JInt (ar_fence res)),
       (''head'', JStr (ar_head res)), (''ahead'', JInt (int (ar_ahead res)))])))"

definition enqueue_handler :: "int \<Rightarrow> string \<Rightarrow> json option \<Rightarrow> (ledger, json) handled" where
  "enqueue_handler now session p =
     checked (key_ttl_params p) (\<lambda>(key, n).
     served (enqueue now key session (if 0 < n then millis n else 0)) (\<lambda>(pos, ahead).
       JObj [(''position'', JInt (int pos)), (''ahead'', JInt (int ahead))]))"

definition dequeue_handler :: "string \<Rightarrow> json option \<Rightarrow> (ledger, json) handled" where
  "dequeue_handler session p =
     checked (key_param p) (\<lambda>key.
     served (dequeue key session) (\<lambda>ok. JObj [(''ok'', JBool ok)]))"

definition queue_handler :: "int \<Rightarrow> int \<Rightarrow> json option \<Rightarrow> (ledger, json) handled" where
  "queue_handler now now2 p =
     checked (key_param p) (\<lambda>key.
     served (queue now now2 key) (\<lambda>snap. JObj [
       (''held'', JBool (qs_held snap)), (''holder'', JStr (qs_holder snap)),
       (''waiters'', JArr (map (\<lambda>(s, i). JObj [(''session'', JStr s), (''position'', JInt (int i))])
          (qs_waiters snap)))]))"

definition renew_handler :: "int \<Rightarrow> string \<Rightarrow> json option \<Rightarrow> (ledger, json) handled" where
  "renew_handler now session p =
     checked (key_ttl_params p) (\<lambda>(key, n).
     checked (positive_ttl n) (\<lambda>_.
     served (renew now key session (millis n)) (\<lambda>(ok, e). JObj [
       (''ok'', JBool ok), (''expires_at_ms'', JInt (unix_milli e))])))"

definition release_handler :: "string \<Rightarrow> json option \<Rightarrow> (ledger, json) handled" where
  "release_handler session p =
     checked (key_param p) (\<lambda>key.
     served (release key session) (\<lambda>ok. JObj [(''ok'', JBool ok)]))"

definition inspect_handler :: "int \<Rightarrow> json option \<Rightarrow> (ledger, json) handled" where
  "inspect_handler now p =
     checked (key_param p) (\<lambda>key.
     served (inspect now key) (\<lambda>(info, exists). JObj [
       (''exists'', JBool exists), (''holder'', JStr (i_holder info)),
       (''expires_at_ms'', JInt (unix_milli (i_expires info))), (''fence'', JInt (i_fence info)),
       (''held'', JBool (i_held info))]))"

definition list_handler :: "int \<Rightarrow> json option \<Rightarrow> (ledger, json) handled" where
  "list_handler now p =
     served (list_holders now) (\<lambda>hs. JObj [(''holders'', JArr (map (\<lambda>h. JObj [
       (''key'', JStr (b64_encode (i_key h))), (''holder'', JStr (i_holder h)),
       (''expires_at_ms'', JInt (unix_milli (i_expires h))), (''fence'', JInt (i_fence h))]) hs))])"

text \<open>
  \<open>RegisterMethods\<close>: the surface, at a reading of the clock (a handler that reads it twice takes
  the later reading too).
\<close>

definition lease_methods ::
  "int \<Rightarrow> int \<Rightarrow> (string \<times> (string \<Rightarrow> json option \<Rightarrow> (ledger, json) handled)) list" where
  "lease_methods now now2 =
     [(''lease.acquire'', acquire_handler now), (''lease.renew'', renew_handler now),
      (''lease.release'', release_handler), (''lease.inspect'', \<lambda>_. inspect_handler now),
      (''lease.list'', \<lambda>_. list_handler now), (''lease.enqueue'', enqueue_handler now),
      (''lease.dequeue'', dequeue_handler), (''lease.queue'', \<lambda>_. queue_handler now now2)]"

section \<open>A session acts only as itself\<close>

text \<open>
  What a call of one session leaves alone: every live lease and every live waiter of somebody else.
\<close>

definition foreign_kept :: "string \<Rightarrow> int \<Rightarrow> ledger_tabs \<Rightarrow> ledger_tabs \<Rightarrow> bool" where
  "foreign_kept s now t t' \<longleftrightarrow>
     (\<forall>k r. find_lease k t = Some r \<and> l_holder r \<noteq> [] \<and> l_holder r \<noteq> s \<and> now < l_expires r \<longrightarrow>
        find_lease k t' = Some r)
     \<and> (\<forall>w \<in> set (waiters t). w_session w \<noteq> s \<and> now < w_expires w \<longrightarrow> w \<in> set (waiters t'))"

lemma foreign_kept_order [simp]: "reflp (foreign_kept s now)" "transp (foreign_kept s now)"
  by (simp_all add: foreign_kept_def reflp_def transp_def)

lemma waiters_lease_stmts [simp]:
  "waiters (snd (acquire_stmt k h now e t)) = waiters t"
  "waiters (snd (renew_stmt k h now e t)) = waiters t"
  "waiters (snd (release_stmt k h t)) = waiters t"
  by (simp_all add: acquire_stmt_def renew_stmt_def release_stmt_def)

lemma foreign_kept_stmts [simp]:
  "foreign_kept s now t (snd (prune_stmt now t))"
  "foreign_kept s now t (snd (drop_waiter_stmt k s t))"
  "foreign_kept s now t (snd (acquire_stmt k s now e t))"
  "foreign_kept s now t (snd (renew_stmt k s now e t))"
  "foreign_kept s now t (snd (release_stmt k s t))"
  by (auto simp: foreign_kept_def stmt_find prune_stmt_def drop_waiter_stmt_def del_where_def)

lemma foreign_kept_enqueue [simp]: "foreign_kept s now t (snd (enqueue_stmt k s now e t))"
proof -
  have "w \<in> set (waiters (snd (enqueue_stmt k s now e t)))"
    if "w \<in> set (waiters t)" "w_session w \<noteq> s" for w
    using that by (auto simp: enqueue_stmt_def upsert_def upd_where_def image_iff
        intro!: bexI [of _ w])
  then show ?thesis by (simp add: foreign_kept_def)
qed

lemma foreign_kept_methods:
  assumes "(m, h) \<in> set (lease_methods now now2)"
  shows "handled_within (on_tabs (foreign_kept s now)) (h s p)"
proof -
  note intros = within_intros within_acquire within_renew within_release within_enqueue
    within_dequeue within_queue
  have "handled_within (on_tabs (foreign_kept s now)) (acquire_handler now s p)"
    "handled_within (on_tabs (foreign_kept s now)) (renew_handler now s p)"
    "handled_within (on_tabs (foreign_kept s now)) (release_handler s p)"
    "handled_within (on_tabs (foreign_kept s now)) (inspect_handler now p)"
    "handled_within (on_tabs (foreign_kept s now)) (list_handler now p)"
    "handled_within (on_tabs (foreign_kept s now)) (enqueue_handler now s p)"
    "handled_within (on_tabs (foreign_kept s now)) (dequeue_handler s p)"
    "handled_within (on_tabs (foreign_kept s now)) (queue_handler now now2 p)"
    unfolding acquire_handler_def renew_handler_def release_handler_def inspect_handler_def
      list_handler_def enqueue_handler_def dequeue_handler_def queue_handler_def list_holders_def
    by (auto intro!: intros split: prod.split)
  with assms show ?thesis by (auto simp: lease_methods_def)
qed

text \<open>
  C5: no impersonation. Whatever a session sends to any of the \<open>lease.*\<close> methods, and whatever the
  database does, the live leases and the live waiters of the other sessions are as before.
\<close>

theorem lease_rpc_own_only:
  assumes "(m, h) \<in> set (lease_methods now now2)"
  shows "foreign_kept s now (tabs d) (tabs (snd (h s p d)))"
  using foreign_kept_methods [OF assms] by (simp add: handled_within_def on_tabs_def)

definition key_params :: "string \<Rightarrow> json option" where
  "key_params k = Some (JObj [(''key'', JStr (b64_encode k)), (''ttl_ms'', JInt 1000)])"

lemma lease_rpc_own_only_witness:
  "fst (release_handler ''b'' (key_params ''k'') demo) = Inr (JObj [(''ok'', JBool False)])
   \<and> find_lease ''k'' (tabs (snd (release_handler ''b'' (key_params ''k'') demo))) = Some demo_row"
proof -
  have "foreign_kept ''b'' 5 (tabs demo) (tabs (snd (release_handler ''b'' (key_params ''k'') demo)))"
    by (rule lease_rpc_own_only [where m = "''lease.release''" and now = 5])
      (simp add: lease_methods_def)
  moreover have "fst (release_handler ''b'' (key_params ''k'') demo) = Inr (JObj [(''ok'', JBool False)])"
    by code_simp
  ultimately show ?thesis
    using demo_find by (simp add: foreign_kept_def demo_row_def)
qed

definition ttl_request :: "string \<Rightarrow> int \<Rightarrow> json option" where
  "ttl_request k n = Some (JObj [(''key'', JStr (b64_encode k)), (''ttl_ms'', JInt n)])"

text \<open>
  C6: the time to live is checked before the multiplication, not after. A \<open>ttl_ms\<close> of 9223372036855
  passes the check, wraps around to a negative duration, and the caller is told \<open>granted\<close> although the
  lease is dead on arrival: nobody holds the key, and another session takes it at the same instant.
\<close>

theorem ttl_overflow_grants_dead_lease:
  "\<exists>n d1 d2. 0 < n \<and> n < 2 ^ 63
     \<and> acquire_handler 1700000000000000000 ''a'' (ttl_request ''k'' n) \<lparr>script = [], tabs = empty_tabs\<rparr>
       = (Inr (JObj [(''granted'', JBool True), (''holder'', JStr ''a''),
           (''expires_at_ms'', JInt (-7523372036855)), (''fence'', JInt 1), (''head'', JStr []),
           (''ahead'', JInt 0)]), d1)
     \<and> \<not> held_by 1700000000000000000 ''k'' ''a'' (tabs d1)
     \<and> acquire_handler 1700000000000000000 ''b'' (ttl_request ''k'' 60000) d1
       = (Inr (JObj [(''granted'', JBool True), (''holder'', JStr ''b''),
           (''expires_at_ms'', JInt 1700000060000), (''fence'', JInt 2), (''head'', JStr []),
           (''ahead'', JInt 0)]), d2)"
proof -
  let ?now = "1700000000000000000 :: int"
  define row where "row = \<lparr>l_key = ''k'', l_holder = ''a'', l_acquired = ?now,
    l_expires = -7523372036854551616, l_fence = 1\<rparr>"
  define d1 :: ledger where "d1 = \<lparr>script = [], tabs = empty_tabs\<lparr>leases := [row]\<rparr>\<rparr>"
  have a: "acquire_handler ?now ''a'' (ttl_request ''k'' 9223372036855) \<lparr>script = [], tabs = empty_tabs\<rparr>
      = (Inr (JObj [(''granted'', JBool True), (''holder'', JStr ''a''),
      (''expires_at_ms'', JInt (-7523372036855)), (''fence'', JInt 1), (''head'', JStr []),
      (''ahead'', JInt 0)]), d1)"
    unfolding d1_def row_def by code_simp
  have n: "\<not> held_by ?now ''k'' ''a'' (tabs d1)"
    by (simp add: held_by_def row_held_def d1_def row_def find_lease_def)
  have "fst (acquire_handler ?now ''b'' (ttl_request ''k'' 60000) d1) =
      Inr (JObj [(''granted'', JBool True), (''holder'', JStr ''b''),
        (''expires_at_ms'', JInt 1700000060000), (''fence'', JInt 2), (''head'', JStr []),
        (''ahead'', JInt 0)])"
    unfolding d1_def row_def by code_simp
  then obtain d2 where b: "acquire_handler ?now ''b'' (ttl_request ''k'' 60000) d1 =
      (Inr (JObj [(''granted'', JBool True), (''holder'', JStr ''b''),
        (''expires_at_ms'', JInt 1700000060000), (''fence'', JInt 2), (''head'', JStr []),
        (''ahead'', JInt 0)]), d2)"
    by (rule run_obtain)
  show ?thesis
    by (rule exI [of _ 9223372036855], rule exI [of _ d1], rule exI [of _ d2]) (simp add: a b n)
qed

end
