(* ===== verification/Manifest.thy ===== *)
theory Manifest
  imports LedgerRpc
begin

text \<open>
  The manifest and the classifier (\<open>internal/manifest\<close>): the declaration of a repository, glob
  matching, and the total classify-upward function with the lease keys it routes to. \<open>glob_*\<close> is
  \<open>path/filepath.Match\<close> on Unix, which the segments are matched with.
\<close>

section \<open>Matching one segment\<close>

text \<open>\<open>getEsc\<close>: a possibly escaped rune of a class; \<open>None\<close> is \<open>ErrBadPattern\<close>.\<close>

definition glob_esc :: "string \<Rightarrow> (nat \<times> string) option" where
  "glob_esc chunk =
     (case chunk of [] \<Rightarrow> None
      | c # cs \<Rightarrow>
          if c = CHR ''-'' \<or> c = CHR '']'' then None
          else (case (if c = CHR 0x5C then cs else chunk) of [] \<Rightarrow> None
            | d # ds \<Rightarrow> (case decode_rune d ds of (r, n) \<Rightarrow>
                if r = 0xFFFD \<and> n = 1 then None
                else if drop (n - 1) ds = [] then None else Some (r, drop (n - 1) ds))))"

lemma glob_esc_shorter: "glob_esc chunk = Some (r, rest) \<Longrightarrow> length rest < length chunk"
  by (auto simp: glob_esc_def split: list.splits if_splits prod.splits)

function (sequential) glob_ranges :: "nat \<Rightarrow> bool \<Rightarrow> bool \<Rightarrow> string \<Rightarrow> (bool \<times> string) option" where
  "glob_ranges r some hit chunk =
     (if some \<and> chunk \<noteq> [] \<and> hd chunk = CHR '']'' then Some (hit, tl chunk)
      else case glob_esc chunk of None \<Rightarrow> None
      | Some (lo, rest) \<Rightarrow>
          if hd rest = CHR ''-'' then
            (case glob_esc (tl rest) of None \<Rightarrow> None
             | Some (hi, rest') \<Rightarrow> glob_ranges r True (hit \<or> lo \<le> r \<and> r \<le> hi) rest')
          else glob_ranges r True (hit \<or> lo = r) rest)"
  by pat_completeness auto
termination
  by (relation "measure (\<lambda>(r, some, hit, chunk). length chunk)")
    (auto dest!: glob_esc_shorter)

declare glob_ranges.simps [simp del]

text \<open>
  \<open>matchChunk\<close>: \<open>None\<close> for a bad pattern, \<open>Some None\<close> for no match, \<open>Some (Some rest)\<close> for a match. After
  a failure the rest of the chunk is still checked.
\<close>

lemma glob_ranges_shorter:
  "glob_ranges r some hit chunk = Some (m, rest) \<Longrightarrow> length rest < length chunk"
proof (induction r some hit chunk rule: glob_ranges.induct)
  case (1 r some hit chunk)
  note 1(3) [unfolded glob_ranges.simps [of r some hit chunk]]
  note step = this
  show ?case
  proof (cases "some \<and> chunk \<noteq> [] \<and> hd chunk = CHR '']''")
    case True
    with step show ?thesis by (cases chunk) auto
  next
    case False
    with step obtain lo rest1 where e: "glob_esc chunk = Some (lo, rest1)"
      by (auto split: option.splits)
    note l1 = glob_esc_shorter [OF e]
    show ?thesis
    proof (cases "hd rest1 = CHR ''-''")
      case True
      with step False e obtain hi rest2 where e2: "glob_esc (tl rest1) = Some (hi, rest2)"
        by (auto split: option.splits if_splits)
      have "length rest2 < length rest1" using glob_esc_shorter [OF e2] by simp
      with 1(1) step False e e2 True l1 show ?thesis by (fastforce split: if_splits)
    next
      case n: False
      with 1(2) step False e l1 show ?thesis by (fastforce split: if_splits)
    qed
  qed
qed

function (sequential) glob_chunk :: "bool \<Rightarrow> string \<Rightarrow> string \<Rightarrow> string option option" where
  "glob_chunk failed [] s = Some (if failed then None else Some s)"
| "glob_chunk failed (c # cs) s =
     (let failed' = (failed \<or> s = []) in
      if c = CHR ''['' then
        (let (r, s') = (if failed' then (0, s)
               else (case decode_rune (hd s) (tl s) of (r, n) \<Rightarrow> (r, drop n s)));
             negated = (cs \<noteq> [] \<and> hd cs = CHR ''^'')
         in case glob_ranges r False False (if negated then tl cs else cs) of None \<Rightarrow> None
            | Some (hit, rest) \<Rightarrow> glob_chunk (failed' \<or> hit = negated) rest s')
      else if c = CHR ''?'' then
        (if failed' then glob_chunk True cs s
         else glob_chunk (hd s = CHR ''/'') cs (drop (snd (decode_rune (hd s) (tl s))) s))
      else
        (case (if c = CHR 0x5C then cs else c # cs) of [] \<Rightarrow> None
         | d # ds \<Rightarrow> glob_chunk (failed' \<or> d \<noteq> hd s) ds (tl s)))"
  by pat_completeness auto
termination
  by (relation "measure (\<lambda>(failed, chunk, s). length chunk)")
    (auto dest!: glob_ranges_shorter split: if_splits)

text \<open>\<open>scanChunk\<close>: the leading stars, and the pattern up to the next star outside a class.\<close>

fun scan_plain :: "bool \<Rightarrow> string \<Rightarrow> string \<times> string" where
  "scan_plain inr [] = ([], [])"
| "scan_plain inr (c # cs) =
     (if c = CHR 0x5C then
        (case cs of [] \<Rightarrow> ([c], [])
         | d # ds \<Rightarrow> (case scan_plain inr ds of (a, b) \<Rightarrow> (c # d # a, b)))
      else if c = CHR ''*'' \<and> \<not> inr then ([], c # cs)
      else (case scan_plain (if c = CHR ''['' then True else if c = CHR '']'' then False else inr) cs of
          (a, b) \<Rightarrow> (c # a, b)))"

definition scan_chunk :: "string \<Rightarrow> bool \<times> string \<times> string" where
  "scan_chunk pat = (pat \<noteq> [] \<and> hd pat = CHR ''*'',
     scan_plain False (dropWhile (\<lambda>c. c = CHR ''*'') pat))"

lemma scan_plain_append: "scan_plain inr s = (a, b) \<Longrightarrow> s = a @ b"
proof (induction inr s arbitrary: a b rule: scan_plain.induct)
  case (2 inr c cs)
  then show ?case by (auto split: if_splits list.splits prod.splits)
qed simp

lemma scan_chunk_shorter:
  assumes "scan_chunk pat = (star, chunk, rest)" and "pat \<noteq> []"
  shows "length rest < length pat"
proof (cases "hd pat = CHR ''*''")
  case True
  then have "length (dropWhile (\<lambda>c. c = CHR ''*'') pat) < length pat"
    using assms(2) by (cases pat) (auto simp: le_imp_less_Suc length_dropWhile_le)
  with assms(1) show ?thesis
    by (auto simp: scan_chunk_def dest!: scan_plain_append)
next
  case False
  then have d: "dropWhile (\<lambda>c. c = CHR ''*'') pat = pat" using assms(2) by (cases pat) auto
  then have "pat = chunk @ rest"
    using assms(1) by (auto simp: scan_chunk_def dest: scan_plain_append)
  moreover have "chunk \<noteq> []"
    using assms d False by (cases pat) (auto simp: scan_chunk_def split: if_splits list.splits prod.splits)
  ultimately show ?thesis by simp
qed

text \<open>The retry after a star: the first skip that matches, never across a separator.\<close>

fun star_skip :: "string \<Rightarrow> bool \<Rightarrow> string \<Rightarrow> string option option" where
  "star_skip chunk last_chunk [] = Some None"
| "star_skip chunk last_chunk (c # cs) =
     (if c = CHR ''/'' then Some None
      else case glob_chunk False chunk cs of
        None \<Rightarrow> None
      | Some (Some t) \<Rightarrow> if last_chunk \<and> t \<noteq> [] then star_skip chunk last_chunk cs else Some (Some t)
      | Some None \<Rightarrow> star_skip chunk last_chunk cs)"

text \<open>The check that the remainder of the pattern is well formed.\<close>

function (sequential) rest_ok :: "string \<Rightarrow> bool" where
  "rest_ok [] = True"
| "rest_ok (c # cs) = (case scan_chunk (c # cs) of (star, chunk, rest) \<Rightarrow>
     glob_chunk False chunk [] \<noteq> None \<and> rest_ok rest)"
  by pat_completeness auto
termination
  by (relation "measure length") (auto dest!: scan_chunk_shorter [OF sym] simp del: length_Cons)

definition mismatch :: "string \<Rightarrow> bool option" where
  "mismatch rest = (if rest_ok rest then Some False else None)"

function (sequential) glob_match :: "string \<Rightarrow> string \<Rightarrow> bool option" where
  "glob_match [] name = Some (name = [])"
| "glob_match (c # cs) name = (case scan_chunk (c # cs) of (star, chunk, rest) \<Rightarrow>
     if star \<and> chunk = [] then Some (CHR ''/'' \<notin> set name)
     else case glob_chunk False chunk name of
       None \<Rightarrow> None
     | Some res \<Rightarrow>
         (case (case res of None \<Rightarrow> None | Some t \<Rightarrow> if t = [] \<or> rest \<noteq> [] then Some t else None) of
            Some t \<Rightarrow> glob_match rest t
          | None \<Rightarrow>
              if star then
                (case star_skip chunk (rest = []) name of
                   None \<Rightarrow> None
                 | Some (Some t) \<Rightarrow> glob_match rest t
                 | Some None \<Rightarrow> mismatch rest)
              else mismatch rest))"
  by pat_completeness auto
termination
  by (relation "measure (\<lambda>(pat, name). length pat)")
    (auto dest!: scan_chunk_shorter [OF sym] simp del: length_Cons)

section \<open>Matching a path\<close>

fun match_segs :: "string list \<Rightarrow> string list \<Rightarrow> bool" where
  "match_segs [] name = (name = [])"
| "match_segs (p # ps) name =
     (if p = ''**'' then ps = [] \<or> list_ex (\<lambda>i. match_segs ps (drop i name)) [0 ..< Suc (length name)]
      else (case name of [] \<Rightarrow> False | n # ns \<Rightarrow> glob_match p n = Some True \<and> match_segs ps ns))"

definition match_glob :: "string \<Rightarrow> string \<Rightarrow> bool" where
  "match_glob pat path = match_segs (split_on (CHR ''/'') pat) (split_on (CHR ''/'') path)"

definition match_any :: "string list \<Rightarrow> string \<Rightarrow> bool" where
  "match_any globs path = list_ex (\<lambda>g. match_glob g path) globs"

section \<open>The manifest\<close>

record grant =
  g_mode :: string
  g_endpoint :: string

record manifest =
  m_version :: int
  m_convergent_paths :: "string list"
  m_singular_paths :: "string list"
  m_forkable :: "string set"
  m_convergent :: "string set"
  m_singular :: "string set"
  m_grants :: "string \<Rightarrow> grant option"
  m_conductor :: bool
  m_gate :: string

definition supported_version :: int where "supported_version = 1"

definition default_manifest :: manifest where
  "default_manifest = \<lparr>m_version = supported_version, m_convergent_paths = [], m_singular_paths = [],
     m_forkable = {}, m_convergent = {}, m_singular = {}, m_grants = Map.empty, m_conductor = True,
     m_gate = []\<rparr>"

record raw_manifest =
  rm_version :: int
  rm_forkable :: "string list"
  rm_convergent_paths :: "string list"
  rm_convergent :: "string list"
  rm_singular_paths :: "string list"
  rm_singular :: "string list"
  rm_grants :: "(string \<times> string \<times> string) list"
  rm_conductor :: "(bool option \<times> string) option"

definition raw_zero :: raw_manifest where
  "raw_zero = \<lparr>rm_version = 0, rm_forkable = [], rm_convergent_paths = [], rm_convergent = [],
     rm_singular_paths = [], rm_singular = [], rm_grants = [], rm_conductor = None\<rparr>"

text \<open>
  \<open>json.Unmarshal\<close> into the nested structs: a key that occurs again is decoded into what is there,
  a list or pointer that is \<open>null\<close> becomes empty. (A second list of grants within one object is decoded
  afresh here; the library reuses the elements of the first.)
\<close>

definition into_struct :: "(string \<Rightarrow> json \<Rightarrow> 'a \<Rightarrow> 'a option) \<Rightarrow> json \<Rightarrow> 'a \<Rightarrow> 'a option" where
  "into_struct step j x = (case obj_fields j of None \<Rightarrow> None
     | Some kvs \<Rightarrow> foldl (\<lambda>acc (k, v). case acc of None \<Rightarrow> None | Some y \<Rightarrow> step k v y) (Some x) kvs)"

definition into :: "(json \<Rightarrow> 'b option) \<Rightarrow> ('b \<Rightarrow> 'a) \<Rightarrow> 'a \<Rightarrow> json \<Rightarrow> 'a option" where
  "into conv set_it x v = (if v = JNull then Some x else map_option set_it (conv v))"

fun as_bool :: "json \<Rightarrow> bool option" where
  "as_bool (JBool b) = Some b"
| "as_bool _ = None"

fun as_list :: "(json \<Rightarrow> 'a option) \<Rightarrow> json \<Rightarrow> 'a list option" where
  "as_list conv JNull = Some []"
| "as_list conv (JArr js) = those (map conv js)"
| "as_list conv _ = None"

definition as_strings :: "json \<Rightarrow> string list option" where
  "as_strings = as_list (\<lambda>j. into as_str id [] j)"

definition grant_step :: "string \<Rightarrow> json \<Rightarrow> string \<times> string \<times> string \<Rightarrow> (string \<times> string \<times> string) option" where
  "grant_step k v = (\<lambda>(r, m, e).
     if same_key k ''resource'' then into as_str (\<lambda>x. (x, m, e)) (r, m, e) v
     else if same_key k ''mode'' then into as_str (\<lambda>x. (r, x, e)) (r, m, e) v
     else if same_key k ''endpoint'' then into as_str (\<lambda>x. (r, m, x)) (r, m, e) v
     else Some (r, m, e))"

definition conductor_step :: "string \<Rightarrow> json \<Rightarrow> bool option \<times> string \<Rightarrow> (bool option \<times> string) option" where
  "conductor_step k v = (\<lambda>(b, g).
     if same_key k ''enabled'' then
       (if v = JNull then Some (None, g) else map_option (\<lambda>x. (Some x, g)) (as_bool v))
     else if same_key k ''gate'' then into as_str (\<lambda>x. (b, x)) (b, g) v
     else Some (b, g))"

definition forkable_step :: "string \<Rightarrow> json \<Rightarrow> raw_manifest \<Rightarrow> raw_manifest option" where
  "forkable_step k v r =
     (if same_key k ''resources'' then map_option (\<lambda>x. r\<lparr>rm_forkable := x\<rparr>) (as_strings v) else Some r)"

definition convergent_step :: "string \<Rightarrow> json \<Rightarrow> raw_manifest \<Rightarrow> raw_manifest option" where
  "convergent_step k v r =
     (if same_key k ''paths'' then map_option (\<lambda>x. r\<lparr>rm_convergent_paths := x\<rparr>) (as_strings v)
      else if same_key k ''resources'' then map_option (\<lambda>x. r\<lparr>rm_convergent := x\<rparr>) (as_strings v)
      else Some r)"

definition singular_step :: "string \<Rightarrow> json \<Rightarrow> raw_manifest \<Rightarrow> raw_manifest option" where
  "singular_step k v r =
     (if same_key k ''paths'' then map_option (\<lambda>x. r\<lparr>rm_singular_paths := x\<rparr>) (as_strings v)
      else if same_key k ''resources'' then map_option (\<lambda>x. r\<lparr>rm_singular := x\<rparr>) (as_strings v)
      else if same_key k ''grants'' then map_option (\<lambda>x. r\<lparr>rm_grants := x\<rparr>)
        (as_list (\<lambda>j. into_struct grant_step j ([], [], [])) v)
      else Some r)"

definition raw_step :: "string \<Rightarrow> json \<Rightarrow> raw_manifest \<Rightarrow> raw_manifest option" where
  "raw_step k v r =
     (if same_key k ''version'' then into as_int64 (\<lambda>x. r\<lparr>rm_version := x\<rparr>) r v
      else if same_key k ''forkable'' then into_struct forkable_step v r
      else if same_key k ''convergent'' then into_struct convergent_step v r
      else if same_key k ''singular'' then into_struct singular_step v r
      else if same_key k ''conductor'' then
        (if v = JNull then Some (r\<lparr>rm_conductor := None\<rparr>)
         else map_option (\<lambda>x. r\<lparr>rm_conductor := Some x\<rparr>) (into_struct conductor_step v
           (case rm_conductor r of None \<Rightarrow> (None, []) | Some x \<Rightarrow> x)))
      else Some r)"

definition manifest_from_raw :: "raw_manifest \<Rightarrow> manifest" where
  "manifest_from_raw raw = default_manifest
     \<lparr>m_version := (if rm_version raw \<noteq> 0 then rm_version raw else supported_version),
      m_convergent_paths := rm_convergent_paths raw, m_singular_paths := rm_singular_paths raw,
      m_forkable := set (rm_forkable raw), m_convergent := set (rm_convergent raw),
      m_singular := set (rm_singular raw),
      m_grants := foldl (\<lambda>m (r, mode, e). if r = [] then m else m(r \<mapsto> \<lparr>g_mode = mode, g_endpoint = e\<rparr>))
        Map.empty (rm_grants raw),
      m_conductor := (case rm_conductor raw of Some (Some b, _) \<Rightarrow> b | _ \<Rightarrow> True),
      m_gate := (case rm_conductor raw of Some (_, g) \<Rightarrow> g | None \<Rightarrow> [])\<rparr>"

text \<open>What \<open>os.ReadFile\<close> finds: no file, another error, bytes that are not JSON, or a JSON value.\<close>

datatype manifest_file = NoFile | Unreadable string | NotJson string | Content json

definition load_manifest :: "manifest_file \<Rightarrow> err + manifest" where
  "load_manifest f = (case f of
       NoFile \<Rightarrow> Inr default_manifest
     | Unreadable e \<Rightarrow> Inl (Msg e)
     | NotJson e \<Rightarrow> Inl (Wrapped ''manifest mad-trellis.json'' (Msg e))
     | Content j \<Rightarrow> (case into_struct raw_step j raw_zero of
         None \<Rightarrow> Inl (Wrapped ''manifest mad-trellis.json'' (Msg ''cannot unmarshal''))
       | Some raw \<Rightarrow> Inr (manifest_from_raw raw)))"

section \<open>The classifier\<close>

datatype kind = Forkable | Convergent | Singular

fun rank :: "kind \<Rightarrow> nat" where
  "rank Forkable = 0" | "rank Convergent = 1" | "rank Singular = 2"

lemma rank_inject: "rank a = rank b \<Longrightarrow> a = b"
  by (cases a; cases b) auto

instantiation kind :: linorder
begin

definition less_eq_kind :: "kind \<Rightarrow> kind \<Rightarrow> bool" where "less_eq_kind a b = (rank a \<le> rank b)"
definition less_kind :: "kind \<Rightarrow> kind \<Rightarrow> bool" where "less_kind a b = (rank a < rank b)"

instance
  by standard (auto simp: less_eq_kind_def less_kind_def rank_inject)

end

fun kind_string :: "kind \<Rightarrow> string" where
  "kind_string Forkable = ''forkable''"
| "kind_string Convergent = ''convergent''"
| "kind_string Singular = ''singular''"

definition stricter :: "kind \<Rightarrow> kind \<Rightarrow> kind" where
  "stricter a b = (if b \<le> a then a else b)"

datatype ref = PathRef string | ExternalRef string | TrunkRef | UnknownRef string

definition declarations :: "manifest \<Rightarrow> string \<Rightarrow> kind list" where
  "declarations m n =
     (if n \<in> m_forkable m then [Forkable] else [])
     @ (if n \<in> m_convergent m then [Convergent] else [])
     @ (if n \<in> m_singular m then [Singular] else [])"

fun classify :: "manifest \<Rightarrow> ref \<Rightarrow> kind" where
  "classify m TrunkRef = Convergent"
| "classify m (PathRef p) =
     (if match_any (m_singular_paths m) p then Singular
      else if match_any (m_convergent_paths m) p then Convergent else Forkable)"
| "classify m (ExternalRef n) =
     (case declarations m n of [] \<Rightarrow> Singular | d # ds \<Rightarrow> foldl stricter d ds)"
| "classify m (UnknownRef n) = Singular"

definition trunk_key :: string where "trunk_key = ''mad-trellis:trunk:v1''"
definition convergent_prefix :: string where "convergent_prefix = ''mad-trellis:convergent:v1:''"
definition external_prefix :: string where "external_prefix = convergent_prefix @ ''external:''"

definition path_key :: "string \<Rightarrow> string" where "path_key p = convergent_prefix @ p"
definition external_key :: "string \<Rightarrow> string" where "external_key n = external_prefix @ n"

definition path_from_key :: "string \<Rightarrow> string option" where
  "path_from_key k =
     (if has_prefix k external_prefix then None
      else if has_prefix k convergent_prefix then Some (trim_prefix k convergent_prefix) else None)"

definition external_from_key :: "string \<Rightarrow> string option" where
  "external_from_key k =
     (if has_prefix k external_prefix then Some (trim_prefix k external_prefix) else None)"

definition route :: "manifest \<Rightarrow> ref \<Rightarrow> kind \<times> string option" where
  "route m r =
     (let k = classify m r in
      if k \<noteq> Convergent then (k, None)
      else (k, Some (case r of TrunkRef \<Rightarrow> trunk_key | PathRef p \<Rightarrow> path_key p
        | ExternalRef n \<Rightarrow> external_key n | UnknownRef n \<Rightarrow> external_key n)))"

section \<open>The RPC surface\<close>

definition ref_of :: "string \<Rightarrow> string \<Rightarrow> ref" where
  "ref_of domain name =
     (if domain = ''path'' then PathRef name else if domain = ''external'' then ExternalRef name
      else if domain = ''trunk'' then TrunkRef else UnknownRef name)"

definition classify_params :: "json option \<Rightarrow> rpc_error + ref" where
  "classify_params p = (case params_optional p of
       Inl e \<Rightarrow> Inl e
     | Inr kvs \<Rightarrow> (case (str_field ''domain'' kvs, str_field ''name'' kvs) of
           (Some d, Some n) \<Rightarrow> Inr (ref_of d n)
         | _ \<Rightarrow> Inl invalid_params))"

definition classify_handler :: "manifest \<Rightarrow> json option \<Rightarrow> rpc_error + json" where
  "classify_handler m p = (case classify_params p of
       Inl e \<Rightarrow> Inl e
     | Inr r \<Rightarrow> Inr (JObj [(''kind'', JStr (kind_string (classify m r)))]))"

definition route_handler :: "manifest \<Rightarrow> json option \<Rightarrow> rpc_error + json" where
  "route_handler m p = (case classify_params p of
       Inl e \<Rightarrow> Inl e
     | Inr r \<Rightarrow> Inr (case route m r of (k, key) \<Rightarrow> JObj [(''kind'', JStr (kind_string k)),
         (''lease_key'', case key of None \<Rightarrow> JNull | Some b \<Rightarrow> JStr (b64_encode b))]))"

end
