(* ===== verification/ManifestFacts.thy ===== *)
theory ManifestFacts
  imports Manifest
begin

text \<open>
  What the classifier promises: globs mean what they look like, declarations only ever raise a kind,
  silence about an external resource is the strictest kind, and lease keys separate resources.
\<close>

section \<open>Globs\<close>

text \<open>
  The reference semantics of a segment pattern without classes, escapes and question marks: a star
  is any text, everything else is itself.
\<close>

fun wild :: "string \<Rightarrow> string \<Rightarrow> bool" where
  "wild [] s = (s = [])"
| "wild (c # p) s =
     (if c = CHR ''*'' then list_ex (\<lambda>i. wild p (drop i s)) [0 ..< Suc (length s)]
      else (case s of [] \<Rightarrow> False | x # xs \<Rightarrow> x = c \<and> wild p xs))"

definition simple_glob :: "string \<Rightarrow> bool" where
  "simple_glob p \<longleftrightarrow> CHR ''?'' \<notin> set p \<and> CHR ''['' \<notin> set p \<and> CHR 0x5C \<notin> set p"

lemma simple_glob_Cons: "simple_glob (c # p) \<longleftrightarrow>
    c \<noteq> CHR ''?'' \<and> c \<noteq> CHR ''['' \<and> c \<noteq> CHR 0x5C \<and> simple_glob p"
  by (auto simp: simple_glob_def)

lemma simple_glob_append [simp]: "simple_glob (p @ q) \<longleftrightarrow> simple_glob p \<and> simple_glob q"
  by (auto simp: simple_glob_def)

lemma simple_glob_Nil [simp]: "simple_glob []"
  by (simp add: simple_glob_def)

lemma glob_chunk_failed: "simple_glob p \<Longrightarrow> glob_chunk True p s = Some None"
  by (induction p arbitrary: s) (simp_all add: simple_glob_Cons)

lemma glob_chunk_literal:
  "simple_glob p \<Longrightarrow>
     glob_chunk False p s = Some (if has_prefix s p then Some (drop (length p) s) else None)"
proof (induction p arbitrary: s)
  case (Cons c p)
  then show ?case
    by (cases s; cases "c = hd s") (auto simp: simple_glob_Cons glob_chunk_failed has_prefix_def)
qed (simp add: has_prefix_def)

lemma scan_plain_simple:
  "simple_glob p \<Longrightarrow>
     scan_plain False p = (takeWhile (\<lambda>c. c \<noteq> CHR ''*'') p, dropWhile (\<lambda>c. c \<noteq> CHR ''*'') p)"
  by (induction p) (simp_all add: simple_glob_Cons)

lemma simple_glob_while:
  assumes "simple_glob p"
  shows "simple_glob (takeWhile P p)" and "simple_glob (dropWhile P p)"
  using assms by (auto simp: simple_glob_def dest: set_takeWhileD set_dropWhileD)

lemma scan_chunk_simple:
  assumes "simple_glob pat" and "p = dropWhile (\<lambda>c. c = CHR ''*'') pat"
  shows "scan_chunk pat = (pat \<noteq> [] \<and> hd pat = CHR ''*'',
     takeWhile (\<lambda>c. c \<noteq> CHR ''*'') p, dropWhile (\<lambda>c. c \<noteq> CHR ''*'') p)"
  using assms by (simp add: scan_chunk_def scan_plain_simple simple_glob_while)

lemma scan_chunk_glob:
  assumes "scan_chunk pat = (star, chunk, rest)" and "simple_glob pat"
  shows "simple_glob chunk" and "simple_glob rest"
  using assms scan_chunk_simple [OF assms(2) refl] by (auto simp: simple_glob_while)

lemma rest_ok_simple: "simple_glob p \<Longrightarrow> rest_ok p"
proof (induction p rule: rest_ok.induct)
  case (2 c cs)
  obtain star chunk rest where sc: "scan_chunk (c # cs) = (star, chunk, rest)"
    by (cases "scan_chunk (c # cs)")
  with scan_chunk_glob [OF sc 2(2)] 2(1) show ?case
    by (simp add: glob_chunk_literal del: scan_plain.simps)
qed simp

declare wild.simps(2) [simp del]

lemma wild_star: "wild (CHR ''*'' # p) s \<longleftrightarrow> (\<exists>u v. s = u @ v \<and> wild p v)"
proof
  assume "wild (CHR ''*'' # p) s"
  then obtain i where "wild p (drop i s)"
    unfolding wild.simps(2) list_ex_iff by (meson)
  then show "\<exists>u v. s = u @ v \<and> wild p v"
    using append_take_drop_id [of i s] by metis
next
  assume "\<exists>u v. s = u @ v \<and> wild p v"
  then obtain u v where "s = u @ v" and "wild p v" by blast
  then have "length u \<in> set [0 ..< Suc (length s)] \<and> wild p (drop (length u) s)" by simp
  then show "wild (CHR ''*'' # p) s"
    unfolding wild.simps(2) list_ex_iff by auto
qed

lemma wild_char: "c \<noteq> CHR ''*'' \<Longrightarrow> wild (c # p) s \<longleftrightarrow> (\<exists>t. s = c # t \<and> wild p t)"
  by (auto simp: wild.simps(2) split: list.split)

lemma wild_literal:
  "CHR ''*'' \<notin> set l \<Longrightarrow> wild (l @ p) s \<longleftrightarrow> (\<exists>t. s = l @ t \<and> wild p t)"
proof (induction l arbitrary: s)
  case (Cons c l)
  then have "c \<noteq> CHR ''*''" by auto
  with Cons show ?case by (auto simp: wild_char)
qed simp

lemma suffix_twice: "(\<exists>u v. s = u @ v \<and> (\<exists>u' v'. v = u' @ v' \<and> P v')) \<longleftrightarrow> (\<exists>u v. s = u @ v \<and> P v)"
proof
  assume "\<exists>u v. s = u @ v \<and> (\<exists>u' v'. v = u' @ v' \<and> P v')"
  then obtain u u' v' where "s = (u @ u') @ v'" and "P v'" by auto
  then show "\<exists>u v. s = u @ v \<and> P v" by blast
next
  assume "\<exists>u v. s = u @ v \<and> P v"
  then obtain u v where "s = u @ v" and "v = [] @ v" and "P v" by auto
  then show "\<exists>u v. s = u @ v \<and> (\<exists>u' v'. v = u' @ v' \<and> P v')" by blast
qed

lemma wild_stars:
  "wild (CHR ''*'' # p) s \<longleftrightarrow> (\<exists>u v. s = u @ v \<and> wild (dropWhile (\<lambda>c. c = CHR ''*'') p) v)"
proof (induction p arbitrary: s)
  case (Cons c p)
  show ?case
  proof (cases "c = CHR ''*''")
    case True
    have "wild (CHR ''*'' # c # p) s \<longleftrightarrow> (\<exists>u v. s = u @ v \<and> wild (CHR ''*'' # p) v)"
      using True wild_star by blast
    also have "\<dots> \<longleftrightarrow> (\<exists>u v. s = u @ v \<and> wild (dropWhile (\<lambda>c. c = CHR ''*'') p) v)"
      by (simp only: Cons.IH suffix_twice)
    finally show ?thesis using True by simp
  next
    case False
    then show ?thesis by (simp add: wild_star)
  qed
qed (simp add: wild_star)

text \<open>
  Where the code commits to the first place at which a chunk matches, nothing is lost: whatever
  follows begins with a star, which can absorb the difference.
\<close>

lemma wild_absorb:
  assumes "rest \<noteq> []" and "hd rest = CHR ''*''" and "wild rest v"
  shows "wild rest (u @ v)"
proof -
  obtain r where r: "rest = CHR ''*'' # r" using assms(1,2) by (cases rest) auto
  with assms(3) show ?thesis by (auto simp: wild_star) (metis append.assoc)
qed

definition hits :: "string \<Rightarrow> bool \<Rightarrow> string \<Rightarrow> string \<Rightarrow> bool" where
  "hits chunk l s t \<longleftrightarrow> (l \<longrightarrow> t = []) \<and> (\<exists>u. u \<noteq> [] \<and> s = u @ chunk @ t)"

lemma hits_Cons:
  "hits chunk l (c # s) t \<longleftrightarrow> (l \<longrightarrow> t = []) \<and> s = chunk @ t \<or> hits chunk l s t"
proof -
  have "(\<exists>u. u \<noteq> [] \<and> c # s = u @ chunk @ t) \<longleftrightarrow> (\<exists>w. s = w @ chunk @ t)"
    by (auto simp: Cons_eq_append_conv)
  also have "\<dots> \<longleftrightarrow> s = chunk @ t \<or> (\<exists>u. u \<noteq> [] \<and> s = u @ chunk @ t)"
    by (metis append_Nil)
  finally show ?thesis unfolding hits_def by blast
qed

lemma same_chunk_suffix:
  assumes "chunk @ t = w @ chunk @ t'"
  shows "\<exists>x. t = x @ t'"
proof -
  have "t = drop (length chunk) (chunk @ t)" by simp
  also have "\<dots> = drop (length chunk) ((w @ chunk) @ t')" using assms by simp
  also have "\<dots> = drop (length chunk) (w @ chunk) @ t'" by simp
  finally have "t = drop (length chunk) (w @ chunk) @ t'" .
  then show ?thesis by blast
qed

lemma star_skip_first:
  assumes "simple_glob chunk" and "CHR ''/'' \<notin> set s"
  shows "case star_skip chunk l s of
      None \<Rightarrow> False
    | Some None \<Rightarrow> \<forall>t. \<not> hits chunk l s t
    | Some (Some t) \<Rightarrow> hits chunk l s t \<and> (\<forall>t'. hits chunk l s t' \<longrightarrow> (\<exists>x. t = x @ t'))"
  using assms(2)
proof (induction s)
  case (Cons c s)
  then have c: "c \<noteq> CHR ''/''" and nc: "CHR ''/'' \<notin> set s" by auto
  show ?case
  proof (cases "\<exists>t. s = chunk @ t \<and> (l \<longrightarrow> t = [])")
    case True
    then obtain t where t: "s = chunk @ t" "l \<longrightarrow> t = []" by blast
    with c assms(1) have "star_skip chunk l (c # s) = Some (Some t)"
      by (auto simp: glob_chunk_literal)
    moreover have "\<exists>x. t = x @ t'" if "hits chunk l (c # s) t'" for t'
    proof -
      from that obtain w where "s = w @ chunk @ t'"
        by (auto simp: hits_def Cons_eq_append_conv)
      with t(1) show ?thesis using same_chunk_suffix [of chunk t w t'] by simp
    qed
    ultimately show ?thesis using t by (auto simp: hits_Cons)
  next
    case False
    with c assms(1) have sk: "star_skip chunk l (c # s) = star_skip chunk l s"
      by (auto simp: glob_chunk_literal has_prefix_ex)
    have "hits chunk l (c # s) t \<longleftrightarrow> hits chunk l s t" for t
      using False by (auto simp: hits_Cons)
    with Cons.IH [OF nc] show ?thesis unfolding sk by presburger
  qed
qed (simp add: hits_def)

lemma glob_match_cases:
  assumes "scan_chunk pat = (star, chunk, rest)" and "pat \<noteq> []"
  shows "glob_match pat name =
    (if star \<and> chunk = [] then Some (CHR ''/'' \<notin> set name)
     else case glob_chunk False chunk name of
       None \<Rightarrow> None
     | Some res \<Rightarrow>
         (case (case res of None \<Rightarrow> None | Some t \<Rightarrow> if t = [] \<or> rest \<noteq> [] then Some t else None) of
            Some t \<Rightarrow> glob_match rest t
          | None \<Rightarrow>
              if star then
                (case star_skip chunk (rest = []) name of
                   None \<Rightarrow> None
                 | Some (Some t) \<Rightarrow> glob_match rest t
                 | Some None \<Rightarrow> mismatch rest)
              else mismatch rest))"
  using assms by (cases pat) simp_all

lemma glob_match_wild:
  "simple_glob pat \<Longrightarrow> CHR ''/'' \<notin> set name \<Longrightarrow> glob_match pat name = Some (wild pat name)"
proof (induction "length pat" arbitrary: pat name rule: less_induct)
  case less
  show ?case
  proof (cases "pat = []")
    case True
    then show ?thesis by simp
  next
    case ne: False
    obtain star chunk rest where sc: "scan_chunk pat = (star, chunk, rest)"
      by (cases "scan_chunk pat")
    note g = scan_chunk_glob [OF sc less.prems(1)]
    have ih: "glob_match rest t = Some (wild rest t)" if "CHR ''/'' \<notin> set t" for t
      using less.hyps [OF scan_chunk_shorter [OF sc ne] g(2) that] .
    have mm: "mismatch rest = Some False" using rest_ok_simple [OF g(2)] by (simp add: mismatch_def)
    define p where "p = dropWhile (\<lambda>c. c = CHR ''*'') pat"
    have parts: "star = (hd pat = CHR ''*'')" "chunk = takeWhile (\<lambda>c. c \<noteq> CHR ''*'') p"
      "rest = dropWhile (\<lambda>c. c \<noteq> CHR ''*'') p" and p: "p = chunk @ rest"
      using sc ne scan_chunk_simple [OF less.prems(1) p_def] by auto
    have nostar: "CHR ''*'' \<notin> set chunk" using parts(2) by (auto dest: set_takeWhileD)
    have rest: "rest = [] \<or> rest \<noteq> [] \<and> hd rest = CHR ''*''"
      using parts(3) hd_dropWhile [of "\<lambda>c. c \<noteq> CHR ''*''" p] by auto
    have sem: "wild pat name \<longleftrightarrow> (\<exists>u t. name = u @ chunk @ t \<and> (star \<or> u = []) \<and> wild rest t)"
    proof (cases star)
      case True
      then have "pat = CHR ''*'' # tl pat" and "p = dropWhile (\<lambda>c. c = CHR ''*'') (tl pat)"
        using ne parts(1) by (cases pat; simp add: p_def)+
      then have "wild pat name \<longleftrightarrow> (\<exists>u v. name = u @ v \<and> wild p v)"
        using wild_stars [of "tl pat" name] by simp
      with True show ?thesis using wild_literal [OF nostar, of rest] by (auto simp: p)
    next
      case False
      then have "p = pat" using ne parts(1) by (cases pat) (auto simp: p_def)
      with False show ?thesis using wild_literal [OF nostar, of rest] by (auto simp: p)
    qed
    define l where "l = (rest = [])"
    have l: "wild rest t \<Longrightarrow> l \<longrightarrow> t = []" for t by (auto simp: l_def)
    have absorb: "wild rest t" if "t = x @ t'" "wild rest t'" "l \<longrightarrow> t = []" for t x t'
      using that rest wild_absorb [of rest t' x] by (auto simp: l_def)
    consider (trailing) "star" "chunk = []"
      | (here) t where "\<not> (star \<and> chunk = [])" "name = chunk @ t" "l \<longrightarrow> t = []"
      | (later) "\<not> (star \<and> chunk = [])" "\<not> (\<exists>t. name = chunk @ t \<and> (l \<longrightarrow> t = []))"
      by blast
    then show ?thesis
    proof cases
      case trailing
      then have "p = []" using parts hd_dropWhile [of "\<lambda>c. c = CHR ''*''" pat]
        by (auto simp: p_def takeWhile_eq_Nil_iff)
      then have "rest = []" by (simp add: p)
      with trailing less.prems(2) show ?thesis
        by (simp add: glob_match_cases [OF sc ne] sem)
    next
      case here
      then have "glob_match pat name = Some (wild rest t)"
        using less.prems(2) ih [of t] g(1)
        by (auto simp: glob_match_cases [OF sc ne] glob_chunk_literal l_def)
      moreover have "wild rest t \<longleftrightarrow> wild pat name"
      proof
        assume "wild rest t"
        then show "wild pat name" unfolding sem using here(2) by (metis append_Nil)
      next
        assume "wild pat name"
        then obtain u t' where "name = u @ chunk @ t'" and w: "wild rest t'" unfolding sem by blast
        with here(2) obtain x where "t = x @ t'" using same_chunk_suffix [of chunk t u t'] by auto
        then show "wild rest t" using w here(3) by (rule absorb)
      qed
      ultimately show ?thesis by simp
    next
      case later
      have nohere: "(case (if has_prefix name chunk then Some (drop (length chunk) name) else None)
          of None \<Rightarrow> None | Some t \<Rightarrow> if t = [] \<or> rest \<noteq> [] then Some t else None) = None"
        using later(2) by (auto simp: l_def has_prefix_ex)
      then have gm: "glob_match pat name = (if star then
          (case star_skip chunk l name of None \<Rightarrow> None
           | Some (Some t) \<Rightarrow> glob_match rest t | Some None \<Rightarrow> Some False) else Some False)"
        using later(1) g(1)
        by (simp add: glob_match_cases [OF sc ne] glob_chunk_literal l_def mm cong: option.case_cong)
      have sem': "wild pat name \<longleftrightarrow> star \<and> (\<exists>t. hits chunk l name t \<and> wild rest t)"
        using later(2) l unfolding sem hits_def by (metis append_Nil)
      show ?thesis
      proof (cases star)
        case True
        note first = star_skip_first [OF g(1) less.prems(2), of l]
        show ?thesis
        proof (cases "star_skip chunk l name")
          case None
          with first show ?thesis by simp
        next
          case (Some r)
          show ?thesis
          proof (cases r)
            case None
            with Some first gm sem' True show ?thesis by simp
          next
            case t: (Some t)
            with Some first have h: "hits chunk l name t"
              and f: "\<And>t'. hits chunk l name t' \<Longrightarrow> \<exists>x. t = x @ t'" by auto
            have "wild pat name \<longleftrightarrow> wild rest t"
              unfolding sem' using True h f absorb unfolding hits_def by blast
            moreover have "CHR ''/'' \<notin> set t" using h less.prems(2) by (auto simp: hits_def)
            ultimately show ?thesis using gm True Some t ih by simp
          qed
        qed
      qed (use gm sem' in simp)
    qed
  qed
qed

text \<open>The reference semantics of a whole glob, segment by segment.\<close>

inductive segs_rel :: "string list \<Rightarrow> string list \<Rightarrow> bool" where
  nil: "segs_rel [] []"
| many: "segs_rel ps ns \<Longrightarrow> segs_rel (''**'' # ps) (pre @ ns)"
| one: "p \<noteq> ''**'' \<Longrightarrow> wild p n \<Longrightarrow> segs_rel ps ns \<Longrightarrow> segs_rel (p # ps) (n # ns)"

inductive_simps segs_rel_simps: "segs_rel [] ns" "segs_rel (p # ps) ns"

lemma segs_rel_many: "segs_rel (''**'' # ps) ns \<longleftrightarrow> (\<exists>i \<le> length ns. segs_rel ps (drop i ns))"
proof -
  have "segs_rel (''**'' # ps) ns \<longleftrightarrow> (\<exists>pre t. ns = pre @ t \<and> segs_rel ps t)"
    by (auto simp: segs_rel_simps)
  also have "\<dots> \<longleftrightarrow> (\<exists>i \<le> length ns. segs_rel ps (drop i ns))"
    by (metis append_eq_conv_conj append_take_drop_id le_add1 length_append)
  finally show ?thesis .
qed

lemma match_segs_rel:
  "\<forall>p \<in> set ps. simple_glob p \<Longrightarrow> \<forall>n \<in> set ns. CHR ''/'' \<notin> set n \<Longrightarrow>
     match_segs ps ns = segs_rel ps ns"
proof (induction ps ns rule: match_segs.induct)
  case (2 p ps ns)
  show ?case
  proof (cases "p = ''**''")
    case True
    have all: "segs_rel [''**''] ns"
      using segs_rel.many [OF segs_rel.nil, of ns] by simp
    have "match_segs ps (drop i ns) = segs_rel ps (drop i ns)" if "ps \<noteq> []" "i \<le> length ns" for i
    proof (rule 2(1) [OF True])
      show "i \<in> set [0 ..< Suc (length ns)]" using that(2) by auto
      show "\<forall>p \<in> set ps. simple_glob p" using 2(3) by simp
      show "\<forall>n \<in> set (drop i ns). CHR ''/'' \<notin> set n" using 2(4) in_set_dropD by fast
    qed
    then have "match_segs (p # ps) ns = (ps = [] \<or> (\<exists>i \<le> length ns. segs_rel ps (drop i ns)))"
      using True by (auto simp: list_ex_iff atLeastLessThanSuc_atLeastAtMost Bex_def simp del: upt_Suc)
    with True all show ?thesis by (auto simp: segs_rel_many)
  next
    case False
    with 2 show ?thesis
      by (auto simp: segs_rel_simps glob_match_wild split: list.split)
  qed
qed (simp add: segs_rel_simps)

lemma split_on_parts: "x \<in> set (split_on d s) \<Longrightarrow> d \<notin> set x"
  by (induction s arbitrary: x) (auto split: if_splits list.splits)

lemma split_on_chars: "x \<in> set (split_on d s) \<Longrightarrow> set x \<subseteq> set s"
proof (induction s arbitrary: x)
  case (Cons a s)
  then show ?case by (cases "split_on d s") (fastforce split: if_splits)+
qed simp

text \<open>
  C14: matching a path against a glob of stars, double stars and literal text is what the notation
  says, although the code commits to the first place where a piece fits and never returns to an
  earlier star: a star is any text within a segment, a double star any number of segments.
\<close>

theorem match_glob_wild:
  assumes "simple_glob pat"
  shows "match_glob pat path = segs_rel (split_on (CHR ''/'') pat) (split_on (CHR ''/'') path)"
  unfolding match_glob_def
proof (rule match_segs_rel)
  show "\<forall>p \<in> set (split_on (CHR ''/'') pat). simple_glob p"
    using assms split_on_chars unfolding simple_glob_def by blast
  show "\<forall>n \<in> set (split_on (CHR ''/'') path). CHR ''/'' \<notin> set n"
    using split_on_parts by blast
qed

lemma match_glob_wild_witness:
  "segs_rel [''**'', ''*.lock''] [''web'', ''yarn.lock''] \<and> \<not> segs_rel [''**'', ''*.lock''] [''a.lock'', ''b'']"
proof -
  have "match_glob ''**/*.lock'' ''web/yarn.lock'' \<and> \<not> match_glob ''**/*.lock'' ''a.lock/b''"
    by code_simp
  then show ?thesis
    using match_glob_wild [of "''**/*.lock''"] by (simp add: simple_glob_def)
qed

section \<open>Kinds\<close>

text \<open>Everything the manifest says about a resource.\<close>

fun declared :: "manifest \<Rightarrow> ref \<Rightarrow> kind set" where
  "declared m (PathRef p) = (if match_any (m_convergent_paths m) p then {Convergent} else {})
     \<union> (if match_any (m_singular_paths m) p then {Singular} else {})"
| "declared m (ExternalRef n) = {k. k = Forkable \<and> n \<in> m_forkable m \<or> k = Convergent \<and> n \<in> m_convergent m
     \<or> k = Singular \<and> n \<in> m_singular m}"
| "declared m TrunkRef = {Convergent}"
| "declared m (UnknownRef n) = {}"

fun silent_kind :: "ref \<Rightarrow> kind" where
  "silent_kind (PathRef p) = Forkable"
| "silent_kind _ = Singular"

lemma kind_order [simp]:
  "Forkable \<le> k" "k \<le> Singular" "Convergent \<le> Singular" "\<not> Convergent \<le> Forkable"
  "\<not> Singular \<le> Forkable" "\<not> Singular \<le> Convergent"
  by (cases k; simp add: less_eq_kind_def)+

lemma stricter_max: "stricter a b = max a b"
  by (cases "a \<le> b"; cases "b \<le> a") (auto simp: stricter_def max_def)

lemma max_kind [simp]:
  "max Forkable k = k" "max k Forkable = k" "max Singular k = Singular" "max k Singular = Singular"
  by (cases k; simp add: max_def)+

lemma foldl_stricter: "foldl stricter d ds = Max (set (d # ds))"
proof (induction ds arbitrary: d)
  case (Cons a ds)
  have "foldl stricter d (a # ds) = Max (insert (max d a) (set ds))"
    using Cons.IH [of "max d a"] by (simp add: stricter_max [of d a])
  also have "\<dots> = Max (set (d # a # ds))"
    by (cases "ds = []") (simp_all add: max.assoc)
  finally show ?case .
qed simp

lemma set_declarations: "set (declarations m n) = declared m (ExternalRef n)"
  by (auto simp: declarations_def)

lemma classify_max:
  "classify m r = (if declared m r = {} then silent_kind r else Max (declared m r))"
proof (cases r)
  case (ExternalRef n)
  show ?thesis
  proof (cases "declarations m n")
    case Nil
    then have "declared m r = {}" using ExternalRef set_declarations [of m n] by simp
    with Nil ExternalRef show ?thesis by simp
  next
    case (Cons d ds)
    then have "declared m r = set (d # ds)" using ExternalRef set_declarations [of m n] by simp
    with Cons ExternalRef show ?thesis by (simp add: foldl_stricter del: declared.simps)
  qed
qed auto

text \<open>
  Classification is the strictest of what is declared; silence means forkable for a path of the
  working tree and singular for an external or unknown resource.
\<close>

theorem classify_strictest:
  "classify m r = (if declared m r = {} then silent_kind r else Max (declared m r))"
  by (rule classify_max)

text \<open>
  Declarations only raise. If one manifest says about a resource at least what another says, its
  classification is at least as strict; the only way down is the first word about an external
  resource.
\<close>

theorem classify_upward:
  assumes "declared m r \<subseteq> declared m' r" and "declared m r \<noteq> {} \<or> (\<exists>p. r = PathRef p)"
  shows "classify m r \<le> classify m' r"
proof (cases "declared m r = {}")
  case True
  then have "classify m r = Forkable" using assms(2) classify_max [of m r] by auto
  then show ?thesis by simp
next
  case False
  moreover have "finite (declared m' r)"
    by (rule finite_subset [of _ "{Forkable, Convergent, Singular}"]) (use kind.exhaust in auto)
  ultimately have "Max (declared m r) \<le> Max (declared m' r)"
    using assms(1) by (simp add: Max_mono)
  with False assms(1) show ?thesis unfolding classify_max by auto
qed

definition demo_manifest :: manifest where
  "demo_manifest = default_manifest\<lparr>m_convergent_paths := [''**/*.lock''], m_convergent := {''cache''}\<rparr>"

lemma classify_upward_witness:
  "classify demo_manifest (PathRef ''web/yarn.lock'')
     \<le> classify (demo_manifest\<lparr>m_singular_paths := [''web/**'']\<rparr>) (PathRef ''web/yarn.lock'')
   \<and> classify demo_manifest (PathRef ''web/yarn.lock'') = Convergent
   \<and> classify (demo_manifest\<lparr>m_singular_paths := [''web/**'']\<rparr>) (PathRef ''web/yarn.lock'') = Singular"
proof -
  have "classify demo_manifest (PathRef ''web/yarn.lock'')
      \<le> classify (demo_manifest\<lparr>m_singular_paths := [''web/**'']\<rparr>) (PathRef ''web/yarn.lock'')"
    by (rule classify_upward) (auto simp: demo_manifest_def default_manifest_def match_any_def)
  moreover have "classify demo_manifest (PathRef ''web/yarn.lock'') = Convergent
      \<and> classify (demo_manifest\<lparr>m_singular_paths := [''web/**'']\<rparr>) (PathRef ''web/yarn.lock'') = Singular"
    by code_simp
  ultimately show ?thesis by simp
qed

section \<open>Lease keys\<close>

lemmas key_defs = path_key_def external_key_def convergent_prefix_def external_prefix_def trunk_key_def

definition external_look :: "string \<Rightarrow> bool" where
  "external_look p \<longleftrightarrow> has_prefix p ''external:''"

lemma path_external_key: "path_key (''external:'' @ n) = external_key n"
  by (simp add: path_key_def external_key_def external_prefix_def)

lemma path_key_external: "path_key p = external_key n \<longleftrightarrow> p = ''external:'' @ n"
  by (simp add: path_key_def external_key_def external_prefix_def)

lemma key_shows:
  "external_from_key (external_key n) = Some n" "path_from_key (external_key n) = None"
  "\<not> external_look p \<Longrightarrow> path_from_key (path_key p) = Some p"
  "\<not> external_look p \<Longrightarrow> external_from_key (path_key p) = None"
  "path_from_key trunk_key = None" "external_from_key trunk_key = None"
  by (auto simp: external_from_key_def path_from_key_def key_defs external_look_def has_prefix_def trim_prefix_def)

lemma trunk_key_apart: "trunk_key \<noteq> path_key p" "trunk_key \<noteq> external_key n"
  by (auto simp: key_defs)

lemma routed_key:
  "route m r = (Convergent, Some k) \<Longrightarrow>
     (r = TrunkRef \<and> k = trunk_key) \<or> (\<exists>p. r = PathRef p \<and> k = path_key p)
     \<or> (\<exists>n. r = ExternalRef n \<and> k = external_key n)"
  by (cases r) (auto simp: route_def Let_def split: if_splits)



text \<open>
  Without that restriction two different resources share one lease, and the path is displayed as
  the external resource: the prefix of the external keys extends the prefix of the path keys.
\<close>

theorem route_key_collision:
  "\<exists>m p n k. route m (PathRef p) = (Convergent, Some k) \<and> route m (ExternalRef n) = (Convergent, Some k)
     \<and> path_from_key k = None \<and> external_from_key k = Some n"
proof (intro exI conjI)
  let ?m = "demo_manifest\<lparr>m_convergent_paths := [''**'']\<rparr>"
  show "route ?m (PathRef ''external:cache'') = (Convergent, Some (external_key ''cache''))"
    by code_simp
  show "route ?m (ExternalRef ''cache'') = (Convergent, Some (external_key ''cache''))"
    by code_simp
qed (simp_all add: key_shows)

text \<open>
  A key travels. What \<open>classify.route\<close> answers for a convergent resource is a string that the
  \<open>lease.*\<close> methods accept and decode to the very key that the classifier routed to.
\<close>

theorem route_key_travels:
  assumes "classify_params p = Inr r" and "route m r = (Convergent, Some k)"
  shows "route_handler m p = Inr (JObj [(''kind'', JStr ''convergent''), (''lease_key'', JStr (b64_encode k))])
    \<and> key_param (Some (JObj [(''key'', JStr (b64_encode k))])) = Inr k"
proof -
  have "k \<noteq> []" using routed_key [OF assms(2)] by (auto simp: key_defs)
  then show ?thesis
    using assms by (simp add: route_handler_def key_param_def params_required_def str_field_def
        field_def same_key_def opt_value_def decode_key_def)
qed

lemma route_key_travels_witness:
  "key_param (Some (JObj [(''key'', JStr (b64_encode trunk_key))])) = Inr trunk_key"
  using route_key_travels [of "Some (JObj [(''domain'', JStr ''trunk'')])" TrunkRef default_manifest trunk_key]
  by (simp add: classify_params_def params_optional_def str_field_def field_def same_key_def ref_of_def
      route_def)

end
