(* ===== verification/LockService.thy ===== *)
theory LockService
  imports LedgerRpc
begin

text \<open>
  The interface between the ledger and the components that serialise on it (\<open>LeaseGate\<close> of the
  integrator and of the singular gate, adapted in \<open>internal/app/compose.go\<close>): the operations as a
  record, the laws a client relies on as the locale \<open>lock_service\<close>, and the proof that the ledger keeps
  them, whichever of its statements fail.
\<close>

record 's lease_gate =
  lg_acquire :: "int \<Rightarrow> string \<Rightarrow> string \<Rightarrow> int \<Rightarrow> ('s, bool \<times> string) eff"
  lg_renew :: "int \<Rightarrow> string \<Rightarrow> string \<Rightarrow> int \<Rightarrow> ('s, bool) eff"
  lg_release :: "string \<Rightarrow> string \<Rightarrow> ('s, bool) eff"

text \<open>An audit closure: session, kind, payload; its error is dropped.\<close>

type_synonym 's audit_fun = "string \<Rightarrow> string \<Rightarrow> payload \<Rightarrow> ('s, unit) eff"

section \<open>The laws\<close>

locale lock_service =
  fixes gate :: "'s lease_gate"
    and audit :: "'s audit_fun"
    and holds :: "int \<Rightarrow> string \<Rightarrow> string \<Rightarrow> 's \<Rightarrow> bool"
    and ok :: "'s \<Rightarrow> bool"
  assumes holds_unique: "holds now k h s \<Longrightarrow> holds now k h' s \<Longrightarrow> h = h'"
    and acquire_granted: "ok s \<Longrightarrow> lg_acquire gate now k h ttl s = (Inr (True, x), s') \<Longrightarrow>
      (\<forall>y. \<not> holds now k y s) \<and> (now < deadline now ttl \<longrightarrow> holds now k h s')"
    and acquire_refused: "ok s \<Longrightarrow> lg_acquire gate now k h ttl s = (Inr (False, x), s') \<Longrightarrow>
      holds now k y s \<Longrightarrow> x = y \<and> holds now k y s'"
    and renew_done: "ok s \<Longrightarrow> lg_renew gate now k h ttl s = (Inr True, s') \<Longrightarrow>
      holds now k h s \<and> (now < deadline now ttl \<longrightarrow> holds now k h s')"
    and release_mine: "ok s \<Longrightarrow> lg_release gate k h s = (Inr b, s') \<Longrightarrow> h \<noteq> [] \<Longrightarrow> \<not> holds now k h s'"
    and others_keep: "ok s \<Longrightarrow> holds now' k' h' s \<Longrightarrow> h' \<noteq> h \<Longrightarrow> now \<le> now' \<Longrightarrow>
      holds now' k' h' (snd (lg_acquire gate now k h ttl s))
      \<and> holds now' k' h' (snd (lg_renew gate now k h ttl s))
      \<and> holds now' k' h' (snd (lg_release gate k h s))"
    and audit_keeps: "holds now k h (snd (audit sess kind p s)) = holds now k h s"
    and stays_ok: "ok s \<Longrightarrow> ok (snd (lg_acquire gate now k h ttl s)) \<and> ok (snd (lg_renew gate now k h ttl s))
      \<and> ok (snd (lg_release gate k h s)) \<and> ok (snd (audit sess kind p s))"
begin

lemma acquire_excludes:
  "ok s \<Longrightarrow> holds now k h' s \<Longrightarrow> lg_acquire gate now k h ttl s = (Inr (b, x), s') \<Longrightarrow> b = False \<and> x = h'"
  using acquire_granted [of s now k h ttl x s'] acquire_refused [of s now k h ttl x s' h']
  by (cases b) auto

lemma renew_excludes:
  "ok s \<Longrightarrow> holds now k h' s \<Longrightarrow> h' \<noteq> h \<Longrightarrow> lg_renew gate now k h ttl s = (Inr b, s') \<Longrightarrow> b = False"
  using renew_done [of s now k h ttl s'] holds_unique [of now k h s h'] by (cases b) auto

end

section \<open>The ledger provides them\<close>

definition ledger_acquire :: "int \<Rightarrow> string \<Rightarrow> string \<Rightarrow> int \<Rightarrow> (ledger, bool \<times> string) eff" where
  "ledger_acquire now k h ttl =
     andThen (acquire now k h ttl) (\<lambda>res. ret (ar_granted res, ar_holder res))"

definition ledger_renew :: "int \<Rightarrow> string \<Rightarrow> string \<Rightarrow> int \<Rightarrow> (ledger, bool) eff" where
  "ledger_renew now k h ttl = andThen (renew now k h ttl) (\<lambda>(ok, e). ret ok)"

definition ledger_gate :: "ledger lease_gate" where
  "ledger_gate = \<lparr>lg_acquire = ledger_acquire, lg_renew = ledger_renew, lg_release = release\<rparr>"

text \<open>The audit closures of \<open>Build\<close>: they differ in the project they record; the time is their own
  reading of the clock.\<close>

definition ledger_audit :: "string \<Rightarrow> int \<Rightarrow> ledger audit_fun" where
  "ledger_audit project now session kind p = ignoring (sink_append
     \<lparr>rec_time = now, rec_session = session, rec_project = project, rec_kind = kind, rec_payload = p\<rparr>)"

definition ledger_holds :: "int \<Rightarrow> string \<Rightarrow> string \<Rightarrow> ledger \<Rightarrow> bool" where
  "ledger_holds now k h d = held_by now k h (tabs d)"

definition ledger_ok :: "ledger \<Rightarrow> bool" where
  "ledger_ok d = ledger_wf (tabs d)"

lemma ledger_gate_runs:
  "snd (lg_acquire ledger_gate now k h ttl d) = run_op now (Acquire k h ttl) d"
  "snd (lg_renew ledger_gate now k h ttl d) = run_op now (Renew k h ttl) d"
  "snd (lg_release ledger_gate k h d) = run_op now (Release k h) d"
  by (auto simp: ledger_gate_def ledger_acquire_def ledger_renew_def andThen_eq split: sum.split)

lemma ledger_audit_runs:
  "snd (ledger_audit project t sess kind p d) = run_op now
     (Append \<lparr>rec_time = t, rec_session = sess, rec_project = project, rec_kind = kind, rec_payload = p\<rparr>) d"
  by (simp add: ledger_audit_def)

lemma run_op_wf: "ledger_wf (tabs d) \<Longrightarrow> ledger_wf (tabs (run_op now op d))"
  using wf_run [of d "[(now, op)]"] by simp

lemma foreign_kept_run:
  assumes "f \<in> set (lease_stmts now op)" and "op \<in> {Acquire k h ttl, Renew k h ttl, Release k h}"
  shows "foreign_kept h now t (snd (f t))"
  using assms by (auto split: if_splits)

definition others_kept :: "string \<Rightarrow> int \<Rightarrow> ledger_tabs \<Rightarrow> ledger_tabs \<Rightarrow> bool" where
  "others_kept h now t t' \<longleftrightarrow> (\<forall>k r. find_lease k t = Some r \<and> l_holder r \<noteq> [] \<and> l_holder r \<noteq> h
     \<and> now < l_expires r \<longrightarrow> find_lease k t' = Some r)"

lemma others_kept_order [simp]: "reflp (others_kept h now)" "transp (others_kept h now)"
  by (simp_all add: others_kept_def reflp_def transp_def)

lemma others_kept_run:
  assumes "op \<in> {Acquire k h ttl, Renew k h ttl, Release k h}"
  shows "others_kept h now (tabs d) (tabs (run_op now op d))"
proof (rule run_op_in [OF others_kept_order])
  show "side_stmts_in (others_kept h now)"
    by (rule side_stmts_leases) (simp add: others_kept_def)
  show "others_kept h now t (snd (f t))" if "f \<in> set (lease_stmts now op)" for f t
    using foreign_kept_run [OF that assms] by (simp add: others_kept_def foreign_kept_def)
qed

lemma others_kept_holds:
  "others_kept h now (tabs d) (tabs d') \<Longrightarrow> ledger_holds now' k h' d \<Longrightarrow> h' \<noteq> h \<Longrightarrow> now \<le> now' \<Longrightarrow>
     ledger_holds now' k h' d'"
  by (force simp: others_kept_def ledger_holds_def held_by_def row_held_def)

lemma ledger_acquire_Inr:
  "lg_acquire ledger_gate now k h ttl d = (Inr (b, x), d') \<Longrightarrow>
     \<exists>res. acquire now k h ttl d = (Inr res, d') \<and> b = ar_granted res \<and> x = ar_holder res"
  by (auto simp: ledger_gate_def ledger_acquire_def andThen_Inr)

lemma ledger_renew_Inr:
  "lg_renew ledger_gate now k h ttl d = (Inr b, d') \<Longrightarrow> \<exists>e. renew now k h ttl d = (Inr (b, e), d')"
  by (auto simp: ledger_gate_def ledger_renew_def andThen_Inr)

lemma ledger_acquire_laws:
  assumes "ledger_ok d" and "lg_acquire ledger_gate now k h ttl d = (Inr (b, x), d')"
  shows "if b then (\<forall>y. \<not> ledger_holds now k y d) \<and> (now < deadline now ttl \<longrightarrow> ledger_holds now k h d')
    else \<forall>y. ledger_holds now k y d \<longrightarrow> x = y \<and> ledger_holds now k y d'"
proof -
  obtain res where a: "acquire now k h ttl d = (Inr res, d')" and r: "b = ar_granted res" "x = ar_holder res"
    using ledger_acquire_Inr [OF assms(2)] by blast
  have wf: "ledger_wf (tabs d)" using assms(1) by (simp add: ledger_ok_def)
  have "h \<noteq> []" using acquire_Inr [OF a wf] by simp
  moreover have "find_lease k (tabs d') = find_lease k (tabs d)" if "leases (tabs d') = leases (tabs d)"
    using that by (simp add: find_lease_def)
  ultimately show ?thesis
    using acquire_outcome [OF a wf] r
    by (auto simp: ledger_holds_def dest: held_by_not_takeable)
      (auto simp: held_by_def row_held_def info_now_def info_of_def)
qed

lemma ledger_renew_laws:
  assumes "ledger_ok d" and "lg_renew ledger_gate now k h ttl d = (Inr True, d')"
  shows "ledger_holds now k h d \<and> (now < deadline now ttl \<longrightarrow> ledger_holds now k h d')"
proof -
  obtain e where r: "renew now k h ttl d = (Inr (True, e), d')"
    using ledger_renew_Inr [OF assms(2)] by blast
  show ?thesis
    using renew_outcome [OF _ r] assms(1)
    by (auto simp: ledger_ok_def ledger_holds_def held_by_def row_held_def)
qed

lemma ledger_release_law:
  assumes "ledger_ok d" and "lg_release ledger_gate k h d = (Inr b, d')" and "h \<noteq> []"
  shows "\<not> ledger_holds now k h d'"
proof -
  have "release k h d = (Inr b, d')" using assms(2) by (simp add: ledger_gate_def)
  then show ?thesis
    using release_outcome [of d k h b d'] assms(1,3)
    by (auto simp: ledger_ok_def ledger_holds_def held_by_def row_held_def recorded_holder_def
        split: if_splits option.splits)
qed

interpretation ledger_lock: lock_service ledger_gate "ledger_audit project now0" ledger_holds ledger_ok
proof unfold_locales
  show "h = h'" if "ledger_holds now k h d" "ledger_holds now k h' d" for now k h h' d
    using that held_by_unique by (simp add: ledger_holds_def)
  show "(\<forall>y. \<not> ledger_holds now k y d) \<and> (now < deadline now ttl \<longrightarrow> ledger_holds now k h d')"
    if "ledger_ok d" "lg_acquire ledger_gate now k h ttl d = (Inr (True, x), d')" for d now k h ttl x d'
    using ledger_acquire_laws [OF that] by simp
  show "x = y \<and> ledger_holds now k y d'"
    if "ledger_ok d" "lg_acquire ledger_gate now k h ttl d = (Inr (False, x), d')" "ledger_holds now k y d"
    for d now k h ttl x d' y
    using ledger_acquire_laws [OF that(1,2)] that(3) by simp
  show "ledger_holds now k h d \<and> (now < deadline now ttl \<longrightarrow> ledger_holds now k h d')"
    if "ledger_ok d" "lg_renew ledger_gate now k h ttl d = (Inr True, d')" for d now k h ttl d'
    using that ledger_renew_laws by blast
  show "\<not> ledger_holds now k h d'"
    if "ledger_ok d" "lg_release ledger_gate k h d = (Inr b, d')" "h \<noteq> []" for d k h b d' now
    using that ledger_release_law by blast
  show "ledger_holds now' k' h' (snd (lg_acquire ledger_gate now k h ttl d))
      \<and> ledger_holds now' k' h' (snd (lg_renew ledger_gate now k h ttl d))
      \<and> ledger_holds now' k' h' (snd (lg_release ledger_gate k h d))"
    if "ledger_ok d" "ledger_holds now' k' h' d" "h' \<noteq> h" "now \<le> now'" for d now' k' h' h now k ttl
    using others_kept_holds [OF others_kept_run that(2-4)]
    by (simp add: ledger_gate_runs(1,2) ledger_gate_runs(3) [where now = now] del: run_op.simps)
  show "ledger_holds now k h (snd (ledger_audit project now0 sess kind p d)) = ledger_holds now k h d"
    for now k h sess kind p d
    by (auto simp: ledger_audit_def ledger_holds_def held_by_def sink_append_def sql_def split: list.split option.split)
  show "ledger_ok (snd (lg_acquire ledger_gate now k h ttl d)) \<and> ledger_ok (snd (lg_renew ledger_gate now k h ttl d))
      \<and> ledger_ok (snd (lg_release ledger_gate k h d)) \<and> ledger_ok (snd (ledger_audit project now0 sess kind p d))"
    if "ledger_ok d" for d now k h ttl sess kind p
    using that run_op_wf [of d]
    by (simp add: ledger_ok_def ledger_gate_runs(1,2) ledger_gate_runs(3) [where now = now]
        ledger_audit_runs [where now = now] del: run_op.simps)
qed

end
