(* ===== verification/Singular.thy ===== *)
theory Singular
  imports LockService ManifestFacts
begin

text \<open>
  The singular gate (\<open>internal/singular\<close>): the default-deny decision for a resource with external side
  effects, and its supervised grants, which are leases of a per-resource key.
\<close>

section \<open>The decision\<close>

datatype grant_mode = Deny | Mock | Proxy | Supervised

fun mode_string :: "grant_mode \<Rightarrow> string" where
  "mode_string Mock = ''mock''"
| "mode_string Proxy = ''proxy''"
| "mode_string Supervised = ''supervised''"
| "mode_string Deny = ''deny''"

definition normalize_mode :: "string \<Rightarrow> grant_mode" where
  "normalize_mode s =
     (let t = to_lower (trim_space s) in
      if t = ''mock'' then Mock else if t = ''proxy'' then Proxy
      else if t = ''supervised'' then Supervised else Deny)"

record gate_conf =
  gc_classify :: "ref \<Rightarrow> kind"
  gc_grants :: "string \<Rightarrow> grant option"
  gc_ttl :: int

text \<open>\<open>New\<close> with the options that \<open>Build\<close> passes: the classifier and the grants of the manifest.\<close>

definition new_gate :: "manifest \<Rightarrow> int \<Rightarrow> gate_conf" where
  "new_gate m grant_ttl_ms = \<lparr>gc_classify = classify m, gc_grants = m_grants m,
     gc_ttl = (if millis grant_ttl_ms \<le> 0 then 120 * 10 ^ 9 else millis grant_ttl_ms)\<rparr>"

record resolution =
  rs_resource :: string
  rs_singular :: bool
  rs_mode :: grant_mode
  rs_reason :: err

definition resolve :: "gate_conf \<Rightarrow> string \<Rightarrow> resolution" where
  "resolve g resource =
     (if gc_classify g (ExternalRef resource) \<noteq> kind.Singular then
        \<lparr>rs_resource = resource, rs_singular = False, rs_mode = Deny,
         rs_reason = Msg ''not singular (gate not responsible)''\<rparr>
      else case gc_grants g resource of
        None \<Rightarrow> \<lparr>rs_resource = resource, rs_singular = True, rs_mode = Deny,
          rs_reason = Msg ''no grant declared (default-deny)''\<rparr>
      | Some gr \<Rightarrow>
          (let mode = normalize_mode (g_mode gr) in
           if mode = Supervised \<and> trim_space (g_endpoint gr) = [] then
             \<lparr>rs_resource = resource, rs_singular = True, rs_mode = Deny,
              rs_reason = Msg ''supervised grant has no endpoint (default-deny)''\<rparr>
           else
             \<lparr>rs_resource = resource, rs_singular = True, rs_mode = mode,
              rs_reason = (if mode = Deny then Fmt ''unknown grant mode %q (default-deny)'' [g_mode gr]
                else Msg [])\<rparr>))"

definition sentinel :: "string \<Rightarrow> string \<Rightarrow> string" where
  "sentinel k resource = ''mad-trellis-'' @ k @ ''://'' @ resource"

definition env_name :: "string \<Rightarrow> string" where
  "env_name resource = ''MAD_SINGULAR_'' @ map (\<lambda>r.
     if 65 \<le> r \<and> r \<le> 90 \<or> 48 \<le> r \<and> r \<le> 57 \<or> r = 95 then char_of r else CHR ''_'') (runes (to_upper resource))"

definition singular_key :: "string \<Rightarrow> string" where
  "singular_key resource = ''mad-trellis:singular:v1:'' @ resource"

definition singular_payload :: "string \<Rightarrow> string \<Rightarrow> payload" where
  "singular_payload resource detail = PQuoted [(''resource'', resource), (''detail'', detail)]"

record access =
  ac_resource :: string
  ac_mode :: grant_mode
  ac_granted :: bool
  ac_real :: bool
  ac_env :: "(string \<times> string) list"
  ac_reason :: err

section \<open>Requests\<close>

definition mediated :: "string \<Rightarrow> grant_mode \<Rightarrow> bool \<Rightarrow> string \<Rightarrow> err \<Rightarrow> access" where
  "mediated resource mode granted label reason = \<lparr>ac_resource = resource, ac_mode = mode,
     ac_granted = granted, ac_real = False, ac_env = [(env_name resource, sentinel label resource)],
     ac_reason = reason\<rparr>"

definition reachable :: "gate_conf \<Rightarrow> string \<Rightarrow> access" where
  "reachable g resource = \<lparr>ac_resource = resource, ac_mode = Supervised, ac_granted = True,
     ac_real = True, ac_env = [(env_name resource,
       case gc_grants g resource of None \<Rightarrow> [] | Some gr \<Rightarrow> g_endpoint gr)], ac_reason = Msg []\<rparr>"

text \<open>
  The branch of a supervised grant, at the reading of the clock of the acquire and of the renewal.
  A failing renewal of the caller's own lease falls through to the denial.
\<close>

definition request_supervised ::
  "gate_conf \<Rightarrow> 's lease_gate \<Rightarrow> 's audit_fun \<Rightarrow> int \<Rightarrow> int \<Rightarrow> string \<Rightarrow> string \<Rightarrow> ('s, access) eff" where
  "request_supervised g lg audit t1 t2 session resource =
     andThen (lg_acquire lg t1 (singular_key resource) session (gc_ttl g)) (\<lambda>(granted, holder).
     if granted then
       andThen (audit session ''singular.granted'' (singular_payload resource ''supervised'')) (\<lambda>_.
       ret (reachable g resource))
     else
       andThen (if holder = session then attempt (lg_renew lg t2 (singular_key resource) session (gc_ttl g))
                else ret (Inr False)) (\<lambda>renewed.
       if renewed = Inr True then
         andThen (audit session ''singular.granted'' (singular_payload resource ''supervised-renew'')) (\<lambda>_.
         ret (reachable g resource))
       else
         andThen (audit session ''singular.denied'' (singular_payload resource ''supervised-busy'')) (\<lambda>_.
         ret (mediated resource Supervised False ''denied''
           (Msg ''supervised grant held by another session'')))))"

definition request ::
  "gate_conf \<Rightarrow> 's lease_gate \<Rightarrow> 's audit_fun \<Rightarrow> int \<Rightarrow> int \<Rightarrow> string \<Rightarrow> string \<Rightarrow> ('s, access) eff" where
  "request g lg audit t1 t2 session resource =
     (let r = resolve g resource in
      if \<not> rs_singular r then
        ret \<lparr>ac_resource = resource, ac_mode = Deny, ac_granted = False, ac_real = False, ac_env = [],
             ac_reason = rs_reason r\<rparr>
      else case rs_mode r of
        Mock \<Rightarrow>
          andThen (audit session ''singular.granted'' (singular_payload resource ''mock'')) (\<lambda>_.
          ret (mediated resource Mock True ''mock'' (Msg [])))
      | Proxy \<Rightarrow>
          andThen (audit session ''singular.granted'' (singular_payload resource ''proxy'')) (\<lambda>_.
          ret (mediated resource Proxy True ''proxy'' (Msg [])))
      | Supervised \<Rightarrow> request_supervised g lg audit t1 t2 session resource
      | Deny \<Rightarrow>
          andThen (audit session ''singular.denied'' (singular_payload resource ''no-grant'')) (\<lambda>_.
          ret (mediated resource Deny False ''denied'' (rs_reason r))))"

definition gate_renew :: "gate_conf \<Rightarrow> 's lease_gate \<Rightarrow> int \<Rightarrow> string \<Rightarrow> string \<Rightarrow> ('s, bool) eff" where
  "gate_renew g lg now session resource =
     lg_renew lg now (singular_key resource) session (gc_ttl g)"

definition release_supervised :: "'s lease_gate \<Rightarrow> string \<Rightarrow> string \<Rightarrow> ('s, bool) eff" where
  "release_supervised lg session resource = lg_release lg (singular_key resource) session"

section \<open>The RPC surface\<close>

definition resource_param :: "json option \<Rightarrow> rpc_error + string" where
  "resource_param p = (case params_required p of
       Inl e \<Rightarrow> Inl e
     | Inr kvs \<Rightarrow> (case opt_value (str_field ''resource'' kvs) of
         Inl e \<Rightarrow> Inl e
       | Inr r \<Rightarrow> if r = [] then Inl (new_error code_invalid_params (Msg ''resource required'')) else Inr r))"

text \<open>The text of a reason, whose \<open>%q\<close> is \<open>fmt\<close>'s: \<open>show_err\<close> renders it.\<close>

definition resolve_handler :: "(err \<Rightarrow> string) \<Rightarrow> gate_conf \<Rightarrow> json option \<Rightarrow> rpc_error + json" where
  "resolve_handler show_err g p = (case resource_param p of
       Inl e \<Rightarrow> Inl e
     | Inr res \<Rightarrow> (let r = resolve g res in Inr (JObj [
         (''resource'', JStr (rs_resource r)), (''singular'', JBool (rs_singular r)),
         (''mode'', JStr (mode_string (rs_mode r))), (''reason'', JStr (show_err (rs_reason r)))])))"

definition access_json :: "(err \<Rightarrow> string) \<Rightarrow> access \<Rightarrow> json" where
  "access_json show_err a = JObj [
     (''resource'', JStr (ac_resource a)), (''mode'', JStr (mode_string (ac_mode a))),
     (''granted'', JBool (ac_granted a)), (''real_reachable'', JBool (ac_real a)),
     (''env'', if ac_env a = [] then JNull else JObj (map (\<lambda>(k, v). (k, JStr v)) (ac_env a))),
     (''reason'', JStr (show_err (ac_reason a)))]"

definition request_handler ::
  "(err \<Rightarrow> string) \<Rightarrow> gate_conf \<Rightarrow> 's lease_gate \<Rightarrow> 's audit_fun \<Rightarrow> int \<Rightarrow> int \<Rightarrow> string \<Rightarrow> json option
     \<Rightarrow> ('s, json) handled" where
  "request_handler show_err g lg audit t1 t2 session p =
     checked (resource_param p) (\<lambda>res.
     served (request g lg audit t1 t2 session res) (access_json show_err))"

definition gate_renew_handler ::
  "gate_conf \<Rightarrow> 's lease_gate \<Rightarrow> int \<Rightarrow> string \<Rightarrow> json option \<Rightarrow> ('s, json) handled" where
  "gate_renew_handler g lg now session p =
     checked (resource_param p) (\<lambda>res.
     served (gate_renew g lg now session res) (\<lambda>b. JObj [(''ok'', JBool b)]))"

definition gate_release_handler ::
  "'s lease_gate \<Rightarrow> string \<Rightarrow> json option \<Rightarrow> ('s, json) handled" where
  "gate_release_handler lg session p =
     checked (resource_param p) (\<lambda>res.
     served (release_supervised lg session res) (\<lambda>b. JObj [(''ok'', JBool b)]))"

section \<open>What a request can disclose\<close>

definition supervised_grant :: "gate_conf \<Rightarrow> string \<Rightarrow> grant \<Rightarrow> bool" where
  "supervised_grant g resource gr \<longleftrightarrow> gc_classify g (ExternalRef resource) = kind.Singular
     \<and> gc_grants g resource = Some gr \<and> normalize_mode (g_mode gr) = Supervised
     \<and> trim_space (g_endpoint gr) \<noteq> []"

lemma resolve_supervised:
  "rs_singular (resolve g res) \<and> rs_mode (resolve g res) = Supervised \<longleftrightarrow> (\<exists>gr. supervised_grant g res gr)"
  by (auto simp: resolve_def supervised_grant_def Let_def split: option.split)

lemma mediated_simps [simp]:
  "ac_real (mediated res m b l e) = False" "ac_granted (mediated res m b l e) = b"
  "ac_env (mediated res m b l e) = [(env_name res, sentinel l res)]"
  by (simp_all add: mediated_def)

lemma reachable_simps [simp]: "ac_real (reachable g res)" "ac_granted (reachable g res)"
  by (simp_all add: reachable_def)

definition discloses_nothing :: "string \<Rightarrow> access \<Rightarrow> bool" where
  "discloses_nothing res a \<longleftrightarrow> ac_env a = []
     \<or> (\<exists>label \<in> {''mock'', ''proxy'', ''denied''}. ac_env a = [(env_name res, sentinel label res)])"

context lock_service
begin

lemma request_supervised_cases:
  assumes "ok s" and "request_supervised g gate audit t1 t2 session res s = (Inr a, s')"
  shows "(a = reachable g res \<and> (\<exists>t \<in> {t1, t2}. t < deadline t (gc_ttl g) \<longrightarrow> holds t (singular_key res) session s')
          \<and> (\<forall>y. holds t1 (singular_key res) y s \<longrightarrow> y = session))
    \<or> a = mediated res Supervised False ''denied'' (Msg ''supervised grant held by another session'')"
proof -
  obtain granted holder s1 where acq: "lg_acquire gate t1 (singular_key res) session (gc_ttl g) s =
      (Inr (granted, holder), s1)"
    using assms(2) by (auto simp: request_supervised_def andThen_Inr)
  have ok1: "ok s1" using stays_ok [OF assms(1)] acq by (metis snd_conv)
  show ?thesis
  proof (cases granted)
    case True
    have "a = reachable g res \<and> s' = snd (audit session ''singular.granted'' (singular_payload res ''supervised'') s1)"
      using assms(2) acq True by (auto simp: request_supervised_def andThen_Inr dest: sym)
    moreover have "(\<forall>y. \<not> holds t1 (singular_key res) y s)
        \<and> (t1 < deadline t1 (gc_ttl g) \<longrightarrow> holds t1 (singular_key res) session s1)"
      using acquire_granted [OF assms(1)] acq True by simp
    ultimately show ?thesis using audit_keeps by auto
  next
    case ng: False
    define ren where "ren = lg_renew gate t2 (singular_key res) session (gc_ttl g) s1"
    show ?thesis
    proof (cases "holder = session \<and> fst ren = Inr True")
      case True
      then have r: "lg_renew gate t2 (singular_key res) session (gc_ttl g) s1 = (Inr True, snd ren)"
        by (cases ren) (auto simp: ren_def)
      have "a = reachable g res
          \<and> s' = snd (audit session ''singular.granted'' (singular_payload res ''supervised-renew'') (snd ren))"
        using assms(2) acq ng True r
        by (auto simp: request_supervised_def andThen_Inr ren_def [symmetric] dest: sym)
      moreover have "t2 < deadline t2 (gc_ttl g) \<longrightarrow> holds t2 (singular_key res) session (snd ren)"
        using renew_done [OF ok1 r] by simp
      moreover have "holds t1 (singular_key res) y s \<Longrightarrow> y = session" for y
        using acquire_refused [OF assms(1)] acq ng True by fastforce
      ultimately show ?thesis using audit_keeps by auto
    next
      case False
      then show ?thesis
        using assms(2) acq ng
        by (auto simp: request_supervised_def andThen_Inr ren_def split: if_splits)
    qed
  qed
qed

lemma request_discloses:
  assumes "ok s" and "request g gate audit t1 t2 session res s = (Inr a, s')"
  shows "if ac_real a then a = reachable g res \<and> (\<exists>gr. supervised_grant g res gr)
       \<and> (\<exists>t \<in> {t1, t2}. t < deadline t (gc_ttl g) \<longrightarrow> holds t (singular_key res) session s')
       \<and> (\<forall>y. holds t1 (singular_key res) y s \<longrightarrow> y = session)
     else discloses_nothing res a"
proof (cases "rs_singular (resolve g res) \<and> rs_mode (resolve g res) = Supervised")
  case True
  then have "request_supervised g gate audit t1 t2 session res s = (Inr a, s')"
    using assms(2) by (simp add: request_def Let_def)
  from request_supervised_cases [OF assms(1) this] True show ?thesis
    by (auto simp: resolve_supervised discloses_nothing_def)
next
  case False
  then show ?thesis
    using assms(2)
    by (auto simp: request_def Let_def andThen_Inr discloses_nothing_def split: if_splits grant_mode.splits)
qed

end


definition demo_gate :: gate_conf where
  "demo_gate = new_gate (default_manifest\<lparr>m_grants :=
     [''pay'' \<mapsto> \<lparr>g_mode = ''Supervised'', g_endpoint = ''https://pay''\<rparr>]\<rparr>) 0"


end
