(* ===== verification/Resume.thy ===== *)
theory Resume
  imports Prelude
begin

text \<open>
  Programs that run beside each other. A \<open>prog\<close> is a goroutine cut at its atomic actions (one database
  statement, one external command, one call of a service): \<open>run\<close> executes it alone, \<open>pool_step\<close> lets a
  pool of programs and an environment take turns. \<open>obeys\<close> is the rely-guarantee judgement: started in
  a state, under any interference along \<open>E\<close>, every action of the program keeps the invariant \<open>I\<close> and
  stays within \<open>E\<close> and the guarantee \<open>G\<close>.
\<close>

named_theorems run_simps \<open>execution of programs\<close>
named_theorems obeys_intros \<open>composition rules of the rely-guarantee judgement\<close>

section \<open>Programs\<close>

datatype ('s, 'a) prog = Done 'a | Act "'s \<Rightarrow> ('s, 'a) prog \<times> 's"

primrec pbind :: "('s, 'a) prog \<Rightarrow> ('a \<Rightarrow> ('s, 'b) prog) \<Rightarrow> ('s, 'b) prog" where
  "pbind (Done x) f = f x"
| "pbind (Act k) f = Act (\<lambda>s. map_prod (\<lambda>p. pbind p f) id (k s))"

definition atomic :: "('s \<Rightarrow> 'a \<times> 's) \<Rightarrow> ('s, 'a) prog" where
  "atomic m = Act (\<lambda>s. case m s of (x, s') \<Rightarrow> (Done x, s'))"

text \<open>A call whose error is returned to the caller's caller.\<close>

definition pthen :: "('s, 'e + 'a) prog \<Rightarrow> ('a \<Rightarrow> ('s, 'e + 'b) prog) \<Rightarrow> ('s, 'e + 'b) prog" where
  "pthen m f = pbind m (\<lambda>r. case r of Inl e \<Rightarrow> Done (Inl e) | Inr x \<Rightarrow> f x)"

primrec run :: "('s, 'a) prog \<Rightarrow> 's \<Rightarrow> 'a \<times> 's" where
  "run (Done x) = (\<lambda>s. (x, s))"
| "run (Act k) = (\<lambda>s. case map_prod run id (k s) of (r, s') \<Rightarrow> r s')"

lemma run_atomic [run_simps, simp]: "run (atomic m) s = m s"
  by (simp add: atomic_def split: prod.split)

lemma run_bind [run_simps]: "run (pbind p f) s = (case run p s of (x, s') \<Rightarrow> run (f x) s')"
proof (induction p arbitrary: s)
  case (Act k)
  obtain p s' where k: "k s = (p, s')" by (cases "k s")
  then have "run (pbind p f) s' = (case run p s' of (x, t) \<Rightarrow> run (f x) t)"
    by (intro Act.IH [of "(p, s')"]) (auto intro!: range_eqI [where x = s])
  with k show ?case by simp
qed simp

lemma run_then [run_simps]:
  "run (pthen p f) s = (case run p s of (Inl e, s') \<Rightarrow> (Inl e, s') | (Inr x, s') \<Rightarrow> run (f x) s')"
  by (auto simp: pthen_def run_bind split: prod.split sum.split)

section \<open>Rely and guarantee\<close>

inductive obeys :: "('s \<Rightarrow> 's \<Rightarrow> bool) \<Rightarrow> ('s \<Rightarrow> bool) \<Rightarrow> ('s \<Rightarrow> 's \<Rightarrow> bool) \<Rightarrow> ('a \<Rightarrow> 's \<Rightarrow> bool)
     \<Rightarrow> ('s, 'a) prog \<Rightarrow> 's \<Rightarrow> bool" for E I G Q where
  done_: "(\<And>s. E s0 s \<Longrightarrow> I s \<Longrightarrow> Q x s) \<Longrightarrow> obeys E I G Q (Done x) s0"
| act: "(\<And>s. E s0 s \<Longrightarrow> I s \<Longrightarrow> I (snd (k s)) \<and> G s (snd (k s)) \<and> E s (snd (k s))
      \<and> obeys E I G Q (fst (k s)) (snd (k s))) \<Longrightarrow> obeys E I G Q (Act k) s0"

inductive_cases obeys_Act: "obeys E I G Q (Act k) s0"
inductive_cases obeys_Done: "obeys E I G Q (Done x) s0"

lemma obeys_later:
  assumes "obeys E I G Q p s0" and "E s0 s1" and "transp E"
  shows "obeys E I G Q p s1"
  using assms(1)
proof cases
  case (done_ x)
  then show ?thesis using assms(2,3) by (auto intro!: obeys.done_ dest: transpD)
next
  case (act k)
  then show ?thesis using assms(2,3) by (auto intro!: obeys.act dest: transpD)
qed

lemma obeys_bind [obeys_intros]:
  assumes "obeys E I G Q p s0" and "\<And>x s. E s0 s \<Longrightarrow> I s \<Longrightarrow> Q x s \<Longrightarrow> obeys E I G R (f x) s"
    and "reflp E" "transp E" and "I s0"
  shows "obeys E I G R (pbind p f) s0"
  using assms(1,2,5)
proof (induction rule: obeys.induct)
  case (done_ s0 x)
  have "Q x s0" using done_(1) done_(3) assms(3) by (simp add: reflpD)
  then show ?case using done_(2) done_(3) assms(3) by (simp add: reflpD)
next
  case (act s0 k)
  show ?case
  proof (simp only: pbind.simps, rule obeys.act)
    fix s assume s: "E s0 s" "I s"
    note step = act(1) [OF s]
    have "obeys E I G R (pbind (fst (k s)) f) (snd (k s))"
    proof (rule step [THEN conjunct2, THEN conjunct2, THEN conjunct2, THEN conjunct2, rule_format])
      show "I (snd (k s))" using step by simp
      show "obeys E I G R (f x) t" if "E (snd (k s)) t" "I t" "Q x t" for x t
        using act(2) [of t x] that s step assms(4) by (meson transpD)
    qed
    then show "I (snd (map_prod (\<lambda>p. pbind p f) id (k s)))
        \<and> G s (snd (map_prod (\<lambda>p. pbind p f) id (k s)))
        \<and> E s (snd (map_prod (\<lambda>p. pbind p f) id (k s)))
        \<and> obeys E I G R (fst (map_prod (\<lambda>p. pbind p f) id (k s))) (snd (map_prod (\<lambda>p. pbind p f) id (k s)))"
      using step by simp
  qed
qed

lemma obeys_then [obeys_intros]:
  assumes "obeys E I G Q p s0"
    and "\<And>x s. E s0 s \<Longrightarrow> I s \<Longrightarrow> Q (Inr x) s \<Longrightarrow> obeys E I G R (f x) s"
    and "\<And>e s. Q (Inl e) s \<Longrightarrow> R (Inl e) s"
    and "\<And>e s t. R (Inl e) s \<Longrightarrow> E s t \<Longrightarrow> R (Inl e) t"
    and "reflp E" "transp E" "I s0"
  shows "obeys E I G R (pthen p f) s0"
  unfolding pthen_def
proof (rule obeys_bind [OF assms(1)])
  show "obeys E I G R (case x of Inl e \<Rightarrow> Done (Inl e) | Inr y \<Rightarrow> f y) s" if "E s0 s" "I s" "Q x s" for x s
  proof (cases x)
    case (Inl e)
    with that have "R (Inl e) s" using assms(3) by blast
    then have "R (Inl e) t" if "E s t" for t using that assms(4) by blast
    with Inl show ?thesis by (auto intro: obeys.done_)
  qed (use that assms(2) in simp)
qed (use assms in auto)

text \<open>An action that keeps the invariant and the guarantee, with what its result tells.\<close>

lemma obeys_atomic:
  assumes "\<And>s. E s0 s \<Longrightarrow> I s \<Longrightarrow> I (snd (m s)) \<and> G s (snd (m s)) \<and> E s (snd (m s))
      \<and> (\<forall>t. E (snd (m s)) t \<and> I t \<longrightarrow> Q (fst (m s)) t)"
  shows "obeys E I G Q (atomic m) s0"
  unfolding atomic_def
proof (rule obeys.act)
  fix s assume "E s0 s" "I s"
  then have "I (snd (m s)) \<and> G s (snd (m s)) \<and> E s (snd (m s))
      \<and> (\<forall>t. E (snd (m s)) t \<and> I t \<longrightarrow> Q (fst (m s)) t)"
    by (rule assms)
  then show "I (snd (case m s of (x, s') \<Rightarrow> (Done x, s'))) \<and> G s (snd (case m s of (x, s') \<Rightarrow> (Done x, s')))
      \<and> E s (snd (case m s of (x, s') \<Rightarrow> (Done x, s')))
      \<and> obeys E I G Q (fst (case m s of (x, s') \<Rightarrow> (Done x, s'))) (snd (case m s of (x, s') \<Rightarrow> (Done x, s')))"
    by (cases "m s") (auto intro!: obeys.done_)
qed

lemma obeys_Done_iff: "obeys E I G Q (Done x) s0 \<longleftrightarrow> (\<forall>s. E s0 s \<and> I s \<longrightarrow> Q x s)"
  by (auto intro: obeys.done_ elim: obeys_Done)

lemma obeys_weaken:
  assumes "obeys E I G Q p s0" and "\<And>x s. Q x s \<Longrightarrow> R x s"
  shows "obeys E I G R p s0"
  using assms(1)
proof (induction rule: obeys.induct)
  case (done_ s0 x)
  then show ?case using assms(2) by (auto intro: obeys.done_)
next
  case (act s0 k)
  then show ?case by (auto intro: obeys.act)
qed

section \<open>Pools\<close>

text \<open>One turn: a program of the pool executes its next action, or the environment moves.\<close>

inductive pool_step :: "('s \<Rightarrow> 's \<Rightarrow> bool) \<Rightarrow> ('s, 'a) prog list \<times> 's \<Rightarrow> ('s, 'a) prog list \<times> 's \<Rightarrow> bool"
  for Env where
  turn: "i < length ps \<Longrightarrow> ps ! i = Act k \<Longrightarrow> k s = (p, s') \<Longrightarrow> pool_step Env (ps, s) (ps[i := p], s')"
| env: "Env s s' \<Longrightarrow> pool_step Env (ps, s) (ps, s')"

definition pool_ok where
  "pool_ok E I G Q c \<longleftrightarrow> I (snd c) \<and> (\<forall>p \<in> set (fst c). obeys E I G Q p (snd c))"

text \<open>
  If every program obeys and the environment keeps the invariant and moves along \<open>E\<close>, then every
  interleaving does.
\<close>

lemma pool_step_ok:
  assumes "pool_step Env c c'" and "pool_ok E I G Q c" and "transp E"
    and "\<And>s s'. Env s s' \<Longrightarrow> I s \<Longrightarrow> I s' \<and> E s s' \<and> G s s'" and "reflp E"
  shows "pool_ok E I G Q c' \<and> G (snd c) (snd c') \<and> E (snd c) (snd c')"
  using assms(1)
proof cases
  case (turn i ps k s p s')
  then have "obeys E I G Q (Act k) s" and Is: "I s"
    using assms(2) nth_mem [OF turn(3)] by (auto simp: pool_ok_def)
  then have st: "I s' \<and> G s s' \<and> E s s' \<and> obeys E I G Q p s'"
    using turn(5) assms(5) by (auto elim!: obeys_Act dest!: reflpD dest: spec [of _ s])
  moreover have "obeys E I G Q q s'" if "q \<in> set ps" for q
    using that turn(1) assms(2,3) st obeys_later by (fastforce simp: pool_ok_def)
  ultimately show ?thesis
    using turn(1,2) by (auto simp: pool_ok_def dest!: set_update_subset_insert [THEN subsetD])
next
  case (env s s' ps)
  then have "I s' \<and> E s s' \<and> G s s'" using assms(2,4) by (simp add: pool_ok_def)
  then show ?thesis
    using env assms(2,3) by (auto simp: pool_ok_def intro: obeys_later)
qed

inductive reach :: "('s \<Rightarrow> 's \<Rightarrow> bool) \<Rightarrow> ('s, 'a) prog list \<times> 's \<Rightarrow> ('s, 'a) prog list \<times> 's \<Rightarrow> bool"
  for Env where
  here: "reach Env c c"
| next_: "reach Env c c' \<Longrightarrow> pool_step Env c' c'' \<Longrightarrow> reach Env c c''"

lemma reach_ok:
  assumes "reach Env c c'" and "pool_ok E I G Q c" and "transp E" and "reflp E"
    and "\<And>s s'. Env s s' \<Longrightarrow> I s \<Longrightarrow> I s' \<and> E s s' \<and> G s s'"
  shows "pool_ok E I G Q c' \<and> E (snd c) (snd c')"
  using assms(1,2)
proof induction
  case (here c)
  then show ?case using assms(4) by (simp add: reflpD)
next
  case (next_ c c' c'')
  then have ih: "pool_ok E I G Q c'" and e: "E (snd c) (snd c')" by auto
  have "pool_ok E I G Q c'' \<and> E (snd c') (snd c'')"
    using pool_step_ok [OF next_(2) ih assms(3) assms(5) assms(4)] by blast
  then show ?case using e transpD [OF assms(3)] by blast
qed

text \<open>The whole run is made of guaranteed moves, and what a finished program found out holds.\<close>

lemma reach_moves:
  assumes "reach Env c c'" and "pool_ok E I G Q c" and "transp E" and "reflp E"
    and "\<And>s s'. Env s s' \<Longrightarrow> I s \<Longrightarrow> I s' \<and> E s s' \<and> G s s'"
  shows "G\<^sup>*\<^sup>* (snd c) (snd c')"
  using assms(1,2)
proof induction
  case (next_ c c' c'')
  have "pool_ok E I G Q c'" using reach_ok [OF next_(1) next_(4) assms(3-5)] by simp
  then have "G (snd c') (snd c'')"
    using pool_step_ok [OF next_(2) _ assms(3) assms(5) assms(4)] by blast
  with next_ show ?case by (simp add: rtranclp.rtrancl_into_rtrancl)
qed simp

lemma pool_ok_done:
  assumes "pool_ok E I G Q (ps, s)" and "Done x \<in> set ps" and "reflp E"
  shows "Q x s"
proof -
  have "obeys E I G Q (Done x) s" and "I s" using assms(1,2) by (auto simp: pool_ok_def)
  then show ?thesis using assms(3) by (auto simp: obeys_Done_iff dest: reflpD)
qed

text \<open>A program that runs alone for a while is one of the interleavings.\<close>

lemma reach_trans: "reach Env c c' \<Longrightarrow> reach Env c' c'' \<Longrightarrow> reach Env c c''"
  by (rotate_tac 1, induction rule: reach.induct) (auto intro: reach.next_)

lemma reach_run_from:
  assumes "i < length ps" and "ps ! i = p" and "run p s = (x, s')"
  shows "reach Env (ps, s) (ps[i := Done x], s')"
  using assms
proof (induction p arbitrary: ps s)
  case (Done y)
  then have "ps[i := Done x] = ps" and "s' = s" by (auto simp: list_update_same_conv)
  then show ?case by (simp add: reach.here)
next
  case (Act k)
  obtain p t where k: "k s = (p, t)" by (cases "k s")
  have "reach Env (ps[i := p], t) (ps[i := p, i := Done x], s')"
    by (intro Act.IH [of "(p, t)"]) (use Act.prems k in \<open>auto intro!: range_eqI [where x = s]\<close>)
  then show ?case
    using reach_trans [OF reach.next_ [OF reach.here pool_step.turn [where Env = Env, OF Act.prems(1,2) k]]]
    by simp
qed

lemmas reach_run = reach_run_from [OF _ refl]

text \<open>A program stopped after some actions.\<close>

primrec steps :: "nat \<Rightarrow> ('s, 'a) prog \<Rightarrow> 's \<Rightarrow> ('s, 'a) prog \<times> 's" where
  "steps 0 p s = (p, s)"
| "steps (Suc n) p s = (case p of Done x \<Rightarrow> (Done x, s) | Act k \<Rightarrow> steps n (fst (k s)) (snd (k s)))"

lemma reach_steps:
  assumes "i < length ps" and "steps n (ps ! i) s = (p, s')"
  shows "reach Env (ps, s) (ps[i := p], s')"
  using assms
proof (induction n arbitrary: ps s)
  case 0
  then show ?case by (auto intro: reach.here)
next
  case (Suc n)
  show ?case
  proof (cases "ps ! i")
    case (Done x)
    then have "p = ps ! i" and "s' = s" using Suc.prems by auto
    then show ?thesis by (simp add: reach.here)
  next
    case (Act k)
    have st: "reach Env (ps, s) (ps[i := fst (k s)], snd (k s))"
      by (rule reach.next_ [OF reach.here pool_step.turn [OF Suc.prems(1) Act]]) simp
    have "reach Env (ps[i := fst (k s)], snd (k s)) (ps[i := fst (k s), i := p], s')"
      by (rule Suc.IH) (use Suc.prems Act in auto)
    then show ?thesis using reach_trans [OF st] by simp
  qed
qed

section \<open>Moves whatever happens in between\<close>

text \<open>Every action moves along \<open>G\<close>, from whatever state it starts.\<close>

named_theorems acts_intros \<open>programs whose every action moves along a relation\<close>

definition acts_in :: "('s \<Rightarrow> 's \<Rightarrow> bool) \<Rightarrow> ('s, 'a) prog \<Rightarrow> bool" where
  "acts_in G p \<longleftrightarrow> (\<forall>s. obeys (\<lambda>_ _. True) (\<lambda>_. True) G (\<lambda>_ _. True) p s)"

lemma acts_Done [acts_intros, simp]: "acts_in G (Done x)"
  by (simp add: acts_in_def obeys_Done_iff)

lemma acts_bind [acts_intros]:
  "acts_in G p \<Longrightarrow> (\<And>x. acts_in G (f x)) \<Longrightarrow> acts_in G (pbind p f)"
  unfolding acts_in_def by (auto intro!: obeys_bind reflpI transpI)

lemma acts_then [acts_intros]:
  "acts_in G p \<Longrightarrow> (\<And>x. acts_in G (f x)) \<Longrightarrow> acts_in G (pthen p f)"
  unfolding pthen_def by (rule acts_bind) (auto split: sum.split)

lemma acts_atomic: "(\<And>s. G s (snd (m s))) \<Longrightarrow> acts_in G (atomic m)"
  unfolding acts_in_def by (auto intro!: obeys_atomic)

lemma acts_mono: "acts_in G p \<Longrightarrow> (\<And>s t. G s t \<Longrightarrow> H s t) \<Longrightarrow> acts_in H p"
proof -
  assume p: "acts_in G p" and le: "\<And>s t. G s t \<Longrightarrow> H s t"
  have "obeys (\<lambda>_ _. True) (\<lambda>_. True) H (\<lambda>_ _. True) p s" for s
    using p [unfolded acts_in_def, rule_format, of s]
    by (induction rule: obeys.induct) (auto intro: obeys.intros le)
  then show ?thesis by (simp add: acts_in_def)
qed

lemma run_acts:
  assumes "acts_in G p" and "reflp G" and "transp G"
  shows "G s (snd (run p s))"
  using assms(1)
proof (induction p arbitrary: s)
  case (Done x)
  then show ?case using assms(2) by (simp add: reflpD)
next
  case (Act k)
  obtain p t where k: "k s = (p, t)" by (cases "k s")
  have st: "G s' (snd (k s')) \<and> obeys (\<lambda>_ _. True) (\<lambda>_. True) G (\<lambda>_ _. True) (fst (k s')) (snd (k s'))" for s'
    using Act.prems by (auto simp: acts_in_def elim!: obeys_Act)
  have w: "obeys (\<lambda>_ _. True) (\<lambda>_. True) G (\<lambda>_ _. True) (fst (k s')) u" for s' u
    by (rule obeys_later [OF st [THEN conjunct2]]) (auto intro: transpI)
  have "G t (snd (run p t))"
    by (rule Act.IH [of "(p, t)"]) (use k w [of s] in \<open>auto simp: acts_in_def intro!: range_eqI [where x = s]\<close>)
  then show ?case using k st [of s] assms(3) by (auto dest: transpD)
qed

text \<open>A pool of such programs moves along \<open>G\<close> only.\<close>

lemma reach_acts:
  assumes "reach Env c c'" and "\<And>p. p \<in> set (fst c) \<Longrightarrow> acts_in G p"
    and "\<And>s s'. Env s s' \<Longrightarrow> G s s'" and "reflp G" and "transp G"
  shows "G (snd c) (snd c')"
proof -
  have "pool_ok (\<lambda>_ _. True) (\<lambda>_. True) G (\<lambda>_ _. True) c"
    using assms(2) by (auto simp: pool_ok_def acts_in_def)
  then have "G\<^sup>*\<^sup>* (snd c) (snd c')"
    by (rule reach_moves [OF assms(1)]) (auto intro: transpI reflpI assms(3))
  then show ?thesis
    by (induction rule: rtranclp_induct) (use assms(4,5) in \<open>auto dest: reflpD transpD\<close>)
qed

end
