(* ===== verification/Trunk.thy ===== *)
theory Trunk
  imports Resume LockService
begin

text \<open>
  The store and the git plumbing of the trunk integrator (\<open>internal/integrator/store.go\<close>,
  \<open>trunk.go\<close>, \<open>gate.go\<close>). Git is an external program: a parameter that maps environment and
  arguments to an exit code (\<open>None\<close> when there is none: not started, or killed) and the combined
  output, and moves the repository. A world holds the state of the lease service, the integrator's
  store and the repository; every statement, git command and lease operation is one action of a
  program.
\<close>

section \<open>The world\<close>

datatype integ_state = Received | Validating | Promoted | Aborted

record integ_row =
  n_id :: string
  n_branch :: string
  n_holder :: string
  n_base :: string
  n_merge :: string
  n_state :: integ_state
  n_gate_ok :: bool
  n_gate_reason :: string
  n_created :: int

type_synonym integ_store = "integ_row list db"

type_synonym 'g git = "(string \<times> string) list \<Rightarrow> string list \<Rightarrow> 'g \<Rightarrow> (int option \<times> string) \<times> 'g"

record ('l, 'g) world =
  w_lease :: 'l
  w_store :: integ_store
  w_git :: 'g

type_synonym ('l, 'g, 'a) wprog = "(('l, 'g) world, 'a) prog"

record ('l, 'g) integrator =
  ig_git :: "'g git"
  ig_branch :: string
  ig_key :: string
  ig_gate :: "'l lease_gate"
  ig_audit :: "'l audit_fun"
  ig_ttl :: int

definition on_lease :: "('l, 'a) eff \<Rightarrow> ('l, 'g, err + 'a) wprog" where
  "on_lease m = atomic (\<lambda>w. case m (w_lease w) of (r, l) \<Rightarrow> (r, w\<lparr>w_lease := l\<rparr>))"

definition on_store :: "(integ_store, 'a) eff \<Rightarrow> ('l, 'g, err + 'a) wprog" where
  "on_store m = atomic (\<lambda>w. case m (w_store w) of (r, st) \<Rightarrow> (r, w\<lparr>w_store := st\<rparr>))"

definition run_git ::
  "('l, 'g) integrator \<Rightarrow> (string \<times> string) list \<Rightarrow> string list \<Rightarrow> ('l, 'g, int option \<times> string) wprog" where
  "run_git ig env args = atomic (\<lambda>w. case ig_git ig env args (w_git w) of (r, g) \<Rightarrow> (r, w\<lparr>w_git := g\<rparr>))"

section \<open>The store\<close>

definition integ_find :: "string \<Rightarrow> integ_row list \<Rightarrow> integ_row option" where
  "integ_find i rows = List.find (\<lambda>r. n_id r = i) rows"

definition get_row :: "string \<Rightarrow> ('l, 'g, err + integ_row option) wprog" where
  "get_row i = on_store (reading (integ_find i))"

definition new_row :: "string \<Rightarrow> string \<Rightarrow> string \<Rightarrow> string \<Rightarrow> int \<Rightarrow> integ_row" where
  "new_row i branch holder base now = \<lparr>n_id = i, n_branch = branch, n_holder = holder, n_base = base,
     n_merge = [], n_state = Received, n_gate_ok = False, n_gate_reason = [], n_created = now\<rparr>"

text \<open>The primary key makes a second insert of an id fail.\<close>

definition insert_row :: "integ_row \<Rightarrow> (integ_store, unit) eff" where
  "insert_row r = (\<lambda>d. case sql (\<lambda>rows.
       if integ_find (n_id r) rows = None then (True, rows @ [r]) else (False, rows)) d of
     (Inl e, d') \<Rightarrow> (Inl e, d')
   | (Inr True, d') \<Rightarrow> (Inr (), d')
   | (Inr False, d') \<Rightarrow> (Inl (DbErr ''UNIQUE constraint failed: integrations.id''), d'))"

definition insert_received ::
  "string \<Rightarrow> string \<Rightarrow> string \<Rightarrow> string \<Rightarrow> int \<Rightarrow> ('l, 'g, err + integ_row \<times> bool) wprog" where
  "insert_received i branch holder base now =
     pthen (get_row i) (\<lambda>found.
     case found of
       Some r \<Rightarrow> Done (Inr (r, True))
     | None \<Rightarrow> pthen (on_store (insert_row (new_row i branch holder base now))) (\<lambda>_.
         Done (Inr (new_row i branch holder base now, False))))"

definition cas_stmt :: "string \<Rightarrow> integ_state \<Rightarrow> integ_state \<Rightarrow> integ_row list \<Rightarrow> nat \<times> integ_row list" where
  "cas_stmt i from to = upd_where (\<lambda>r. n_id r = i \<and> n_state r = from) (\<lambda>r. r\<lparr>n_state := to\<rparr>)"

definition cas_state :: "string \<Rightarrow> integ_state \<Rightarrow> integ_state \<Rightarrow> ('l, 'g, err + bool) wprog" where
  "cas_state i from to = pthen (on_store (sql (cas_stmt i from to))) (\<lambda>n. Done (Inr (n = 1)))"

definition validating_stmt ::
  "string \<Rightarrow> string \<Rightarrow> string \<Rightarrow> bool \<Rightarrow> string \<Rightarrow> integ_row list \<Rightarrow> nat \<times> integ_row list" where
  "validating_stmt i base merge gate_ok reason =
     upd_where (\<lambda>r. n_id r = i \<and> n_state r = Received)
       (\<lambda>r. r\<lparr>n_state := Validating, n_base := base, n_merge := merge, n_gate_ok := gate_ok,
          n_gate_reason := reason\<rparr>)"

definition set_validating ::
  "string \<Rightarrow> string \<Rightarrow> string \<Rightarrow> bool \<Rightarrow> string \<Rightarrow> ('l, 'g, err + bool) wprog" where
  "set_validating i base merge gate_ok reason =
     pthen (on_store (sql (validating_stmt i base merge gate_ok reason))) (\<lambda>n. Done (Inr (n = 1)))"

definition in_flight :: "('l, 'g, err + integ_row list) wprog" where
  "in_flight = on_store (reading (\<lambda>rows.
     sort_key n_created (filter (\<lambda>r. n_state r \<in> {Received, Validating}) rows)))"

definition list_rows :: "('l, 'g, err + integ_row list) wprog" where
  "list_rows = on_store (reading (sort_key n_created))"

section \<open>Git plumbing\<close>

definition first_line :: "string \<Rightarrow> string" where
  "first_line s = trim_space (takeWhile (\<lambda>c. c \<noteq> CHR 0x0A) s)"

definition trim_newlines :: "string \<Rightarrow> string" where
  "trim_newlines s = rev (dropWhile (\<lambda>c. c = CHR 0x0A) (rev s))"

definition is_hex_oid :: "string \<Rightarrow> bool" where
  "is_hex_oid s \<longleftrightarrow> length s \<in> {40, 64}
     \<and> list_all (\<lambda>c. is_digit c \<or> (97 \<le> byte c \<and> byte c \<le> 102)) s"

fun after_blank_line :: "string \<Rightarrow> string option" where
  "after_blank_line (a # b # s) =
     (if a = CHR 0x0A \<and> b = CHR 0x0A then Some s else after_blank_line (b # s))"
| "after_blank_line _ = None"

definition conflict_summary :: "string \<Rightarrow> string" where
  "conflict_summary out =
     (let report = trim_space (case after_blank_line out of None \<Rightarrow> out | Some s \<Rightarrow> s);
          text = (if report = [] then ''merge conflict'' else report)
      in if 600 < length text then take 600 text @ map char_of [0xE2, 0x80, 0xA6 :: nat] else text)"

definition short :: "string \<Rightarrow> string" where
  "short oid = (if 8 < length oid then take 8 oid
     else if oid = [] then map char_of [0xE2, 0x88, 0x85 :: nat] else oid)"

definition trunk_ref :: "('l, 'g) integrator \<Rightarrow> string" where
  "trunk_ref ig = ''refs/heads/'' @ ig_branch ig"

definition tip :: "('l, 'g) integrator \<Rightarrow> ('l, 'g, err + string \<times> bool) wprog" where
  "tip ig = pbind (run_git ig [] [''rev-parse'', ''--verify'', ''--quiet'', trunk_ref ig]) (\<lambda>(code, out).
     Done (if code \<noteq> Some 0 then
             (if trim_space out = [] then Inr ([], False)
              else Inl (Fmt ''trunk: rev-parse %s: %w: %s'' [trunk_ref ig, out]))
           else Inr (trim_space out, True)))"

definition resolve_rev :: "('l, 'g) integrator \<Rightarrow> string \<Rightarrow> ('l, 'g, err + string) wprog" where
  "resolve_rev ig rv =
     pbind (run_git ig [] [''rev-parse'', ''--verify'', ''--end-of-options'', rv @ ''^{commit}'']) (\<lambda>(code, out).
     Done (if code \<noteq> Some 0 then Inl (Fmt ''trunk: resolve %q: %w: %s'' [rv, out])
           else Inr (trim_space out)))"

text \<open>The merged tree, whether the merge is clean, and the summary of the conflict.\<close>

definition merge_tree ::
  "('l, 'g) integrator \<Rightarrow> string \<Rightarrow> string \<Rightarrow> ('l, 'g, err + string \<times> bool \<times> string) wprog" where
  "merge_tree ig trunk branch =
     (if trunk = [] then
        pbind (run_git ig [] [''rev-parse'', ''--verify'', branch @ ''^{tree}'']) (\<lambda>(code, out).
        Done (if code \<noteq> Some 0 then Inl (Fmt ''trunk: tree of %q: %w: %s'' [branch, out])
              else Inr (trim_space out, True, [])))
      else
        pbind (run_git ig [] [''merge-tree'', ''--write-tree'', trunk, branch]) (\<lambda>(code, out0).
        let out = trim_newlines out0 in
        Done (if code = Some 0 then
                (if first_line out = [] then Inl (Msg ''trunk: merge-tree produced no tree'')
                 else Inr (first_line out, True, []))
              else if code = Some 1 then
                (if is_hex_oid (first_line out) then Inr ([], False, conflict_summary out)
                 else Inl (Fmt ''trunk: merge-tree (no merged tree): %s'' [trim_space out]))
              else Inl (Fmt ''trunk: merge-tree: %w: %s'' [out]))))"

text \<open>\<open>Format("2006-01-02T15:04:05Z")\<close> of a time in nanoseconds, by the proleptic Gregorian calendar.\<close>

definition pad :: "nat \<Rightarrow> int \<Rightarrow> string" where
  "pad n x = (let d = itoa (abs x) in (if x < 0 then ''-'' else []) @ replicate (n - length d) (CHR ''0'') @ d)"

definition civil :: "int \<Rightarrow> int \<times> int \<times> int" where
  "civil days =
     (let z = days + 719468; era = z div 146097; doe = z mod 146097;
          yoe = (doe - doe div 1460 + doe div 36524 - doe div 146096) div 365;
          doy = doe - (365 * yoe + yoe div 4 - yoe div 100);
          mp = (5 * doy + 2) div 153;
          d = doy - (153 * mp + 2) div 5 + 1;
          m = (if mp < 10 then mp + 3 else mp - 9)
      in (yoe + era * 400 + (if m \<le> 2 then 1 else 0), m, d))"

definition utc_stamp :: "int \<Rightarrow> string" where
  "utc_stamp nanos =
     (let secs = nanos div 10 ^ 9; s = secs mod 86400 in
      case civil (secs div 86400) of (y, m, d) \<Rightarrow>
        pad 4 y @ ''-'' @ pad 2 m @ ''-'' @ pad 2 d @ ''T'' @ pad 2 (s div 3600) @ '':''
        @ pad 2 (s mod 3600 div 60) @ '':'' @ pad 2 (s mod 60) @ ''Z'')"

definition pinned_env :: "int \<Rightarrow> (string \<times> string) list" where
  "pinned_env date =
     [(''GIT_AUTHOR_NAME'', ''mad-trellis''), (''GIT_AUTHOR_EMAIL'', ''integrator@mad-trellis''),
      (''GIT_COMMITTER_NAME'', ''mad-trellis''), (''GIT_COMMITTER_EMAIL'', ''integrator@mad-trellis''),
      (''GIT_AUTHOR_DATE'', utc_stamp date), (''GIT_COMMITTER_DATE'', utc_stamp date)]"

definition commit_args :: "string \<Rightarrow> string \<Rightarrow> string \<Rightarrow> string \<Rightarrow> string list" where
  "commit_args tree trunk branch message =
     [''commit-tree'', tree, ''-m'', message] @ (if trunk = [] then [] else [''-p'', trunk]) @ [''-p'', branch]"

definition commit_merge ::
  "('l, 'g) integrator \<Rightarrow> string \<Rightarrow> string \<Rightarrow> string \<Rightarrow> string \<Rightarrow> int \<Rightarrow> ('l, 'g, err + string) wprog" where
  "commit_merge ig tree trunk branch message date =
     pbind (run_git ig (pinned_env date) (commit_args tree trunk branch message)) (\<lambda>(code, out).
     Done (if code \<noteq> Some 0 then Inl (Fmt ''trunk: commit-tree: %w: %s'' [out]) else Inr (trim_space out)))"

definition is_ancestor :: "('l, 'g) integrator \<Rightarrow> string \<Rightarrow> string \<Rightarrow> ('l, 'g, err + bool) wprog" where
  "is_ancestor ig commit t =
     (if commit = [] \<or> t = [] then Done (Inr False)
      else pbind (run_git ig [] [''merge-base'', ''--is-ancestor'', commit, t]) (\<lambda>(code, out).
        Done (if code = Some 0 then Inr True else if code = Some 1 then Inr False
              else Inl (Fmt ''trunk: is-ancestor %s %s: %w: %s'' [short commit, short t, out]))))"

definition zero_oid :: string where
  "zero_oid = replicate 40 (CHR ''0'')"

definition advance_args :: "('l, 'g) integrator \<Rightarrow> string \<Rightarrow> string \<Rightarrow> string list" where
  "advance_args ig new old = [''update-ref'', trunk_ref ig, new, if old = [] then zero_oid else old]"

definition advance_trunk :: "('l, 'g) integrator \<Rightarrow> string \<Rightarrow> string \<Rightarrow> ('l, 'g, err + unit) wprog" where
  "advance_trunk ig new old =
     pbind (run_git ig [] (advance_args ig new old)) (\<lambda>(code, out).
     Done (if code \<noteq> Some 0 then
             Inl (Fmt ''trunk: update-ref CAS (%s %s->%s): %w: %s'' [trunk_ref ig, short old, short new, out])
           else Inr ()))"

section \<open>The validation gate\<close>

record gate_result =
  gr_ok :: bool
  gr_reason :: string
  gr_tree :: string

definition validate_merge ::
  "('l, 'g) integrator \<Rightarrow> string \<Rightarrow> string \<Rightarrow> ('l, 'g, err + gate_result) wprog" where
  "validate_merge ig trunk branch =
     pthen (merge_tree ig trunk branch) (\<lambda>(tree, clean, summary).
     Done (Inr (if clean then \<lparr>gr_ok = True, gr_reason = [], gr_tree = tree\<rparr>
       else \<lparr>gr_ok = False, gr_reason = summary, gr_tree = []\<rparr>)))"

end
