(* ===== verification/Integrator.thy ===== *)
theory Integrator
  imports Trunk
begin

text \<open>
  The trunk integrator (\<open>internal/integrator/integrator.go\<close>, \<open>rpc.go\<close>): submit, promote, abort and
  status, as programs over the world. The fault injection point, which is nil in production, is left
  out. Clock readings, random bytes and the caller's session are arguments.
\<close>

section \<open>Outcomes\<close>

record outcome =
  o_id :: string
  o_state :: "integ_state option"
  o_promoted :: bool
  o_tip :: string
  o_reason :: err
  o_retryable :: bool

definition no_outcome :: outcome where
  "no_outcome = \<lparr>o_id = [], o_state = None, o_promoted = False, o_tip = [], o_reason = Msg [],
     o_retryable = False\<rparr>"

definition promoted_outcome :: "string \<Rightarrow> string \<Rightarrow> outcome" where
  "promoted_outcome i t = no_outcome\<lparr>o_id := i, o_state := Some Promoted, o_promoted := True, o_tip := t\<rparr>"

definition stopped_outcome :: "string \<Rightarrow> integ_state \<Rightarrow> err \<Rightarrow> bool \<Rightarrow> outcome" where
  "stopped_outcome i st reason retry =
     no_outcome\<lparr>o_id := i, o_state := Some st, o_reason := reason, o_retryable := retry\<rparr>"

text \<open>A Go function with an outcome and an error; \<open>check\<close> is \<open>if err != nil { return Outcome{}, err }\<close>.\<close>

type_synonym ('l, 'g) oprog = "('l, 'g, outcome \<times> err option) wprog"

definition check :: "('l, 'g, err + 'a) wprog \<Rightarrow> ('a \<Rightarrow> ('l, 'g) oprog) \<Rightarrow> ('l, 'g) oprog" where
  "check m f = pbind m (\<lambda>r. case r of Inl e \<Rightarrow> Done (no_outcome, Some e) | Inr x \<Rightarrow> f x)"

text \<open>The tip as the code reads it where it drops the error.\<close>

definition tip_or_empty :: "('l, 'g) integrator \<Rightarrow> ('l, 'g, string) wprog" where
  "tip_or_empty ig = pbind (tip ig) (\<lambda>r. Done (case r of Inr (t, _) \<Rightarrow> t | Inl _ \<Rightarrow> []))"

definition finish :: "('l, 'g) integrator \<Rightarrow> string \<Rightarrow> ('l, 'g) oprog" where
  "finish ig i = pbind (tip_or_empty ig) (\<lambda>t. Done (promoted_outcome i t, None))"

definition landed :: "('l, 'g) integrator \<Rightarrow> integ_row \<Rightarrow> ('l, 'g, err + bool) wprog" where
  "landed ig r =
     (if n_merge r = [] then Done (Inr False)
      else pthen (tip ig) (\<lambda>(t, present).
        if \<not> present then Done (Inr False) else is_ancestor ig (n_merge r) t))"

section \<open>Submit\<close>

definition valid_ref_rune :: "nat \<Rightarrow> bool" where
  "valid_ref_rune r \<longleftrightarrow> 97 \<le> r \<and> r \<le> 122 \<or> 65 \<le> r \<and> r \<le> 90 \<or> 48 \<le> r \<and> r \<le> 57
     \<or> r \<in> {47, 46, 45, 95}"

definition valid_ref :: "string \<Rightarrow> bool" where
  "valid_ref s \<longleftrightarrow> s \<noteq> [] \<and> hd s \<noteq> CHR ''-'' \<and> \<not> contains s ''..'' \<and> \<not> contains s [CHR ''@'', CHR ''{'']
     \<and> list_all valid_ref_rune (runes s)"

definition new_integration_id :: "string option \<Rightarrow> err + string" where
  "new_integration_id rnd = (case rnd of None \<Rightarrow> Inl (Msg ''rand'') | Some b \<Rightarrow> Inr (''int-'' @ hex_encode b))"

definition audit_act :: "('l, 'g) integrator \<Rightarrow> string \<Rightarrow> string \<Rightarrow> payload \<Rightarrow> ('l, 'g, err + unit) wprog" where
  "audit_act ig session kind p = on_lease (ig_audit ig session kind p)"

definition submit ::
  "('l, 'g) integrator \<Rightarrow> int \<Rightarrow> string option \<Rightarrow> string \<Rightarrow> string \<Rightarrow> ('l, 'g, err + integ_row) wprog" where
  "submit ig now rnd session branch =
     (if branch = [] then Done (Inl (Msg ''integrator: branch required''))
      else if \<not> valid_ref branch then Done (Inl (Fmt ''integrator: invalid branch ref %q'' [branch]))
      else pbind (resolve_rev ig branch) (\<lambda>r. case r of
        Inl e \<Rightarrow> Done (Inl (Wrapped ''integrator: branch does not resolve'' e))
      | Inr _ \<Rightarrow>
          pthen (tip ig) (\<lambda>(base, _).
          case new_integration_id rnd of Inl e \<Rightarrow> Done (Inl e)
          | Inr i \<Rightarrow>
              pthen (insert_received i branch session base now) (\<lambda>(row, _).
              pbind (audit_act ig session ''trunk.submitted'' (PQuoted [(''id'', i), (''branch'', branch)])) (\<lambda>_.
              Done (Inr row))))))"

section \<open>Promote\<close>

text \<open>
  \<open>reconcileTerminal\<close>: the outcome of a terminal record, or of one whose advance has landed, else
  \<open>None\<close>. An error of the ancestry check counts as not landed.
\<close>

definition reconcile :: "('l, 'g) integrator \<Rightarrow> integ_row \<Rightarrow> ('l, 'g, (outcome \<times> err option) option) wprog" where
  "reconcile ig r =
     (case n_state r of
        Promoted \<Rightarrow> pbind (finish ig (n_id r)) (\<lambda>x. Done (Some x))
      | Aborted \<Rightarrow> Done (Some (stopped_outcome (n_id r) Aborted (Msg ''integration aborted'') False, Some ErrAborted))
      | Received \<Rightarrow> Done None
      | Validating \<Rightarrow>
          pbind (landed ig r) (\<lambda>x.
          if x = Inr True then
            pbind (cas_state (n_id r) Validating Promoted) (\<lambda>_.
            pbind (finish ig (n_id r)) (\<lambda>y. Done (Some y)))
          else Done None))"

definition merge_message :: "string \<Rightarrow> string \<Rightarrow> string" where
  "merge_message i branch = ''mad-trellis: integrate '' @ branch @ CHR 0x0A # CHR 0x0A # ''integration-id: '' @ i"

text \<open>
  The step from received to validating: the continuation gets the record to land. The result of the
  transitions to aborted is dropped.
\<close>

definition reject_branch :: "integ_row \<Rightarrow> err \<Rightarrow> ('l, 'g) oprog" where
  "reject_branch r e =
     pbind (cas_state (n_id r) Received Aborted) (\<lambda>_.
     Done (stopped_outcome (n_id r) Aborted (Wrapped ''branch unresolved'' e) False, None))"

definition reject_merge :: "('l, 'g) integrator \<Rightarrow> string \<Rightarrow> integ_row \<Rightarrow> string \<Rightarrow> ('l, 'g) oprog" where
  "reject_merge ig session r reason =
     pbind (cas_state (n_id r) Received Aborted) (\<lambda>_.
     pbind (audit_act ig session ''trunk.rejected'' (PQuoted [(''id'', n_id r), (''reason'', reason)])) (\<lambda>_.
     Done (stopped_outcome (n_id r) Aborted (Wrapped ''validation failed'' (Msg reason)) False, None)))"

definition record_merge ::
  "('l, 'g) integrator \<Rightarrow> integ_row \<Rightarrow> string \<Rightarrow> string \<Rightarrow> string \<Rightarrow> (integ_row \<Rightarrow> ('l, 'g) oprog) \<Rightarrow> ('l, 'g) oprog" where
  "record_merge ig r trunk branch tree cont =
     check (commit_merge ig tree trunk branch (merge_message (n_id r) (n_branch r)) (n_created r)) (\<lambda>merge.
     check (set_validating (n_id r) trunk merge True []) (\<lambda>won.
     if won then cont (r\<lparr>n_state := Validating, n_merge := merge, n_base := trunk, n_gate_ok := True\<rparr>)
     else check (get_row (n_id r)) (\<lambda>cur. cont (case cur of None \<Rightarrow> r | Some r' \<Rightarrow> r'))))"

definition validate_step ::
  "('l, 'g) integrator \<Rightarrow> string \<Rightarrow> integ_row \<Rightarrow> (integ_row \<Rightarrow> ('l, 'g) oprog) \<Rightarrow> ('l, 'g) oprog" where
  "validate_step ig session r cont =
     check (tip ig) (\<lambda>(trunk, _).
     pbind (resolve_rev ig (n_branch r)) (\<lambda>b. case b of
       Inl e \<Rightarrow> reject_branch r e
     | Inr branch \<Rightarrow>
         check (validate_merge ig trunk branch) (\<lambda>gr.
         if \<not> gr_ok gr then reject_merge ig session r (gr_reason gr)
         else record_merge ig r trunk branch (gr_tree gr) cont)))"

text \<open>
  The part of promote that runs with the lease, for the record reloaded under it: a landed record is
  reconciled, a stale one aborted, a fresh one advances the trunk.
\<close>

definition land_landed :: "('l, 'g) integrator \<Rightarrow> string \<Rightarrow> ('l, 'g) oprog" where
  "land_landed ig i = pbind (cas_state i Validating Promoted) (\<lambda>_. finish ig i)"

definition land_stale :: "string \<Rightarrow> ('l, 'g) oprog" where
  "land_stale i = pbind (cas_state i Validating Aborted) (\<lambda>_.
     Done (stopped_outcome i Aborted (Msg ''trunk advanced since validation; resubmit'') True, None))"

definition land_fresh :: "('l, 'g) integrator \<Rightarrow> string \<Rightarrow> string \<Rightarrow> integ_row \<Rightarrow> ('l, 'g) oprog" where
  "land_fresh ig session i r =
     pbind (advance_trunk ig (n_merge r) (n_base r)) (\<lambda>adv. case adv of
       Inl e \<Rightarrow> Done (stopped_outcome i Validating (Wrapped ''update-ref CAS failed'' e) True, None)
     | Inr _ \<Rightarrow>
         pbind (cas_state i Validating Promoted) (\<lambda>_.
         pbind (audit_act ig session ''trunk.promoted''
           (PQuoted [(''id'', i), (''branch'', n_branch r), (''commit'', n_merge r)])) (\<lambda>_.
         Done (promoted_outcome i (n_merge r), None))))"

definition land :: "('l, 'g) integrator \<Rightarrow> string \<Rightarrow> string \<Rightarrow> integ_row \<Rightarrow> ('l, 'g) oprog" where
  "land ig session i r =
     check (landed ig r) (\<lambda>yes.
     if yes then land_landed ig i
     else check (tip ig) (\<lambda>(now_tip, _).
       if now_tip \<noteq> n_base r then land_stale i else land_fresh ig session i r))"

definition with_lease :: "('l, 'g) integrator \<Rightarrow> int \<Rightarrow> string \<Rightarrow> string \<Rightarrow> integ_row \<Rightarrow> ('l, 'g) oprog" where
  "with_lease ig now session i r =
     check (on_lease (lg_acquire (ig_gate ig) now (ig_key ig) session (ig_ttl ig))) (\<lambda>(granted, holder).
     if \<not> granted then
       Done (stopped_outcome i Validating (Fmt ''trunk busy, held by %s'' [holder]) True, None)
     else
       pbind (check (get_row i) (\<lambda>cur. land ig session i (case cur of None \<Rightarrow> r | Some r' \<Rightarrow> r'))) (\<lambda>out.
       pbind (on_lease (lg_release (ig_gate ig) (ig_key ig) session)) (\<lambda>_. Done out)))"

definition promote :: "('l, 'g) integrator \<Rightarrow> int \<Rightarrow> string \<Rightarrow> string \<Rightarrow> ('l, 'g) oprog" where
  "promote ig now session i =
     check (get_row i) (\<lambda>found. case found of
       None \<Rightarrow> Done (no_outcome\<lparr>o_id := i, o_reason := Msg ''no such integration''\<rparr>, Some ErrNotFound)
     | Some r \<Rightarrow>
         pbind (reconcile ig r) (\<lambda>t. case t of
           Some out \<Rightarrow> Done out
         | None \<Rightarrow>
             if n_state r = Received then validate_step ig session r (with_lease ig now session i)
             else with_lease ig now session i r))"

section \<open>Abort and status\<close>

definition abort_open :: "('l, 'g) integrator \<Rightarrow> string \<Rightarrow> integ_row \<Rightarrow> ('l, 'g) oprog" where
  "abort_open ig i r =
     check (landed ig r) (\<lambda>yes.
     if yes then pbind (cas_state i (n_state r) Promoted) (\<lambda>_. finish ig i)
     else
       pbind (cas_state i (n_state r) Aborted) (\<lambda>_.
       pbind (tip_or_empty ig) (\<lambda>t.
       pbind (audit_act ig (n_holder r) ''trunk.aborted'' (PQuoted [(''id'', i)])) (\<lambda>_.
       Done (no_outcome\<lparr>o_id := i, o_state := Some Aborted, o_tip := t\<rparr>, None)))))"

definition abort :: "('l, 'g) integrator \<Rightarrow> string \<Rightarrow> ('l, 'g) oprog" where
  "abort ig i =
     check (get_row i) (\<lambda>found. case found of
       None \<Rightarrow> Done (no_outcome\<lparr>o_id := i, o_reason := Msg ''no such integration''\<rparr>, None)
     | Some r \<Rightarrow>
         if n_state r = Aborted then Done (no_outcome\<lparr>o_id := i, o_state := Some Aborted\<rparr>, None)
         else if n_state r = Promoted then finish ig i
         else abort_open ig i r)"

definition abort_as :: "('l, 'g) integrator \<Rightarrow> string \<Rightarrow> string \<Rightarrow> ('l, 'g) oprog" where
  "abort_as ig session i =
     check (get_row i) (\<lambda>found. case found of
       None \<Rightarrow> Done (no_outcome\<lparr>o_id := i, o_reason := Msg ''no such integration''\<rparr>, None)
     | Some r \<Rightarrow>
         if n_state r = Aborted \<or> n_state r = Promoted then abort ig i
         else
           pbind (landed ig r) (\<lambda>x.
           if x = Inr True then abort ig i
           else if n_holder r \<noteq> session then
             Done (no_outcome\<lparr>o_id := i, o_state := Some (n_state r)\<rparr>, Some ErrUnauthorized)
           else abort ig i))"

definition status :: "('l, 'g) integrator \<Rightarrow> string \<Rightarrow> ('l, 'g) oprog" where
  "status ig i =
     check (get_row i) (\<lambda>found. case found of
       None \<Rightarrow> Done (no_outcome\<lparr>o_id := i\<rparr>, Some ErrNotFound)
     | Some r \<Rightarrow>
         pbind (reconcile ig r) (\<lambda>t. case t of
           Some (out, _) \<Rightarrow> Done (out, None)
         | None \<Rightarrow>
             pbind (tip_or_empty ig) (\<lambda>tp.
             Done (no_outcome\<lparr>o_id := i, o_state := Some (n_state r), o_tip := tp\<rparr>, None))))"

end
