(* ===== verification/TrunkSafety.thy ===== *)
theory TrunkSafety
  imports Integrator
begin

text \<open>
  What holds of the trunk however submits, promotes, aborts and status calls interleave, whatever
  statements fail and whoever holds which lease: it only moves forward, by one merge commit of a
  recorded and validated integration at a time, and an integration that is recorded as promoted is
  part of it. Git enters through a view of the repository and the behaviour its manual documents.
\<close>

section \<open>Git, as documented\<close>

record 'g git_view =
  v_tip :: "'g \<Rightarrow> string"                            \<comment> \<open>the trunk ref, empty when unborn\<close>
  v_parents :: "'g \<Rightarrow> string \<Rightarrow> string list option"  \<comment> \<open>the commit objects\<close>

text \<open>\<open>git commit-tree\<close> drops a parent that is given twice.\<close>

definition merge_parents :: "string \<Rightarrow> string \<Rightarrow> string list" where
  "merge_parents base branch = remdups ((if base = [] then [] else [base]) @ [branch])"

definition parent_rel :: "'g git_view \<Rightarrow> 'g \<Rightarrow> (string \<times> string) set" where
  "parent_rel v g = {(p, c). \<exists>ps. v_parents v g c = Some ps \<and> p \<in> set ps}"

definition anc :: "'g git_view \<Rightarrow> 'g \<Rightarrow> string \<Rightarrow> string \<Rightarrow> bool" where
  "anc v g c t \<longleftrightarrow> (c, t) \<in> (parent_rel v g)\<^sup>*"

definition objects_kept :: "'g git_view \<Rightarrow> 'g \<Rightarrow> 'g \<Rightarrow> bool" where
  "objects_kept v g g' \<longleftrightarrow> (\<forall>c ps. v_parents v g c = Some ps \<longrightarrow> v_parents v g' c = Some ps)"

definition update_ref_doc :: "'g git_view \<Rightarrow> string \<Rightarrow> string \<Rightarrow> 'g \<Rightarrow> (int option \<times> string) \<times> 'g \<Rightarrow> bool" where
  "update_ref_doc v new old g res \<longleftrightarrow>
     (let moved = (new \<noteq> [] \<and> v_tip v g = (if old = zero_oid then [] else old) \<and> v_tip v (snd res) = new)
      in if fst (fst res) = Some 0 then moved
         else if fst (fst res) = None then moved \<or> v_tip v (snd res) = v_tip v g
         else v_tip v (snd res) = v_tip v g)"

text \<open>
  The hypotheses on git: no command loses a commit object, and the empty text
  names none; every command but \<open>update-ref\<close> leaves the
  trunk ref alone; \<open>rev-parse\<close> prints the ref; \<open>commit-tree\<close> prints a commit with the given parents;
  \<open>merge-base --is-ancestor\<close> exits with 0 for an ancestor only; \<open>update-ref\<close> with an old value is an
  atomic compare-and-swap (which may or may not have happened when the process was killed).
\<close>

definition git_doc :: "('l, 'g) integrator \<Rightarrow> 'g git_view \<Rightarrow> bool" where
  "git_doc ig v \<longleftrightarrow>
     (\<forall>env args g. objects_kept v g (snd (ig_git ig env args g)))
     \<and> (\<forall>env args g. args \<noteq> [] \<and> hd args \<noteq> ''update-ref'' \<longrightarrow> v_tip v (snd (ig_git ig env args g)) = v_tip v g)
     \<and> (\<forall>g out g'. ig_git ig [] [''rev-parse'', ''--verify'', ''--quiet'', trunk_ref ig] g = ((Some 0, out), g') \<longrightarrow>
          trim_space out = v_tip v g \<and> v_tip v g \<noteq> [] \<and> v_tip v g \<noteq> zero_oid)
     \<and> (\<forall>g. v_parents v g [] = None)
     \<and> (\<forall>date tree trunk branch msg g out g'.
          ig_git ig (pinned_env date) (commit_args tree trunk branch msg) g = ((Some 0, out), g') \<longrightarrow>
          v_parents v g' (trim_space out) = Some (merge_parents trunk branch))
     \<and> (\<forall>c t g out g'. ig_git ig [] [''merge-base'', ''--is-ancestor'', c, t] g = ((Some 0, out), g') \<longrightarrow> anc v g c t)
     \<and> (\<forall>new old g. update_ref_doc v new old g (ig_git ig [] [''update-ref'', trunk_ref ig, new, old] g))"

lemma git_docD:
  assumes "git_doc ig v"
  shows "objects_kept v g (snd (ig_git ig env args g))"
    and "args \<noteq> [] \<Longrightarrow> hd args \<noteq> ''update-ref'' \<Longrightarrow> v_tip v (snd (ig_git ig env args g)) = v_tip v g"
    and "ig_git ig [] [''rev-parse'', ''--verify'', ''--quiet'', trunk_ref ig] g = ((Some 0, out), g') \<Longrightarrow>
      trim_space out = v_tip v g \<and> v_tip v g \<noteq> [] \<and> v_tip v g \<noteq> zero_oid"
    and "ig_git ig (pinned_env date) (commit_args tree trunk branch msg) g = ((Some 0, out), g') \<Longrightarrow>
      v_parents v g' (trim_space out) = Some (merge_parents trunk branch)"
    and "ig_git ig [] [''merge-base'', ''--is-ancestor'', c, t] g = ((Some 0, out), g') \<Longrightarrow> anc v g c t"
    and "update_ref_doc v new old g (ig_git ig [] [''update-ref'', trunk_ref ig, new, old] g)"
    and "v_parents v g [] = None"
  using assms by (simp_all add: git_doc_def)

lemma git_result:
  assumes "git_doc ig v" and "ig_git ig env args g = (res, g')"
  shows "objects_kept v g g'" and "args \<noteq> [] \<Longrightarrow> hd args \<noteq> ''update-ref'' \<Longrightarrow> v_tip v g' = v_tip v g"
  using git_docD(1) [OF assms(1), of g env args] git_docD(2) [OF assms(1), of args env g] assms(2) by simp_all

section \<open>Invariant, extension, guarantee\<close>

definition rows_of :: "('l, 'g) world \<Rightarrow> integ_row list" where
  "rows_of w = tabs (w_store w)"

definition tip_of :: "'g git_view \<Rightarrow> ('l, 'g) world \<Rightarrow> string" where
  "tip_of v w = v_tip v (w_git w)"

definition merge_known :: "'g git_view \<Rightarrow> 'g \<Rightarrow> integ_row \<Rightarrow> bool" where
  "merge_known v g r \<longleftrightarrow> n_base r \<noteq> zero_oid \<and> n_gate_ok r
     \<and> (\<exists>b. v_parents v g (n_merge r) = Some (merge_parents (n_base r) b))"

definition inv_rows :: "'g git_view \<Rightarrow> 'g \<Rightarrow> integ_row list \<Rightarrow> bool" where
  "inv_rows v g rows \<longleftrightarrow> distinct (map n_id rows)
     \<and> (\<forall>r \<in> set rows. (n_merge r \<noteq> [] \<longrightarrow> merge_known v g r)
         \<and> (n_state r = Received \<longrightarrow> n_merge r = [])
         \<and> (n_state r = Promoted \<longrightarrow> n_merge r \<noteq> [] \<and> anc v g (n_merge r) (v_tip v g)))"

definition trunk_inv :: "'g git_view \<Rightarrow> ('l, 'g) world \<Rightarrow> bool" where
  "trunk_inv v w \<longleftrightarrow> inv_rows v (w_git w) (rows_of w)"

definition same_merge :: "integ_row \<Rightarrow> integ_row \<Rightarrow> bool" where
  "same_merge r r' \<longleftrightarrow> n_merge r' = n_merge r \<and> n_base r' = n_base r \<and> n_gate_ok r' = n_gate_ok r"

definition merges_kept :: "integ_row list \<Rightarrow> integ_row list \<Rightarrow> bool" where
  "merges_kept rows rows' \<longleftrightarrow> (\<forall>i r. integ_find i rows = Some r \<and> n_merge r \<noteq> [] \<longrightarrow>
     (\<exists>r'. integ_find i rows' = Some r' \<and> same_merge r r'))"

definition ext :: "'g git_view \<Rightarrow> ('l, 'g) world \<Rightarrow> ('l, 'g) world \<Rightarrow> bool" where
  "ext v w w' \<longleftrightarrow> objects_kept v (w_git w) (w_git w')
     \<and> (\<forall>c. c \<noteq> [] \<and> anc v (w_git w) c (tip_of v w) \<longrightarrow> anc v (w_git w') c (tip_of v w'))
     \<and> merges_kept (rows_of w) (rows_of w')"

text \<open>One step of the trunk: to a validated merge of a recorded integration, on top of the old tip.\<close>

definition forward :: "'g git_view \<Rightarrow> ('l, 'g) world \<Rightarrow> ('l, 'g) world \<Rightarrow> bool" where
  "forward v w w' \<longleftrightarrow> tip_of v w' = tip_of v w
     \<or> (\<exists>r \<in> set (rows_of w). n_merge r = tip_of v w' \<and> n_base r = tip_of v w \<and> n_gate_ok r
          \<and> (\<exists>b. v_parents v (w_git w') (tip_of v w') = Some (merge_parents (tip_of v w) b)))"

lemma ext_order [simp]: "reflp (ext v)" "transp (ext v)"
proof -
  show "reflp (ext v)"
    by (auto simp: reflp_def ext_def objects_kept_def merges_kept_def same_merge_def)
  show "transp (ext v)"
    unfolding transp_def ext_def objects_kept_def merges_kept_def same_merge_def by (meson | metis)+
qed

abbreviation sound where
  "sound v Q p w \<equiv> obeys (ext v) (trunk_inv v) (forward v) Q p w"

lemma anc_kept: "objects_kept v g g' \<Longrightarrow> anc v g c t \<Longrightarrow> anc v g' c t"
  unfolding anc_def
proof -
  assume "objects_kept v g g'" and "(c, t) \<in> (parent_rel v g)\<^sup>*"
  moreover have "parent_rel v g \<subseteq> parent_rel v g'"
    using \<open>objects_kept v g g'\<close> by (auto simp: objects_kept_def parent_rel_def)
  ultimately show "(c, t) \<in> (parent_rel v g')\<^sup>*" using rtrancl_mono by blast
qed

lemma merge_parents_mem: "base \<noteq> [] \<Longrightarrow> base \<in> set (merge_parents base b)"
  by (simp add: merge_parents_def)

lemma integ_find_row:
  "distinct (map n_id rows) \<Longrightarrow> integ_find i rows = Some r \<longleftrightarrow> r \<in> set rows \<and> n_id r = i"
  by (simp add: integ_find_def find_distinct)

section \<open>The actions\<close>

text \<open>The lease service and the audit sink do not touch the store or the repository.\<close>

lemma sound_lease: "sound v (\<lambda>_ _. True) (on_lease m) w"
  unfolding on_lease_def
  by (rule obeys_atomic) (auto simp: trunk_inv_def ext_def forward_def rows_of_def tip_of_def objects_kept_def
      merges_kept_def same_merge_def split: prod.split)

definition stable :: "'g git_view \<Rightarrow> ('a \<Rightarrow> ('l, 'g) world \<Rightarrow> bool) \<Rightarrow> bool" where
  "stable v Q \<longleftrightarrow> (\<forall>x w w'. Q x w \<and> ext v w w' \<longrightarrow> Q x w')"

lemma sound_Done: "Q x w \<Longrightarrow> stable v Q \<Longrightarrow> sound v Q (Done x) w"
  by (auto simp: obeys_Done_iff stable_def)

lemma sound_Done_True [simp]: "sound v (\<lambda>_ _. True) (Done x) w"
  by (simp add: obeys_Done_iff)

lemma sound_bind:
  assumes "sound v Q p w" and "trunk_inv v w"
    and "\<And>x u. ext v w u \<Longrightarrow> trunk_inv v u \<Longrightarrow> Q x u \<Longrightarrow> sound v R (f x) u"
  shows "sound v R (pbind p f) w"
  by (rule obeys_bind [OF assms(1)]) (use assms in auto)

lemma sound_check:
  assumes "sound v Q p w" and "trunk_inv v w"
    and "\<And>x u. ext v w u \<Longrightarrow> trunk_inv v u \<Longrightarrow> Q (Inr x) u \<Longrightarrow> sound v R (f x) u"
    and "\<And>e u. R (no_outcome, Some e) u"
  shows "sound v R (check p f) w"
  unfolding check_def
  by (rule sound_bind [OF assms(1,2)]) (use assms(3,4) in \<open>auto simp: obeys_Done_iff split: sum.split\<close>)

text \<open>A git command other than \<open>update-ref\<close>.\<close>

lemma git_moves:
  assumes "git_doc ig v" and "args \<noteq> []" and "hd args \<noteq> ''update-ref''"
    and "trunk_inv v w" and "w' = w\<lparr>w_git := snd (ig_git ig env args (w_git w))\<rparr>"
  shows "trunk_inv v w' \<and> forward v w w' \<and> ext v w w'"
proof -
  have k: "objects_kept v (w_git w) (w_git w')" and t: "tip_of v w' = tip_of v w"
    and r: "rows_of w' = rows_of w" and st: "w_store w' = w_store w"
    using git_docD(1,2) [OF assms(1)] assms(2,3,5) by (simp_all add: tip_of_def rows_of_def)
  then show ?thesis
    using assms(4) anc_kept [OF k]
    by (fastforce simp: trunk_inv_def inv_rows_def ext_def forward_def merge_known_def merges_kept_def
        same_merge_def objects_kept_def tip_of_def)
qed

lemma sound_git:
  assumes "git_doc ig v" and "args \<noteq> []" and "hd args \<noteq> ''update-ref''"
    and "\<And>u code out g'. ext v w u \<Longrightarrow> trunk_inv v u \<Longrightarrow> ig_git ig env args (w_git u) = ((code, out), g') \<Longrightarrow>
       Q (code, out) (u\<lparr>w_git := g'\<rparr>)"
    and "stable v Q"
  shows "sound v Q (run_git ig env args) w"
  unfolding run_git_def
proof (rule obeys_atomic)
  fix u assume u: "ext v w u" "trunk_inv v u"
  obtain code out g' where g: "ig_git ig env args (w_git u) = ((code, out), g')"
    by (metis prod.collapse)
  have "trunk_inv v (u\<lparr>w_git := g'\<rparr>) \<and> forward v u (u\<lparr>w_git := g'\<rparr>) \<and> ext v u (u\<lparr>w_git := g'\<rparr>)"
    by (rule git_moves [where env = env, OF assms(1-3) u(2)]) (simp add: g)
  then show "trunk_inv v (snd (case ig_git ig env args (w_git u) of (r, g) \<Rightarrow> (r, u\<lparr>w_git := g\<rparr>)))
      \<and> forward v u (snd (case ig_git ig env args (w_git u) of (r, g) \<Rightarrow> (r, u\<lparr>w_git := g\<rparr>)))
      \<and> ext v u (snd (case ig_git ig env args (w_git u) of (r, g) \<Rightarrow> (r, u\<lparr>w_git := g\<rparr>)))
      \<and> (\<forall>t. ext v (snd (case ig_git ig env args (w_git u) of (r, g) \<Rightarrow> (r, u\<lparr>w_git := g\<rparr>))) t \<and> trunk_inv v t \<longrightarrow>
         Q (fst (case ig_git ig env args (w_git u) of (r, g) \<Rightarrow> (r, u\<lparr>w_git := g\<rparr>))) t)"
    using assms(4) [OF u g] assms(5) by (auto simp: g stable_def)
qed

text \<open>What the code learns from the commands it runs.\<close>

definition knows_tip :: "'g git_view \<Rightarrow> err + string \<times> bool \<Rightarrow> ('l, 'g) world \<Rightarrow> bool" where
  "knows_tip v x w \<longleftrightarrow> (case x of
      Inr (t, p) \<Rightarrow> t \<noteq> zero_oid \<and> (if p then t \<noteq> [] \<and> anc v (w_git w) t (tip_of v w) else t = [])
    | Inl _ \<Rightarrow> True)"

definition knows_merge :: "'g git_view \<Rightarrow> string \<Rightarrow> err + string \<Rightarrow> ('l, 'g) world \<Rightarrow> bool" where
  "knows_merge v base x w \<longleftrightarrow>
     (case x of Inr m \<Rightarrow> \<exists>b. v_parents v (w_git w) m = Some (merge_parents base b) | Inl _ \<Rightarrow> True)"

definition knows_anc :: "'g git_view \<Rightarrow> string \<Rightarrow> err + bool \<Rightarrow> ('l, 'g) world \<Rightarrow> bool" where
  "knows_anc v c x w \<longleftrightarrow> (x = Inr True \<longrightarrow> c \<noteq> [] \<and> anc v (w_git w) c (tip_of v w))"

lemma stable_facts [simp]:
  "stable v (knows_tip v)" "stable v (knows_merge v base)" "stable v (knows_anc v c)" "stable v (\<lambda>_ _. True)"
  by (auto simp: stable_def knows_tip_def knows_merge_def knows_anc_def ext_def objects_kept_def split: sum.splits)

section \<open>The statements\<close>

lemma merges_kept_refl [simp]: "merges_kept rows rows"
  by (simp add: merges_kept_def same_merge_def)

lemma store_moves:
  assumes "trunk_inv v w" and "inv_rows v (w_git w) rows'" and "merges_kept (rows_of w) rows'"
    and "rows_of w' = rows'" and "w_git w' = w_git w"
  shows "trunk_inv v w' \<and> forward v w w' \<and> ext v w w'"
  using assms by (auto simp: trunk_inv_def forward_def ext_def tip_of_def objects_kept_def)

text \<open>A statement: it fails and changes nothing, or executes.\<close>

lemma sound_sql:
  assumes "\<And>u. ext v w u \<Longrightarrow> trunk_inv v u \<Longrightarrow> inv_rows v (w_git u) (snd (f (rows_of u)))
      \<and> merges_kept (rows_of u) (snd (f (rows_of u)))"
    and "\<And>u u'. ext v w u \<Longrightarrow> trunk_inv v u \<Longrightarrow> rows_of u' = snd (f (rows_of u)) \<Longrightarrow> w_git u' = w_git u \<Longrightarrow>
       Q (Inr (fst (f (rows_of u)))) u'"
    and "\<And>u e. Q (Inl e) u" and "stable v Q"
  shows "sound v Q (on_store (sql f)) w"
  unfolding on_store_def
proof (rule obeys_atomic)
  fix u assume u: "ext v w u" "trunk_inv v u"
  obtain r st where m: "sql f (w_store u) = (r, st)" by (cases "sql f (w_store u)")
  define u' where "u' = u\<lparr>w_store := st\<rparr>"
  have g: "w_git u' = w_git u" by (simp add: u'_def)
  have "trunk_inv v u' \<and> forward v u u' \<and> ext v u u' \<and> Q r u'"
  proof (cases r)
    case (Inl e)
    then have "rows_of u' = rows_of u"
      using sql_Inl m by (auto simp: u'_def rows_of_def)
    with store_moves [OF u(2) _ _ this g] u(2) show ?thesis
      using Inl assms(3) by (simp add: trunk_inv_def)
  next
    case (Inr x)
    then have x: "x = fst (f (rows_of u))" and r': "rows_of u' = snd (f (rows_of u))"
      using sql_Inr [of f "w_store u" x st] m by (auto simp: u'_def rows_of_def)
    with store_moves [OF u(2) _ _ r' g] assms(1) [OF u] assms(2) [OF u r' g] Inr show ?thesis by simp
  qed
  then show "trunk_inv v (snd (case sql f (w_store u) of (r, st) \<Rightarrow> (r, u\<lparr>w_store := st\<rparr>)))
      \<and> forward v u (snd (case sql f (w_store u) of (r, st) \<Rightarrow> (r, u\<lparr>w_store := st\<rparr>)))
      \<and> ext v u (snd (case sql f (w_store u) of (r, st) \<Rightarrow> (r, u\<lparr>w_store := st\<rparr>)))
      \<and> (\<forall>t. ext v (snd (case sql f (w_store u) of (r, st) \<Rightarrow> (r, u\<lparr>w_store := st\<rparr>))) t \<and> trunk_inv v t \<longrightarrow>
         Q (fst (case sql f (w_store u) of (r, st) \<Rightarrow> (r, u\<lparr>w_store := st\<rparr>))) t)"
    using assms(4) by (auto simp: m u'_def stable_def)
qed

text \<open>What a row that was read tells later.\<close>

definition row_known :: "'g git_view \<Rightarrow> string \<Rightarrow> integ_row \<Rightarrow> ('l, 'g) world \<Rightarrow> bool" where
  "row_known v i r w \<longleftrightarrow> n_id r = i \<and> (n_state r = Received \<longrightarrow> n_merge r = [])
     \<and> (n_merge r \<noteq> [] \<longrightarrow> merge_known v (w_git w) r
          \<and> (\<exists>r'. integ_find i (rows_of w) = Some r' \<and> same_merge r r'))"

text \<open>The recorded merge of an integration was seen in the trunk.\<close>

definition seen_landed :: "'g git_view \<Rightarrow> string \<Rightarrow> ('l, 'g) world \<Rightarrow> bool" where
  "seen_landed v i w \<longleftrightarrow> (\<exists>r. row_known v i r w \<and> n_merge r \<noteq> [] \<and> anc v (w_git w) (n_merge r) (tip_of v w))"

definition knows_row :: "'g git_view \<Rightarrow> string \<Rightarrow> err + integ_row option \<Rightarrow> ('l, 'g) world \<Rightarrow> bool" where
  "knows_row v i x w \<longleftrightarrow> (\<forall>r. x = Inr (Some r) \<longrightarrow> row_known v i r w
     \<and> (n_state r = Promoted \<longrightarrow> seen_landed v i w))"

lemma row_known_later: "row_known v i r w \<Longrightarrow> ext v w w' \<Longrightarrow> row_known v i r w'"
  by (fastforce simp: row_known_def ext_def merge_known_def objects_kept_def merges_kept_def same_merge_def)

lemma seen_landed_later:
  assumes "seen_landed v i w" and "ext v w w'"
  shows "seen_landed v i w'"
proof -
  obtain r where r: "row_known v i r w" "n_merge r \<noteq> []" "anc v (w_git w) (n_merge r) (tip_of v w)"
    using assms(1) by (auto simp: seen_landed_def)
  then have "anc v (w_git w') (n_merge r) (tip_of v w')" using assms(2) by (simp add: ext_def)
  with r row_known_later [OF r(1) assms(2)] show ?thesis by (auto simp: seen_landed_def)
qed

lemma stable_row [simp]: "stable v (knows_row v i)"
  using row_known_later seen_landed_later by (fastforce simp: stable_def knows_row_def)

lemma sound_get_row: "sound v (knows_row v i) (get_row i) w"
  unfolding get_row_def reading_def
proof (rule sound_sql)
  show "knows_row v i (Inr (fst (integ_find i (rows_of u), rows_of u))) u'"
    if "trunk_inv v u" "rows_of u' = snd (integ_find i (rows_of u), rows_of u)" "w_git u' = w_git u" for u u'
  proof -
    have "row_known v i r u'" if "integ_find i (rows_of u) = Some r" for r
      using that \<open>trunk_inv v u\<close> \<open>rows_of u' = snd (integ_find i (rows_of u), rows_of u)\<close> \<open>w_git u' = w_git u\<close>
      by (auto simp: row_known_def trunk_inv_def inv_rows_def integ_find_row same_merge_def)
    moreover have "n_merge r \<noteq> [] \<and> anc v (w_git u') (n_merge r) (tip_of v u')"
      if "integ_find i (rows_of u) = Some r" "n_state r = Promoted" for r
      using that \<open>trunk_inv v u\<close> \<open>w_git u' = w_git u\<close>
      by (auto simp: trunk_inv_def inv_rows_def integ_find_row tip_of_def)
    ultimately show ?thesis by (auto simp: knows_row_def seen_landed_def)
  qed
qed (auto simp: knows_row_def trunk_inv_def)

lemma integ_find_upd:
  assumes "\<And>r. n_id (g r) = n_id r"
  shows "integ_find i (snd (upd_where p g rows)) = map_option (\<lambda>r. if p r then g r else r) (integ_find i rows)"
  by (simp add: integ_find_def upd_where_def find_map_same assms)

lemma ids_upd:
  assumes "\<And>r. n_id (g r) = n_id r"
  shows "map n_id (snd (upd_where p g rows)) = map n_id rows"
  by (simp add: upd_where_def assms)

lemma in_upd: "r' \<in> set (snd (upd_where p g rows)) \<longleftrightarrow> (\<exists>r \<in> set rows. r' = (if p r then g r else r))"
  by (auto simp: upd_where_def)

text \<open>
  A transition of the state: to aborted always, to promoted with a merge that was seen in the trunk.
\<close>

lemma cas_rows:
  assumes "trunk_inv v w" and "to = Aborted \<or> to = Promoted \<and> seen_landed v i w"
  shows "inv_rows v (w_git w) (snd (cas_stmt i from to (rows_of w)))
    \<and> merges_kept (rows_of w) (snd (cas_stmt i from to (rows_of w)))"
proof -
  note upd = integ_find_upd ids_upd
  have d: "distinct (map n_id (rows_of w))" using assms(1) by (simp add: trunk_inv_def inv_rows_def)
  have kept: "merges_kept (rows_of w) (snd (cas_stmt i from to (rows_of w)))"
    by (auto simp: merges_kept_def same_merge_def cas_stmt_def upd)
  have ok: "(n_merge r' \<noteq> [] \<longrightarrow> merge_known v (w_git w) r') \<and> (n_state r' = Received \<longrightarrow> n_merge r' = [])
      \<and> (n_state r' = Promoted \<longrightarrow> n_merge r' \<noteq> [] \<and> anc v (w_git w) (n_merge r') (v_tip v (w_git w)))"
    if mem: "r' \<in> set (snd (cas_stmt i from to (rows_of w)))" for r'
  proof -
    obtain r where r: "r \<in> set (rows_of w)"
      and r': "r' = (if n_id r = i \<and> n_state r = from then r\<lparr>n_state := to\<rparr> else r)"
      using mem by (auto simp: cas_stmt_def in_upd)
    have i: "(n_merge r \<noteq> [] \<longrightarrow> merge_known v (w_git w) r) \<and> (n_state r = Received \<longrightarrow> n_merge r = [])
      \<and> (n_state r = Promoted \<longrightarrow> n_merge r \<noteq> [] \<and> anc v (w_git w) (n_merge r) (v_tip v (w_git w)))"
      using assms(1) r by (auto simp: trunk_inv_def inv_rows_def)
    have "n_merge r \<noteq> [] \<and> anc v (w_git w) (n_merge r) (v_tip v (w_git w))" if "n_id r = i" "to = Promoted"
    proof -
      obtain r0 where "row_known v i r0 w" "n_merge r0 \<noteq> []" "anc v (w_git w) (n_merge r0) (tip_of v w)"
        using assms(2) \<open>to = Promoted\<close> by (auto simp: seen_landed_def)
      moreover have "integ_find i (rows_of w) = Some r" using r that(1) d by (simp add: integ_find_row)
      ultimately show ?thesis by (auto simp: row_known_def same_merge_def tip_of_def)
    qed
    with i r' assms(2) show ?thesis by (auto simp: merge_known_def)
  qed
  show ?thesis
    using kept ok d by (auto simp: inv_rows_def cas_stmt_def ids_upd)
qed

lemma sound_cas:
  assumes "to = Aborted \<or> to = Promoted \<and> seen_landed v i w" and "trunk_inv v w"
  shows "sound v (\<lambda>_ _. True) (cas_state i from to) w"
  unfolding cas_state_def pthen_def
proof (rule sound_bind)
  show "sound v (\<lambda>_ _. True) (on_store (sql (cas_stmt i from to))) w"
  proof (rule sound_sql)
    fix u assume "ext v w u" "trunk_inv v u"
    then show "inv_rows v (w_git u) (snd (cas_stmt i from to (rows_of u)))
        \<and> merges_kept (rows_of u) (snd (cas_stmt i from to (rows_of u)))"
      using assms(1) seen_landed_later by (intro cas_rows) auto
  qed (auto simp: stable_def)
qed (use assms in \<open>auto split: sum.split\<close>)

lemma validating_rows:
  assumes "trunk_inv v w" and "knows_merge v base (Inr merge) w" and "base \<noteq> zero_oid"
  shows "inv_rows v (w_git w) (snd (validating_stmt i base merge True reason (rows_of w)))
    \<and> merges_kept (rows_of w) (snd (validating_stmt i base merge True reason (rows_of w)))"
proof -
  have d: "distinct (map n_id (rows_of w))"
    and rows: "\<forall>r \<in> set (rows_of w). (n_merge r \<noteq> [] \<longrightarrow> merge_known v (w_git w) r)
      \<and> (n_state r = Received \<longrightarrow> n_merge r = [])
      \<and> (n_state r = Promoted \<longrightarrow> n_merge r \<noteq> [] \<and> anc v (w_git w) (n_merge r) (v_tip v (w_git w)))"
    using assms(1) by (auto simp: trunk_inv_def inv_rows_def)
  have "merges_kept (rows_of w) (snd (validating_stmt i base merge True reason (rows_of w)))"
    using rows d
    by (auto simp: merges_kept_def same_merge_def validating_stmt_def integ_find_upd integ_find_row)
  moreover have "(n_merge r' \<noteq> [] \<longrightarrow> merge_known v (w_git w) r') \<and> (n_state r' = Received \<longrightarrow> n_merge r' = [])
      \<and> (n_state r' = Promoted \<longrightarrow> n_merge r' \<noteq> [] \<and> anc v (w_git w) (n_merge r') (v_tip v (w_git w)))"
    if mem: "r' \<in> set (snd (validating_stmt i base merge True reason (rows_of w)))" for r'
  proof -
    obtain r where r: "r \<in> set (rows_of w)" and r': "r' = (if n_id r = i \<and> n_state r = Received
        then r\<lparr>n_state := Validating, n_base := base, n_merge := merge, n_gate_ok := True, n_gate_reason := reason\<rparr>
        else r)"
      using mem by (auto simp: validating_stmt_def in_upd)
    show ?thesis
    proof (cases "n_id r = i \<and> n_state r = Received")
      case True
      then show ?thesis using r' assms(2,3) by (auto simp: merge_known_def knows_merge_def)
    next
      case False
      then show ?thesis using r' rows r by auto
    qed
  qed
  ultimately show ?thesis
    using d by (auto simp: inv_rows_def validating_stmt_def ids_upd)
qed

definition recorded :: "string \<Rightarrow> string \<Rightarrow> string \<Rightarrow> ('l, 'g) world \<Rightarrow> bool" where
  "recorded i base merge w \<longleftrightarrow> (merge \<noteq> [] \<longrightarrow> (\<exists>r. integ_find i (rows_of w) = Some r
     \<and> n_merge r = merge \<and> n_base r = base \<and> n_gate_ok r))"

lemma recorded_later: "recorded i base merge w \<Longrightarrow> ext v w w' \<Longrightarrow> recorded i base merge w'"
  by (fastforce simp: recorded_def ext_def merges_kept_def same_merge_def)

lemma sound_set_validating:
  assumes "trunk_inv v w" and "knows_merge v base (Inr merge) w" and "base \<noteq> zero_oid"
  shows "sound v (\<lambda>x u. x = Inr True \<longrightarrow> recorded i base merge u) (set_validating i base merge True reason) w"
  unfolding set_validating_def pthen_def
proof (rule sound_bind)
  show "sound v (\<lambda>x u. x = Inr 1 \<longrightarrow> recorded i base merge u)
      (on_store (sql (validating_stmt i base merge True reason))) w"
  proof (rule sound_sql)
    fix u assume u: "ext v w u" "trunk_inv v u"
    then have km: "knows_merge v base (Inr merge) u"
      using assms(2) stable_facts(2) [of v base] unfolding stable_def by blast
    show "inv_rows v (w_git u) (snd (validating_stmt i base merge True reason (rows_of u)))
        \<and> merges_kept (rows_of u) (snd (validating_stmt i base merge True reason (rows_of u)))"
      by (rule validating_rows [OF u(2) km assms(3)])
    fix u' assume r': "rows_of u' = snd (validating_stmt i base merge True reason (rows_of u))"
      "w_git u' = w_git u"
    have d: "distinct (map n_id (rows_of u))" using u(2) by (simp add: trunk_inv_def inv_rows_def)
    have hit: "\<exists>r. integ_find i (rows_of u) = Some r \<and> n_state r = Received"
      if "fst (validating_stmt i base merge True reason (rows_of u)) = 1"
    proof -
      have "filter (\<lambda>r. n_id r = i \<and> n_state r = Received) (rows_of u) \<noteq> []"
        using that by (auto simp: validating_stmt_def upd_where_def)
      then show ?thesis using d by (auto simp: filter_empty_conv integ_find_row)
    qed
    show "Inr (fst (validating_stmt i base merge True reason (rows_of u))) = (Inr 1 :: err + nat) \<longrightarrow>
        recorded i base merge u'"
    proof
      assume "Inr (fst (validating_stmt i base merge True reason (rows_of u))) = (Inr 1 :: err + nat)"
      then obtain r where r: "integ_find i (rows_of u) = Some r" "n_state r = Received"
        using hit by auto
      then have "n_id r = i" by (auto simp: integ_find_def dest: find_SomeD)
      with r have "integ_find i (rows_of u') = Some (r\<lparr>n_state := Validating, n_base := base,
          n_merge := merge, n_gate_ok := True, n_gate_reason := reason\<rparr>)"
        by (simp add: r'(1) validating_stmt_def integ_find_upd)
      then show "recorded i base merge u'" by (simp add: recorded_def)
    qed
  qed (auto simp: stable_def intro: recorded_later)
next
  show "sound v (\<lambda>x u. x = Inr True \<longrightarrow> recorded i base merge u)
      (case x of Inl e \<Rightarrow> Done (Inl e) | Inr n \<Rightarrow> Done (Inr (n = 1))) u"
    if "x = Inr 1 \<longrightarrow> recorded i base merge u" for x u
    using that by (cases x) (auto simp: obeys_Done_iff intro: recorded_later)
qed (rule assms(1))

lemma insert_row_tabs:
  "tabs (snd (insert_row r d)) = tabs d
   \<or> tabs (snd (insert_row r d)) = tabs d @ [r] \<and> integ_find (n_id r) (tabs d) = None"
  by (auto simp: insert_row_def sql_def split: list.split option.split bool.split)

lemma sound_insert: "sound v (\<lambda>_ _. True) (on_store (insert_row (new_row i branch holder base now))) w"
  unfolding on_store_def
proof (rule obeys_atomic)
  fix u assume u: "ext v w u" "trunk_inv v u"
  let ?r = "new_row i branch holder base now"
  obtain res st where m: "insert_row ?r (w_store u) = (res, st)" by (cases "insert_row ?r (w_store u)")
  define u' where "u' = u\<lparr>w_store := st\<rparr>"
  have g: "w_git u' = w_git u" by (simp add: u'_def)
  have "rows_of u' = rows_of u \<or> rows_of u' = rows_of u @ [?r] \<and> integ_find i (rows_of u) = None"
    using insert_row_tabs [of ?r "w_store u"] m by (simp add: u'_def rows_of_def new_row_def)
  then have "trunk_inv v u' \<and> forward v u u' \<and> ext v u u'"
  proof
    assume "rows_of u' = rows_of u"
    with store_moves [OF u(2) _ _ this g] u(2) show ?thesis by (simp add: trunk_inv_def)
  next
    assume r: "rows_of u' = rows_of u @ [?r] \<and> integ_find i (rows_of u) = None"
    then have "inv_rows v (w_git u) (rows_of u @ [?r])"
      using u(2) by (auto simp: trunk_inv_def inv_rows_def new_row_def integ_find_def find_None_iff)
    moreover have "merges_kept (rows_of u) (rows_of u @ [?r])"
      by (auto simp: merges_kept_def same_merge_def integ_find_def find_append)
    ultimately show ?thesis using store_moves [OF u(2) _ _ _ g] r by blast
  qed
  then show "trunk_inv v (snd (case insert_row ?r (w_store u) of (r, st) \<Rightarrow> (r, u\<lparr>w_store := st\<rparr>)))
      \<and> forward v u (snd (case insert_row ?r (w_store u) of (r, st) \<Rightarrow> (r, u\<lparr>w_store := st\<rparr>)))
      \<and> ext v u (snd (case insert_row ?r (w_store u) of (r, st) \<Rightarrow> (r, u\<lparr>w_store := st\<rparr>)))
      \<and> (\<forall>t. ext v (snd (case insert_row ?r (w_store u) of (r, st) \<Rightarrow> (r, u\<lparr>w_store := st\<rparr>))) t \<and> trunk_inv v t \<longrightarrow> True)"
    by (simp add: m u'_def)
qed

section \<open>The commands\<close>

lemma sound_git_then:
  assumes "git_doc ig v" and "args \<noteq> []" and "hd args \<noteq> ''update-ref''" and "trunk_inv v w"
    and "\<And>u code out g'. ext v w u \<Longrightarrow> trunk_inv v u \<Longrightarrow> ig_git ig env args (w_git u) = ((code, out), g') \<Longrightarrow>
       Q (f (code, out)) (u\<lparr>w_git := g'\<rparr>)"
    and "stable v Q"
  shows "sound v Q (pbind (run_git ig env args) (\<lambda>x. Done (f x))) w"
proof (rule sound_bind [where Q = "\<lambda>x. Q (f x)"])
  show "sound v (\<lambda>x. Q (f x)) (run_git ig env args) w"
    by (rule sound_git [OF assms(1-3)]) (use assms(5,6) in \<open>auto simp: stable_def\<close>)
  show "sound v Q (Done (f x)) u" if "Q (f x) u" for x u
    using that assms(6) by (rule sound_Done)
qed (rule assms(4))

lemma sound_tip: "git_doc ig v \<Longrightarrow> trunk_inv v w \<Longrightarrow> sound v (knows_tip v) (tip ig) w"
  unfolding tip_def split_def
  by (rule sound_git_then)
    (auto simp: knows_tip_def zero_oid_def anc_def tip_of_def git_result(2) dest: git_docD(3))

lemma sound_tip_or_empty: "git_doc ig v \<Longrightarrow> trunk_inv v w \<Longrightarrow> sound v (\<lambda>_ _. True) (tip_or_empty ig) w"
  unfolding tip_or_empty_def by (rule sound_bind [OF sound_tip]) auto

lemma sound_quiet_git:
  "git_doc ig v \<Longrightarrow> trunk_inv v w \<Longrightarrow> args \<noteq> [] \<Longrightarrow> hd args \<noteq> ''update-ref'' \<Longrightarrow>
     sound v (\<lambda>_ _. True) (pbind (run_git ig env args) (\<lambda>x. Done (f x))) w"
  by (rule sound_git_then) auto

lemma sound_resolve: "git_doc ig v \<Longrightarrow> trunk_inv v w \<Longrightarrow> sound v (\<lambda>_ _. True) (resolve_rev ig rv) w"
  unfolding resolve_rev_def split_def by (rule sound_quiet_git) auto

lemma sound_merge_tree: "git_doc ig v \<Longrightarrow> trunk_inv v w \<Longrightarrow> sound v (\<lambda>_ _. True) (merge_tree ig trunk b) w"
  unfolding merge_tree_def split_def Let_def by (auto intro!: sound_quiet_git)

lemma sound_validate: "git_doc ig v \<Longrightarrow> trunk_inv v w \<Longrightarrow> sound v (\<lambda>_ _. True) (validate_merge ig trunk b) w"
  unfolding validate_merge_def pthen_def
  by (rule sound_bind [OF sound_merge_tree]) (auto split: sum.split)

lemma sound_commit:
  "git_doc ig v \<Longrightarrow> trunk_inv v w \<Longrightarrow> sound v (knows_merge v trunk) (commit_merge ig tree trunk b msg date) w"
  unfolding commit_merge_def split_def
  by (rule sound_git_then) (auto simp: knows_merge_def commit_args_def dest: git_docD(4) [unfolded commit_args_def])

lemma anc_trans: "anc v g a b \<Longrightarrow> anc v g b c \<Longrightarrow> anc v g a c"
  unfolding anc_def by (rule rtrancl_trans)

lemma sound_is_ancestor:
  assumes "git_doc ig v" and "trunk_inv v w" and "anc v (w_git w) t (tip_of v w)"
  shows "sound v (knows_anc v c) (is_ancestor ig c t) w"
proof (cases "c = [] \<or> t = []")
  case True
  then show ?thesis by (auto simp: is_ancestor_def knows_anc_def intro!: sound_Done)
next
  case False
  have "sound v (knows_anc v c) (pbind (run_git ig [] [''merge-base'', ''--is-ancestor'', c, t]) (\<lambda>x.
      Done (if fst x = Some 0 then Inr True else if fst x = Some 1 then Inr False
        else Inl (Fmt ''trunk: is-ancestor %s %s: %w: %s'' [short c, short t, snd x])))) w"
  proof (rule sound_git_then [OF assms(1) _ _ assms(2)])
    fix u code out g'
    assume u: "ext v w u" "trunk_inv v u"
      and g: "ig_git ig [] [''merge-base'', ''--is-ancestor'', c, t] (w_git u) = ((code, out), g')"
    have "knows_anc v c (Inr True) (u\<lparr>w_git := g'\<rparr>)" if "code = Some 0"
    proof -
      have "anc v (w_git u) c t" using git_docD(5) [OF assms(1)] g that by blast
      moreover have "anc v (w_git u) t (tip_of v u)" using u(1) assms(3) False by (auto simp: ext_def)
      ultimately have "anc v (w_git u) c (tip_of v u)" by (rule anc_trans)
      moreover have "objects_kept v (w_git u) g'" and "v_tip v g' = tip_of v u"
        using git_result [OF assms(1) g] by (simp_all add: tip_of_def)
      ultimately show ?thesis using False by (simp add: knows_anc_def tip_of_def anc_kept)
    qed
    then show "knows_anc v c (if fst (code, out) = Some 0 then Inr True else if fst (code, out) = Some 1 then Inr False
        else Inl (Fmt ''trunk: is-ancestor %s %s: %w: %s'' [short c, short t, snd (code, out)])) (u\<lparr>w_git := g'\<rparr>)"
      by (auto simp: knows_anc_def)
  qed simp_all
  with False show ?thesis by (simp add: is_ancestor_def split_def)
qed

lemma sound_landed:
  assumes "git_doc ig v" and "trunk_inv v w"
  shows "sound v (knows_anc v (n_merge r)) (landed ig r) w"
proof (cases "n_merge r = []")
  case True
  then show ?thesis by (auto simp: landed_def knows_anc_def intro!: sound_Done)
next
  case False
  have "sound v (knows_anc v (n_merge r)) (case x of Inl e \<Rightarrow> Done (Inl e)
      | Inr y \<Rightarrow> (case y of (t, present) \<Rightarrow> if \<not> present then Done (Inr False) else is_ancestor ig (n_merge r) t)) u"
    if "trunk_inv v u" "knows_tip v x u" for x u
    using that sound_is_ancestor [OF assms(1)]
    by (auto simp: knows_tip_def knows_anc_def split: sum.split prod.split intro!: sound_Done)
  then show ?thesis
    using False by (auto simp: landed_def pthen_def intro: sound_bind [OF sound_tip [OF assms]] assms(2))
qed

lemma anc_of_nothing:
  assumes "v_parents v g [] = None" and "anc v g c []"
  shows "c = []"
  using assms(2) unfolding anc_def
  by (rule rtranclE) (use assms(1) in \<open>auto simp: parent_rel_def\<close>)

lemma anc_advance:
  assumes "anc v g c base" and "c \<noteq> []" and "objects_kept v g g'" and "v_parents v g [] = None"
    and "v_parents v g' new = Some (merge_parents base b)"
  shows "anc v g' c new"
proof -
  have "base \<noteq> []" using anc_of_nothing [OF assms(4)] assms(1,2) by auto
  then have "(base, new) \<in> parent_rel v g'"
    using assms(5) merge_parents_mem by (auto simp: parent_rel_def)
  then show ?thesis using anc_kept [OF assms(3,1)] by (simp add: anc_def rtrancl.rtrancl_into_rtrancl)
qed

text \<open>The one command that moves the trunk.\<close>

lemma advance_moves:
  assumes doc: "git_doc ig v" and i: "trunk_inv v w" and rk: "row_known v i r w"
    and g: "ig_git ig [] (advance_args ig (n_merge r) (n_base r)) (w_git w) = ((code, out), g')"
    and w': "w' = w\<lparr>w_git := g'\<rparr>"
  shows "trunk_inv v w' \<and> forward v w w' \<and> ext v w w' \<and> (code = Some 0 \<longrightarrow> seen_landed v i w')"
proof -
  let ?old = "if n_base r = [] then zero_oid else n_base r"
  have k: "objects_kept v (w_git w) g'" using git_result(1) [OF doc g] .
  have nil: "v_parents v g [] = None" for g using git_docD(7) [OF doc] .
  have upd: "update_ref_doc v (n_merge r) ?old (w_git w) ((code, out), g')"
    using git_docD(6) [OF doc, of "n_merge r" ?old "w_git w"] g by (simp add: advance_args_def)
  have rows: "rows_of w' = rows_of w" "w_git w' = g'" by (simp_all add: w' rows_of_def)
  show ?thesis
  proof (cases "n_merge r \<noteq> [] \<and> v_tip v (w_git w) = (if ?old = zero_oid then [] else ?old) \<and> v_tip v g' = n_merge r")
    case True
    then obtain b r' where b: "v_parents v (w_git w) (n_merge r) = Some (merge_parents (n_base r) b)"
      and nz: "n_base r \<noteq> zero_oid" "n_gate_ok r"
      and r': "integ_find i (rows_of w) = Some r'" "same_merge r r'"
      using rk by (auto simp: row_known_def merge_known_def)
    have t: "tip_of v w = n_base r" "tip_of v w' = n_merge r"
      using True nz by (auto simp: tip_of_def w' split: if_splits)
    have b': "v_parents v g' (n_merge r) = Some (merge_parents (n_base r) b)"
      using b k by (simp add: objects_kept_def)
    have adv: "anc v g' c (n_merge r)" if "anc v (w_git w) c (n_base r)" "c \<noteq> []" for c
      using anc_advance [OF that k nil b'] .
    have fwd: "forward v w w'"
      using find_SomeD r' t nz b' unfolding forward_def same_merge_def integ_find_def rows(2) by metis
    have e: "ext v w w'"
      using k adv t by (auto simp: ext_def rows)
    have "inv_rows v g' (rows_of w)"
      using i k adv t
      by (fastforce simp: trunk_inv_def inv_rows_def merge_known_def objects_kept_def tip_of_def w')
    then have "trunk_inv v w'" by (simp add: trunk_inv_def rows)
    moreover have "seen_landed v i w'"
      unfolding seen_landed_def
      using row_known_later [OF rk e] True by (auto simp: anc_def tip_of_def w')
    ultimately show ?thesis using fwd e by blast
  next
    case False
    then have t: "v_tip v g' = v_tip v (w_git w)" and "code \<noteq> Some 0"
      using upd by (auto simp: update_ref_doc_def Let_def split: if_splits)
    have "inv_rows v g' (rows_of w)"
      using i k t anc_kept [OF k]
      by (fastforce simp: trunk_inv_def inv_rows_def merge_known_def objects_kept_def)
    with \<open>code \<noteq> Some 0\<close> t k anc_kept [OF k] show ?thesis
      by (auto simp: trunk_inv_def forward_def ext_def tip_of_def rows)
  qed
qed

lemma sound_advance:
  assumes "git_doc ig v" and "trunk_inv v w" and "row_known v i r w"
  shows "sound v (\<lambda>x u. x = Inr () \<longrightarrow> seen_landed v i u) (advance_trunk ig (n_merge r) (n_base r)) w"
  unfolding advance_trunk_def
proof (rule sound_bind [where Q = "\<lambda>x u. fst x = Some 0 \<longrightarrow> seen_landed v i u"])
  show "sound v (\<lambda>x u. fst x = Some 0 \<longrightarrow> seen_landed v i u)
      (run_git ig [] (advance_args ig (n_merge r) (n_base r))) w"
    unfolding run_git_def
  proof (rule obeys_atomic)
    fix u assume u: "ext v w u" "trunk_inv v u"
    obtain code out g' where g: "ig_git ig [] (advance_args ig (n_merge r) (n_base r)) (w_git u) = ((code, out), g')"
      by (metis prod.collapse)
    have "trunk_inv v (u\<lparr>w_git := g'\<rparr>) \<and> forward v u (u\<lparr>w_git := g'\<rparr>) \<and> ext v u (u\<lparr>w_git := g'\<rparr>)
        \<and> (code = Some 0 \<longrightarrow> seen_landed v i (u\<lparr>w_git := g'\<rparr>))"
      by (rule advance_moves [OF assms(1) u(2) row_known_later [OF assms(3) u(1)] g refl])
    then show "trunk_inv v (snd (case ig_git ig [] (advance_args ig (n_merge r) (n_base r)) (w_git u) of (x, g) \<Rightarrow> (x, u\<lparr>w_git := g\<rparr>)))
      \<and> forward v u (snd (case ig_git ig [] (advance_args ig (n_merge r) (n_base r)) (w_git u) of (x, g) \<Rightarrow> (x, u\<lparr>w_git := g\<rparr>)))
      \<and> ext v u (snd (case ig_git ig [] (advance_args ig (n_merge r) (n_base r)) (w_git u) of (x, g) \<Rightarrow> (x, u\<lparr>w_git := g\<rparr>)))
      \<and> (\<forall>t. ext v (snd (case ig_git ig [] (advance_args ig (n_merge r) (n_base r)) (w_git u) of (x, g) \<Rightarrow> (x, u\<lparr>w_git := g\<rparr>))) t \<and> trunk_inv v t \<longrightarrow>
         fst (fst (case ig_git ig [] (advance_args ig (n_merge r) (n_base r)) (w_git u) of (x, g) \<Rightarrow> (x, u\<lparr>w_git := g\<rparr>))) = Some 0 \<longrightarrow> seen_landed v i t)"
      by (auto simp: g intro: seen_landed_later)
  qed
  show "sound v (\<lambda>x u. x = Inr () \<longrightarrow> seen_landed v i u) (case x of (code, out) \<Rightarrow>
      Done (if code \<noteq> Some 0 then
              Inl (Fmt ''trunk: update-ref CAS (%s %s->%s): %w: %s'' [trunk_ref ig, short (n_base r), short (n_merge r), out])
            else Inr ())) u"
    if "fst x = Some 0 \<longrightarrow> seen_landed v i u" for x u
    using that by (auto simp: obeys_Done_iff intro: seen_landed_later split: prod.split)
qed (rule assms(2))

section \<open>The operations\<close>

text \<open>An answer that says promoted tells that the recorded merge is in the trunk.\<close>

definition tells :: "'g git_view \<Rightarrow> string \<Rightarrow> outcome \<times> err option \<Rightarrow> ('l, 'g) world \<Rightarrow> bool" where
  "tells v i x w \<longleftrightarrow> (o_promoted (fst x) \<longrightarrow> seen_landed v i w)"

lemma tells_not [simp]:
  "tells v i (no_outcome, e) w" "tells v i (stopped_outcome j st0 reason retry, e) w"
  "tells v i (no_outcome\<lparr>o_id := j\<rparr>, e) w"
  "tells v i (no_outcome\<lparr>o_id := j, o_state := st\<rparr>, e) w"
  "tells v i (no_outcome\<lparr>o_id := j, o_state := st, o_tip := t\<rparr>, e) w"
  "tells v i (no_outcome\<lparr>o_id := j, o_reason := reason\<rparr>, e) w"
  by (simp_all add: tells_def no_outcome_def stopped_outcome_def)

lemma tells_later: "tells v i x w \<Longrightarrow> ext v w w' \<Longrightarrow> tells v i x w'"
  using seen_landed_later by (auto simp: tells_def)

lemma stable_tells [simp]: "stable v (tells v i)"
  using tells_later by (auto simp: stable_def)

lemma sound_tells_not [simp]:
  fixes w :: "('l, 'g) world"
  shows "(\<And>u :: ('l, 'g) world. tells v i x u) \<Longrightarrow> sound v (tells v i) (Done x) w"
  by (simp add: obeys_Done_iff)

text \<open>Sequencing after a call whose result says nothing.\<close>

lemma sound_then_any:
  assumes "sound v (\<lambda>_ _. True) p w" and "trunk_inv v w"
    and "\<And>x u. ext v w u \<Longrightarrow> trunk_inv v u \<Longrightarrow> sound v R (f x) u"
  shows "sound v R (pbind p f) w"
  by (rule sound_bind [OF assms(1,2)]) (use assms(3) in simp)

lemma sound_audit: "sound v (\<lambda>_ _. True) (audit_act ig session kind p) w"
  unfolding audit_act_def by (rule sound_lease)

lemma sound_audit_then:
  assumes "trunk_inv v w" and "\<And>x u. ext v w u \<Longrightarrow> trunk_inv v u \<Longrightarrow> sound v R (f x) u"
  shows "sound v R (pbind (audit_act ig session kind p) f) w"
  by (rule sound_then_any [OF sound_audit assms])

lemma sound_finish:
  "git_doc ig v \<Longrightarrow> trunk_inv v w \<Longrightarrow> seen_landed v i w \<Longrightarrow> sound v (tells v i) (finish ig i) w"
  unfolding finish_def
  by (rule sound_then_any [OF sound_tip_or_empty])
    (auto simp: obeys_Done_iff tells_def intro: seen_landed_later)

lemma landed_seen:
  "row_known v i r w \<Longrightarrow> knows_anc v (n_merge r) (Inr True) w \<Longrightarrow> seen_landed v i w"
  by (auto simp: seen_landed_def knows_anc_def)

lemma sound_to_promoted:
  assumes "git_doc ig v" and "trunk_inv v w" and "seen_landed v i w"
  shows "sound v (tells v i) (pbind (cas_state i from Promoted) (\<lambda>_. finish ig i)) w"
  by (rule sound_then_any [OF sound_cas]) (use assms in \<open>auto intro: sound_finish seen_landed_later\<close>)

lemma sound_to_aborted:
  assumes "trunk_inv v w" and "\<And>x u. ext v w u \<Longrightarrow> trunk_inv v u \<Longrightarrow> sound v R (f x) u"
  shows "sound v R (pbind (cas_state i from Aborted) f) w"
  by (rule sound_then_any [OF sound_cas]) (use assms in auto)

lemma sound_landed_answer:
  assumes "seen_landed v i w"
  shows "sound v (tells v i) (Done (promoted_outcome i t, e)) w"
  using assms by (auto simp: obeys_Done_iff tells_def intro: seen_landed_later)

lemma sound_land_fresh:
  fixes w :: "('l, 'g) world"
  assumes "git_doc ig v" and "trunk_inv v w" and "row_known v i r w"
  shows "sound v (tells v i) (land_fresh ig session i r) w"
  unfolding land_fresh_def
proof (rule sound_bind [OF sound_advance [OF assms] assms(2)])
  fix adv :: "err + unit" and u :: "('l, 'g) world"
  assume u: "trunk_inv v u" "adv = Inr () \<longrightarrow> seen_landed v i u"
  have "sound v (tells v i) (pbind (cas_state i Validating Promoted) (\<lambda>_.
      pbind (audit_act ig session ''trunk.promoted'' (PQuoted [(''id'', i), (''branch'', n_branch r), (''commit'', n_merge r)])) (\<lambda>_.
      Done (promoted_outcome i (n_merge r), None)))) u" if "seen_landed v i u"
  proof (rule sound_then_any [OF sound_cas u(1)])
    fix x y assume "ext v u x" "trunk_inv v x"
    then show "sound v (tells v i) (pbind (audit_act ig session ''trunk.promoted''
        (PQuoted [(''id'', i), (''branch'', n_branch r), (''commit'', n_merge r)])) (\<lambda>_.
        Done (promoted_outcome i (n_merge r), None))) x"
      using seen_landed_later [OF that]
      by (auto intro!: sound_audit_then sound_landed_answer intro: seen_landed_later)
  qed (use that u(1) in auto)
  then show "sound v (tells v i) (case adv of
       Inl e \<Rightarrow> Done (stopped_outcome i Validating (Wrapped ''update-ref CAS failed'' e) True, None)
     | Inr _ \<Rightarrow> pbind (cas_state i Validating Promoted) (\<lambda>_.
         pbind (audit_act ig session ''trunk.promoted'' (PQuoted [(''id'', i), (''branch'', n_branch r), (''commit'', n_merge r)])) (\<lambda>_.
         Done (promoted_outcome i (n_merge r), None)))) u"
    using u(2) by (auto split: sum.split)
qed

lemma sound_land:
  assumes "git_doc ig v" and "trunk_inv v w" and "row_known v i r w"
  shows "sound v (tells v i) (land ig session i r) w"
  unfolding land_def
proof (rule sound_check [OF sound_landed [OF assms(1,2)] assms(2)])
  fix b u assume u: "ext v w u" "trunk_inv v u" "knows_anc v (n_merge r) (Inr b) u"
  note rk = row_known_later [OF assms(3) u(1)]
  have "sound v (tells v i) (land_landed ig i) u" if "b"
    unfolding land_landed_def
    using landed_seen [OF rk] u(3) that by (auto intro!: sound_to_promoted assms(1) u(2))
  moreover have "sound v (tells v i) (land_stale i) x" if "trunk_inv v x" for x
    unfolding land_stale_def by (rule sound_to_aborted) (use that in auto)
  moreover have "sound v (tells v i) (land_fresh ig session i r) x" if "ext v u x" "trunk_inv v x" for x
    by (rule sound_land_fresh [OF assms(1) that(2) row_known_later [OF rk that(1)]])
  ultimately show "sound v (tells v i) (if b then land_landed ig i
      else check (tip ig) (\<lambda>(now_tip, _).
        if now_tip \<noteq> n_base r then land_stale i else land_fresh ig session i r)) u"
    by (auto intro!: sound_check [OF sound_tip] assms(1) u(2) split: prod.split)
qed simp

lemma sound_with_lease:
  fixes w :: "('l, 'g) world"
  assumes "git_doc ig v" and "trunk_inv v w" and "row_known v i r w"
  shows "sound v (tells v i) (with_lease ig now session i r) w"
proof -
  have "sound v (tells v i) (check (get_row i) (\<lambda>cur. land ig session i (case cur of None \<Rightarrow> r | Some r' \<Rightarrow> r'))) u"
    if "ext v w u" "trunk_inv v u" for u
    by (rule sound_check [OF sound_get_row that(2)])
      (use row_known_later [OF row_known_later [OF assms(3) that(1)]] assms(1) in
        \<open>auto simp: knows_row_def intro!: sound_land split: option.split\<close>)
  then have "sound v (tells v i) (pbind (check (get_row i) (\<lambda>cur. land ig session i (case cur of None \<Rightarrow> r | Some r' \<Rightarrow> r'))) (\<lambda>out.
       pbind (on_lease (lg_release (ig_gate ig) (ig_key ig) session)) (\<lambda>_. Done out))) u"
    if "ext v w u" "trunk_inv v u" for u :: "('l, 'g) world"
  proof (rule sound_bind [OF _ that(2)])
    fix out and x :: "('l, 'g) world"
    assume x: "trunk_inv v x" "tells v i out x"
    show "sound v (tells v i) (pbind (on_lease (lg_release (ig_gate ig) (ig_key ig) session)) (\<lambda>_. Done out)) x"
      by (rule sound_then_any [OF sound_lease x(1)])
        (use x(2) in \<open>auto intro!: sound_Done intro: tells_later\<close>)
  qed (use that in auto)
  then show ?thesis
    unfolding with_lease_def
    by (auto intro!: sound_check [OF sound_lease assms(2)])
qed

text \<open>What reconciling tells: nothing, or a final answer.\<close>

definition tells_opt :: "'g git_view \<Rightarrow> string \<Rightarrow> (outcome \<times> err option) option \<Rightarrow> ('l, 'g) world \<Rightarrow> bool" where
  "tells_opt v i x w \<longleftrightarrow> (\<forall>out. x = Some out \<longrightarrow> tells v i out w)"

lemma sound_finish_opt:
  assumes "git_doc ig v" and "trunk_inv v w" and "seen_landed v i w"
  shows "sound v (tells_opt v i) (pbind (finish ig i) (\<lambda>y. Done (Some y))) w"
  by (rule sound_bind [OF sound_finish [OF assms] assms(2)])
    (use stable_tells in \<open>force simp: obeys_Done_iff tells_opt_def stable_def\<close>)

lemma sound_reconcile:
  assumes "git_doc ig v" and "trunk_inv v w" and "row_known v i r w" and "n_state r = Promoted \<longrightarrow> seen_landed v i w"
  shows "sound v (tells_opt v i) (reconcile ig r) w"
proof -
  have i: "n_id r = i" using assms(3) by (simp add: row_known_def)
  have "sound v (tells_opt v i) (pbind (landed ig r) (\<lambda>x.
      if x = Inr True then
        pbind (cas_state i Validating Promoted) (\<lambda>_. pbind (finish ig i) (\<lambda>y. Done (Some y)))
      else Done None)) w"
  proof (rule sound_bind [OF sound_landed [OF assms(1,2)] assms(2)])
    fix x u assume u: "ext v w u" "trunk_inv v u" "knows_anc v (n_merge r) x u"
    have "seen_landed v i u" if "x = Inr True"
      using landed_seen [OF row_known_later [OF assms(3) u(1)]] u(3) that by simp
    then show "sound v (tells_opt v i) (if x = Inr True then
        pbind (cas_state i Validating Promoted) (\<lambda>_. pbind (finish ig i) (\<lambda>y. Done (Some y)))
      else Done None) u"
      using u(2) assms(1)
      by (auto intro!: sound_then_any [OF sound_cas] sound_finish_opt intro: seen_landed_later
          simp: obeys_Done_iff tells_opt_def)
  qed
  then show ?thesis
    using assms(1,2,4) i
    by (auto simp: reconcile_def obeys_Done_iff tells_opt_def intro!: sound_finish_opt split: integ_state.split)
qed

lemma row_known_recorded:
  assumes "recorded (n_id r) base m w" and "knows_merge v base (Inr m) w" and "base \<noteq> zero_oid"
  shows "row_known v (n_id r) (r\<lparr>n_state := Validating, n_merge := m, n_base := base, n_gate_ok := True\<rparr>) w"
  using assms by (auto simp: row_known_def recorded_def same_merge_def merge_known_def knows_merge_def)

lemma sound_record_merge:
  assumes "git_doc ig v" and "trunk_inv v w" and "row_known v (n_id r) r w" and "trunk \<noteq> zero_oid"
    and "\<And>r' u. ext v w u \<Longrightarrow> trunk_inv v u \<Longrightarrow> row_known v (n_id r) r' u \<Longrightarrow> sound v (tells v (n_id r)) (cont r') u"
  shows "sound v (tells v (n_id r)) (record_merge ig r trunk branch tree cont) w"
  unfolding record_merge_def
proof (rule sound_check [OF sound_commit [OF assms(1,2)] assms(2)])
  fix m u assume u: "ext v w u" "trunk_inv v u" "knows_merge v trunk (Inr m) u"
  have lost: "sound v (tells v (n_id r)) (check (get_row (n_id r)) (\<lambda>cur. cont (case cur of None \<Rightarrow> r | Some r' \<Rightarrow> r'))) x"
    if x: "ext v u x" "trunk_inv v x" for x
  proof (rule sound_check [OF sound_get_row x(2)])
    fix cur y assume y: "ext v x y" "trunk_inv v y" "knows_row v (n_id r) (Inr cur) y"
    have "ext v w y" using u(1) x(1) y(1) ext_order(2) by (meson transpD)
    moreover have "row_known v (n_id r) (case cur of None \<Rightarrow> r | Some r' \<Rightarrow> r') y"
      using y(3) row_known_later [OF assms(3) calculation] by (auto simp: knows_row_def split: option.split)
    ultimately show "sound v (tells v (n_id r)) (cont (case cur of None \<Rightarrow> r | Some r' \<Rightarrow> r')) y"
      using y(2) assms(5) by blast
  qed simp
  show "sound v (tells v (n_id r)) (check (set_validating (n_id r) trunk m True []) (\<lambda>won.
     if won then cont (r\<lparr>n_state := Validating, n_merge := m, n_base := trunk, n_gate_ok := True\<rparr>)
     else check (get_row (n_id r)) (\<lambda>cur. cont (case cur of None \<Rightarrow> r | Some r' \<Rightarrow> r')))) u"
  proof (rule sound_check [OF sound_set_validating [OF u(2,3) assms(4)] u(2)])
    fix won x assume x: "ext v u x" "trunk_inv v x" "Inr won = Inr True \<longrightarrow> recorded (n_id r) trunk m x"
    have "knows_merge v trunk (Inr m) x"
      using u(3) x(1) stable_facts(2) unfolding stable_def by blast
    then have "row_known v (n_id r) (r\<lparr>n_state := Validating, n_merge := m, n_base := trunk, n_gate_ok := True\<rparr>) x"
      if "won" using row_known_recorded x(3) assms(4) that by blast
    moreover have "ext v w x" using u(1) x(1) ext_order(2) by (meson transpD)
    ultimately show "sound v (tells v (n_id r))
       (if won then cont (r\<lparr>n_state := Validating, n_merge := m, n_base := trunk, n_gate_ok := True\<rparr>)
        else check (get_row (n_id r)) (\<lambda>cur. cont (case cur of None \<Rightarrow> r | Some r' \<Rightarrow> r'))) x"
      using assms(5) lost x(1,2) by simp
  qed simp
qed simp

lemma sound_reject_branch: "trunk_inv v w \<Longrightarrow> sound v (tells v (n_id r)) (reject_branch r e) w"
  unfolding reject_branch_def by (rule sound_to_aborted) auto

lemma sound_reject_merge: "trunk_inv v w \<Longrightarrow> sound v (tells v (n_id r)) (reject_merge ig session r reason) w"
  unfolding reject_merge_def by (rule sound_to_aborted) (auto intro: sound_audit_then)

lemma sound_validate_step:
  assumes "git_doc ig v" and "trunk_inv v w" and "row_known v (n_id r) r w"
    and "\<And>r' u. ext v w u \<Longrightarrow> trunk_inv v u \<Longrightarrow> row_known v (n_id r) r' u \<Longrightarrow> sound v (tells v (n_id r)) (cont r') u"
  shows "sound v (tells v (n_id r)) (validate_step ig session r cont) w"
  unfolding validate_step_def
proof (rule sound_check [OF sound_tip [OF assms(1,2)] assms(2)])
  fix tp u assume u: "ext v w u" "trunk_inv v u" "knows_tip v (Inr tp) u"
  have step: "sound v (tells v (n_id r)) (check (validate_merge ig (fst tp) branch) (\<lambda>gr.
         if \<not> gr_ok gr then reject_merge ig session r (gr_reason gr)
         else record_merge ig r (fst tp) branch (gr_tree gr) cont)) x"
    if x: "ext v u x" "trunk_inv v x" for x branch
  proof (rule sound_check [OF sound_validate [OF assms(1) x(2)] x(2)])
    fix gr y assume y: "ext v x y" "trunk_inv v y"
    have wy: "ext v w y" using u(1) x(1) y(1) ext_order(2) by (meson transpD)
    have "sound v (tells v (n_id r)) (record_merge ig r (fst tp) branch (gr_tree gr) cont) y"
    proof (rule sound_record_merge [OF assms(1) y(2) row_known_later [OF assms(3) wy]])
      show "fst tp \<noteq> zero_oid" using u(3) by (auto simp: knows_tip_def)
      show "sound v (tells v (n_id r)) (cont r') z" if "ext v y z" "trunk_inv v z" "row_known v (n_id r) r' z" for r' z
        using that assms(4) wy ext_order(2) by (meson transpD)
    qed
    then show "sound v (tells v (n_id r)) (if \<not> gr_ok gr then reject_merge ig session r (gr_reason gr)
         else record_merge ig r (fst tp) branch (gr_tree gr) cont) y"
      using sound_reject_merge [OF y(2)] by simp
  qed simp
  have "sound v (tells v (n_id r)) (check (validate_merge ig trunk branch) (\<lambda>gr.
         if \<not> gr_ok gr then reject_merge ig session r (gr_reason gr)
         else record_merge ig r trunk branch (gr_tree gr) cont)) x"
    if "ext v u x" "trunk_inv v x" "tp = (trunk, p)" for x branch trunk p
    using step [OF that(1,2), of branch] that(3) by (simp cong: if_cong)
  then show "sound v (tells v (n_id r)) (case tp of (trunk, _) \<Rightarrow>
     pbind (resolve_rev ig (n_branch r)) (\<lambda>b. case b of
       Inl e \<Rightarrow> reject_branch r e
     | Inr branch \<Rightarrow>
         check (validate_merge ig trunk branch) (\<lambda>gr.
         if \<not> gr_ok gr then reject_merge ig session r (gr_reason gr)
         else record_merge ig r trunk branch (gr_tree gr) cont))) u"
    using u(2) assms(1)
    by (cases tp) (auto intro!: sound_then_any [OF sound_resolve] sound_reject_branch split: sum.split)
qed simp

lemma sound_found:
  fixes w :: "('l, 'g) world"
  assumes "trunk_inv v w" and "\<And>u. trunk_inv v u \<Longrightarrow> sound v (tells v i) (f None) u"
    and "\<And>r u. trunk_inv v u \<Longrightarrow> n_id r = i \<Longrightarrow> row_known v i r u \<Longrightarrow>
      (n_state r = Promoted \<Longrightarrow> seen_landed v i u) \<Longrightarrow> sound v (tells v i) (f (Some r)) u"
  shows "sound v (tells v i) (check (get_row i) f) w"
proof (rule sound_check [OF sound_get_row assms(1)])
  fix x and u :: "('l, 'g) world"
  assume u: "trunk_inv v u" "knows_row v i (Inr x) u"
  show "sound v (tells v i) (f x) u"
  proof (cases x)
    case (Some r)
    then have "row_known v i r u" and "n_state r = Promoted \<Longrightarrow> seen_landed v i u"
      using u(2) by (simp_all add: knows_row_def)
    then show ?thesis using Some assms(3) [OF u(1) _ \<open>row_known v i r u\<close>] by (simp add: row_known_def)
  qed (use assms(2) u(1) in simp)
qed simp

lemma sound_promote:
  fixes w :: "('l, 'g) world"
  assumes "git_doc ig v" and "trunk_inv v w"
  shows "sound v (tells v i) (promote ig now session i) w"
  unfolding promote_def
proof (rule sound_found [OF assms(2)])
  fix r and u :: "('l, 'g) world"
  assume u: "trunk_inv v u" "n_id r = i" "row_known v i r u" "n_state r = Promoted \<Longrightarrow> seen_landed v i u"
  have "sound v (tells v i) (if n_state r = Received then validate_step ig session r (with_lease ig now session i)
      else with_lease ig now session i r) x" if x: "ext v u x" "trunk_inv v x" for x
    using sound_with_lease [OF assms(1) x(2)] row_known_later [OF u(3) x(1)] u(2)
    by (auto intro!: sound_validate_step [OF assms(1) x(2)] sound_with_lease [OF assms(1)])
  then show "sound v (tells v i) (case Some r of None \<Rightarrow> Done (no_outcome\<lparr>o_id := i, o_reason := Msg ''no such integration''\<rparr>, Some ErrNotFound)
     | Some r \<Rightarrow>
         pbind (reconcile ig r) (\<lambda>t. case t of
           Some out \<Rightarrow> Done out
         | None \<Rightarrow>
             if n_state r = Received then validate_step ig session r (with_lease ig now session i)
             else with_lease ig now session i r)) u"
    using u stable_tells
    by (auto intro!: sound_bind [OF sound_reconcile [OF assms(1)]] sound_Done split: option.split simp: tells_opt_def)
qed auto

lemma sound_abort_open:
  assumes "git_doc ig v" and "trunk_inv v w" and "row_known v i r w"
  shows "sound v (tells v i) (abort_open ig i r) w"
  unfolding abort_open_def
proof (rule sound_check [OF sound_landed [OF assms(1,2)] assms(2)])
  fix b u assume u: "ext v w u" "trunk_inv v u" "knows_anc v (n_merge r) (Inr b) u"
  have "seen_landed v i u" if "b"
    using landed_seen [OF row_known_later [OF assms(3) u(1)]] u(3) that by simp
  then show "sound v (tells v i) (if b then pbind (cas_state i (n_state r) Promoted) (\<lambda>_. finish ig i)
     else
       pbind (cas_state i (n_state r) Aborted) (\<lambda>_.
       pbind (tip_or_empty ig) (\<lambda>t.
       pbind (audit_act ig (n_holder r) ''trunk.aborted'' (PQuoted [(''id'', i)])) (\<lambda>_.
       Done (no_outcome\<lparr>o_id := i, o_state := Some Aborted, o_tip := t\<rparr>, None))))) u"
    using u(2) assms(1)
    by (auto intro!: sound_to_promoted sound_to_aborted sound_then_any [OF sound_tip_or_empty] sound_audit_then)
qed simp

lemma sound_abort:
  assumes "git_doc ig v" and "trunk_inv v w"
  shows "sound v (tells v i) (abort ig i) w"
  unfolding abort_def
  by (rule sound_found [OF assms(2)]) (use assms(1) in \<open>auto intro!: sound_finish sound_abort_open\<close>)

lemma sound_abort_as:
  fixes w :: "('l, 'g) world"
  assumes "git_doc ig v" and "trunk_inv v w"
  shows "sound v (tells v i) (abort_as ig session i) w"
  unfolding abort_as_def
proof (rule sound_found [OF assms(2)])
  fix r and u :: "('l, 'g) world"
  assume u: "trunk_inv v u" "n_id r = i" "row_known v i r u" "n_state r = Promoted \<Longrightarrow> seen_landed v i u"
  have "sound v (\<lambda>_ _. True) (landed ig r) u"
    using sound_landed [OF assms(1) u(1)] by (rule obeys_weaken) simp
  then show "sound v (tells v i) (case Some r of None \<Rightarrow> Done (no_outcome\<lparr>o_id := i, o_reason := Msg ''no such integration''\<rparr>, None)
     | Some r \<Rightarrow>
         if n_state r = Aborted \<or> n_state r = Promoted then abort ig i
         else
           pbind (landed ig r) (\<lambda>x.
           if x = Inr True then abort ig i
           else if n_holder r \<noteq> session then
             Done (no_outcome\<lparr>o_id := i, o_state := Some (n_state r)\<rparr>, Some ErrUnauthorized)
           else abort ig i)) u"
    using u(1) assms(1) by (auto intro!: sound_then_any [OF _ u(1)] sound_abort)
qed auto

lemma sound_status:
  fixes w :: "('l, 'g) world"
  assumes "git_doc ig v" and "trunk_inv v w"
  shows "sound v (tells v i) (status ig i) w"
  unfolding status_def
proof (rule sound_found [OF assms(2)])
  fix r and u :: "('l, 'g) world"
  assume u: "trunk_inv v u" "n_id r = i" "row_known v i r u" "n_state r = Promoted \<Longrightarrow> seen_landed v i u"
  show "sound v (tells v i) (case Some r of None \<Rightarrow> Done (no_outcome\<lparr>o_id := i\<rparr>, Some ErrNotFound)
     | Some r \<Rightarrow>
         pbind (reconcile ig r) (\<lambda>t. case t of
           Some (out, _) \<Rightarrow> Done (out, None)
         | None \<Rightarrow>
             pbind (tip_or_empty ig) (\<lambda>tp.
             Done (no_outcome\<lparr>o_id := i, o_state := Some (n_state r), o_tip := tp\<rparr>, None)))) u"
    using u assms(1)
    by (auto intro!: sound_bind [OF sound_reconcile [OF assms(1)]] sound_Done sound_then_any [OF sound_tip_or_empty]
        split: option.split prod.split simp: tells_opt_def tells_def no_outcome_def)
qed auto

lemma sound_submit:
  assumes "git_doc ig v" and "trunk_inv v w"
  shows "sound v (\<lambda>_ _. True) (submit ig now rnd session branch) w"
proof -
  have ins: "sound v (\<lambda>_ _. True) (insert_received i branch session base now) u"
    if "trunk_inv v u" for u i base
    unfolding insert_received_def pthen_def
    by (rule sound_bind [OF sound_get_row that])
      (auto intro!: sound_then_any [OF sound_insert] split: sum.split option.split)
  have tp: "sound v (\<lambda>_ _. True) (tip ig) u" if "trunk_inv v u" for u
    using sound_tip [OF assms(1) that] by (rule obeys_weaken) simp
  show ?thesis
    unfolding submit_def pthen_def
    using assms
    by (auto intro!: sound_then_any [OF sound_resolve] sound_then_any [OF tp] sound_then_any [OF ins]
        sound_audit_then split: sum.split prod.split)
qed

end
