(* ===== verification/SmallGit.thy ===== *)
theory SmallGit
  imports TrunkSafety
begin

text \<open>
  A small git that keeps its documented behaviour: the instance on which the laws of the trunk are
  run. Commits are numbered and named by a row of as many letters; every merge is clean; a branch
  resolves to the commit of its name.
\<close>

record small_git =
  sg_tip :: string
  sg_commits :: "string list list"   \<comment> \<open>the parents of commit 1, 2, ...\<close>

definition commit_name :: "nat \<Rightarrow> string" where
  "commit_name n = replicate n (CHR ''c'')"

definition sg_parents :: "small_git \<Rightarrow> string \<Rightarrow> string list option" where
  "sg_parents g c = (if 0 < length c \<and> c = commit_name (length c) \<and> length c \<le> length (sg_commits g)
     then Some (sg_commits g ! (length c - 1)) else None)"

definition sg_view :: "small_git git_view" where
  "sg_view = \<lparr>v_tip = sg_tip, v_parents = sg_parents\<rparr>"

primrec sg_ancestor :: "nat \<Rightarrow> small_git \<Rightarrow> string \<Rightarrow> string \<Rightarrow> bool" where
  "sg_ancestor 0 g c t \<longleftrightarrow> c = t"
| "sg_ancestor (Suc n) g c t \<longleftrightarrow> c = t
     \<or> (case sg_parents g t of None \<Rightarrow> False | Some ps \<Rightarrow> list_ex (\<lambda>p. sg_ancestor n g c p) ps)"

definition sg_commit :: "string list \<Rightarrow> small_git \<Rightarrow> (int option \<times> string) \<times> small_git" where
  "sg_commit ps g = ((Some 0, commit_name (Suc (length (sg_commits g)))),
     g\<lparr>sg_commits := sg_commits g @ [ps]\<rparr>)"

definition exits :: "int \<Rightarrow> string \<Rightarrow> small_git \<Rightarrow> (int option \<times> string) \<times> small_git" where
  "exits code out g = ((Some code, out), g)"

definition sg_update :: "string \<Rightarrow> string \<Rightarrow> small_git \<Rightarrow> (int option \<times> string) \<times> small_git" where
  "sg_update new old g =
     (if new \<noteq> [] \<and> sg_tip g = (if old = zero_oid then [] else old) then ((Some 0, []), g\<lparr>sg_tip := new\<rparr>)
      else exits 128 ''stale'' g)"

definition sg_rev_parse :: "string list \<Rightarrow> small_git \<Rightarrow> (int option \<times> string) \<times> small_git" where
  "sg_rev_parse args g =
     (case args of
        [v, q, ref] \<Rightarrow>
          if v = ''--verify'' \<and> q = ''--end-of-options'' then exits 0 (takeWhile (\<lambda>c. c \<noteq> CHR ''^'') ref) g
          else if sg_tip g = [] then exits 1 [] g
          else if trim_space (sg_tip g) = sg_tip g \<and> sg_tip g \<noteq> zero_oid then exits 0 (sg_tip g) g
          else exits 128 ''bad ref'' g
      | _ \<Rightarrow> exits 0 ''tree'' g)"

definition small_git :: "small_git git" where
  "small_git env args g =
     (case args of
        [] \<Rightarrow> exits 128 [] g
      | cmd # rest \<Rightarrow>
          if cmd = ''rev-parse'' then sg_rev_parse rest g
          else if cmd = ''merge-tree'' then exits 0 ''tree'' g
          else if cmd = ''commit-tree'' then
            (case rest of
               [_, _, _, _, a, _, b] \<Rightarrow> sg_commit (remdups [a, b]) g
             | [_, _, _, _, b] \<Rightarrow> sg_commit [b] g
             | _ \<Rightarrow> exits 128 [] g)
          else if cmd = ''merge-base'' then
            (case rest of
               [_, c, t] \<Rightarrow> exits (if sg_ancestor (length (sg_commits g)) g c t then 0 else 1) [] g
             | _ \<Rightarrow> exits 128 [] g)
          else if cmd = ''update-ref'' then
            (case rest of [_, new, old] \<Rightarrow> sg_update new old g | _ \<Rightarrow> exits 128 [] g)
          else exits 128 [] g)"

definition small_integrator :: "string \<Rightarrow> 'l lease_gate \<Rightarrow> 'l audit_fun \<Rightarrow> ('l, small_git) integrator" where
  "small_integrator branch gate audit =
     \<lparr>ig_git = small_git, ig_branch = branch, ig_key = ''trunk:'' @ branch, ig_gate = gate, ig_audit = audit,
      ig_ttl = 60 * 10 ^ 9\<rparr>"

section \<open>It behaves as documented\<close>

lemma sg_ancestor_anc: "sg_ancestor n g c t \<Longrightarrow> anc sg_view g c t"
proof (induction n arbitrary: t)
  case (Suc n)
  show ?case
  proof (cases "c = t")
    case False
    then obtain ps p where "sg_parents g t = Some ps" "p \<in> set ps" "sg_ancestor n g c p"
      using Suc(2) by (auto simp: list_ex_iff split: option.splits)
    then have "anc sg_view g c p" and "(p, t) \<in> parent_rel sg_view g"
      using Suc(1) by (auto simp: parent_rel_def sg_view_def)
    then show ?thesis unfolding anc_def by (rule rtrancl.rtrancl_into_rtrancl)
  qed (simp add: anc_def)
qed (simp add: anc_def)

lemma commit_name_length [simp]: "length (commit_name n) = n"
  by (simp add: commit_name_def)

lemma sg_parents_commit:
  "sg_parents g c = Some qs \<Longrightarrow> sg_parents (g\<lparr>sg_commits := sg_commits g @ [ps]\<rparr>) c = Some qs"
  by (cases c) (auto simp: sg_parents_def nth_append split: if_splits)

lemma sg_objects_commit: "objects_kept sg_view g (g\<lparr>sg_commits := sg_commits g @ [ps]\<rparr>)"
  by (simp add: objects_kept_def sg_view_def sg_parents_commit)

lemma sg_objects [simp]: "objects_kept sg_view g g" "objects_kept sg_view g (g\<lparr>sg_tip := t\<rparr>)"
  by (auto simp: objects_kept_def sg_view_def sg_parents_def)

lemma rev_parse_state [simp]: "snd (sg_rev_parse args g) = g"
  by (auto simp: sg_rev_parse_def exits_def split: list.split)

lemma exits_simps [simp]: "snd (exits code out g) = g" "exits code out g = ((c, o'), g') \<longleftrightarrow> c = Some code \<and> o' = out \<and> g' = g"
  by (auto simp: exits_def)

lemma small_git_keeps: "objects_kept sg_view g (snd (small_git env args g))"
  by (cases args) (auto simp: small_git_def sg_commit_def sg_update_def sg_objects_commit split: list.split)

lemma small_git_tip: "args \<noteq> [] \<Longrightarrow> hd args \<noteq> ''update-ref'' \<Longrightarrow> sg_tip (snd (small_git env args g)) = sg_tip g"
  by (cases args) (auto simp: small_git_def sg_commit_def split: list.split)

lemma trim_commit_name: "trim_space (commit_name (Suc n)) = commit_name (Suc n)"
  by (rule trim_space_visible) (simp_all add: commit_name_def visible_def)

lemma small_git_commit:
  assumes "small_git env (commit_args tree trunk branch msg) g = ((Some 0, out), g')"
  shows "sg_parents g' (trim_space out) = Some (merge_parents trunk branch)"
proof -
  have "((Some 0, out), g') = sg_commit (merge_parents trunk branch) g"
    using assms by (auto simp: small_git_def commit_args_def merge_parents_def)
  then show ?thesis
    using trim_commit_name by (auto simp: sg_commit_def sg_parents_def)
qed

lemma small_git_doc: "git_doc (small_integrator branch gate audit) sg_view"
proof -
  let ?ig = "small_integrator branch gate audit"
  have tp: "trim_space out = sg_tip g \<and> sg_tip g \<noteq> [] \<and> sg_tip g \<noteq> zero_oid"
    if "small_git [] [''rev-parse'', ''--verify'', ''--quiet'', ref] g = ((Some 0, out), g')" for ref g out g'
    using that by (auto simp: small_git_def sg_rev_parse_def split: if_splits)
  have an: "anc sg_view g c t" if "small_git [] [''merge-base'', ''--is-ancestor'', c, t] g = ((Some 0, out), g')" for c t g out g'
    using that by (auto simp: small_git_def intro: sg_ancestor_anc split: if_splits)
  have up: "update_ref_doc sg_view new old g (small_git [] [''update-ref'', ref, new, old] g)" for new old g ref
    by (auto simp: small_git_def sg_update_def exits_def update_ref_doc_def sg_view_def)
  show ?thesis
    unfolding git_doc_def small_integrator_def
    using small_git_keeps small_git_tip tp small_git_commit an up
    by (simp add: sg_view_def sg_parents_def)
qed

end
