(* ===== verification/TrunkLaws.thy ===== *)
theory TrunkLaws
  imports SmallGit
begin

text \<open>
  The laws of the trunk over pools of integrator calls: forward motion, the truth of the answers, the
  lease around the one command that moves the trunk, terminal records, and the race of an abort with
  a promote that waits for the lease.
\<close>

section \<open>Calls\<close>

datatype integ_call =
    CSubmit int "string option" string string
  | CPromote int string string
  | CAbort string
  | CAbortAs string string
  | CStatus string

type_synonym answer = "integ_call \<times> (outcome \<times> err option) option"

primrec do_call :: "('l, 'g) integrator \<Rightarrow> integ_call \<Rightarrow> ('l, 'g, answer) wprog" where
  "do_call ig (CSubmit now rnd session branch) =
     pbind (submit ig now rnd session branch) (\<lambda>_. Done (CSubmit now rnd session branch, None))"
| "do_call ig (CPromote now session i) = pbind (promote ig now session i) (\<lambda>x. Done (CPromote now session i, Some x))"
| "do_call ig (CAbort i) = pbind (abort ig i) (\<lambda>x. Done (CAbort i, Some x))"
| "do_call ig (CAbortAs session i) = pbind (abort_as ig session i) (\<lambda>x. Done (CAbortAs session i, Some x))"
| "do_call ig (CStatus i) = pbind (status ig i) (\<lambda>x. Done (CStatus i, Some x))"

primrec call_id :: "integ_call \<Rightarrow> string" where
  "call_id (CSubmit now rnd session branch) = []"
| "call_id (CPromote now session i) = i"
| "call_id (CAbort i) = i"
| "call_id (CAbortAs session i) = i"
| "call_id (CStatus i) = i"

definition answer_tells :: "'g git_view \<Rightarrow> answer \<Rightarrow> ('l, 'g) world \<Rightarrow> bool" where
  "answer_tells v x w \<longleftrightarrow> (\<forall>out. snd x = Some out \<longrightarrow> tells v (call_id (fst x)) out w)"

lemma sound_answer:
  assumes "sound v (tells v (call_id c)) p w" and "trunk_inv v w"
  shows "sound v (answer_tells v) (pbind p (\<lambda>x. Done (c, Some x))) w"
  by (rule sound_bind [OF assms])
    (auto simp: obeys_Done_iff answer_tells_def intro: tells_later)

lemma sound_call:
  assumes "git_doc ig v" and "trunk_inv v w"
  shows "sound v (answer_tells v) (do_call ig c) w"
proof (cases c)
  case (CSubmit now rnd session branch)
  have "sound v (answer_tells v) (pbind (submit ig now rnd session branch) (\<lambda>_. Done (CSubmit now rnd session branch, None))) w"
    by (rule sound_then_any [OF sound_submit [OF assms] assms(2)]) (simp add: obeys_Done_iff answer_tells_def)
  then show ?thesis by (simp add: CSubmit)
qed (use assms in \<open>auto intro!: sound_answer sound_promote sound_abort sound_abort_as sound_status\<close>)

definition not_promote :: "integ_call \<Rightarrow> bool" where
  "not_promote c \<longleftrightarrow> (\<forall>now session i. c \<noteq> CPromote now session i)"

text \<open>
  The rest of the world: other clients of the lease service, and git commands of other users, who add
  objects and move their own branches but not the trunk.
\<close>

definition elsewhere :: "'g git_view \<Rightarrow> ('l, 'g) world \<Rightarrow> ('l, 'g) world \<Rightarrow> bool" where
  "elsewhere v w w' \<longleftrightarrow> w_store w' = w_store w \<and> v_tip v (w_git w') = v_tip v (w_git w)
     \<and> objects_kept v (w_git w) (w_git w')"

lemma elsewhere_ok:
  assumes "elsewhere v w w'" and "trunk_inv v w"
  shows "trunk_inv v w' \<and> ext v w w' \<and> forward v w w'"
proof -
  have k: "objects_kept v (w_git w) (w_git w')" and t: "tip_of v w' = tip_of v w" and r: "rows_of w' = rows_of w"
    using assms(1) by (simp_all add: elsewhere_def tip_of_def rows_of_def)
  then show ?thesis
    using assms(2) anc_kept [OF k]
    by (fastforce simp: trunk_inv_def inv_rows_def ext_def forward_def merge_known_def merges_kept_def
        same_merge_def objects_kept_def tip_of_def)
qed

definition start :: "('l, 'g) integrator \<Rightarrow> integ_call list \<Rightarrow> ('l, 'g) world \<Rightarrow> ('l, 'g, answer) wprog list \<times> ('l, 'g) world" where
  "start ig calls w = (map (do_call ig) calls, w)"

definition fresh :: "('l, 'g) world \<Rightarrow> bool" where
  "fresh w \<longleftrightarrow> rows_of w = []"

lemma start_ok:
  "git_doc ig v \<Longrightarrow> trunk_inv v w \<Longrightarrow> pool_ok (ext v) (trunk_inv v) (forward v) (answer_tells v) (start ig calls w)"
  by (auto simp: pool_ok_def start_def intro: sound_call)

lemma fresh_inv: "fresh w \<Longrightarrow> trunk_inv v w"
  by (simp add: fresh_def trunk_inv_def inv_rows_def)

lemma reached:
  assumes "git_doc ig v" and "fresh w" and "reach (elsewhere v) (start ig calls w) (ps, w')"
  shows "pool_ok (ext v) (trunk_inv v) (forward v) (answer_tells v) (ps, w') \<and> ext v w w' \<and> (forward v)\<^sup>*\<^sup>* w w'"
proof -
  note ok = start_ok [OF assms(1) fresh_inv [OF assms(2)]]
  have env: "trunk_inv v s' \<and> ext v s s' \<and> forward v s s'" if "elsewhere v s s'" "trunk_inv v s"
    for s s' :: "('a, 'b) world" using elsewhere_ok [OF that] .
  show ?thesis
    using reach_ok [OF assms(3) ok _ _ env] reach_moves [OF assms(3) ok _ _ env] by (simp add: start_def)
qed

section \<open>Laws of the actions carry over to the operations\<close>

definition open_states :: "integ_state set" where
  "open_states = {Received, Validating}"

text \<open>A relation that the statements and the commands other than \<open>update-ref\<close> keep.\<close>

locale quiet_actions =
  fixes G :: "('l, 'g) world \<Rightarrow> ('l, 'g) world \<Rightarrow> bool" and ig :: "('l, 'g) integrator"
  assumes read_row: "acts_in G (get_row i)"
    and cas: "from \<in> open_states \<Longrightarrow> acts_in G (cas_state i from to)"
    and set_val: "acts_in G (set_validating i base merge gate reason)"
    and git: "args \<noteq> [] \<Longrightarrow> hd args \<noteq> ''update-ref'' \<Longrightarrow> acts_in G (run_git ig env args)"
begin

lemma check_in [acts_intros]: "acts_in G p \<Longrightarrow> (\<And>x. acts_in G (f x)) \<Longrightarrow> acts_in G (check p f)"
  unfolding check_def by (rule acts_bind) (auto split: sum.split)

lemma tip_in [acts_intros]: "acts_in G (tip ig)"
  unfolding tip_def by (rule acts_bind) (auto intro: git split: prod.split)

lemma tip_or_empty_in [acts_intros]: "acts_in G (tip_or_empty ig)"
  unfolding tip_or_empty_def by (intro acts_intros)

lemma finish_in [acts_intros]: "acts_in G (finish ig i)"
  unfolding finish_def by (intro acts_intros)

lemma is_ancestor_in [acts_intros]: "acts_in G (is_ancestor ig c t)"
  unfolding is_ancestor_def by (auto intro!: acts_intros git split: prod.split)

lemma landed_in [acts_intros]: "acts_in G (landed ig r)"
  unfolding landed_def by (auto intro!: acts_intros split: prod.split)

lemma resolve_in [acts_intros]: "acts_in G (resolve_rev ig rv)"
  unfolding resolve_rev_def by (rule acts_bind) (auto intro: git split: prod.split)

lemma validate_in [acts_intros]: "acts_in G (validate_merge ig trunk b)"
  unfolding validate_merge_def merge_tree_def Let_def
  by (auto intro!: acts_intros git split: prod.split)

lemma commit_in [acts_intros]: "acts_in G (commit_merge ig tree trunk b msg date)"
  unfolding commit_merge_def by (rule acts_bind) (auto intro!: git simp: commit_args_def split: prod.split)

lemma reconcile_in [acts_intros]: "acts_in G (reconcile ig r)"
  unfolding reconcile_def
  by (auto intro!: acts_intros cas simp: open_states_def split: integ_state.split)

end

text \<open>... and the calls of the lease service and the insertion.\<close>

locale calm_actions = quiet_actions +
  assumes audit: "acts_in G (on_lease (ig_audit ig session kind p))"
    and ins: "acts_in G (on_store (insert_row r))"
begin

lemma audit_in [acts_intros]: "acts_in G (audit_act ig session kind p)"
  unfolding audit_act_def by (rule audit)

lemma submit_in [acts_intros]: "acts_in G (submit ig now rnd session branch)"
  unfolding submit_def insert_received_def
  by (auto intro!: acts_intros read_row ins split: sum.split option.split prod.split)

lemma abort_open_in: "n_state r \<in> open_states \<Longrightarrow> acts_in G (abort_open ig i r)"
  unfolding abort_open_def by (auto intro!: acts_intros cas)

lemma abort_in [acts_intros]: "acts_in G (abort ig i)"
proof -
  have "n_state r \<in> open_states" if "n_state r \<noteq> Aborted" "n_state r \<noteq> Promoted" for r :: integ_row
    using that by (cases "n_state r") (auto simp: open_states_def)
  then show ?thesis
    unfolding abort_def by (auto intro!: acts_intros read_row abort_open_in split: option.split)
qed

lemma abort_as_in [acts_intros]: "acts_in G (abort_as ig session i)"
  unfolding abort_as_def by (auto intro!: acts_intros read_row split: option.split)

lemma status_in [acts_intros]: "acts_in G (status ig i)"
  unfolding status_def by (auto intro!: acts_intros read_row split: option.split prod.split)

lemma calm_call: "not_promote c \<Longrightarrow> acts_in G (do_call ig c)"
  by (cases c) (auto simp: not_promote_def intro!: acts_intros)

lemma reject_in [acts_intros]: "acts_in G (reject_branch r e)" "acts_in G (reject_merge ig session r reason)"
  unfolding reject_branch_def reject_merge_def by (auto intro!: acts_intros cas simp: open_states_def)

lemma stale_in [acts_intros]: "acts_in G (land_landed ig i)" "acts_in G (land_stale i)"
  unfolding land_landed_def land_stale_def by (auto intro!: acts_intros cas simp: open_states_def)

end

text \<open>... and the command that moves the trunk.\<close>

locale all_actions = calm_actions +
  assumes advance: "acts_in G (advance_trunk ig new old)"
    and take: "acts_in G (on_lease (lg_acquire (ig_gate ig) now k session ttl))"
    and give: "acts_in G (on_lease (lg_release (ig_gate ig) k session))"
begin

lemma land_in [acts_intros]: "acts_in G (land ig session i r)"
  unfolding land_def land_fresh_def
  by (auto intro!: acts_intros advance cas simp: open_states_def split: prod.split sum.split)

lemma with_lease_in [acts_intros]: "acts_in G (with_lease ig now session i r)"
  unfolding with_lease_def by (auto intro!: acts_intros take give read_row split: prod.split)

lemma validate_step_in: "(\<And>r. acts_in G (cont r)) \<Longrightarrow> acts_in G (validate_step ig session r cont)"
  unfolding validate_step_def record_merge_def
  by (auto intro!: acts_intros read_row set_val split: prod.split sum.split)

lemma promote_in [acts_intros]: "acts_in G (promote ig now session i)"
  unfolding promote_def by (auto intro!: acts_intros read_row validate_step_in split: option.split)

lemma call_in: "acts_in G (do_call ig c)"
  by (cases c) (auto intro!: acts_intros)

end

section \<open>The relations\<close>

definition same_tip :: "'g git_view \<Rightarrow> ('l, 'g) world \<Rightarrow> ('l, 'g) world \<Rightarrow> bool" where
  "same_tip v w w' \<longleftrightarrow> tip_of v w' = tip_of v w \<and> objects_kept v (w_git w) (w_git w')"

definition same_tip_lease :: "'g git_view \<Rightarrow> ('l, 'g) world \<Rightarrow> ('l, 'g) world \<Rightarrow> bool" where
  "same_tip_lease v w w' \<longleftrightarrow> tip_of v w' = tip_of v w \<and> w_lease w' = w_lease w"

definition finals_kept :: "('l, 'g) world \<Rightarrow> ('l, 'g) world \<Rightarrow> bool" where
  "finals_kept w w' \<longleftrightarrow> (\<forall>i r. integ_find i (rows_of w) = Some r \<and> n_state r \<notin> open_states \<longrightarrow>
     integ_find i (rows_of w') = Some r)"

lemma relations_order [simp]:
  "reflp (same_tip v)" "transp (same_tip v)" "reflp (same_tip_lease v)" "transp (same_tip_lease v)"
  "reflp finals_kept" "transp finals_kept"
  by (auto simp: same_tip_def same_tip_lease_def finals_kept_def objects_kept_def reflp_def transp_def)

lemma acts_lease: "(\<And>w l. G w (w\<lparr>w_lease := l\<rparr>)) \<Longrightarrow> acts_in G (on_lease m)"
  unfolding on_lease_def by (rule acts_atomic) (auto split: prod.split)

lemma acts_store:
  assumes "\<And>w. G w (w\<lparr>w_store := snd (m (w_store w))\<rparr>)"
  shows "acts_in G (on_store m)"
  unfolding on_store_def
proof (rule acts_atomic)
  show "G w (snd (case m (w_store w) of (r, st) \<Rightarrow> (r, w\<lparr>w_store := st\<rparr>)))" for w
    using assms [of w] by (cases "m (w_store w)") simp
qed

lemma acts_git:
  assumes "\<And>w. G w (w\<lparr>w_git := snd (ig_git ig env args (w_git w))\<rparr>)"
  shows "acts_in G (run_git ig env args)"
  unfolding run_git_def
proof (rule acts_atomic)
  show "G w (snd (case ig_git ig env args (w_git w) of (r, g) \<Rightarrow> (r, w\<lparr>w_git := g\<rparr>)))" for w
    using assms [of w] by (cases "ig_git ig env args (w_git w)") simp
qed

lemma same_tip_updates [simp]:
  "same_tip v w (w\<lparr>w_lease := l\<rparr>)" "same_tip v w (w\<lparr>w_store := st\<rparr>)"
  "same_tip_lease v w (w\<lparr>w_store := st\<rparr>)" "finals_kept w (w\<lparr>w_lease := l\<rparr>)" "finals_kept w (w\<lparr>w_git := g\<rparr>)"
  by (simp_all add: same_tip_def same_tip_lease_def finals_kept_def tip_of_def rows_of_def objects_kept_def)

lemma store_actions_in:
  assumes "\<And>m. acts_in G (on_store (m :: (integ_store, integ_row option) eff))"
    and "\<And>m. acts_in G (on_store (m :: (integ_store, nat) eff))"
  shows "acts_in G (get_row i)" "acts_in G (cas_state i from to)" "acts_in G (set_validating i base merge gate reason)"
  unfolding get_row_def cas_state_def set_validating_def using assms by (auto intro!: acts_intros)

lemma quiet_same:
  assumes "git_doc ig v"
  shows "quiet_actions (same_tip_lease v) ig"
proof unfold_locales
  show "acts_in (same_tip_lease v) (run_git ig env args)" if "args \<noteq> []" "hd args \<noteq> ''update-ref''" for env args
    by (rule acts_git) (use git_docD(2) [OF assms that] in \<open>simp add: same_tip_lease_def tip_of_def\<close>)
qed (auto intro!: store_actions_in acts_store)

lemma calm_same:
  assumes "git_doc ig v"
  shows "calm_actions (same_tip v) ig"
proof unfold_locales
  show "acts_in (same_tip v) (run_git ig env args)" if "args \<noteq> []" "hd args \<noteq> ''update-ref''" for env args
    by (rule acts_git) (use git_docD(1,2) [OF assms] that in \<open>simp add: same_tip_def tip_of_def\<close>)
qed (auto intro!: store_actions_in acts_store acts_lease)

lemma finals_cas:
  assumes "from \<in> open_states"
  shows "finals_kept w (w\<lparr>w_store := snd (sql (cas_stmt i from to) (w_store w))\<rparr>)"
  using assms
  by (auto simp: finals_kept_def rows_of_def sql_def cas_stmt_def integ_find_upd split: list.split option.split)

lemma finals_validating:
  "finals_kept w (w\<lparr>w_store := snd (sql (validating_stmt i base merge gate reason) (w_store w))\<rparr>)"
  by (auto simp: finals_kept_def rows_of_def sql_def validating_stmt_def integ_find_upd open_states_def
      split: list.split option.split)

lemma finals_insert: "finals_kept w (w\<lparr>w_store := snd (insert_row r (w_store w))\<rparr>)"
  using insert_row_tabs [of r "w_store w"]
  by (auto simp: finals_kept_def rows_of_def integ_find_def find_append)

lemma finals_read: "finals_kept w (w\<lparr>w_store := snd (reading f (w_store w))\<rparr>)"
  by (auto simp: finals_kept_def rows_of_def reading_def sql_def split: list.split option.split)

interpretation finals: all_actions finals_kept ig for ig :: "('l, 'g) integrator"
proof unfold_locales
  show "acts_in finals_kept (cas_state i st st')" if "st \<in> open_states" for i st st'
    unfolding cas_state_def by (intro acts_intros acts_store finals_cas that)
  show "acts_in finals_kept (set_validating i base merge gate reason)" for i base merge gate reason
    unfolding set_validating_def by (intro acts_intros acts_store finals_validating)
  show "acts_in finals_kept (get_row i)" for i
    unfolding get_row_def by (intro acts_store finals_read)
  show "acts_in finals_kept (advance_trunk ig new old)" for new old
    unfolding advance_trunk_def by (auto intro!: acts_intros acts_git split: prod.split)
qed (auto intro: acts_lease acts_git acts_store finals_insert)

section \<open>A concrete run\<close>

text \<open>
  A small world: trunk at the root commit, a branch one commit ahead, an empty store and ledger. One
  session submits and promotes; in the second run its promote is stopped just before it asks for the
  lease, the integration is aborted, and then the promote goes on.
\<close>

definition small_world :: "(ledger, small_git) world" where
  "small_world = \<lparr>w_lease = \<lparr>script = [], tabs = empty_tabs\<rparr>, w_store = \<lparr>script = [], tabs = []\<rparr>,
     w_git = \<lparr>sg_tip = ''c'', sg_commits = [[], [''c'']]\<rparr>\<rparr>"

definition small_ig :: "(ledger, small_git) integrator" where
  "small_ig = small_integrator ''main'' ledger_gate (ledger_audit ''p'' 0)"

definition sub_call :: integ_call where "sub_call = CSubmit 5 (Some [CHR 0x01]) ''ann'' ''cc''"
definition prom_call :: integ_call where "prom_call = CPromote 7 ''ann'' ''int-01''"
definition abort_call :: integ_call where "abort_call = CAbort ''int-01''"

definition small_calls :: "integ_call list" where
  "small_calls = [sub_call, prom_call, abort_call]"

definition submitted :: "(ledger, small_git) world" where
  "submitted = snd (run (do_call small_ig sub_call) small_world)"

definition validated :: "(ledger, small_git, answer) wprog \<times> (ledger, small_git) world" where
  "validated = steps 6 (do_call small_ig prom_call) submitted"

lemma small_doc: "git_doc small_ig sg_view"
  unfolding small_ig_def by (rule small_git_doc)

lemma small_fresh: "fresh small_world"
  by (simp add: fresh_def rows_of_def small_world_def)

abbreviation small_reach where
  "small_reach calls \<equiv> reach (elsewhere sg_view) (start small_ig calls small_world)"

abbreviation sub_done where
  "sub_done \<equiv> Done (fst (run (do_call small_ig sub_call) small_world))"

lemma reach_submitted:
  "small_reach small_calls ([sub_done, do_call small_ig prom_call, do_call small_ig abort_call], submitted)"
  using reach_run [of 0 "map (do_call small_ig) small_calls" small_world, where Env = "elsewhere sg_view"]
  by (simp add: start_def small_calls_def submitted_def prod_eq_iff)

lemma reach_promoted:
  assumes "run (do_call small_ig prom_call) submitted = (x, w)"
  shows "small_reach small_calls ([sub_done, Done x, do_call small_ig abort_call], w)"
  using reach_trans [OF reach_submitted, OF reach_run [of 1, where Env = "elsewhere sg_view"]] assms by simp

definition aborted_world :: "(ledger, small_git) world" where
  "aborted_world = snd (run (do_call small_ig abort_call) (snd validated))"

lemma reach_race:
  assumes "run (do_call small_ig abort_call) (snd validated) = (y, aborted_world)"
    and "run (fst validated) aborted_world = (x, w)"
  shows "small_reach small_calls ([sub_done, Done x, Done y], w)"
proof -
  let ?a = "do_call small_ig abort_call"
  have "small_reach small_calls ([sub_done, fst validated, ?a], snd validated)"
    using reach_trans [OF reach_submitted, OF reach_steps [of 1 _ 6, where Env = "elsewhere sg_view"]]
    by (simp add: validated_def prod_eq_iff)
  from reach_trans [OF this, OF reach_run [of 2, where Env = "elsewhere sg_view"]]
  have "small_reach small_calls ([sub_done, fst validated, Done y], aborted_world)"
    using assms(1) by simp
  from reach_trans [OF this, OF reach_run [of 1, where Env = "elsewhere sg_view"]]
  show ?thesis using assms(2) by simp
qed

lemma prom_id: "call_id prom_call = ''int-01''"
  by (simp add: prom_call_def)

text \<open>An answer without an error.\<close>

lemma answer_ends:
  assumes "map_option (\<lambda>y. f (fst y) \<and> snd y = None) ans = Some True"
  obtains out where "ans = Some (out, None)" and "f out"
  using assms by (cases ans) auto

text \<open>The two runs, evaluated.\<close>

lemma promoted_run:
  "case run (do_call small_ig prom_call) submitted of ((c, ans), w) \<Rightarrow>
     c = prom_call \<and> map_option (\<lambda>y. o_promoted (fst y) \<and> snd y = None) ans = Some True
     \<and> tip_of sg_view w = ''ccc'' \<and> tip_of sg_view submitted = ''c''"
  by code_simp

lemma race_run:
  "case validated of (p, u) \<Rightarrow>
   case run (do_call small_ig abort_call) u of ((c, ans), aw) \<Rightarrow>
   case run p aw of ((c', ans'), w) \<Rightarrow>
     c = abort_call \<and> map_option (\<lambda>y. o_state (fst y) = Some Aborted \<and> snd y = None) ans = Some True
     \<and> map_option n_state (integ_find ''int-01'' (rows_of aw)) = Some Aborted
     \<and> c' = prom_call \<and> map_option (\<lambda>y. o_promoted (fst y) \<and> snd y = None) ans' = Some True
     \<and> map_option (\<lambda>r. n_state r = Aborted \<and> tip_of sg_view w = n_merge r) (integ_find ''int-01'' (rows_of w)) = Some True
     \<and> tip_of sg_view w = ''ccc''"
  by code_simp

lemma race_parts:
  obtains a p w where "run (do_call small_ig abort_call) (snd validated) = ((abort_call, Some (a, None)), aborted_world)"
    and "o_state a = Some Aborted"
    and "map_option n_state (integ_find ''int-01'' (rows_of aborted_world)) = Some Aborted"
    and "run (fst validated) aborted_world = ((prom_call, Some (p, None)), w)" and "o_promoted p"
    and "map_option (\<lambda>r. n_state r = Aborted \<and> tip_of sg_view w = n_merge r) (integ_find ''int-01'' (rows_of w)) = Some True"
    and "tip_of sg_view w = ''ccc''"
proof -
  obtain q u where v: "validated = (q, u)" by fastforce
  obtain c ans aw where r1: "run (do_call small_ig abort_call) u = ((c, ans), aw)" by (metis prod.collapse)
  obtain c' ans' w where r2: "run q aw = ((c', ans'), w)" by (metis prod.collapse)
  have aw: "aborted_world = aw" by (simp add: aborted_world_def v r1)
  note f = race_run [unfolded v r1 r2 prod.case]
  obtain a where a: "ans = Some (a, None)" "o_state a = Some Aborted"
    using f by (auto elim: answer_ends)
  obtain p where p: "ans' = Some (p, None)" "o_promoted p"
    using f by (auto elim: answer_ends)
  show ?thesis
    by (rule that [of a p w]) (use f a p in \<open>auto simp: v r1 r2 aw\<close>)
qed

lemma small_tip: "tip_of sg_view small_world = ''c''"
  by (simp add: tip_of_def sg_view_def small_world_def)

section \<open>The laws\<close>





text \<open>Submit, abort and status calls never move the trunk, however they interleave.\<close>

theorem only_promote_moves:
  assumes "git_doc ig v" and "\<forall>c \<in> set calls. not_promote c"
    and "reach (elsewhere v) (start ig calls w) (ps, w')"
  shows "tip_of v w' = tip_of v w"
proof -
  have "acts_in (same_tip v) (do_call ig c)" if "not_promote c" for c
    using that calm_actions.calm_call [OF calm_same [OF assms(1)]] by simp
  then have "same_tip v w w'"
    using reach_acts [OF assms(3), of "same_tip v"] assms(2)
    by (auto simp: start_def elsewhere_def same_tip_def tip_of_def)
  then show ?thesis by (simp add: same_tip_def)
qed

theorem only_promote_moves_witness:
  "tip_of sg_view submitted = tip_of sg_view small_world"
proof -
  have "reach (elsewhere sg_view) (start small_ig [sub_call] small_world)
      ([Done (fst (run (do_call small_ig sub_call) small_world))], submitted)"
    using reach_run [of 0 "[do_call small_ig sub_call]" small_world _ submitted, where Env = "elsewhere sg_view"]
    by (simp add: start_def submitted_def prod_eq_iff)
  from only_promote_moves [OF small_doc _ this] show ?thesis
    by (simp add: not_promote_def sub_call_def)
qed

text \<open>C9: A record that is promoted or aborted never changes again, under any interleaving of calls.\<close>

theorem terminal_final:
  assumes "reach (elsewhere v) (start ig calls w) (ps, w')" and "integ_find i (rows_of w) = Some r"
    and "n_state r = Promoted \<or> n_state r = Aborted"
  shows "integ_find i (rows_of w') = Some r"
proof -
  have "finals_kept w w'"
    using reach_acts [OF assms(1), of finals_kept] finals.call_in
    by (auto simp: start_def elsewhere_def finals_kept_def rows_of_def)
  then show ?thesis using assms(2,3) by (auto simp: finals_kept_def open_states_def)
qed

theorem terminal_final_witness:
  "map_option n_state (integ_find ''int-01'' (rows_of (snd (run (do_call small_ig prom_call) aborted_world)))) = Some Aborted"
proof -
  have "map_option n_state (integ_find ''int-01'' (rows_of aborted_world)) = Some Aborted"
    by (rule race_parts)
  then obtain r where r: "integ_find ''int-01'' (rows_of aborted_world) = Some r" "n_state r = Aborted" by auto
  have "reach (elsewhere sg_view) (start small_ig [prom_call] aborted_world)
      ([Done (fst (run (do_call small_ig prom_call) aborted_world))], snd (run (do_call small_ig prom_call) aborted_world))"
    using reach_run [of 0 "[do_call small_ig prom_call]" aborted_world, where Env = "elsewhere sg_view"]
    by (simp add: start_def prod_eq_iff)
  from terminal_final [OF this r(1)] r(2) show ?thesis by simp
qed

text \<open>C11: An abort can lose against a promote that has validated and waits for the lease. The abort answers
  that the integration is aborted, and it is recorded so for good; but the promote, which reloads the record once
  it has the lease, does not look at its state: it advances the trunk to the merge of the aborted
  integration and answers that it is promoted.\<close>

theorem aborted_yet_landed:
  "\<exists>ps w r a p. reach (elsewhere sg_view) (start small_ig small_calls small_world) (ps, w)
     \<and> Done (abort_call, Some (a, None)) \<in> set ps \<and> o_state a = Some Aborted
     \<and> Done (prom_call, Some (p, None)) \<in> set ps \<and> o_promoted p
     \<and> integ_find ''int-01'' (rows_of w) = Some r \<and> n_state r = Aborted
     \<and> tip_of sg_view small_world \<noteq> tip_of sg_view w \<and> tip_of sg_view w = n_merge r"
proof -
  obtain a p w where a: "run (do_call small_ig abort_call) (snd validated) = ((abort_call, Some (a, None)), aborted_world)"
      "o_state a = Some Aborted"
    and p: "run (fst validated) aborted_world = ((prom_call, Some (p, None)), w)" "o_promoted p"
    and w: "map_option (\<lambda>r. n_state r = Aborted \<and> tip_of sg_view w = n_merge r) (integ_find ''int-01'' (rows_of w)) = Some True"
      "tip_of sg_view w = ''ccc''"
    by (rule race_parts)
  then show ?thesis using reach_race [OF a(1) p(1)] small_tip by fastforce
qed

section \<open>The lease around the advance\<close>

definition lease_granted :: "('l, 'g) integrator \<Rightarrow> int \<Rightarrow> string \<Rightarrow> 'l \<Rightarrow> bool" where
  "lease_granted ig now session l \<longleftrightarrow>
     (\<exists>x l'. lg_acquire (ig_gate ig) now (ig_key ig) session (ig_ttl ig) l = (Inr (True, x), l'))"

text \<open>A program that moves the trunk only when the lease is granted in the state it starts from.\<close>

definition leased where
  "leased v ig now session p \<longleftrightarrow>
     (\<forall>w. tip_of v (snd (run p w)) \<noteq> tip_of v w \<longrightarrow> lease_granted ig now session (w_lease w))"

lemma leased_calm: "acts_in (same_tip v) p \<Longrightarrow> leased v ig now session p"
  using run_acts [of "same_tip v" p] by (simp add: leased_def same_tip_def)

lemma leased_Done [simp]: "leased v ig now session (Done x)"
  by (rule leased_calm) simp

lemma leased_bind:
  assumes "acts_in (same_tip_lease v) p" and "\<And>x. leased v ig now session (f x)"
  shows "leased v ig now session (pbind p f)"
  unfolding leased_def
proof (intro allI impI)
  fix w assume m: "tip_of v (snd (run (pbind p f) w)) \<noteq> tip_of v w"
  obtain x u where r: "run p w = (x, u)" by (cases "run p w")
  then have "tip_of v u = tip_of v w" "w_lease u = w_lease w"
    using run_acts [OF assms(1), of w] by (simp_all add: same_tip_lease_def)
  moreover have "tip_of v (snd (run (f x) u)) \<noteq> tip_of v w" using m r by (simp add: run_bind)
  ultimately show "lease_granted ig now session (w_lease w)"
    using assms(2) [of x, unfolded leased_def, rule_format, of u] by simp
qed

lemma leased_check:
  "acts_in (same_tip_lease v) p \<Longrightarrow> (\<And>x. leased v ig now session (f x)) \<Longrightarrow> leased v ig now session (check p f)"
  unfolding check_def by (rule leased_bind) (auto split: sum.split intro: leased_calm)

lemma leased_with_lease:
  fixes ig :: "('l, 'g) integrator"
  shows "leased v ig now session (with_lease ig now session i r)"
  unfolding leased_def
proof (intro allI impI)
  fix w :: "('l, 'g) world" assume m: "tip_of v (snd (run (with_lease ig now session i r) w)) \<noteq> tip_of v w"
  obtain x l where a: "lg_acquire (ig_gate ig) now (ig_key ig) session (ig_ttl ig) (w_lease w) = (x, l)"
    by (cases "lg_acquire (ig_gate ig) now (ig_key ig) session (ig_ttl ig) (w_lease w)")
  have "\<exists>h. x = Inr (True, h)"
    using m a
    by (auto simp: with_lease_def check_def on_lease_def run_bind tip_of_def split: sum.splits if_splits prod.splits)
  then show "lease_granted ig now session (w_lease w)"
    using a by (auto simp: lease_granted_def)
qed

lemma leased_promote:
  assumes "git_doc ig v"
  shows "leased v ig now session (promote ig now session i)"
proof -
  note q = quiet_same [OF assms] and c = calm_same [OF assms]
  note ins = quiet_actions.read_row [OF q] quiet_actions.tip_in [OF q] quiet_actions.resolve_in [OF q]
    quiet_actions.validate_in [OF q] quiet_actions.commit_in [OF q] quiet_actions.set_val [OF q]
    quiet_actions.reconcile_in [OF q]
  have reject: "leased v ig now session (reject_branch r e)" "leased v ig now session (reject_merge ig session r reason)"
    for r e reason using calm_actions.reject_in [OF c] by (simp_all add: leased_calm)
  have rec: "leased v ig now session (record_merge ig r trunk b tree (with_lease ig now session i))" for r trunk b tree
    unfolding record_merge_def by (auto intro!: leased_check leased_with_lease ins)
  have val: "leased v ig now session (validate_step ig session r (with_lease ig now session i))" for r
    unfolding validate_step_def
    by (auto intro!: leased_check leased_bind ins rec reject split: sum.split prod.split)
  show ?thesis
    unfolding promote_def
    by (auto intro!: leased_check leased_bind ins val leased_with_lease split: option.split)
qed



end
