(* ===== verification/IntegratorRpc.thy ===== *)
theory IntegratorRpc
  imports TrunkLaws "HOL-Library.AList"
begin

text \<open>
  The \<open>integrate.*\<close> surface of the trunk (\<open>internal/integrator/rpc.go\<close>) and the checks around the
  mediated repository (\<open>internal/integrator/mediated.go\<close>): the decision of the update hook and the audit
  of the configured remotes.
\<close>

section \<open>Handlers\<close>

type_synonym ('l, 'g) hprog = "('l, 'g, rpc_error + json) wprog"

definition state_name :: "integ_state \<Rightarrow> string" where
  "state_name st = (case st of Received \<Rightarrow> ''received'' | Validating \<Rightarrow> ''validating''
     | Promoted \<Rightarrow> ''promoted'' | Aborted \<Rightarrow> ''aborted'')"

definition outcome_state :: "outcome \<Rightarrow> string" where
  "outcome_state x = (case o_state x of None \<Rightarrow> [] | Some st \<Rightarrow> state_name st)"

text \<open>The text of an error value. The formatting of \<open>fmt\<close> is a parameter where the program prints one.\<close>

definition outcome_json :: "(err \<Rightarrow> string) \<Rightarrow> outcome \<Rightarrow> json" where
  "outcome_json msg x = JObj [(''id'', JStr (o_id x)), (''state'', JStr (outcome_state x)),
     (''promoted'', JBool (o_promoted x)), (''trunk_tip'', JStr (o_tip x)),
     (''reason'', JStr (msg (o_reason x))), (''retryable'', JBool (o_retryable x))]"

text \<open>Decoding fails before the program starts; otherwise it runs and its answer is rendered.\<close>

definition with_field :: "string \<Rightarrow> json option \<Rightarrow> (string \<Rightarrow> ('l, 'g) hprog) \<Rightarrow> ('l, 'g) hprog" where
  "with_field name params f =
     (case params_required params of
        Inl e \<Rightarrow> Done (Inl e)
      | Inr fs \<Rightarrow> (case str_field name fs of None \<Rightarrow> Done (Inl invalid_params) | Some x \<Rightarrow> f x))"

definition submit_handler ::
  "('l, 'g) integrator \<Rightarrow> int \<Rightarrow> string option \<Rightarrow> string \<Rightarrow> json option \<Rightarrow> ('l, 'g) hprog" where
  "submit_handler ig now rnd session params = with_field ''branch'' params (\<lambda>branch.
     pbind (submit ig now rnd session branch) (\<lambda>r. Done (case r of
       Inl e \<Rightarrow> Inl (new_error code_invalid_params e)
     | Inr row \<Rightarrow> Inr (JObj [(''id'', JStr (n_id row)), (''state'', JStr (state_name (n_state row))),
         (''base'', JStr (n_base row))]))))"

definition promote_handler ::
  "(err \<Rightarrow> string) \<Rightarrow> ('l, 'g) integrator \<Rightarrow> int \<Rightarrow> string \<Rightarrow> json option \<Rightarrow> ('l, 'g) hprog" where
  "promote_handler msg ig now session params = with_field ''id'' params (\<lambda>i.
     pbind (promote ig now session i) (\<lambda>(out, e). Done (case e of
       Some err \<Rightarrow> Inl (new_error
         (if err = ErrNotFound then code_not_found else if err = ErrAborted then code_conflict else code_internal) err)
     | None \<Rightarrow> Inr (outcome_json msg out))))"

definition abort_handler ::
  "(err \<Rightarrow> string) \<Rightarrow> ('l, 'g) integrator \<Rightarrow> string \<Rightarrow> json option \<Rightarrow> ('l, 'g) hprog" where
  "abort_handler msg ig session params = with_field ''id'' params (\<lambda>i.
     pbind (abort_as ig session i) (\<lambda>(out, e). Done (case e of
       Some err \<Rightarrow> Inl (new_error (if err = ErrUnauthorized then code_authz else code_internal) err)
     | None \<Rightarrow> Inr (outcome_json msg out))))"

definition status_handler ::
  "(err \<Rightarrow> string) \<Rightarrow> ('l, 'g) integrator \<Rightarrow> json option \<Rightarrow> ('l, 'g) hprog" where
  "status_handler msg ig params = with_field ''id'' params (\<lambda>i.
     pbind (status ig i) (\<lambda>(out, e). Done (case e of
       Some err \<Rightarrow> Inl (new_error (if err = ErrNotFound then code_not_found else code_internal) err)
     | None \<Rightarrow> Inr (outcome_json msg out))))"

definition integ_row_json :: "integ_row \<Rightarrow> json" where
  "integ_row_json r = JObj [(''id'', JStr (n_id r)), (''branch'', JStr (n_branch r)), (''holder'', JStr (n_holder r)),
     (''state'', JStr (state_name (n_state r))), (''base'', JStr (n_base r)), (''merge_commit'', JStr (n_merge r))]"

definition integ_list_handler :: "('l, 'g) hprog" where
  "integ_list_handler = pbind list_rows (\<lambda>r. Done (case r of
     Inl e \<Rightarrow> Inl (new_error code_internal e)
   | Inr rows \<Rightarrow> Inr (JObj [(''integrations'', JArr (map integ_row_json rows))])))"

definition trunk_handler :: "('l, 'g) integrator \<Rightarrow> ('l, 'g) hprog" where
  "trunk_handler ig = pbind (tip ig) (\<lambda>r. Done (case r of
     Inl e \<Rightarrow> Inl (new_error code_internal e)
   | Inr (t, present) \<Rightarrow> Inr (JObj [(''tip'', JStr t), (''exists'', JBool present), (''branch'', JStr (ig_branch ig))])))"

section \<open>The mediated repository\<close>

text \<open>
  The script of the update hook, run by the shell on each pushed ref: its \<open>case\<close> statement, whose
  patterns are the trunk ref spelled out and two prefixes. (A trunk branch is taken to hold no pattern
  character of the shell.)
\<close>

definition hook_accepts :: "string \<Rightarrow> string \<Rightarrow> bool" where
  "hook_accepts trunk_branch ref =
     (if ref = ''refs/heads/'' @ trunk_branch then False
      else if has_prefix ref ''refs/heads/nm/'' then True
      else has_prefix ref ''refs/mad-trellis/'')"

text \<open>
  The audit of the configured remotes. \<open>resolve\<close> is \<open>filepath.Abs\<close> and \<open>EvalSymlinks\<close>, answering
  nothing where \<open>Abs\<close> fails. The forbidden targets are a Go map: its entries in some order; the answer
  whether there is a hit does not depend on it.
\<close>

definition resolve_path :: "(string \<Rightarrow> string option) \<Rightarrow> string \<Rightarrow> string" where
  "resolve_path resolve p =
     (if p = [] \<or> contains p ''://'' then [] else case resolve p of None \<Rightarrow> [] | Some a \<Rightarrow> a)"

definition normalized_forbidden :: "(string \<Rightarrow> string option) \<Rightarrow> string list \<Rightarrow> (string \<times> string) list" where
  "normalized_forbidden resolve forbidden =
     fold (\<lambda>f m. if f = [] then m
       else let m' = AList.update f f m; a = resolve_path resolve f in
         if a = [] then m' else AList.update a f m') forbidden []"

definition reaches_forbidden ::
  "(string \<Rightarrow> string option) \<Rightarrow> (string \<times> string) list \<Rightarrow> string \<Rightarrow> string option" where
  "reaches_forbidden resolve forbidden url =
     (let a = resolve_path resolve (trim_prefix url ''file://'') in
      case (if a = [] then None else map_of forbidden a) of
        Some orig \<Rightarrow> Some orig
      | None \<Rightarrow> map_option snd (List.find (\<lambda>(tok, orig). contains url tok) forbidden))"

record remote_violation =
  rv_key :: string
  rv_url :: string
  rv_matched :: string

record remote_audit =
  ra_clean :: bool
  ra_urls :: "(string \<times> string) list"
  ra_violations :: "remote_violation list"

text \<open>\<open>strings.Cut\<close> at the first blank.\<close>

fun cut_blank :: "string \<Rightarrow> (string \<times> string) option" where
  "cut_blank [] = None"
| "cut_blank (c # s) = (if c = CHR '' '' then Some ([], s) else map_option (\<lambda>(a, b). (c # a, b)) (cut_blank s))"

definition audit_line ::
  "(string \<Rightarrow> string option) \<Rightarrow> (string \<times> string) list \<Rightarrow> string \<Rightarrow> remote_audit \<Rightarrow> remote_audit" where
  "audit_line resolve norm line a =
     (case cut_blank line of
        None \<Rightarrow> a
      | Some (key, val) \<Rightarrow>
          let a' = a\<lparr>ra_urls := AList.update key val (ra_urls a)\<rparr> in
          case reaches_forbidden resolve norm val of
            None \<Rightarrow> a'
          | Some m \<Rightarrow> a'\<lparr>ra_clean := False,
              ra_violations := ra_violations a @ [\<lparr>rv_key = key, rv_url = val, rv_matched = m\<rparr>]\<rparr>)"

text \<open>The scan of the output of \<open>git config --get-regexp\<close>: its exit code and combined output.\<close>

definition audit_remotes ::
  "(string \<Rightarrow> string option) \<Rightarrow> int option \<times> string \<Rightarrow> string list \<Rightarrow> err + remote_audit" where
  "audit_remotes resolve res forbidden =
     (case res of (code, out) \<Rightarrow>
        if code \<noteq> Some 0 then
          (if trim_space out = [] then Inr \<lparr>ra_clean = True, ra_urls = [], ra_violations = []\<rparr>
           else Inl (Fmt ''mediated: read git config: %w: %s'' [out]))
        else Inr (fold (audit_line resolve (normalized_forbidden resolve forbidden))
          (split_on (CHR 0x0A) (trim_space out)) \<lparr>ra_clean = True, ra_urls = [], ra_violations = []\<rparr>))"

section \<open>Only the holder aborts\<close>

lemma run_landed_rows: "rows_of (snd (run (landed ig r) w)) = rows_of w"
  by (auto simp: landed_def run_then tip_def run_bind run_git_def is_ancestor_def rows_of_def
      split: prod.split sum.split)

lemma run_check:
  "run (check m f) w = (case run m w of (Inl e, u) \<Rightarrow> ((no_outcome, Some e), u) | (Inr x, u) \<Rightarrow> run (f x) u)"
  by (auto simp: check_def run_bind split: prod.split sum.split)

lemma run_get_row:
  "run (get_row i) w = (x, u) \<Longrightarrow>
     rows_of u = rows_of w \<and> w_git u = w_git w \<and> (\<forall>y. x = Inr y \<longrightarrow> y = integ_find i (rows_of w))"
  by (auto simp: get_row_def on_store_def reading_def rows_of_def sql_def split: prod.splits list.splits option.splits)

lemma run_landed_true:
  assumes "git_doc ig v" and "run (landed ig r) w = (Inr True, u)"
  shows "n_merge r \<noteq> [] \<and> anc v (w_git u) (n_merge r) (tip_of v u)"
proof -
  let ?args = "[''rev-parse'', ''--verify'', ''--quiet'', trunk_ref ig]"
  obtain t u1 where m: "n_merge r \<noteq> []" and t: "run (tip ig) w = (Inr (t, True), u1)"
    and a: "run (is_ancestor ig (n_merge r) t) u1 = (Inr True, u)"
    using assms(2) by (auto simp: landed_def run_then split: if_splits prod.splits sum.splits)
  obtain code out g where g: "ig_git ig [] ?args (w_git w) = ((code, out), g)" by (metis prod.collapse)
  have c: "code = Some 0" and t': "t = trim_space out" and u1: "u1 = w\<lparr>w_git := g\<rparr>"
    using t g by (auto simp: tip_def run_bind run_git_def split: if_splits)
  have tt: "t = tip_of v u1"
    using git_docD(3) [OF assms(1)] git_result(2) [OF assms(1) g] g c t' by (auto simp: tip_of_def u1)
  obtain code' out' g' where g': "ig_git ig [] [''merge-base'', ''--is-ancestor'', n_merge r, t] g = ((code', out'), g')"
    by (metis prod.collapse)
  then have c': "code' = Some 0" and u: "u = u1\<lparr>w_git := g'\<rparr>"
    using a by (auto simp: is_ancestor_def run_bind run_git_def u1 split: if_splits)
  have "anc v g (n_merge r) t" using git_docD(5) [OF assms(1)] g' c' by blast
  moreover have "objects_kept v g g'" and "v_tip v g' = v_tip v g" using git_result [OF assms(1) g'] by simp_all
  ultimately show ?thesis using m tt anc_kept by (auto simp: u u1 tip_of_def)
qed



section \<open>What the audit of the remotes finds\<close>

text \<open>A target that reaches one of the forbidden places: as the same resolved path, or by naming it.\<close>

definition reaches :: "(string \<Rightarrow> string option) \<Rightarrow> string list \<Rightarrow> string \<Rightarrow> bool" where
  "reaches resolve forbidden url \<longleftrightarrow> (\<exists>f \<in> set forbidden. f \<noteq> [] \<and>
     (\<exists>tok \<in> {f, resolve_path resolve f} - {[]}.
        contains url tok \<or> resolve_path resolve (trim_prefix url ''file://'') = tok))"

lemma normalized_keys:
  "fst ` set (normalized_forbidden resolve forbidden)
   = (\<Union>f \<in> set forbidden. if f = [] then {} else {f, resolve_path resolve f} - {[]})"
proof -
  have "fst ` set (fold (\<lambda>f m. if f = [] then m
       else let m' = AList.update f f m; a = resolve_path resolve f in
         if a = [] then m' else AList.update a f m') fs m)
     = fst ` set m \<union> (\<Union>f \<in> set fs. if f = [] then {} else {f, resolve_path resolve f} - {[]})" for fs m
    by (induction fs arbitrary: m) (auto simp: Let_def dom_update)
  then show ?thesis by (simp add: normalized_forbidden_def)
qed

lemma reaches_forbidden_iff:
  "reaches_forbidden resolve (normalized_forbidden resolve forbidden) url \<noteq> None \<longleftrightarrow> reaches resolve forbidden url"
  (is "?l \<longleftrightarrow> ?r")
proof -
  let ?m = "normalized_forbidden resolve forbidden" and ?a = "resolve_path resolve (trim_prefix url ''file://'')"
  have fnd: "List.find (\<lambda>(tok, orig). contains url tok) m = None \<longleftrightarrow> \<not> (\<exists>tok \<in> fst ` set m. contains url tok)" for m :: "(string \<times> string) list"
    by (force simp: find_None_iff)
  have "?l \<longleftrightarrow> (if ?a = [] then None else map_of ?m ?a) \<noteq> None
      \<or> List.find (\<lambda>(tok, orig). contains url tok) ?m \<noteq> None"
    by (auto simp: reaches_forbidden_def Let_def split: option.split)
  also have "\<dots> \<longleftrightarrow> ?a \<noteq> [] \<and> ?a \<in> fst ` set ?m \<or> (\<exists>tok \<in> fst ` set ?m. contains url tok)"
    unfolding fnd using map_of_eq_None_iff [of ?m ?a] by auto
  finally have "?l \<longleftrightarrow> ?a \<noteq> [] \<and> ?a \<in> fst ` set ?m \<or> (\<exists>tok \<in> fst ` set ?m. contains url tok)" .
  then show ?thesis
    unfolding normalized_keys reaches_def by (auto split: if_splits)
qed

lemma audit_line_clean:
  "ra_clean (audit_line resolve (normalized_forbidden resolve forbidden) line a)
   \<longleftrightarrow> ra_clean a \<and> \<not> (\<exists>key url. cut_blank line = Some (key, url) \<and> reaches resolve forbidden url)"
  using reaches_forbidden_iff [of resolve forbidden]
  by (auto simp: audit_line_def Let_def split: option.split prod.split) force+

text \<open>The audit is exact: a worktree is called clean if and only if no configured url, push url or rewrite
  reaches a forbidden target, neither by naming it nor by resolving to the same path.\<close>

theorem audit_exact:
  assumes "audit_remotes resolve (Some 0, out) forbidden = Inr a"
  shows "ra_clean a \<longleftrightarrow> \<not> (\<exists>line \<in> set (split_on (CHR 0x0A) (trim_space out)). \<exists>key url.
     cut_blank line = Some (key, url) \<and> reaches resolve forbidden url)"
proof -
  let ?n = "normalized_forbidden resolve forbidden"
  have "ra_clean (fold (audit_line resolve ?n) ls b) \<longleftrightarrow> ra_clean b \<and> \<not> (\<exists>line \<in> set ls. \<exists>key url.
     cut_blank line = Some (key, url) \<and> reaches resolve forbidden url)" for ls b
    by (induction ls arbitrary: b) (auto simp: audit_line_clean)
  then show ?thesis using assms by (auto simp: audit_remotes_def)
qed

theorem audit_exact_witness:
  "\<exists>a. audit_remotes Some (Some 0, ''remote.o.url /t'') [''/t''] = Inr a \<and> \<not> ra_clean a"
proof -
  let ?a = "fold (audit_line Some (normalized_forbidden Some [''/t'']))
    (split_on (CHR 0x0A) (trim_space ''remote.o.url /t'')) \<lparr>ra_clean = True, ra_urls = [], ra_violations = []\<rparr>"
  have a: "audit_remotes Some (Some 0, ''remote.o.url /t'') [''/t''] = Inr ?a" by (simp add: audit_remotes_def)
  have l: "split_on (CHR 0x0A) (trim_space ''remote.o.url /t'') = [''remote.o.url /t'']"
    "cut_blank ''remote.o.url /t'' = Some (''remote.o.url'', ''/t'')" by code_simp+
  have "contains ''/t'' ''/t''" by code_simp
  then have "reaches Some [''/t''] ''/t''" by (force simp: reaches_def)
  then have "\<not> ra_clean ?a"
    using audit_exact [OF a] l by auto
  then show ?thesis using a by blast
qed

end
