(* ===== verification/Review.thy ===== *)
theory Review
  imports LockService
begin

text \<open>
  The review plane (\<open>internal/integration/store.go\<close>, \<open>events.go\<close>, \<open>integration.go\<close>): the records of
  integration requests, one row per branch, the compare-and-swap statements of their life cycle, the
  wake-up events with a cursor per consumer, and the operations on top. The plane keeps its own
  database and writes audit records through the daemon's sink.
\<close>

section \<open>Records\<close>

datatype rev_state = Requested | Claimed | ChangesRequested | Approved | Withdrawn

record rev_row =
  rq_branch :: string
  rq_title :: string
  rq_holder :: string
  rq_claimer :: string
  rq_state :: rev_state
  rq_feedback :: string
  rq_merge :: string
  rq_created :: int
  rq_updated :: int

record event_row =
  ev_id :: int
  ev_audience :: string
  ev_kind :: string
  ev_branch :: string
  ev_created :: int

record review_tabs =
  requests :: "rev_row list"
  events :: "event_row list"
  event_seq :: int
  cursors :: "(string \<times> int) list"

type_synonym review_db = "review_tabs db"

definition rev_find :: "string \<Rightarrow> review_tabs \<Rightarrow> rev_row option" where
  "rev_find b t = List.find (\<lambda>r. rq_branch r = b) (requests t)"

definition on_requests ::
  "(rev_row list \<Rightarrow> nat \<times> rev_row list) \<Rightarrow> review_tabs \<Rightarrow> nat \<times> review_tabs" where
  "on_requests f t = (case f (requests t) of (n, rows) \<Rightarrow> (n, t\<lparr>requests := rows\<rparr>))"

text \<open>\<open>res.RowsAffected()\<close> of a compare-and-swap.\<close>

definition cas_one :: "(rev_row list \<Rightarrow> nat \<times> rev_row list) \<Rightarrow> (review_db, bool) eff" where
  "cas_one f = andThen (sql (on_requests f)) (\<lambda>n. ret (n = 1))"

section \<open>Statements\<close>

definition rev_get :: "string \<Rightarrow> (review_db, rev_row option) eff" where
  "rev_get b = reading (rev_find b)"

definition new_request :: "int \<Rightarrow> string \<Rightarrow> string \<Rightarrow> string \<Rightarrow> rev_row" where
  "new_request now branch title holder = \<lparr>rq_branch = branch, rq_title = title, rq_holder = holder,
     rq_claimer = [], rq_state = Requested, rq_feedback = [], rq_merge = [], rq_created = now, rq_updated = now\<rparr>"

definition insert_request :: "rev_row \<Rightarrow> (review_db, unit) eff" where
  "insert_request r = (\<lambda>d. case sql (\<lambda>t. if rev_find (rq_branch r) t = None
       then (True, t\<lparr>requests := requests t @ [r]\<rparr>) else (False, t)) d of
     (Inl e, d') \<Rightarrow> (Inl e, d')
   | (Inr True, d') \<Rightarrow> (Inr (), d')
   | (Inr False, d') \<Rightarrow> (Inl (DbErr ''UNIQUE constraint failed: integration_requests.branch''), d'))"

definition reset_stmt :: "int \<Rightarrow> string \<Rightarrow> string \<Rightarrow> string \<Rightarrow> rev_row list \<Rightarrow> nat \<times> rev_row list" where
  "reset_stmt now branch title holder = upd_where (\<lambda>r. rq_branch r = branch)
     (\<lambda>r. r\<lparr>rq_title := title, rq_holder := holder, rq_claimer := [], rq_state := Requested,
        rq_feedback := [], rq_merge := [], rq_updated := now\<rparr>)"

definition upsert_request :: "int \<Rightarrow> string \<Rightarrow> string \<Rightarrow> string \<Rightarrow> (review_db, rev_row) eff" where
  "upsert_request now branch title holder =
     andThen (rev_get branch) (\<lambda>existing. case existing of
       None \<Rightarrow> andThen (insert_request (new_request now branch title holder)) (\<lambda>_.
         ret (new_request now branch title holder))
     | Some old \<Rightarrow>
         let title' = (if title = [] then rq_title old else title) in
         andThen (sql (on_requests (reset_stmt now branch title' holder))) (\<lambda>_.
         ret ((new_request now branch title' holder)\<lparr>rq_created := rq_created old\<rparr>)))"

definition claim_stmt :: "int \<Rightarrow> string \<Rightarrow> string \<Rightarrow> rev_row list \<Rightarrow> nat \<times> rev_row list" where
  "claim_stmt now branch claimer = upd_where (\<lambda>r. rq_branch r = branch \<and> rq_state r = Requested)
     (\<lambda>r. r\<lparr>rq_state := Claimed, rq_claimer := claimer, rq_updated := now\<rparr>)"

definition store_claim :: "int \<Rightarrow> string \<Rightarrow> string \<Rightarrow> (review_db, bool) eff" where
  "store_claim now branch claimer = cas_one (claim_stmt now branch claimer)"

definition reject_stmt :: "int \<Rightarrow> string \<Rightarrow> string \<Rightarrow> rev_row list \<Rightarrow> nat \<times> rev_row list" where
  "reject_stmt now branch feedback = upd_where (\<lambda>r. rq_branch r = branch \<and> rq_state r = Claimed)
     (\<lambda>r. r\<lparr>rq_state := ChangesRequested, rq_feedback := feedback, rq_updated := now\<rparr>)"

definition store_reject :: "int \<Rightarrow> string \<Rightarrow> string \<Rightarrow> (review_db, bool) eff" where
  "store_reject now branch feedback = cas_one (reject_stmt now branch feedback)"

definition approve_stmt :: "int \<Rightarrow> string \<Rightarrow> string \<Rightarrow> rev_row list \<Rightarrow> nat \<times> rev_row list" where
  "approve_stmt now branch merge = upd_where (\<lambda>r. rq_branch r = branch \<and> rq_state r = Claimed)
     (\<lambda>r. r\<lparr>rq_state := Approved, rq_merge := merge, rq_updated := now\<rparr>)"

definition store_approve :: "int \<Rightarrow> string \<Rightarrow> string \<Rightarrow> (review_db, bool) eff" where
  "store_approve now branch merge = cas_one (approve_stmt now branch merge)"

definition cancel_stmt :: "int \<Rightarrow> string \<Rightarrow> rev_row list \<Rightarrow> nat \<times> rev_row list" where
  "cancel_stmt now branch = upd_where (\<lambda>r. rq_branch r = branch \<and> rq_state r \<in> {Requested, Claimed})
     (\<lambda>r. r\<lparr>rq_state := Withdrawn, rq_updated := now\<rparr>)"

definition store_cancel :: "int \<Rightarrow> string \<Rightarrow> (review_db, bool) eff" where
  "store_cancel now branch = cas_one (cancel_stmt now branch)"

definition store_pending :: "(review_db, rev_row list) eff" where
  "store_pending = reading (\<lambda>t. sort_key rq_created (filter (\<lambda>r. rq_state r = Requested) (requests t)))"

definition store_list :: "(review_db, rev_row list) eff" where
  "store_list = reading (\<lambda>t. sort_key (\<lambda>r. - rq_updated r) (requests t))"

definition revert_stmt :: "int \<Rightarrow> string \<Rightarrow> rev_row list \<Rightarrow> nat \<times> rev_row list" where
  "revert_stmt now branch = upd_where (\<lambda>r. rq_branch r = branch \<and> rq_state r = Claimed)
     (\<lambda>r. r\<lparr>rq_state := Requested, rq_claimer := [], rq_feedback := [], rq_updated := now\<rparr>)"

text \<open>The loop over the claimed rows; an error stops it, with what was reclaimed so far.\<close>

fun revert_all ::
  "int \<Rightarrow> (string \<Rightarrow> bool) \<Rightarrow> rev_row list \<Rightarrow> review_db \<Rightarrow> (err option \<times> rev_row list) \<times> review_db" where
  "revert_all now dead [] d = ((None, []), d)"
| "revert_all now dead (r # rs) d =
     (if \<not> dead (rq_claimer r) then revert_all now dead rs d
      else case sql (on_requests (revert_stmt now (rq_branch r))) d of
          (Inl e, d') \<Rightarrow> ((Some e, []), d')
        | (Inr n, d') \<Rightarrow> (case revert_all now dead rs d' of ((e, done'), d'') \<Rightarrow>
            ((e, (if n = 1 then [r\<lparr>rq_state := Requested, rq_claimer := [], rq_feedback := [], rq_updated := now\<rparr>]
                  else []) @ done'), d'')))"

definition reclaim_records ::
  "int \<Rightarrow> (string \<Rightarrow> bool) \<Rightarrow> review_db \<Rightarrow> (err option \<times> rev_row list) \<times> review_db" where
  "reclaim_records now dead d =
     (case reading (\<lambda>t. filter (\<lambda>r. rq_state r = Claimed) (requests t)) d of
        (Inl e, d') \<Rightarrow> ((Some e, []), d')
      | (Inr rows, d') \<Rightarrow> revert_all now dead rows d')"

definition event_retention :: int where "event_retention = 24 * 3600 * 10 ^ 9"
definition terminal_retention :: int where "terminal_retention = 3600 * 10 ^ 9"
definition abandoned_retention :: int where "abandoned_retention = 24 * 3600 * 10 ^ 9"

definition gc_events :: "int \<Rightarrow> (review_db, unit) eff" where
  "gc_events now = sql (\<lambda>t. ((), t\<lparr>events := filter (\<lambda>e. \<not> ev_created e < now - event_retention) (events t)\<rparr>))"

definition gc_stmt :: "rev_state set \<Rightarrow> int \<Rightarrow> rev_row list \<Rightarrow> nat \<times> rev_row list" where
  "gc_stmt states cutoff = del_where (\<lambda>r. rq_state r \<in> states \<and> rq_updated r < cutoff)"

text \<open>The count so far travels with an error.\<close>

definition store_gc :: "int \<Rightarrow> int \<Rightarrow> int \<Rightarrow> review_db \<Rightarrow> (nat \<times> err option) \<times> review_db" where
  "store_gc now term aband d =
     (case sql (on_requests (gc_stmt {Approved, Withdrawn} (now - term))) d of
        (Inl e, d1) \<Rightarrow> ((0, Some e), d1)
      | (Inr n, d1) \<Rightarrow>
          (case sql (on_requests (gc_stmt {Requested, ChangesRequested} (now - aband))) d1 of
             (Inl e, d2) \<Rightarrow> ((n, Some e), d2)
           | (Inr m, d2) \<Rightarrow>
               (case gc_events now d2 of
                  (Inl e, d3) \<Rightarrow> ((n + m, Some e), d3)
                | (Inr _, d3) \<Rightarrow> ((n + m, None), d3))))"

section \<open>Events\<close>

record event =
  e_id :: int
  e_audience :: string
  e_kind :: string
  e_branch :: string
  e_created :: int
  e_holder :: string

definition event_default_max :: int where "event_default_max = 50"
definition event_max_cap :: int where "event_max_cap = 200"

definition normalize_event_max :: "int \<Rightarrow> int" where
  "normalize_event_max m =
     (if m \<le> 0 then event_default_max else if event_max_cap < m then event_max_cap else m)"

definition branch_audience :: "string \<Rightarrow> string" where
  "branch_audience b = ''branch:'' @ b"

definition branch_from_audience :: "string \<Rightarrow> string option" where
  "branch_from_audience a = (if has_prefix a ''branch:'' then Some (trim_prefix a ''branch:'') else None)"

definition append_event_stmt :: "int \<Rightarrow> string \<Rightarrow> string \<Rightarrow> string \<Rightarrow> review_tabs \<Rightarrow> unit \<times> review_tabs" where
  "append_event_stmt now audience kind branch t = ((), t\<lparr>events := events t @
     [\<lparr>ev_id = event_seq t + 1, ev_audience = audience, ev_kind = kind, ev_branch = branch, ev_created = now\<rparr>],
     event_seq := event_seq t + 1\<rparr>)"

definition append_event :: "int \<Rightarrow> string \<Rightarrow> string \<Rightarrow> string \<Rightarrow> (review_db, unit) eff" where
  "append_event now audience kind branch = sql (append_event_stmt now audience kind branch)"

text \<open>The join with the requests, for the events after a position.\<close>

definition joined :: "review_tabs \<Rightarrow> event_row \<Rightarrow> event" where
  "joined t e = \<lparr>e_id = ev_id e, e_audience = ev_audience e, e_kind = ev_kind e, e_branch = ev_branch e,
     e_created = ev_created e,
     e_holder = (case rev_find (ev_branch e) t of None \<Rightarrow> [] | Some r \<Rightarrow> rq_holder r)\<rparr>"

definition events_after :: "int \<Rightarrow> string \<Rightarrow> review_tabs \<Rightarrow> event list" where
  "events_after pos branch t = map (joined t) (sort_key ev_id
     (filter (\<lambda>e. pos < ev_id e \<and> (branch \<noteq> [] \<longrightarrow> ev_branch e = branch)) (events t)))"

definition set_cursor :: "string \<Rightarrow> int \<Rightarrow> review_tabs \<Rightarrow> unit \<times> review_tabs" where
  "set_cursor consumer n t = ((), t\<lparr>cursors := snd (upsert (\<lambda>c. fst c = consumer) (consumer, n) (\<lambda>_. True)
     (\<lambda>c. (fst c, n)) (cursors t))\<rparr>)"

definition cursor_of :: "string \<Rightarrow> review_tabs \<Rightarrow> int" where
  "cursor_of consumer t = (case List.find (\<lambda>c. fst c = consumer) (cursors t) of None \<Rightarrow> 0 | Some c \<Rightarrow> snd c)"

definition poll_events ::
  "string \<Rightarrow> string \<Rightarrow> int \<Rightarrow> (event \<Rightarrow> bool) \<Rightarrow> (review_db, event list) eff" where
  "poll_events consumer branch m authorized = txn
     (andThen (reading (cursor_of consumer)) (\<lambda>pos.
      andThen (reading (events_after pos branch)) (\<lambda>evs.
      let out = take (nat (normalize_event_max m)) (filter authorized evs) in
      if out = [] then ret (True, out)
      else andThen (sql (set_cursor consumer (e_id (last out)))) (\<lambda>_. ret (True, out)))))"

section \<open>The plane\<close>

record 'l plane =
  pl_db :: review_db
  pl_log :: 'l

definition on_db :: "(review_db, 'a) eff \<Rightarrow> ('l plane, 'a) eff" where
  "on_db m = (\<lambda>p. case m (pl_db p) of (r, d) \<Rightarrow> (r, p\<lparr>pl_db := d\<rparr>))"

definition on_log :: "('l, 'a) eff \<Rightarrow> ('l plane, 'a) eff" where
  "on_log m = (\<lambda>p. case m (pl_log p) of (r, l) \<Rightarrow> (r, p\<lparr>pl_log := l\<rparr>))"

definition truncate_runes :: "string \<Rightarrow> nat \<Rightarrow> string" where
  "truncate_runes s m =
     (if m = 0 then [] else if length (runes s) \<le> m then s else concat (map encode_rune (take m (runes s))))"

definition boundary_rune :: "nat \<Rightarrow> bool" where
  "boundary_rune r \<longleftrightarrow> 97 \<le> r \<and> r \<le> 122 \<or> 65 \<le> r \<and> r \<le> 90 \<or> 48 \<le> r \<and> r \<le> 57
     \<or> r \<in> {47, 46, 45, 95}"

definition boundary_ref :: "string \<Rightarrow> bool" where
  "boundary_ref s \<longleftrightarrow> s \<noteq> [] \<and> hd s \<noteq> CHR ''-'' \<and> list_all boundary_rune (runes s)"

text \<open>Both are best effort: an error is dropped. The event reads the clock again.\<close>

definition event_best_effort :: "int \<Rightarrow> string \<Rightarrow> string \<Rightarrow> string \<Rightarrow> ('l plane, unit) eff" where
  "event_best_effort now audience kind branch = on_db (ignoring (append_event now audience kind branch))"

definition audit_best_effort ::
  "'l audit_fun \<Rightarrow> string \<Rightarrow> string \<Rightarrow> (string \<times> string) list \<Rightarrow> ('l plane, unit) eff" where
  "audit_best_effort audit session kind kvs =
     on_log (ignoring (audit session kind (PJson (JObj (map (\<lambda>(k, x). (k, JStr x)) kvs)))))"

definition request_review ::
  "'l audit_fun \<Rightarrow> int \<Rightarrow> int \<Rightarrow> string \<Rightarrow> string \<Rightarrow> string \<Rightarrow> ('l plane, rev_row) eff" where
  "request_review audit now now2 session branch title =
     (if \<not> boundary_ref branch then failing ErrInvalidBranch
      else andThen (on_db (upsert_request now branch title session)) (\<lambda>r.
        andThen (event_best_effort now2 ''integrator'' ''integration.requested'' (rq_branch r)) (\<lambda>_.
        andThen (audit_best_effort audit session ''integration.requested''
          [(''branch'', rq_branch r), (''title'', truncate_runes (rq_title r) 120)]) (\<lambda>_.
        ret r))))"

definition claim_review ::
  "'l audit_fun \<Rightarrow> int \<Rightarrow> int \<Rightarrow> string \<Rightarrow> string \<Rightarrow> ('l plane, bool \<times> rev_row option) eff" where
  "claim_review audit now now2 session branch =
     andThen (on_db (store_claim now branch session)) (\<lambda>won.
     andThen (on_db (rev_get branch)) (\<lambda>cur.
     if \<not> won then ret (False, cur)
     else
       let b = (case cur of None \<Rightarrow> [] | Some r \<Rightarrow> rq_branch r) in
       andThen (event_best_effort now2 (branch_audience b) ''integration.claimed'' b) (\<lambda>_.
       andThen (audit_best_effort audit session ''integration.claimed'' [(''branch'', b), (''claimer'', session)]) (\<lambda>_.
       ret (True, cur)))))"

definition verdict_stands :: "string \<Rightarrow> ('l plane, bool \<times> rev_state option) eff" where
  "verdict_stands branch = andThen (on_db (rev_get branch)) (\<lambda>cur. ret (False, map_option rq_state cur))"

definition verdict_review ::
  "'l audit_fun \<Rightarrow> int \<Rightarrow> int \<Rightarrow> string \<Rightarrow> string \<Rightarrow> string \<Rightarrow> string \<Rightarrow> string
     \<Rightarrow> ('l plane, bool \<times> rev_state option) eff" where
  "verdict_review audit now now2 session branch decision feedback merge =
     (if decision = ''approve'' then
        andThen (on_db (store_approve now branch merge)) (\<lambda>won.
        if won then
          andThen (event_best_effort now2 (branch_audience branch) ''integration.verdict'' branch) (\<lambda>_.
          andThen (audit_best_effort audit session ''integration.approved'' [(''branch'', branch), (''merge'', merge)]) (\<lambda>_.
          ret (True, Some Approved)))
        else verdict_stands branch)
      else if decision = ''reject'' then
        (if trim_space feedback = [] then failing ErrFeedbackRequired
         else andThen (on_db (store_reject now branch feedback)) (\<lambda>won.
           if won then
             andThen (event_best_effort now2 (branch_audience branch) ''integration.verdict'' branch) (\<lambda>_.
             andThen (audit_best_effort audit session ''integration.changes_requested''
               [(''branch'', branch), (''feedback'', truncate_runes feedback 200)]) (\<lambda>_.
             ret (True, Some ChangesRequested)))
           else verdict_stands branch))
      else failing ErrBadDecision)"

definition cancel_review :: "'l audit_fun \<Rightarrow> int \<Rightarrow> string \<Rightarrow> string \<Rightarrow> ('l plane, bool) eff" where
  "cancel_review audit now session branch =
     andThen (on_db (store_cancel now branch)) (\<lambda>won.
     if \<not> won then ret False
     else andThen (audit_best_effort audit session ''integration.withdrawn'' [(''branch'', branch)]) (\<lambda>_. ret True))"

definition announce_requeued :: "'l audit_fun \<Rightarrow> int \<Rightarrow> rev_row \<Rightarrow> 'l plane \<Rightarrow> 'l plane" where
  "announce_requeued audit now r p =
     snd (andThen (event_best_effort now ''integrator'' ''integration.requeued'' (rq_branch r)) (\<lambda>_.
       audit_best_effort audit [] ''integration.requeued'' [(''branch'', rq_branch r)]) p)"

definition reclaim_claims ::
  "'l audit_fun \<Rightarrow> int \<Rightarrow> int \<Rightarrow> (string \<Rightarrow> bool) \<Rightarrow> 'l plane \<Rightarrow> (nat \<times> err option) \<times> 'l plane" where
  "reclaim_claims audit now now2 dead p =
     (case reclaim_records now dead (pl_db p) of ((e, rows), d) \<Rightarrow>
        (case e of
           Some err \<Rightarrow> ((length rows, Some err), p\<lparr>pl_db := d\<rparr>)
         | None \<Rightarrow> ((length rows, None), fold (announce_requeued audit now2) rows (p\<lparr>pl_db := d\<rparr>))))"

definition gc_stale :: "int \<Rightarrow> 'l plane \<Rightarrow> (nat \<times> err option) \<times> 'l plane" where
  "gc_stale now p = (case store_gc now terminal_retention abandoned_retention (pl_db p) of (r, d) \<Rightarrow> (r, p\<lparr>pl_db := d\<rparr>))"

definition authorized_for_event :: "string \<Rightarrow> event \<Rightarrow> bool" where
  "authorized_for_event session ev =
     (if e_audience ev = ''integrator'' then trim_space session \<noteq> []
      else case branch_from_audience (e_audience ev) of
          None \<Rightarrow> False
        | Some b \<Rightarrow> b = e_branch ev \<and> (b = ''nm/'' @ session \<or> e_holder ev = session))"

definition event_wanted :: "string \<Rightarrow> string \<Rightarrow> event \<Rightarrow> bool" where
  "event_wanted session branch ev \<longleftrightarrow>
     \<not> (branch \<noteq> [] \<and> e_audience ev = ''integrator'') \<and> authorized_for_event session ev"

definition review_events :: "string \<Rightarrow> string \<Rightarrow> int \<Rightarrow> ('l plane, event list) eff" where
  "review_events session branch m = on_db (poll_events session branch m (event_wanted session branch))"

end
