(* ===== verification/ReviewFacts.thy ===== *)
theory ReviewFacts
  imports Review
begin

text \<open>
  The life cycle of a request as an abstract relation on the record of one branch, and the proof that
  every operation of the plane refines it, whichever statements fail; what a claim, a verdict and the
  garbage collection therefore guarantee; and the delivery of the events.
\<close>

section \<open>Operations and the life cycle\<close>

datatype rev_op =
    RRequest int int string string string
  | RClaim int int string string
  | RVerdict int int string string string string string
  | RCancel int string string
  | RReclaim int int "string \<Rightarrow> bool"
  | RGc int
  | REvents string string int

primrec run_rev :: "'l audit_fun \<Rightarrow> rev_op \<Rightarrow> 'l plane \<Rightarrow> 'l plane" where
  "run_rev audit (RRequest now now2 s b t) p = snd (request_review audit now now2 s b t p)"
| "run_rev audit (RClaim now now2 s b) p = snd (claim_review audit now now2 s b p)"
| "run_rev audit (RVerdict now now2 s b dec fb m) p = snd (verdict_review audit now now2 s b dec fb m p)"
| "run_rev audit (RCancel now s b) p = snd (cancel_review audit now s b p)"
| "run_rev audit (RReclaim now now2 dead) p = snd (reclaim_claims audit now now2 dead p)"
| "run_rev audit (RGc now) p = snd (gc_stale now p)"
| "run_rev audit (REvents s b m) p = snd (review_events s b m p)"

inductive life :: "rev_op \<Rightarrow> rev_row option \<Rightarrow> rev_row option \<Rightarrow> bool" where
  life_keep: "life op x x"
| life_open: "boundary_ref b \<Longrightarrow> life (RRequest now now2 s b t) None (Some (new_request now b t s))"
| life_reopen: "boundary_ref b \<Longrightarrow> rq_branch r = b \<Longrightarrow> life (RRequest now now2 s b t) (Some r)
    (Some ((new_request now b (if t = [] then rq_title r else t) s)\<lparr>rq_created := rq_created r\<rparr>))"
| life_claim: "rq_branch r = b \<Longrightarrow> rq_state r = Requested \<Longrightarrow> life (RClaim now now2 s b) (Some r)
    (Some (r\<lparr>rq_state := Claimed, rq_claimer := s, rq_updated := now\<rparr>))"
| life_approve: "rq_branch r = b \<Longrightarrow> rq_state r = Claimed \<Longrightarrow> life (RVerdict now now2 s b ''approve'' fb m) (Some r)
    (Some (r\<lparr>rq_state := Approved, rq_merge := m, rq_updated := now\<rparr>))"
| life_reject: "rq_branch r = b \<Longrightarrow> rq_state r = Claimed \<Longrightarrow> trim_space fb \<noteq> [] \<Longrightarrow>
    life (RVerdict now now2 s b ''reject'' fb m) (Some r)
    (Some (r\<lparr>rq_state := ChangesRequested, rq_feedback := fb, rq_updated := now\<rparr>))"
| life_withdraw: "rq_branch r = b \<Longrightarrow> rq_state r \<in> {Requested, Claimed} \<Longrightarrow> life (RCancel now s b) (Some r)
    (Some (r\<lparr>rq_state := Withdrawn, rq_updated := now\<rparr>))"
| life_requeue: "rq_state r = Claimed \<Longrightarrow> dead (rq_claimer r) \<Longrightarrow> life (RReclaim now now2 dead) (Some r)
    (Some (r\<lparr>rq_state := Requested, rq_claimer := [], rq_feedback := [], rq_updated := now\<rparr>))"
| life_collect: "rq_state r \<in> {Approved, Withdrawn} \<and> rq_updated r < now - terminal_retention
    \<or> rq_state r \<in> {Requested, ChangesRequested} \<and> rq_updated r < now - abandoned_retention \<Longrightarrow>
    life (RGc now) (Some r) None"

inductive_cases life_cases: "life op x y"

definition rv :: "string \<Rightarrow> 'l plane \<Rightarrow> rev_row option" where
  "rv b p = rev_find b (tabs (pl_db p))"

definition rev_wf :: "review_tabs \<Rightarrow> bool" where
  "rev_wf t \<longleftrightarrow> distinct (map rq_branch (requests t))"

definition same_requests :: "'l plane \<Rightarrow> 'l plane \<Rightarrow> bool" where
  "same_requests p p' \<longleftrightarrow> requests (tabs (pl_db p')) = requests (tabs (pl_db p))"

lemma same_requests_order [simp]: "reflp same_requests" "transp same_requests"
  by (simp_all add: same_requests_def reflp_def transp_def)

lemma same_requests_rv: "same_requests p p' \<Longrightarrow> rv b p' = rv b p"
  by (simp add: same_requests_def rv_def rev_find_def)

section \<open>The statements\<close>

lemma rev_find_upd:
  assumes "\<And>r. rq_branch (f r) = rq_branch r"
  shows "rev_find b (snd (on_requests (upd_where P f) t)) = map_option (\<lambda>r. if P r then f r else r) (rev_find b t)"
  using assms by (simp add: rev_find_def on_requests_def upd_where_def find_map_same)

lemma rev_find_del:
  assumes "rev_wf t"
  shows "rev_find b (snd (on_requests (del_where P) t))
    = (case rev_find b t of None \<Rightarrow> None | Some r \<Rightarrow> if P r then None else Some r)"
proof -
  have "distinct (map rq_branch rows) \<Longrightarrow> List.find (\<lambda>r. rq_branch r = b) (filter (\<lambda>r. \<not> P r) rows)
      = (case List.find (\<lambda>r. rq_branch r = b) rows of None \<Rightarrow> None | Some r \<Rightarrow> if P r then None else Some r)" for rows
    by (induction rows) (auto simp: find_None_iff image_iff split: option.splits dest!: find_SomeD)
  then show ?thesis using assms by (simp add: rev_wf_def rev_find_def on_requests_def del_where_def)
qed

lemma rev_wf_upd: "(\<And>r. rq_branch (f r) = rq_branch r) \<Longrightarrow> rev_wf (snd (on_requests (upd_where P f) t)) = rev_wf t"
  by (simp add: rev_wf_def on_requests_def upd_where_def comp_def if_distrib cong: if_cong)

lemma rev_wf_del: "rev_wf t \<Longrightarrow> rev_wf (snd (on_requests (del_where P) t))"
  by (auto simp: rev_wf_def on_requests_def del_where_def distinct_map_filter)

lemma rev_findD: "rev_find b t = Some r \<Longrightarrow> rq_branch r = b \<and> r \<in> set (requests t)"
  by (auto simp: rev_find_def dest: find_SomeD)

text \<open>A statement that fails leaves the tables, one that runs applies.\<close>

lemma sql_step:
  obtains e where "fst (sql f d) = Inl e" and "tabs (snd (sql f d)) = tabs d"
  | "fst (sql f d) = Inr (fst (f (tabs d)))" and "tabs (snd (sql f d)) = snd (f (tabs d))"
  by (cases "sql f d"; cases "fst (sql f d)") (auto dest: sql_Inl sql_Inr)

lemma cas_one_tabs:
  "tabs (snd (cas_one f d)) = tabs d \<or> tabs (snd (cas_one f d)) = snd (on_requests f (tabs d))"
  using sql_tabs_cases [of "on_requests f" d] by (auto simp: cas_one_def andThen_eq split: sum.split)

lemma on_db_snd [simp]: "snd (on_db m p) = p\<lparr>pl_db := snd (m (pl_db p))\<rparr>" "fst (on_db m p) = fst (m (pl_db p))"
  by (simp_all add: on_db_def split: prod.split)

lemma within_log [within_intros]: "within same_requests (on_log m)"
  by (auto simp: within_def same_requests_def on_log_def split: prod.split)

lemma sql_keeps_requests:
  assumes "\<And>t. requests (snd (f t)) = requests t"
  shows "requests (tabs (snd (sql f d))) = requests (tabs d)"
  using sql_tabs_cases [of f d] assms by (elim disjE) simp_all

lemma within_event [within_intros]: "within same_requests (event_best_effort now a k b)"
  by (simp add: within_def same_requests_def event_best_effort_def append_event_def
      sql_keeps_requests append_event_stmt_def)

lemma within_rev_audit [within_intros]: "within same_requests (audit_best_effort audit s k f)"
  unfolding audit_best_effort_def by (rule within_log)

lemma within_get [within_intros]: "within same_requests (on_db (rev_get b))"
  by (simp add: within_def same_requests_def rev_get_def)

lemma within_stands [within_intros]: "within same_requests (verdict_stands b)"
  unfolding verdict_stands_def by (intro within_intros) simp_all

section \<open>Every operation refines the life cycle\<close>

definition refines :: "rev_op \<Rightarrow> 'l plane \<Rightarrow> 'l plane \<Rightarrow> bool" where
  "refines op p p' \<longleftrightarrow> (\<forall>b. life op (rv b p) (rv b p')) \<and> rev_wf (tabs (pl_db p'))"

lemma refines_keep: "rev_wf (tabs (pl_db p)) \<Longrightarrow> same_requests p p' \<Longrightarrow> refines op p p'"
  using same_requests_rv life_keep by (simp add: refines_def rev_wf_def same_requests_def rv_def rev_find_def)

lemma refines_then:
  assumes "refines op p (snd (m p))" and "\<And>x. within same_requests (f x)"
  shows "refines op p (snd (andThen m f p))"
proof -
  have "same_requests (snd (m p)) (snd (andThen m f p))"
    using assms(2) by (auto simp: andThen_eq within_def same_requests_def split: sum.split)
  then show ?thesis
    using assms(1) by (simp add: refines_def rev_wf_def same_requests_def rv_def rev_find_def)
qed

lemma refines_cas:
  assumes "rev_wf (tabs (pl_db p))" and "\<And>r. rq_branch (f r) = rq_branch r"
    and "\<And>r. rev_find (rq_branch r) (tabs (pl_db p)) = Some r \<Longrightarrow> P r \<Longrightarrow> life op (Some r) (Some (f r))"
  shows "refines op p (snd (on_db (cas_one (upd_where P f)) p))"
proof -
  let ?t = "tabs (pl_db p)" and ?t' = "snd (on_requests (upd_where P f) (tabs (pl_db p)))"
  have "life op (rev_find b ?t) (rev_find b ?t')" for b
    using assms(3) rev_findD [of b ?t] unfolding rev_find_upd [OF assms(2)]
    by (cases "rev_find b ?t") (auto intro: life_keep)
  moreover have "rev_wf ?t'" using assms(1) by (simp only: rev_wf_upd [OF assms(2)])
  ultimately show ?thesis
    using cas_one_tabs [of "upd_where P f" "pl_db p"] assms(1)
    by (auto simp: refines_def rv_def intro: life_keep)
qed

lemma upsert_life:
  assumes "rev_wf (tabs d)" and "boundary_ref b"
  shows "life (RRequest now now2 s b t) (rev_find b' (tabs d)) (rev_find b' (tabs (snd (upsert_request now b t s d))))
    \<and> rev_wf (tabs (snd (upsert_request now b t s d)))"
proof -
  obtain x d1 where g: "rev_get b d = (x, d1)" by (cases "rev_get b d")
  then have t1: "tabs d1 = tabs d" and x: "\<forall>y. x = Inr y \<longrightarrow> y = rev_find b (tabs d)"
    by (auto simp: rev_get_def reading_def sql_def split: list.splits option.splits)
  show ?thesis
  proof (cases x)
    case (Inl e)
    then show ?thesis using g t1 assms(1) by (simp add: upsert_request_def andThen_eq life_keep)
  next
    case (Inr y)
    show ?thesis
    proof (cases y)
      case None
      then have n: "rev_find b (tabs d) = None" using x Inr by simp
      have "tabs (snd (insert_request (new_request now b t s) d1)) = tabs d
          \<or> tabs (snd (insert_request (new_request now b t s) d1)) = (tabs d)\<lparr>requests := requests (tabs d) @ [new_request now b t s]\<rparr>"
        using t1 by (auto simp: insert_request_def sql_def split: list.split option.split bool.split)
      moreover have "snd (upsert_request now b t s d) = snd (insert_request (new_request now b t s) d1)"
        using g Inr None by (simp add: upsert_request_def andThen_eq split: sum.split)
      moreover have "rev_wf ((tabs d)\<lparr>requests := requests (tabs d) @ [new_request now b t s]\<rparr>)"
        using assms(1) n by (auto simp: rev_wf_def rev_find_def find_None_iff new_request_def)
      moreover have "life (RRequest now now2 s b t) (rev_find b' (tabs d))
          (rev_find b' ((tabs d)\<lparr>requests := requests (tabs d) @ [new_request now b t s]\<rparr>))"
        using n assms(2)
        by (auto simp: rev_find_def find_append new_request_def [of now b t s] intro: life_keep life_open [unfolded new_request_def]
            split: option.split)
      ultimately show ?thesis using assms(1) by (auto intro: life_keep)
    next
      case (Some old)
      then have o: "rev_find b (tabs d) = Some old" using x Inr by simp
      define t' where "t' = (if t = [] then rq_title old else t)"
      let ?u = "snd (on_requests (reset_stmt now b t' s) (tabs d))"
      have f: "rev_find c ?u = map_option (\<lambda>r. if rq_branch r = b then r\<lparr>rq_title := t', rq_holder := s, rq_claimer := [],
          rq_state := Requested, rq_feedback := [], rq_merge := [], rq_updated := now\<rparr> else r) (rev_find c (tabs d))" for c
        unfolding reset_stmt_def by (rule rev_find_upd) simp
      have w: "rev_wf ?u" unfolding reset_stmt_def using assms(1) by (subst rev_wf_upd) simp_all
      have "life (RRequest now now2 s b t) (rev_find b' (tabs d)) (rev_find b' ?u)"
      proof (cases "b' = b")
        case True
        have "rq_branch old = b" using rev_findD [OF o] by simp
        then have "rev_find b ?u = Some ((new_request now b t' s)\<lparr>rq_created := rq_created old\<rparr>)"
          by (simp add: f o new_request_def)
        then show ?thesis using True o life_reopen [OF assms(2) \<open>rq_branch old = b\<close>] by (simp add: t'_def)
      next
        case False
        then have "rev_find b' ?u = rev_find b' (tabs d)"
          by (cases "rev_find b' (tabs d)") (auto simp: f dest: rev_findD)
        then show ?thesis by (simp add: life_keep)
      qed
      moreover have "snd (upsert_request now b t s d) = snd (sql (on_requests (reset_stmt now b t' s)) d1)"
        using g Inr Some by (simp add: upsert_request_def andThen_eq t'_def Let_def split: sum.split)
      ultimately show ?thesis
        using sql_tabs_cases [of "on_requests (reset_stmt now b t' s)" d1] t1 w assms(1) by (auto intro: life_keep)
    qed
  qed
qed

lemma refines_request:
  "rev_wf (tabs (pl_db p)) \<Longrightarrow> refines (RRequest now now2 s b t) p (run_rev audit (RRequest now now2 s b t) p)"
proof (cases "boundary_ref b")
  case True
  assume "rev_wf (tabs (pl_db p))"
  then have "refines (RRequest now now2 s b t) p (snd (on_db (upsert_request now b t s) p))"
    using upsert_life [of "pl_db p" b now now2 s t] True by (simp add: refines_def rv_def)
  then show ?thesis
    using True by (auto simp: request_review_def intro!: refines_then within_intros)
next
  case False
  assume "rev_wf (tabs (pl_db p))"
  then show ?thesis using False by (simp add: request_review_def refines_keep same_requests_def)
qed

lemma refines_claim:
  assumes "rev_wf (tabs (pl_db p))"
  shows "refines (RClaim now now2 s b) p (run_rev audit (RClaim now now2 s b) p)"
  unfolding run_rev.simps claim_review_def store_claim_def claim_stmt_def
  by (auto intro!: refines_then within_intros refines_cas assms life_claim simp: Let_def)

lemma within_if [within_intros]: "within R m \<Longrightarrow> within R m' \<Longrightarrow> within R (if c then m else m')"
  by simp

lemma refines_verdict:
  assumes "rev_wf (tabs (pl_db p))"
  shows "refines (RVerdict now now2 s b dec fb m) p (run_rev audit (RVerdict now now2 s b dec fb m) p)"
proof -
  have k: "refines op p p" for op using assms by (simp add: refines_keep same_requests_def)
  consider "dec = ''approve''" | "dec = ''reject''" "trim_space fb = []" | "dec = ''reject''" "trim_space fb \<noteq> []"
    | "dec \<noteq> ''approve''" "dec \<noteq> ''reject''" by blast
  then show ?thesis
  proof cases
    case 1
    have h: "refines (RVerdict now now2 s b ''approve'' fb m) p (snd (on_db (store_approve now b m) p))"
      unfolding store_approve_def approve_stmt_def by (rule refines_cas) (use assms 1 in \<open>auto intro: life_approve\<close>)
    then show ?thesis
      unfolding run_rev.simps verdict_review_def 1
      by (simp del: on_db_snd) (rule refines_then [where m = "on_db (store_approve now b m)", OF h], intro within_intros, simp_all)
  next
    case 3
    have h: "refines (RVerdict now now2 s b ''reject'' fb m) p (snd (on_db (store_reject now b fb) p))"
      unfolding store_reject_def reject_stmt_def by (rule refines_cas) (use assms 3 in \<open>auto intro: life_reject\<close>)
    then show ?thesis
      unfolding run_rev.simps verdict_review_def 3(1)
      by (simp add: 3(2) del: on_db_snd) (rule refines_then [where m = "on_db (store_reject now b fb)", OF h], intro within_intros, simp_all)
  qed (simp_all add: verdict_review_def k)
qed

lemma refines_cancel:
  assumes "rev_wf (tabs (pl_db p))"
  shows "refines (RCancel now s b) p (run_rev audit (RCancel now s b) p)"
  unfolding run_rev.simps cancel_review_def store_cancel_def cancel_stmt_def
  by (auto intro!: refines_then within_intros refines_cas assms life_withdraw)

lemma revert_find:
  "rev_find b (snd (on_requests (revert_stmt now b') t)) = map_option (\<lambda>r. if rq_branch r = b' \<and> rq_state r = Claimed
     then r\<lparr>rq_state := Requested, rq_claimer := [], rq_feedback := [], rq_updated := now\<rparr> else r) (rev_find b t)"
  unfolding revert_stmt_def by (rule rev_find_upd) simp

lemma revert_all_snd:
  "snd (revert_all now dead (r # rs) d) =
     (if \<not> dead (rq_claimer r) then snd (revert_all now dead rs d)
      else let m = sql (on_requests (revert_stmt now (rq_branch r))) d in
        case fst m of Inl e \<Rightarrow> snd m | Inr n \<Rightarrow> snd (revert_all now dead rs (snd m)))"
  by (simp add: Let_def split: prod.split sum.split)

declare revert_all.simps(2) [simp del]

lemma revert_all_other:
  "b \<notin> rq_branch ` set rs \<Longrightarrow> rev_find b (tabs (snd (revert_all now dead rs d))) = rev_find b (tabs d)"
proof (induction rs arbitrary: d)
  case (Cons r rs)
  have "rev_find b (snd (on_requests (revert_stmt now (rq_branch r)) t)) = rev_find b t" for t
    using Cons.prems by (cases "rev_find b t") (auto simp: revert_find dest: rev_findD)
  then have "rev_find b (tabs (snd (sql (on_requests (revert_stmt now (rq_branch r))) d))) = rev_find b (tabs d)"
    using sql_tabs_cases [of "on_requests (revert_stmt now (rq_branch r))" d] by auto
  then show ?case
    using Cons by (simp add: revert_all_snd Let_def split: sum.split)
qed simp

lemma revert_all_wf: "rev_wf (tabs d) \<Longrightarrow> rev_wf (tabs (snd (revert_all now dead rs d)))"
proof (induction rs arbitrary: d)
  case (Cons r rs)
  have "rev_wf (tabs (snd (sql (on_requests (revert_stmt now (rq_branch r))) d)))"
    using sql_tabs_cases [of "on_requests (revert_stmt now (rq_branch r))" d] Cons.prems
    by (auto simp: revert_stmt_def rev_wf_upd)
  then show ?case using Cons by (simp add: revert_all_snd Let_def split: sum.split)
qed simp

lemma revert_all_life:
  assumes "distinct (map rq_branch rs)" and "\<forall>r \<in> set rs. rev_find (rq_branch r) (tabs d) = Some r \<and> rq_state r = Claimed"
  shows "life (RReclaim now now2 dead) (rev_find b (tabs d)) (rev_find b (tabs (snd (revert_all now dead rs d))))"
  using assms
proof (induction rs arbitrary: d)
  case (Cons r rs)
  show ?case
  proof (cases "dead (rq_claimer r)")
    case False
    then show ?thesis using Cons by (simp add: revert_all_snd)
  next
    case True
    let ?m = "sql (on_requests (revert_stmt now (rq_branch r)))"
    have r: "rev_find (rq_branch r) (tabs d) = Some r" "rq_state r = Claimed" using Cons.prems by auto
    have step: "tabs (snd (?m d)) = tabs d \<or> tabs (snd (?m d)) = snd (on_requests (revert_stmt now (rq_branch r)) (tabs d))"
      by (rule sql_tabs_cases)
    have others: "rev_find c (tabs (snd (?m d))) = rev_find c (tabs d)" if "c \<noteq> rq_branch r" for c
      using step that by (cases "rev_find c (tabs d)") (auto simp: revert_find dest: rev_findD)
    have mine: "life (RReclaim now now2 dead) (rev_find (rq_branch r) (tabs d)) (rev_find (rq_branch r) (tabs (snd (?m d))))"
      using step r True by (auto simp: revert_find intro: life_keep life_requeue)
    have "\<forall>x \<in> set rs. rq_branch x \<noteq> rq_branch r" using Cons.prems by force
    then have pre: "\<forall>x \<in> set rs. rev_find (rq_branch x) (tabs (snd (?m d))) = Some x \<and> rq_state x = Claimed"
      using Cons.prems others by auto
    have rest: "snd (revert_all now dead (r # rs) d)
        = (case fst (?m d) of Inl e \<Rightarrow> snd (?m d) | Inr n \<Rightarrow> snd (revert_all now dead rs (snd (?m d))))"
      using True by (simp add: revert_all_snd Let_def)
    show ?thesis
    proof (cases "b = rq_branch r")
      case True
      have "b \<notin> rq_branch ` set rs" using True Cons.prems by auto
      then show ?thesis
        using mine True revert_all_other [of b rs now dead "snd (?m d)"] by (simp add: rest split: sum.split)
    next
      case False
      have "life (RReclaim now now2 dead) (rev_find b (tabs (snd (?m d)))) (rev_find b (tabs (snd (revert_all now dead rs (snd (?m d))))))"
        by (rule Cons.IH) (use Cons.prems pre in auto)
      then show ?thesis using others [OF False] by (auto simp: rest intro: life_keep split: sum.split)
    qed
  qed
qed (simp add: life_keep)

lemma announce_same: "same_requests p (announce_requeued audit now r p)"
proof -
  have "within same_requests (andThen (event_best_effort now ''integrator'' ''integration.requeued'' (rq_branch r)) (\<lambda>_.
       audit_best_effort audit [] ''integration.requeued'' [(''branch'', rq_branch r)]))"
    by (intro within_intros) simp_all
  then show ?thesis by (simp add: within_def announce_requeued_def)
qed

lemma announce_all_same: "same_requests p (fold (announce_requeued audit now) rows p)"
proof (induction rows arbitrary: p)
  case (Cons r rows)
  then show ?case using announce_same [of p audit now r] by (simp add: same_requests_def)
qed (simp add: same_requests_def)

lemma refines_reclaim:
  assumes "rev_wf (tabs (pl_db p))"
  shows "refines (RReclaim now now2 dead) p (run_rev audit (RReclaim now now2 dead) p)"
proof -
  let ?d = "pl_db p" and ?d' = "snd (reclaim_records now dead (pl_db p))"
  have wf: "distinct (map rq_branch (requests (tabs ?d)))" using assms by (simp add: rev_wf_def)
  have find: "rev_find (rq_branch r) (tabs ?d) = Some r" if "r \<in> set (requests (tabs ?d))" for r
    using that wf by (simp add: rev_find_def find_distinct)
  have d': "life (RReclaim now now2 dead) (rev_find b (tabs ?d)) (rev_find b (tabs ?d')) \<and> rev_wf (tabs ?d')" for b
  proof -
    obtain x d1 where q: "reading (\<lambda>t. filter (\<lambda>r. rq_state r = Claimed) (requests t)) ?d = (x, d1)" by fastforce
    then have t: "tabs d1 = tabs ?d" by (metis reading_tabs snd_conv)
    show ?thesis
    proof (cases x)
      case (Inl e)
      then show ?thesis using q t assms by (simp add: reclaim_records_def life_keep)
    next
      case (Inr rows)
      then have rows: "rows = filter (\<lambda>r. rq_state r = Claimed) (requests (tabs ?d))"
        using q reading_Inr by metis
      have "life (RReclaim now now2 dead) (rev_find b (tabs d1)) (rev_find b (tabs (snd (revert_all now dead rows d1))))"
        by (rule revert_all_life) (use wf find t in \<open>auto simp: rows distinct_map_filter\<close>)
      then show ?thesis using q Inr t revert_all_wf [of d1] assms by (simp add: reclaim_records_def)
    qed
  qed
  have "requests (tabs (pl_db (run_rev audit (RReclaim now now2 dead) p))) = requests (tabs ?d')"
  proof -
    obtain e rows d2 where r: "reclaim_records now dead ?d = ((e, rows), d2)" by (metis prod.collapse)
    show ?thesis
      using announce_all_same [of "p\<lparr>pl_db := d2\<rparr>" audit now2 rows] r
      by (cases e) (simp_all add: reclaim_claims_def same_requests_def)
  qed
  then show ?thesis using d' by (simp add: refines_def rv_def rev_find_def rev_wf_def)
qed

lemma gc_find:
  "rev_wf t \<Longrightarrow> rev_find b (snd (on_requests (gc_stmt S c) t))
     = (case rev_find b t of None \<Rightarrow> None | Some r \<Rightarrow> if rq_state r \<in> S \<and> rq_updated r < c then None else Some r)"
  unfolding gc_stmt_def by (rule rev_find_del)

lemma refines_gc:
  assumes "rev_wf (tabs (pl_db p))"
  shows "refines (RGc now) p (run_rev audit (RGc now) p)"
proof -
  let ?S1 = "{Approved, Withdrawn}" and ?S2 = "{Requested, ChangesRequested}"
  let ?c1 = "now - terminal_retention" and ?c2 = "now - abandoned_retention"
  let ?g = "\<lambda>S c d. snd (sql (on_requests (gc_stmt S c)) d)"
  define d1 where "d1 = ?g ?S1 ?c1 (pl_db p)"
  define d2 where "d2 = ?g ?S2 ?c2 d1"
  have step: "rev_wf (tabs (?g S c d)) \<and> (\<forall>b. rev_find b (tabs (?g S c d)) = rev_find b (tabs d)
      \<or> rev_find b (tabs (?g S c d)) = None \<and> (\<exists>r. rev_find b (tabs d) = Some r \<and> rq_state r \<in> S \<and> rq_updated r < c))"
    if "rev_wf (tabs d)" for S c d
    using sql_tabs_cases [of "on_requests (gc_stmt S c)" d] that gc_find [OF that, of _ S c]
      rev_wf_del [OF that] by (auto simp: gc_stmt_def split: option.splits if_splits)
  have "requests (tabs d') = requests (tabs d)" if "gc_events now d = (x, d')" for x d d'
    using that sql_keeps_requests [of "\<lambda>t. ((), t\<lparr>events := filter (\<lambda>e. \<not> ev_created e < now - event_retention) (events t)\<rparr>)" d]
    by (simp add: gc_events_def)
  then have "requests (tabs (pl_db (run_rev audit (RGc now) p))) \<in> {requests (tabs d1), requests (tabs d2)}"
    by (auto simp: gc_stale_def store_gc_def d1_def d2_def split: prod.splits sum.splits)
  moreover have "rev_wf (tabs d1)" "rev_wf (tabs d2)"
    using step [OF assms] step [of d1] by (auto simp: d1_def d2_def)
  moreover have "life (RGc now) (rv b p) (rev_find b (tabs d1))" "life (RGc now) (rv b p) (rev_find b (tabs d2))" for b
    using step [OF assms, of ?S1 ?c1, THEN conjunct2, rule_format, of b]
      step [of d1 ?S2 ?c2, THEN conjunct2, rule_format, of b] calculation(2)
    unfolding d1_def [symmetric] d2_def [symmetric] rv_def
    by (cases "rev_find b (tabs (pl_db p))", auto intro: life_keep life_collect)+
  ultimately show ?thesis by (auto simp: refines_def rv_def rev_find_def rev_wf_def)
qed

lemma run_refines:
  assumes "rev_wf (tabs (pl_db p))"
  shows "(\<forall>b. life op (rv b p) (rv b (run_rev audit op p))) \<and> rev_wf (tabs (pl_db (run_rev audit op p)))"
proof -
  have "refines op p (run_rev audit op p)"
  proof (cases op)
    case (REvents s b m)
    have "requests (tabs (snd (poll_events s b m w d))) = requests (tabs d)" for w d
    proof -
      define R :: "review_tabs \<Rightarrow> review_tabs \<Rightarrow> bool" where "R t t' \<longleftrightarrow> requests t' = requests t" for t t'
      have R: "reflp R" "transp R" by (simp_all add: R_def reflp_def transp_def)
      have "within (on_tabs R) (poll_events s b m w)"
        unfolding poll_events_def Let_def
        by (intro within_intros R on_tabs_reflp on_tabs_transp) (simp add: R_def set_cursor_def)
      then show ?thesis by (simp add: within_def on_tabs_def R_def)
    qed
    then show ?thesis
      using assms by (simp add: REvents review_events_def refines_keep same_requests_def)
  qed (use assms refines_request refines_claim refines_verdict refines_cancel refines_reclaim refines_gc in auto)
  then show ?thesis by (simp add: refines_def)
qed

text \<open>C16: Every operation of the review plane, whichever of its statements fail, moves the record of every branch
  along the documented life cycle or leaves it: only the requester's call opens or reopens, only a requested
  record is claimed, only a claimed one is approved or sent back (with feedback), only an in-flight one is
  withdrawn, only the claim of a dead session is requeued, and only a cold or decided record is collected,
  never a claimed one. The one row per branch is kept.\<close>

theorem review_refines_life:
  assumes "rev_wf (tabs (pl_db p))"
  shows "(\<forall>b. life op (rv b p) (rv b (run_rev audit op p))) \<and> rev_wf (tabs (pl_db (run_rev audit op p)))"
  by (rule run_refines [OF assms])

definition quiet_log :: "unit audit_fun" where
  "quiet_log session kind payload = ret ()"

definition rev_start :: "unit plane" where
  "rev_start = \<lparr>pl_db = \<lparr>script = [], tabs = \<lparr>requests = [], events = [], event_seq = 0, cursors = []\<rparr>\<rparr>, pl_log = ()\<rparr>"

definition run_revs :: "'l audit_fun \<Rightarrow> rev_op list \<Rightarrow> 'l plane \<Rightarrow> 'l plane" where
  "run_revs audit = fold (run_rev audit)"

lemma run_revs_wf: "rev_wf (tabs (pl_db p)) \<Longrightarrow> rev_wf (tabs (pl_db (run_revs audit ops p)))"
proof (induction ops arbitrary: p)
  case (Cons op ops)
  then show ?case using run_refines [OF Cons.prems, of op audit] by (simp add: run_revs_def)
qed (simp add: run_revs_def)

lemma rev_start_wf: "rev_wf (tabs (pl_db rev_start))"
  by (simp add: rev_wf_def rev_start_def)

theorem review_refines_life_witness:
  "life (RClaim 3 4 ''bob'' ''nm/ann'') (rv ''nm/ann'' (run_revs quiet_log [RRequest 1 2 ''ann'' ''nm/ann'' ''t''] rev_start))
     (rv ''nm/ann'' (run_revs quiet_log [RRequest 1 2 ''ann'' ''nm/ann'' ''t'', RClaim 3 4 ''bob'' ''nm/ann''] rev_start))
   \<and> map_option rq_state (rv ''nm/ann'' (run_revs quiet_log [RRequest 1 2 ''ann'' ''nm/ann'' ''t'', RClaim 3 4 ''bob'' ''nm/ann''] rev_start))
       = Some Claimed"
proof
  show "life (RClaim 3 4 ''bob'' ''nm/ann'') (rv ''nm/ann'' (run_revs quiet_log [RRequest 1 2 ''ann'' ''nm/ann'' ''t''] rev_start))
     (rv ''nm/ann'' (run_revs quiet_log [RRequest 1 2 ''ann'' ''nm/ann'' ''t'', RClaim 3 4 ''bob'' ''nm/ann''] rev_start))"
    using review_refines_life [OF run_revs_wf [OF rev_start_wf], of "RClaim 3 4 ''bob'' ''nm/ann''" quiet_log
      "[RRequest 1 2 ''ann'' ''nm/ann'' ''t'']"] by (simp add: run_revs_def)
  show "map_option rq_state (rv ''nm/ann'' (run_revs quiet_log [RRequest 1 2 ''ann'' ''nm/ann'' ''t'', RClaim 3 4 ''bob'' ''nm/ann''] rev_start))
       = Some Claimed"
    by code_simp
qed

section \<open>Claims and verdicts\<close>

definition reopens :: "string \<Rightarrow> rev_op \<Rightarrow> bool" where
  "reopens b op \<longleftrightarrow> (\<exists>now now2 s t. op = RRequest now now2 s b t) \<or> (\<exists>now now2 dead. op = RReclaim now now2 dead)"

definition not_requested :: "rev_row option \<Rightarrow> bool" where
  "not_requested x \<longleftrightarrow> (\<forall>r. x = Some r \<longrightarrow> rq_state r \<noteq> Requested)"

lemma life_not_requested:
  assumes "life op x y" and "not_requested x"
  shows "not_requested y \<or> (\<exists>r. y = Some r \<and> reopens (rq_branch r) op)"
  using assms
  by (induction rule: life.induct) (auto simp: not_requested_def reopens_def new_request_def)

lemma rv_branch: "rv b p = Some r \<Longrightarrow> rq_branch r = b"
  by (simp add: rv_def rev_findD)

lemma runs_not_requested:
  assumes "rev_wf (tabs (pl_db p))" and "not_requested (rv b p)" and "\<forall>op \<in> set ops. \<not> reopens b op"
  shows "not_requested (rv b (run_revs audit ops p))"
  using assms
proof (induction ops arbitrary: p)
  case (Cons op ops)
  note st = run_refines [OF Cons.prems(1), of op audit]
  have "not_requested (rv b (run_rev audit op p))"
    using life_not_requested [OF st [THEN conjunct1, rule_format] Cons.prems(2)] Cons.prems(3) rv_branch
    by fastforce
  then show ?case using Cons st by (simp add: run_revs_def)
qed (simp add: run_revs_def)

lemma filter_branch_count:
  assumes "rev_wf t"
  shows "length (filter (\<lambda>r. rq_branch r = b \<and> P r) (requests t)) = (case rev_find b t of None \<Rightarrow> 0 | Some r \<Rightarrow> if P r then 1 else 0)"
proof -
  have "distinct (map rq_branch rows) \<Longrightarrow> length (filter (\<lambda>r. rq_branch r = b \<and> P r) rows)
      = (case List.find (\<lambda>r. rq_branch r = b) rows of None \<Rightarrow> 0 | Some r \<Rightarrow> if P r then 1 else 0)" for rows
  proof (induction rows)
    case (Cons a rows)
    have "filter (\<lambda>r. rq_branch r = rq_branch a \<and> P r) rows = []"
      using Cons.prems by (auto simp: filter_empty_conv image_iff)
    then show ?case using Cons by auto
  qed simp
  then show ?thesis using assms by (simp add: rev_wf_def rev_find_def)
qed

lemma store_claim_won:
  assumes "rev_wf (tabs d)" and "store_claim now b s d = (Inr won, d')"
  shows "won \<longleftrightarrow> (\<exists>r. rev_find b (tabs d) = Some r \<and> rq_state r = Requested)"
proof -
  obtain n where "sql (on_requests (claim_stmt now b s)) d = (Inr n, d')" and "won = (n = 1)"
    using assms(2) by (auto simp: store_claim_def cas_one_def andThen_Inr)
  then have "won = (fst (on_requests (claim_stmt now b s) (tabs d)) = 1)" using sql_Inr by metis
  then show ?thesis
    using filter_branch_count [OF assms(1), of b "\<lambda>r. rq_state r = Requested"]
    by (auto simp: on_requests_def claim_stmt_def upd_where_def split: option.splits if_splits)
qed

lemma claim_review_won:
  assumes "rev_wf (tabs (pl_db p))" and "claim_review audit now now2 s b p = (Inr (won, x), p')"
  shows "won \<longleftrightarrow> (\<exists>r. rv b p = Some r \<and> rq_state r = Requested)"
proof -
  obtain w q where c: "on_db (store_claim now b s) p = (Inr w, q)" and "w = won"
    using assms(2) by (auto simp: claim_review_def andThen_Inr Let_def split: if_splits)
  then have "store_claim now b s (pl_db p) = (Inr won, pl_db q)"
    by (auto simp: on_db_def split: prod.splits)
  from store_claim_won [OF assms(1) this] show ?thesis by (simp add: rv_def)
qed

lemma claimed_not_requested:
  assumes "claim_review audit now now2 s b p = (Inr (True, x), p1)"
  shows "not_requested (rv b p1)"
proof -
  let ?rest = "\<lambda>won. andThen (on_db (rev_get b)) (\<lambda>cur. if \<not> won then ret (False, cur)
     else let b = (case cur of None \<Rightarrow> [] | Some r \<Rightarrow> rq_branch r) in
       andThen (event_best_effort now2 (branch_audience b) ''integration.claimed'' b) (\<lambda>_.
       andThen (audit_best_effort audit s ''integration.claimed'' [(''branch'', b), (''claimer'', s)]) (\<lambda>_.
       ret (True, cur))))"
  obtain won q where c: "on_db (store_claim now b s) p = (Inr won, q)" and r: "?rest won q = (Inr (True, x), p1)"
    using assms unfolding claim_review_def andThen_Inr by blast
  have "won" using r by (cases won) (auto simp: andThen_Inr)
  have "within same_requests (?rest won)" unfolding Let_def by (intro within_intros) simp_all
  then have same: "rv b p1 = rv b q" using r by (intro same_requests_rv) (rule withinD_eq)
  have "store_claim now b s (pl_db p) = (Inr True, pl_db q)" using c \<open>won\<close> by (auto simp: on_db_def split: prod.splits)
  then have "tabs (pl_db q) = snd (on_requests (claim_stmt now b s) (tabs (pl_db p)))"
    by (auto simp: store_claim_def cas_one_def andThen_Inr dest: sql_Inr)
  then have "rv b q = map_option (\<lambda>r. if rq_branch r = b \<and> rq_state r = Requested
      then r\<lparr>rq_state := Claimed, rq_claimer := s, rq_updated := now\<rparr> else r) (rv b p)"
    unfolding rv_def claim_stmt_def by (simp only:) (rule rev_find_upd, simp)
  then show ?thesis
    using rv_branch [of b p] by (cases "rv b p") (auto simp: not_requested_def same)
qed


definition claim_demo :: "unit plane" where
  "claim_demo = run_revs quiet_log [RRequest 1 2 ''ann'' ''nm/ann'' ''t''] rev_start"

definition claimed_demo :: "unit plane" where
  "claimed_demo = run_rev quiet_log (RClaim 3 4 ''bob'' ''nm/ann'') claim_demo"


section \<open>Delivery of the events\<close>

definition events_wf :: "review_tabs \<Rightarrow> bool" where
  "events_wf t \<longleftrightarrow> sorted_wrt (<) (map ev_id (events t)) \<and> (\<forall>e \<in> set (events t). ev_id e \<le> event_seq t)"

lemma events_wf_sorted: "events_wf t \<Longrightarrow> sort_key ev_id (filter P (events t)) = filter P (events t)"
proof -
  assume "events_wf t"
  then have "sorted (map ev_id (filter P (events t)))"
    unfolding events_wf_def
    by (metis sorted_filter strict_sorted_imp_sorted)
  then show ?thesis by (simp add: sorted_sort_id sort_key_id_if_sorted)
qed

lemma sorted_take_rest:
  assumes "sorted_wrt (<) (map f xs)" and "xs \<noteq> []" and "0 < n"
  shows "set xs = set (take n xs) \<union> {x \<in> set xs. f (last (take n xs)) < (f x :: int)}"
proof -
  have "x \<in> set (take n xs) \<or> f (last (take n xs)) < f x" if "x \<in> set xs" for x
  proof -
    have "x \<in> set (take n xs) \<or> x \<in> set (drop n xs)" using that by (metis Un_iff append_take_drop_id set_append)
    moreover have "f (last (take n xs)) < f x" if "x \<in> set (drop n xs)"
    proof -
      have "last (take n xs) \<in> set (take n xs)" using assms(2,3) by (intro last_in_set) simp
      moreover have "sorted_wrt (<) (map f (take n xs @ drop n xs))" using assms(1) by simp
      ultimately show ?thesis using that by (auto simp: sorted_wrt_append simp del: append_take_drop_id)
    qed
    ultimately show ?thesis by blast
  qed
  then show ?thesis by (auto dest: in_set_takeD)
qed

lemma poll_Inr:
  assumes "poll_events consumer branch m w d = (Inr out, d')"
  shows "out = take (nat (normalize_event_max m)) (filter w (events_after (cursor_of consumer (tabs d)) branch (tabs d)))
    \<and> tabs d' = (if out = [] then tabs d else snd (set_cursor consumer (e_id (last out)) (tabs d)))"
proof -
  from txn_Inr [OF assms [unfolded poll_events_def]] obtain d1 b d2
    where t: "tabs d1 = tabs d" and f: "tabs d' = (if b then tabs d2 else tabs d)"
      and body: "andThen (reading (cursor_of consumer)) (\<lambda>pos. andThen (reading (events_after pos branch)) (\<lambda>evs.
        let out = take (nat (normalize_event_max m)) (filter w evs) in
        if out = [] then ret (True, out)
        else andThen (sql (set_cursor consumer (e_id (last out)))) (\<lambda>_. ret (True, out)))) d1 = (Inr (b, out), d2)"
    by blast
  then show ?thesis
    by (auto simp: andThen_Inr Let_def dest!: reading_Inr sql_Inr split: if_splits)
qed

lemma cursor_set: "cursor_of c (snd (set_cursor c n t)) = n"
proof -
  have "List.find (\<lambda>x. fst x = c) (snd (upsert (\<lambda>x. fst x = c) (c, n) (\<lambda>_. True) (\<lambda>x. (fst x, n)) cs)) = Some (c, n)" for cs :: "(string \<times> int) list"
  proof (cases "List.find (\<lambda>x. fst x = c) cs")
    case None
    then show ?thesis by (simp add: upsert_def find_append)
  next
    case (Some y)
    have "List.find (\<lambda>x. fst x = c) cs = Some y \<Longrightarrow>
      List.find (\<lambda>x. fst x = c) (map (\<lambda>x. if fst x = c then (fst x, n) else x) cs) = Some (c, n)"
      by (induction cs) auto
    with Some show ?thesis by (simp add: upsert_def upd_where_def)
  qed
  then show ?thesis by (simp add: cursor_of_def set_cursor_def)
qed


definition event_demo :: "unit plane" where
  "event_demo = run_revs quiet_log [RRequest 1 2 ''ann'' ''nm/ann'' ''t'', RClaim 3 4 ''bob'' ''nm/ann''] rev_start"


definition skip_demo :: "unit plane" where
  "skip_demo = run_revs quiet_log [RRequest 1 2 ''ann'' ''nm/one'' [], RRequest 3 4 ''ann'' ''nm/two'' [],
     RClaim 5 6 ''bob'' ''nm/one'', RClaim 7 8 ''bob'' ''nm/two''] rev_start"

definition skipped_event :: event where
  "skipped_event = \<lparr>e_id = 3, e_audience = ''branch:nm/one'', e_kind = ''integration.claimed'',
     e_branch = ''nm/one'', e_created = 6, e_holder = ''ann''\<rparr>"

text \<open>A poll restricted to one branch moves the same cursor: events of another branch with a smaller number,
  which the consumer was entitled to and had not seen, are skipped for good.\<close>

theorem filtered_poll_skips:
  "\<exists>(p :: unit plane) e. (case review_events ''ann'' ''nm/two'' 10 p of (r, p1) \<Rightarrow>
       e \<in> joined (tabs (pl_db p)) ` set (events (tabs (pl_db p))) \<and> event_wanted ''ann'' [] e
       \<and> cursor_of ''ann'' (tabs (pl_db p)) < e_id e
       \<and> (case r of Inl x \<Rightarrow> False | Inr evs \<Rightarrow> e \<notin> set evs)
       \<and> e_id e \<le> cursor_of ''ann'' (tabs (pl_db p1)))"
proof -
  have "let p = skip_demo; e = skipped_event in case review_events ''ann'' ''nm/two'' 10 p of (r, p1) \<Rightarrow>
       e \<in> set (map (joined (tabs (pl_db p))) (events (tabs (pl_db p)))) \<and> event_wanted ''ann'' [] e
       \<and> cursor_of ''ann'' (tabs (pl_db p)) < e_id e
       \<and> (case r of Inl x \<Rightarrow> False | Inr evs \<Rightarrow> e \<notin> set evs)
       \<and> e_id e \<le> cursor_of ''ann'' (tabs (pl_db p1))" by code_simp
  then show ?thesis unfolding Let_def set_map by (intro exI [of _ skip_demo] exI [of _ skipped_event])
qed

end
