(* ===== verification/ReviewRpc.thy ===== *)
theory ReviewRpc
  imports ReviewFacts
begin

text \<open>
  The \<open>integration.*\<close> surface of the review plane (\<open>internal/integration/rpc.go\<close>): all methods accept
  empty parameters; the acting session is that of the connection.
\<close>

section \<open>Handlers\<close>

type_synonym 'l rev_handler = "json option \<Rightarrow> ('l plane, json) handled"

definition rev_state_name :: "rev_state \<Rightarrow> string" where
  "rev_state_name st = (case st of Requested \<Rightarrow> ''requested'' | Claimed \<Rightarrow> ''claimed''
     | ChangesRequested \<Rightarrow> ''changes_requested'' | Approved \<Rightarrow> ''approved'' | Withdrawn \<Rightarrow> ''withdrawn'')"

text \<open>The string fields of the parameters, the first of which must not be empty.\<close>

primrec str_fields :: "string list \<Rightarrow> (string \<times> json) list \<Rightarrow> string list option" where
  "str_fields [] kvs = Some []"
| "str_fields (n # ns) kvs =
     (case (str_field n kvs, str_fields ns kvs) of (Some x, Some xs) \<Rightarrow> Some (x # xs) | _ \<Rightarrow> None)"

definition needed :: "string list \<Rightarrow> json option \<Rightarrow> rpc_error + string list" where
  "needed names params =
     (case params_optional params of
        Inl e \<Rightarrow> Inl e
      | Inr kvs \<Rightarrow> (case str_fields names kvs of
            None \<Rightarrow> Inl invalid_params
          | Some xs \<Rightarrow> if hd xs = [] then Inl (new_error code_invalid_params (Fmt ''%s required'' [hd names])) else Inr xs))"

text \<open>An error of the operation, with the sentinels that are the caller's fault.\<close>

definition served_or :: "err set \<Rightarrow> ('s, 'a) eff \<Rightarrow> ('a \<Rightarrow> json) \<Rightarrow> ('s, json) handled" where
  "served_or faults m f = (\<lambda>s. case m s of
     (Inl e, s') \<Rightarrow> (Inl (new_error (if e \<in> faults then code_invalid_params else code_internal) e), s')
   | (Inr x, s') \<Rightarrow> (Inr (f x), s'))"

definition review_request_handler :: "'l audit_fun \<Rightarrow> int \<Rightarrow> int \<Rightarrow> string \<Rightarrow> 'l rev_handler" where
  "review_request_handler audit now now2 session params =
     checked (needed [''branch'', ''title''] params) (\<lambda>xs.
     served_or {ErrInvalidBranch} (request_review audit now now2 session (xs ! 0) (xs ! 1)) (\<lambda>r.
       JObj [(''id'', JStr (rq_branch r)), (''state'', JStr (rev_state_name (rq_state r)))]))"

definition pending_json :: "rev_row \<Rightarrow> json" where
  "pending_json r = JObj [(''id'', JStr (rq_branch r)), (''branch'', JStr (rq_branch r)), (''title'', JStr (rq_title r)),
     (''state'', JStr (rev_state_name (rq_state r))), (''created_at_ms'', JInt (rq_created r div ms))]"

definition review_pending_handler :: "('l plane, json) handled" where
  "review_pending_handler = served (on_db store_pending) (\<lambda>rows. JObj [(''pending'', JArr (map pending_json rows))])"

text \<open>The branch and title of the current record, empty if there is none.\<close>

definition review_claim_handler :: "'l audit_fun \<Rightarrow> int \<Rightarrow> int \<Rightarrow> string \<Rightarrow> 'l rev_handler" where
  "review_claim_handler audit now now2 session params =
     checked (needed [''id''] params) (\<lambda>xs.
     served (claim_review audit now now2 session (xs ! 0)) (\<lambda>(won, cur). JObj [(''ok'', JBool won),
       (''branch'', JStr (case cur of None \<Rightarrow> [] | Some r \<Rightarrow> rq_branch r)),
       (''title'', JStr (case cur of None \<Rightarrow> [] | Some r \<Rightarrow> rq_title r))]))"

definition review_verdict_handler :: "'l audit_fun \<Rightarrow> int \<Rightarrow> int \<Rightarrow> string \<Rightarrow> 'l rev_handler" where
  "review_verdict_handler audit now now2 session params =
     checked (needed [''id'', ''decision'', ''feedback'', ''merge''] params) (\<lambda>xs.
     served_or {ErrFeedbackRequired, ErrBadDecision}
       (verdict_review audit now now2 session (xs ! 0) (xs ! 1) (xs ! 2) (xs ! 3))
       (\<lambda>(won, st). JObj [(''ok'', JBool won),
          (''state'', JStr (case st of None \<Rightarrow> [] | Some x \<Rightarrow> rev_state_name x))]))"

definition review_status_handler :: "'l rev_handler" where
  "review_status_handler params =
     checked (needed [''branch''] params) (\<lambda>xs.
     served (on_db (rev_get (xs ! 0))) (\<lambda>cur. case cur of
       None \<Rightarrow> JObj [(''found'', JBool False), (''id'', JStr []), (''state'', JStr []), (''feedback'', JStr []), (''merge'', JStr [])]
     | Some r \<Rightarrow> JObj [(''found'', JBool True), (''id'', JStr (rq_branch r)), (''state'', JStr (rev_state_name (rq_state r))),
         (''feedback'', JStr (rq_feedback r)), (''merge'', JStr (rq_merge r))]))"

definition review_cancel_handler :: "'l audit_fun \<Rightarrow> int \<Rightarrow> string \<Rightarrow> 'l rev_handler" where
  "review_cancel_handler audit now session params =
     checked (needed [''id''] params) (\<lambda>xs.
     served (cancel_review audit now session (xs ! 0)) (\<lambda>won. JObj [(''ok'', JBool won)]))"

definition event_json :: "event \<Rightarrow> json" where
  "event_json e = JObj [(''id'', JInt (e_id e)), (''kind'', JStr (e_kind e)), (''branch'', JStr (e_branch e)),
     (''created_at_ms'', JInt (e_created e div ms))]"

definition review_events_handler :: "string \<Rightarrow> 'l rev_handler" where
  "review_events_handler session params =
     checked (params_optional params) (\<lambda>kvs.
     checked (opt_value (str_field ''branch'' kvs)) (\<lambda>branch.
     checked (opt_value (int_field ''max'' kvs)) (\<lambda>m.
     served (review_events session branch m) (\<lambda>evs. JObj [(''events'', JArr (map event_json evs))]))))"

definition record_json :: "rev_row \<Rightarrow> json" where
  "record_json r = JObj [(''id'', JStr (rq_branch r)), (''branch'', JStr (rq_branch r)), (''title'', JStr (rq_title r)),
     (''state'', JStr (rev_state_name (rq_state r))), (''claimer'', JStr (rq_claimer r)),
     (''feedback'', JStr (rq_feedback r)), (''merge'', JStr (rq_merge r)),
     (''created_at_ms'', JInt (rq_created r div ms)), (''updated_at_ms'', JInt (rq_updated r div ms))]"

definition review_list_handler :: "('l plane, json) handled" where
  "review_list_handler = served (on_db store_list) (\<lambda>rows. JObj [(''records'', JArr (map record_json rows))])"

definition review_methods :: "'l audit_fun \<Rightarrow> int \<Rightarrow> int \<Rightarrow> (string \<times> (string \<Rightarrow> 'l rev_handler)) list" where
  "review_methods audit now now2 =
     [(''integration.request'', review_request_handler audit now now2), (''integration.pending'', \<lambda>_ _. review_pending_handler),
      (''integration.claim'', review_claim_handler audit now now2), (''integration.verdict'', review_verdict_handler audit now now2),
      (''integration.status'', \<lambda>_. review_status_handler), (''integration.cancel'', review_cancel_handler audit now),
      (''integration.list'', \<lambda>_ _. review_list_handler), (''integration.events'', review_events_handler)]"

end
