(* ===== verification/Frame.thy ===== *)
theory Frame
  imports GoText "HOL-Library.Sublist"
begin

text \<open>
  The wire framing of the cooperative plane (\<open>internal/coop/frame.go\<close>): a header of stream id (4 bytes,
  big endian), type (1 byte) and payload length (4 bytes, big endian), then the payload. A reader is
  the sequence of bytes it will still deliver before it ends, and \<open>io.ReadFull\<close> tells an end at the
  first byte (\<open>EOF\<close>) from an end in the middle (\<open>ErrUnexpectedEOF\<close>).
\<close>

section \<open>Big-endian words\<close>

definition put_u32 :: "32 word \<Rightarrow> string" where
  "put_u32 w = map (\<lambda>k. char_of (unat w div 2 ^ k mod 256)) [24, 16, 8, 0]"

definition get_u32 :: "string \<Rightarrow> 32 word" where
  "get_u32 s = of_nat (foldl (\<lambda>n c. n * 256 + byte c) 0 s)"

lemma length_put_u32 [simp]: "length (put_u32 w) = 4"
  by (simp add: put_u32_def)

lemma base256:
  fixes n :: nat
  assumes "n < 2 ^ 32"
  shows "((n div 2 ^ 24 mod 256 * 256 + n div 2 ^ 16 mod 256) * 256 + n div 2 ^ 8 mod 256) * 256 + n mod 256 = n"
proof -
  have d: "n div 2 ^ 16 = n div 2 ^ 8 div 256" "n div 2 ^ 24 = n div 2 ^ 8 div 256 div 256"
    by (simp_all add: div_mult2_eq [symmetric])
  have "n div 2 ^ 24 < 256" using assms by (simp add: less_mult_imp_div_less)
  then have "n div 2 ^ 24 mod 256 = n div 2 ^ 8 div 256 div 256" by (simp add: d)
  moreover have "n div 2 ^ 8 = n div 256" by simp
  ultimately show ?thesis unfolding d by (metis div_mult_mod_eq)
qed

lemma get_put_u32 [simp]: "get_u32 (put_u32 w) = w"
proof -
  define f where "f = (\<lambda>n c. n * 256 + byte c)"
  have "unat w < 2 ^ 32" using unsigned_less [of w, where 'a = nat] by simp
  from base256 [OF this] have "foldl f 0 (map char_of [unat w div 2 ^ 24 mod 256, unat w div 2 ^ 16 mod 256,
      unat w div 2 ^ 8 mod 256, unat w mod 256]) = unat w"
    by (simp only: f_def foldl.simps list.map of_char_of mod_mod_trivial mult_0 add_0)
  then have "foldl f 0 (put_u32 w) = unat w" by (simp add: put_u32_def)
  then have "get_u32 (put_u32 w) = of_nat (unat w)"
    unfolding get_u32_def f_def by (rule arg_cong)
  then show ?thesis by simp
qed

lemma put_get_u32:
  assumes "length s = 4"
  shows "put_u32 (get_u32 s) = s"
proof -
  obtain a b c d where s: "s = [a, b, c, d]"
    using assms by (auto simp: numeral_eq_Suc length_Suc_conv)
  define n where "n = ((byte a * 256 + byte b) * 256 + byte c) * 256 + byte d"
  have lt: "byte a < 256" "byte b < 256" "byte c < 256" "byte d < 256"
    by (rule of_char_lt)+
  have step: "x < m \<Longrightarrow> y < 256 \<Longrightarrow> x * 256 + y < m * 256" for x y m :: nat by linarith
  have "n < ((256 * 256) * 256) * 256" unfolding n_def by (intro step lt)
  then have "unat (of_nat n :: 32 word) = n" by (simp add: unat_of_nat)
  moreover have "get_u32 s = of_nat n"
    unfolding get_u32_def by (rule arg_cong) (simp add: s n_def)
  ultimately have u: "unat (get_u32 s) = n" by simp
  have parts: "y < 256 \<Longrightarrow> (x * 256 + y) mod 256 = y" "y < 256 \<Longrightarrow> (x * 256 + y) div 256 = x" for x y :: nat
    by (simp_all add: div_add1_eq)
  have q: "n div 256 = (byte a * 256 + byte b) * 256 + byte c" "n div 256 div 256 = byte a * 256 + byte b"
    "n div 256 div 256 div 256 = byte a"
    unfolding n_def by (simp_all only: parts lt)
  have n_mod: "n mod 256 = byte d" "n div 256 mod 256 = byte c"
    unfolding q(1) by (simp_all only: n_def parts lt)
  have "n div 2 ^ 16 = n div 256 div 256" "n div 2 ^ 24 = n div 256 div 256 div 256"
    by (simp_all add: div_mult2_eq [symmetric])
  then have "n mod 256 = byte d" "n div 2 ^ 8 mod 256 = byte c" "n div 2 ^ 16 mod 256 = byte b"
    "n div 2 ^ 24 mod 256 = byte a"
    using n_mod q lt(1) by (simp_all add: parts(1) [OF lt(3)] parts(1) [OF lt(2)])
  then show ?thesis
    unfolding put_u32_def u by (simp only: list.map char_of_char power_0 div_by_1 s)
qed

section \<open>Frames\<close>

type_synonym frame_type = "8 word"

definition frame_open :: frame_type where "frame_open = 1"
definition frame_data :: frame_type where "frame_data = 2"
definition frame_close :: frame_type where "frame_close = 3"
definition frame_ready :: frame_type where "frame_ready = 4"

definition max_payload :: nat where "max_payload = 2 ^ 20"
definition header_len :: nat where "header_len = 9"

record frame =
  f_stream :: "32 word"
  f_type :: frame_type
  f_payload :: string

definition valid_type :: "frame_type \<Rightarrow> bool" where
  "valid_type t \<longleftrightarrow> t = frame_open \<or> t = frame_data \<or> t = frame_close \<or> t = frame_ready"

datatype frame_err =
    Eof
  | UnexpectedEof
  | PayloadTooLong nat
  | UnknownType frame_type
  | LengthTooLong nat

definition encode_frame :: "32 word \<Rightarrow> frame_type \<Rightarrow> string \<Rightarrow> frame_err + string" where
  "encode_frame sid t payload =
     (if max_payload < length payload then Inl (PayloadTooLong (length payload))
      else Inr (put_u32 sid @ [char_of (unat t)] @ put_u32 (of_nat (length payload)) @ payload))"

text \<open>\<open>io.ReadFull\<close> into a buffer of \<open>n\<close> bytes.\<close>

definition read_full :: "nat \<Rightarrow> string \<Rightarrow> frame_err + string \<times> string" where
  "read_full n s =
     (if n \<le> length s then Inr (take n s, drop n s)
      else if s = [] then Inl Eof else Inl UnexpectedEof)"

definition read_frame :: "string \<Rightarrow> frame_err + frame \<times> string" where
  "read_frame s =
     (case read_full header_len s of
        Inl e \<Rightarrow> Inl e
      | Inr (hdr, rest) \<Rightarrow>
          (let sid = get_u32 (take 4 hdr); t = of_nat (byte (hdr ! 4)); n = unat (get_u32 (drop 5 hdr))
           in if \<not> valid_type t then Inl (UnknownType t)
              else if max_payload < n then Inl (LengthTooLong n)
              else if 0 < n then
                (case read_full n rest of
                   Inl e \<Rightarrow> Inl e
                 | Inr (payload, rest') \<Rightarrow> Inr (\<lparr>f_stream = sid, f_type = t, f_payload = payload\<rparr>, rest'))
              else Inr (\<lparr>f_stream = sid, f_type = t, f_payload = []\<rparr>, rest)))"

text \<open>A well-formed frame: a known type and a payload within the bound.\<close>

definition frame_wf :: "frame \<Rightarrow> bool" where
  "frame_wf f \<longleftrightarrow> valid_type (f_type f) \<and> length (f_payload f) \<le> max_payload"

definition wire :: "frame \<Rightarrow> string" where
  "wire f = put_u32 (f_stream f) @ [char_of (unat (f_type f))]
     @ put_u32 (of_nat (length (f_payload f))) @ f_payload f"

lemma encode_wire:
  "frame_wf f \<Longrightarrow> encode_frame (f_stream f) (f_type f) (f_payload f) = Inr (wire f)"
  by (simp add: frame_wf_def encode_frame_def wire_def)

lemma encode_frameD:
  "encode_frame (f_stream f) (f_type f) (f_payload f) = Inr b \<Longrightarrow>
     b = wire f \<and> length (f_payload f) \<le> max_payload"
  by (auto simp: encode_frame_def wire_def split: if_splits)

lemma type_mod [simp]: "unat (t :: frame_type) mod 256 = unat t"
  using unsigned_less [of t, where 'a = nat] by simp

lemma type_byte [simp]: "of_nat (byte (char_of (unat t))) = (t :: frame_type)"
  by simp

lemma byte_type [simp]: "char_of (unat (of_nat (byte c) :: frame_type)) = c"
  using of_char_lt [of c] by (simp add: unat_of_nat)

lemma payload_length [simp]: "n \<le> max_payload \<Longrightarrow> unat (of_nat n :: 32 word) = n"
  by (simp add: max_payload_def unat_of_nat)

lemma read_wire_append:
  assumes "frame_wf f"
  shows "read_frame (wire f @ rest) = Inr (f, rest)"
proof -
  have n: "length (f_payload f) \<le> max_payload" and t: "valid_type (f_type f)"
    using assms by (simp_all add: frame_wf_def)
  define hdr where "hdr = put_u32 (f_stream f) @ [char_of (unat (f_type f))]
     @ put_u32 (of_nat (length (f_payload f)))"
  have h: "read_full header_len (wire f @ rest) = Inr (hdr, f_payload f @ rest)"
    by (simp add: read_full_def header_len_def wire_def hdr_def)
  have "take 4 hdr = put_u32 (f_stream f)" "hdr ! 4 = char_of (unat (f_type f))"
    "drop 5 hdr = put_u32 (of_nat (length (f_payload f)))"
    by (simp_all add: hdr_def nth_append)
  then show ?thesis
    using n t h by (auto simp: read_frame_def Let_def read_full_def)
qed

lemma read_frameD:
  assumes "read_frame s = Inr (f, rest)"
  shows "frame_wf f \<and> s = wire f @ rest"
proof -
  define sid t n where "sid = get_u32 (take 4 s)" and "t = (of_nat (byte (s ! 4)) :: frame_type)"
    and "n = unat (get_u32 (take 4 (drop 5 s)))"
  have s9: "9 \<le> length s" and t: "valid_type t" and n: "n \<le> max_payload"
    and f: "f = \<lparr>f_stream = sid, f_type = t, f_payload = take n (drop 9 s)\<rparr>"
    and r: "rest = drop n (drop 9 s)" and l: "n \<le> length (drop 9 s)"
    using assms
    by (auto simp: read_frame_def read_full_def header_len_def Let_def sid_def t_def n_def drop_take
        split: if_splits)
  have "put_u32 sid = take 4 s" and "put_u32 (of_nat n) = take 4 (drop 5 s)" and "char_of (unat t) = s ! 4"
    using s9 by (simp_all add: sid_def n_def t_def put_get_u32)
  then have "wire f @ rest = take 4 s @ [s ! 4] @ take 4 (drop 5 s) @ drop 9 s"
    using l append_take_drop_id [of n "drop 9 s"] by (simp add: f r wire_def min_def)
  also have "\<dots> = take 4 s @ [s ! 4] @ take 4 (drop 5 s) @ drop 4 (drop 5 s)"
    using append_take_drop_id [of 4 "drop 5 s"] by simp
  also have "\<dots> = take 4 s @ s ! 4 # drop 5 s"
    by (simp only: append_take_drop_id append_Cons append_Nil)
  also have "\<dots> = s"
    using s9 id_take_nth_drop [of 4 s] by simp
  finally show ?thesis
    using t n l by (simp add: frame_wf_def f)
qed

lemma read_frame_shorter: "read_frame s = Inr (f, rest) \<Longrightarrow> length rest < length s"
  by (auto dest!: read_frameD simp: wire_def)

lemma read_frame_exact:
  "read_frame s = Inr (g, rest) \<longleftrightarrow>
     (\<exists>b. encode_frame (f_stream g) (f_type g) (f_payload g) = Inr b \<and> valid_type (f_type g) \<and> s = b @ rest)"
  (is "_ \<longleftrightarrow> ?enc")
proof
  assume "read_frame s = Inr (g, rest)"
  then have "frame_wf g" and "s = wire g @ rest" using read_frameD by blast+
  then show ?enc by (auto simp: encode_wire) (simp add: frame_wf_def)
next
  assume ?enc
  then have "frame_wf g" and "s = wire g @ rest"
    by (auto dest: encode_frameD simp: frame_wf_def)
  then show "read_frame s = Inr (g, rest)" by (simp add: read_wire_append)
qed

text \<open>An input that ends inside a frame is refused, never read as another frame.\<close>

lemma read_truncated:
  assumes "frame_wf f" and "strict_prefix s (wire f)"
  shows "read_frame s = Inl (if s = [] \<or> length s = header_len then Eof else UnexpectedEof)"
proof (cases "read_frame s")
  case (Inr x)
  then obtain g rest where g: "read_frame s = Inr (g, rest)" by (cases x) auto
  obtain more where w: "wire f = s @ more" "more \<noteq> []"
    using assms(2) by (auto simp: strict_prefix_def prefix_def)
  have "read_frame (wire f) = Inr (f, [])"
    using read_wire_append [OF assms(1), of "[]"] by simp
  moreover have "read_frame (wire g @ rest @ more) = Inr (g, rest @ more)"
    using read_frameD [OF g] by (intro read_wire_append) simp
  ultimately have False
    using w read_frameD [OF g] by simp
  then show ?thesis ..
next
  case (Inl e)
  obtain more where w: "wire f = s @ more" "more \<noteq> []"
    using assms(2) by (auto simp: strict_prefix_def prefix_def)
  show ?thesis
  proof (cases "length s < header_len")
    case True
    then show ?thesis by (simp add: read_frame_def read_full_def)
  next
    case False
    then obtain p where s: "s = take 9 s @ p" "length (take 9 s) = 9"
      by (metis append_take_drop_id header_len_def length_take min.absorb2 not_less)
    define hdr where "hdr = put_u32 (f_stream f) @ [char_of (unat (f_type f))]
     @ put_u32 (of_nat (length (f_payload f)))"
    have "take 9 (s @ more) = hdr" "drop 9 (s @ more) = f_payload f"
      by (simp_all add: w(1) [symmetric] wire_def hdr_def)
    with False have h: "take 9 s = hdr" and p: "drop 9 s @ more = f_payload f"
      by (simp_all add: header_len_def)
    have n: "length (f_payload f) \<le> max_payload" and t: "valid_type (f_type f)"
      using assms by (simp_all add: frame_wf_def)
    have rf: "read_full header_len s = Inr (hdr, drop 9 s)"
      using False h by (simp add: read_full_def header_len_def)
    have parts: "take 4 hdr = put_u32 (f_stream f)" "hdr ! 4 = char_of (unat (f_type f))"
      "drop 5 hdr = put_u32 (of_nat (length (f_payload f)))"
      by (simp_all add: hdr_def nth_append)
    have short: "length (drop 9 s) < length (f_payload f)"
      using p w(2) by (metis length_append length_greater_0_conv less_add_same_cancel1)
    then have "read_full (length (f_payload f)) (drop 9 s) = Inl (if drop 9 s = [] then Eof else UnexpectedEof)"
      by (auto simp: read_full_def)
    moreover have "drop 9 s = [] \<longleftrightarrow> length s = header_len" and "s \<noteq> []"
      using False by (auto simp: header_len_def)
    ultimately show ?thesis
      using n t short by (auto simp: read_frame_def rf parts Let_def)
  qed
qed

section \<open>A whole stream\<close>

text \<open>
  The read loops (\<open>readStdin\<close> of the relay, \<open>run\<close> of the pump) call \<open>ReadFrame\<close> until it fails: the
  frames they see and the error that ends them. A frame takes at least nine bytes.
\<close>

function read_frames :: "string \<Rightarrow> frame list \<times> frame_err" where
  "read_frames s =
     (case read_frame s of
        Inl e \<Rightarrow> ([], e)
      | Inr (f, rest) \<Rightarrow> (case read_frames rest of (fs, e) \<Rightarrow> (f # fs, e)))"
  by pat_completeness auto
termination
  by (relation "measure length") (auto simp: read_frame_shorter)

declare read_frames.simps [simp del]

lemma read_frames_stop: "read_frame s = Inl e \<Longrightarrow> read_frames s = ([], e)"
  by (simp add: read_frames.simps)

lemma read_frames_step:
  "frame_wf f \<Longrightarrow> read_frames (wire f @ s) = (f # fst (read_frames s), snd (read_frames s))"
  by (subst read_frames.simps) (simp add: read_wire_append split: prod.split)

lemma read_frames_wires:
  "\<forall>f \<in> set fs. frame_wf f \<Longrightarrow>
     read_frames (concat (map wire fs) @ s) = (fs @ fst (read_frames s), snd (read_frames s))"
  by (induction fs) (auto simp: read_frames_step)

definition encode_all :: "frame list \<Rightarrow> string" where
  "encode_all fs = concat (map (\<lambda>f. case encode_frame (f_stream f) (f_type f) (f_payload f) of
     Inl _ \<Rightarrow> [] | Inr b \<Rightarrow> b) fs)"

lemma encode_all_wires: "\<forall>f \<in> set fs. frame_wf f \<Longrightarrow> encode_all fs = concat (map wire fs)"
  by (induction fs) (auto simp: encode_all_def encode_wire)

text \<open>
  C23: the codec is exact. Whatever sequence of frames the writers encode (known type, payload within
  the bound) is what the other side's read loop sees, in order and with the same payloads; a stream
  that is cut in the middle of the next frame yields exactly the whole frames before the cut and then
  an end-of-input error, so a truncation never produces a frame that was not sent. And \<open>ReadFrame\<close>
  accepts nothing but what \<open>EncodeFrame\<close> produces.
\<close>

theorem frames_round_trip:
  assumes "\<forall>g \<in> set fs. frame_wf g" and "frame_wf f" and "strict_prefix part (wire f)"
  shows "read_frames (encode_all fs @ part)
      = (fs, if part = [] \<or> length part = header_len then Eof else UnexpectedEof)
    \<and> (read_frame s = Inr (g, rest) \<longleftrightarrow>
      (\<exists>b. encode_frame (f_stream g) (f_type g) (f_payload g) = Inr b \<and> valid_type (f_type g) \<and> s = b @ rest))"
proof
  show "read_frames (encode_all fs @ part)
      = (fs, if part = [] \<or> length part = header_len then Eof else UnexpectedEof)"
    using read_frames_stop [OF read_truncated [OF assms(2,3)]]
    by (simp add: encode_all_wires [OF assms(1)] read_frames_wires [OF assms(1)])
  show "read_frame s = Inr (g, rest) \<longleftrightarrow>
      (\<exists>b. encode_frame (f_stream g) (f_type g) (f_payload g) = Inr b \<and> valid_type (f_type g) \<and> s = b @ rest)"
    by (rule read_frame_exact)
qed

definition small_frame :: frame where
  "small_frame = \<lparr>f_stream = 7, f_type = frame_data, f_payload = ''hello''\<rparr>"

lemma small_frame_ok:
  "frame_wf small_frame" "strict_prefix (take 10 (wire small_frame)) (wire small_frame)"
  "length (take 10 (wire small_frame)) = 10"
proof -
  show "frame_wf small_frame"
    by (simp add: small_frame_def frame_wf_def valid_type_def max_payload_def)
  show len: "length (take 10 (wire small_frame)) = 10"
    by (simp add: wire_def small_frame_def)
  have "length (wire small_frame) = 14" by (simp add: wire_def small_frame_def)
  with len have "take 10 (wire small_frame) \<noteq> wire small_frame" by auto
  then show "strict_prefix (take 10 (wire small_frame)) (wire small_frame)"
    by (simp add: strict_prefix_def take_is_prefix)
qed

lemma frames_round_trip_witness:
  "read_frames (encode_all [small_frame, small_frame] @ take 10 (wire small_frame))
     = ([small_frame, small_frame], UnexpectedEof)
   \<and> read_frame (wire small_frame @ ''x'') = Inr (small_frame, ''x'')"
  using frames_round_trip [of "[small_frame, small_frame]" small_frame "take 10 (wire small_frame)"
      "wire small_frame @ ''x''" small_frame "''x''"] small_frame_ok
    encode_wire [OF small_frame_ok(1)]
  by (auto simp: header_len_def frame_wf_def)

text \<open>
  A frame that is cut exactly behind its header reads as \<open>io.EOF\<close>, the value that the comment of
  \<open>ReadFrame\<close> reserves for a stream that ends cleanly at a frame boundary.
\<close>

lemma header_cut_reads_as_eof:
  assumes "valid_type t" and "0 < n" and "n \<le> max_payload"
  shows "read_frame (put_u32 sid @ [char_of (unat t)] @ put_u32 (of_nat n)) = Inl Eof"
proof -
  have "read_full header_len (put_u32 sid @ [char_of (unat t)] @ put_u32 (of_nat n))
    = Inr (put_u32 sid @ [char_of (unat t)] @ put_u32 (of_nat n), [])"
    by (simp add: read_full_def header_len_def)
  then show ?thesis
    using assms by (auto simp: read_frame_def Let_def nth_append read_full_def header_len_def)
qed

end
