(* ===== verification/Session.thy ===== *)
theory Session
  imports LockService "HOL-Library.Signed_Division"
begin

text \<open>
  The session unifier (\<open>internal/session\<close>) with the identities the daemon mints
  (\<open>internal/daemon/identity.go\<close>) and the adapters of \<open>internal/app/compose.go\<close>. A session is named
  to the daemon only by the connection it was accepted on or by a capability token: 32 random bytes
  whose hash is bound to the session in a durable table.

  The host gives the draws of \<open>crypto/rand\<close> (for a number of bytes and a position in the stream, a
  message of failure or the bytes), the readings of the clock in nanoseconds, and SHA-256. A handler runs as one step.
\<close>

section \<open>The interfaces\<close>

record token_binding =
  b_hash :: string
  b_session :: string
  b_created :: int

record 's token_store =
  ts_put :: "string \<Rightarrow> string \<Rightarrow> int \<Rightarrow> ('s, unit) eff"
  ts_get :: "string \<Rightarrow> ('s, string \<times> bool) eff"
  ts_delete :: "string \<Rightarrow> ('s, unit) eff"
  ts_list :: "('s, token_binding list) eff"

type_synonym 's lease_checker = "int \<Rightarrow> string \<Rightarrow> ('s, string \<times> bool) eff"

record host =
  random :: "nat \<Rightarrow> nat \<Rightarrow> string + string"
  clock :: "nat \<Rightarrow> int"
  sha256 :: "string \<Rightarrow> string"

record 's keeper =
  draws :: nat
  ticks :: nat
  store :: 's

definition on_store :: "('s, 'a) eff \<Rightarrow> ('s keeper, 'a) eff" where
  "on_store m k = (case m (store k) of (r, s) \<Rightarrow> (r, k\<lparr>store := s\<rparr>))"

definition tick :: "host \<Rightarrow> ('s keeper, int) eff" where
  "tick host k = (Inr (clock host (ticks k)), k\<lparr>ticks := ticks k + 1\<rparr>)"

definition draw :: "host \<Rightarrow> nat \<Rightarrow> ('s keeper, string) eff" where
  "draw host n k = (case random host n (draws k) of
       Inl m \<Rightarrow> (Inl (DbErr m), k\<lparr>draws := draws k + 1\<rparr>)
     | Inr b \<Rightarrow> (Inr b, k\<lparr>draws := draws k + 1\<rparr>))"

definition now_ms :: "host \<Rightarrow> ('s keeper, int) eff" where
  "now_ms host = andThen (tick host) (\<lambda>n. ret (n sdiv ms))"

section \<open>The token table\<close>

definition session_lease_key_prefix :: string where
  "session_lease_key_prefix = ''mad-trellis:session:v1:''"

definition liveness_key :: "string \<Rightarrow> string" where
  "liveness_key sid = session_lease_key_prefix @ sid"

definition token_bytes :: nat where
  "token_bytes = 32"

definition prune_grace_ms :: int where
  "prune_grace_ms = 5 * 60 * 1000"

definition hash_token :: "host \<Rightarrow> string \<Rightarrow> string" where
  "hash_token host tok = hex_encode (sha256 host tok)"

definition live_holder :: "host \<Rightarrow> 's lease_checker \<Rightarrow> string \<Rightarrow> ('s keeper, string \<times> bool) eff" where
  "live_holder host chk key = andThen (tick host) (\<lambda>now. on_store (chk now key))"

definition prune_row :: "host \<Rightarrow> 's token_store \<Rightarrow> 's lease_checker \<Rightarrow> token_binding \<Rightarrow> ('s keeper, unit) eff" where
  "prune_row host ts chk r =
     andThen (attempt (live_holder host chk (liveness_key (b_session r)))) (\<lambda>x.
     case x of
       Inr (holder, live) \<Rightarrow>
         if \<not> live \<or> holder \<noteq> b_session r then ignoring (on_store (ts_delete ts (b_hash r))) else ret ()
     | Inl _ \<Rightarrow> ret ())"

fun prune_rows :: "host \<Rightarrow> 's token_store \<Rightarrow> 's lease_checker \<Rightarrow> int \<Rightarrow> token_binding list \<Rightarrow> ('s keeper, unit) eff" where
  "prune_rows host ts chk cutoff [] = ret ()"
| "prune_rows host ts chk cutoff (r # rs) =
     (if cutoff < b_created r then prune_rows host ts chk cutoff rs
      else andThen (prune_row host ts chk r) (\<lambda>_. prune_rows host ts chk cutoff rs))"

definition prune_dead :: "host \<Rightarrow> 's token_store \<Rightarrow> 's lease_checker \<Rightarrow> ('s keeper, unit) eff" where
  "prune_dead host ts chk =
     andThen (attempt (on_store (ts_list ts))) (\<lambda>x.
     case x of
       Inl _ \<Rightarrow> ret ()
     | Inr rows \<Rightarrow> andThen (now_ms host) (\<lambda>n. prune_rows host ts chk (n - prune_grace_ms) rows))"

text \<open>
  The loop of \<open>Mint\<close> has no bound: it draws until the hash is unbound. Not returning is \<open>None\<close>.
\<close>

definition mint_turn :: "host \<Rightarrow> 's token_store \<Rightarrow> string \<Rightarrow> ('s keeper, string option) eff" where
  "mint_turn host ts sid =
     andThen (draw host token_bytes) (\<lambda>b.
     let tok = b64_encode b; h = hash_token host tok in
     andThen (on_store (ts_get ts h)) (\<lambda>(_, dup).
     if dup then ret None
     else andThen (now_ms host) (\<lambda>n.
          andThen (on_store (ts_put ts h sid n)) (\<lambda>_. ret (Some tok)))))"

partial_function (option) mint_loop ::
  "host \<Rightarrow> 's token_store \<Rightarrow> string \<Rightarrow> 's keeper \<Rightarrow> ((err + string) \<times> 's keeper) option" where
  "mint_loop host ts sid k =
     (case mint_turn host ts sid k of
        (Inl e, k') \<Rightarrow> Some (Inl e, k')
      | (Inr (Some tok), k') \<Rightarrow> Some (Inr tok, k')
      | (Inr None, k') \<Rightarrow> mint_loop host ts sid k')"

definition mint :: "host \<Rightarrow> 's token_store \<Rightarrow> 's lease_checker \<Rightarrow> string \<Rightarrow> 's keeper \<Rightarrow>
    ((err + string) \<times> 's keeper) option" where
  "mint host ts chk sid k = mint_loop host ts sid (snd (prune_dead host ts chk k))"

definition resolve_token :: "host \<Rightarrow> 's token_store \<Rightarrow> string \<Rightarrow> ('s keeper, string option) eff" where
  "resolve_token host ts tok =
     andThen (attempt (on_store (ts_get ts (hash_token host tok)))) (\<lambda>x.
     ret (case x of Inl _ \<Rightarrow> None | Inr (sid, ok) \<Rightarrow> if ok then Some sid else None))"

section \<open>The handlers\<close>

text \<open>
  \<open>mint_token\<close> binds to the session of the connection; it reads no parameter. \<open>attach\<close> answers with
  the session that the connection is rebound to (\<open>RebindSession\<close>); on every error the connection
  keeps the session it had.
\<close>

definition mint_token_handler :: "host \<Rightarrow> 's token_store \<Rightarrow> 's lease_checker \<Rightarrow> string \<Rightarrow> 's keeper \<Rightarrow>
    ((rpc_error + json) \<times> 's keeper) option" where
  "mint_token_handler host ts chk session k =
     map_option (\<lambda>(r, k').
       (case r of
          Inl _ \<Rightarrow> Inl (new_error code_internal (Msg ''token minting failed''))
        | Inr tok \<Rightarrow> Inr (JObj [(''liveness_key'', JStr (b64_encode (liveness_key session))),
            (''token'', JStr tok)]), k'))
     (mint host ts chk session k)"

definition dead_or_unknown :: rpc_error where
  "dead_or_unknown = new_error code_authz (Msg ''session token refers to a dead/unknown session'')"

definition token_param :: "json option \<Rightarrow> rpc_error + string" where
  "token_param p =
     (case params_required p of
        Inl e \<Rightarrow> Inl e
      | Inr kvs \<Rightarrow> (case str_field ''token'' kvs of
          None \<Rightarrow> Inl invalid_params
        | Some tok \<Rightarrow>
            if tok = [] then Inl (new_error code_invalid_params (Msg ''token required'')) else Inr tok))"

definition attach_handler :: "host \<Rightarrow> 's token_store \<Rightarrow> 's lease_checker \<Rightarrow> json option \<Rightarrow>
    ('s keeper, string) handled" where
  "attach_handler host ts chk p =
     checked (token_param p) (\<lambda>tok k.
       case resolve_token host ts tok k of
         (Inr (Some sid), k1) \<Rightarrow>
           (case live_holder host chk (liveness_key sid) k1 of
              (Inl e, k2) \<Rightarrow> (Inl (new_error code_internal (Msg ''session liveness check failed'')), k2)
            | (Inr (holder, live), k2) \<Rightarrow>
                if \<not> live \<or> holder \<noteq> sid then (Inl dead_or_unknown, k2) else (Inr sid, k2))
       | (_, k1) \<Rightarrow> (Inl dead_or_unknown, k1))"

definition attach_result :: "string \<Rightarrow> json" where
  "attach_result sid = JObj [(''session'', JStr sid)]"

section \<open>The identity of a connection\<close>

text \<open>\<open>mintedAuth\<close>: a counter and twelve random bytes.\<close>

record auth =
  seq :: nat
  auth_draws :: nat

definition session_name :: "nat \<Rightarrow> string \<Rightarrow> string" where
  "session_name n b = ''s-'' @ itoa (int n) @ ''-'' @ hex_encode b"

definition authenticate :: "(nat \<Rightarrow> nat \<Rightarrow> string + string) \<Rightarrow> (auth, string) eff" where
  "authenticate rnd a =
     (let n = (seq a + 1) mod 2 ^ 64; a' = a\<lparr>seq := n, auth_draws := auth_draws a + 1\<rparr>
      in case rnd 12 (auth_draws a) of
           Inl m \<Rightarrow> (Inl (DbErr m), a')
         | Inr b \<Rightarrow> (Inr (session_name n b), a'))"

section \<open>The two tables\<close>

subsection \<open>The ledger\<close>

definition ledger_tokens :: "ledger token_store" where
  "ledger_tokens = \<lparr>ts_put = put_session_token, ts_get = get_session_token, ts_delete = delete_session_token,
     ts_list = andThen list_session_tokens (\<lambda>rows.
       ret (map (\<lambda>r. \<lparr>b_hash = t_hash r, b_session = t_session r, b_created = t_created r\<rparr>) rows))\<rparr>"

definition session_lease_reader :: "ledger lease_checker" where
  "session_lease_reader now key =
     andThen (inspect now key) (\<lambda>(info, _). ret (i_holder info, i_held info))"

subsection \<open>In memory\<close>

text \<open>
  \<open>memTokenStore\<close> beside the ledger: a map from hash to binding, here a list with one entry per hash
  (the order in which \<open>List\<close> walks the Go map is unspecified).
\<close>

type_synonym mem_host = "token_binding list \<times> ledger"

definition mem_put :: "string \<Rightarrow> string \<Rightarrow> int \<Rightarrow> (mem_host, unit) eff" where
  "mem_put h sid c m = (Inr (), (\<lparr>b_hash = h, b_session = sid, b_created = c\<rparr>
     # filter (\<lambda>b. b_hash b \<noteq> h) (fst m), snd m))"

definition mem_get :: "string \<Rightarrow> (mem_host, string \<times> bool) eff" where
  "mem_get h m = (Inr (case List.find (\<lambda>b. b_hash b = h) (fst m) of
     None \<Rightarrow> ([], False) | Some b \<Rightarrow> (b_session b, True)), m)"

definition mem_delete :: "string \<Rightarrow> (mem_host, unit) eff" where
  "mem_delete h m = (Inr (), (filter (\<lambda>b. b_hash b \<noteq> h) (fst m), snd m))"

definition mem_list :: "(mem_host, token_binding list) eff" where
  "mem_list m = (Inr (fst m), m)"

definition mem_tokens :: "mem_host token_store" where
  "mem_tokens = \<lparr>ts_put = mem_put, ts_get = mem_get, ts_delete = mem_delete, ts_list = mem_list\<rparr>"

definition mem_lease_reader :: "mem_host lease_checker" where
  "mem_lease_reader now key m = (case session_lease_reader now key (snd m) of (r, d) \<Rightarrow> (r, (fst m, d)))"

end
