(* ===== verification/Daemon.thy ===== *)
theory Daemon
  imports Session
begin

text \<open>
  The daemon (\<open>internal/daemon\<close>): the registry of methods, the dispatch of a request, the connection
  loop with its admission checks, and the built-in methods. A handler sees the session of its
  connection, the parameters and the state; it answers (with the session the connection has
  afterwards), panics, or does not return.
\<close>

section \<open>Handlers and the registry\<close>

datatype 's reply = Reply string "rpc_error + json" 's | Panics | Hangs

type_synonym 's handler = "string \<Rightarrow> json option \<Rightarrow> 's \<Rightarrow> 's reply"

definition plain :: "(string \<Rightarrow> json option \<Rightarrow> ('s, json) handled) \<Rightarrow> 's handler" where
  "plain h session p s = (case h session p s of (r, s') \<Rightarrow> Reply session r s')"

record 's registry =
  methods :: "(string \<times> 's handler) list"
  frozen :: bool

definition new_registry :: "'s registry" where
  "new_registry = \<lparr>methods = [], frozen = False\<rparr>"

definition register :: "string \<Rightarrow> 's handler \<Rightarrow> ('s registry, unit) eff" where
  "register m h r =
     (if frozen r then (Inl (Fmt ''registry frozen: cannot register %q'' [m]), r)
      else if map_of (methods r) m \<noteq> None then (Inl (Fmt ''duplicate method %q'' [m]), r)
      else (Inr (), r\<lparr>methods := (m, h) # methods r\<rparr>))"

definition not_implemented :: rpc_error where
  "not_implemented = new_error code_not_implemented (Msg ''not implemented'')"

definition register_stub :: "string \<Rightarrow> ('s registry, unit) eff" where
  "register_stub m = register m (\<lambda>session p s. Reply session (Inl not_implemented) s)"

definition lookup_method :: "'s registry \<Rightarrow> string \<Rightarrow> 's handler option" where
  "lookup_method r m = map_of (methods r) m"

definition freeze :: "'s registry \<Rightarrow> 's registry" where
  "freeze r = r\<lparr>frozen := True\<rparr>"

definition method_names :: "'s registry \<Rightarrow> string list" where
  "method_names r = sort (map fst (methods r))"

text \<open>The registration loop that every package runs: it stops at the first error.\<close>

fun register_all :: "(string \<times> 's handler) list \<Rightarrow> ('s registry, unit) eff" where
  "register_all [] = ret ()"
| "register_all ((m, h) # rest) = andThen (register m h) (\<lambda>_. register_all rest)"

section \<open>Dispatch\<close>

definition response_of :: "json option \<Rightarrow> rpc_error + json \<Rightarrow> response" where
  "response_of i b = \<lparr>r_jsonrpc = jsonrpc_version, r_v = contract_version, r_id = i, r_body = b\<rparr>"

definition err_response :: "json option \<Rightarrow> rpc_error \<Rightarrow> response" where
  "err_response i e = response_of i (Inl e)"

datatype 's dispatched = Response string response 's | Crash | Stuck

definition dispatch :: "'s registry \<Rightarrow> string \<Rightarrow> request \<Rightarrow> 's \<Rightarrow> 's dispatched" where
  "dispatch reg session q s =
     (case validate q of
        Some e \<Rightarrow> Response session (err_response (q_id q) e) s
      | None \<Rightarrow>
          (case lookup_method reg (q_method q) of
             None \<Rightarrow> Response session (err_response (q_id q)
               (new_error code_method_not_found (Msg (''method not found: '' @ q_method q)))) s
           | Some h \<Rightarrow>
               (case h session (q_params q) s of
                  Panics \<Rightarrow> Crash
                | Hangs \<Rightarrow> Stuck
                | Reply session' (Inl e) s' \<Rightarrow> Response session' (err_response (q_id q) e) s'
                | Reply session' (Inr j) s' \<Rightarrow> Response session' (response_of (q_id q) (Inr j)) s')))"

section \<open>A connection\<close>

text \<open>
  What the decoder yields (a request, or bytes that do not parse), each with whether the answer can be
  written. The end of the list is the end of the stream. The loop ends quietly there, after one error
  answer on a parse error, and at the first failed write.
\<close>

datatype message = Incoming request | Garbage

datatype 's ending = Ended 's | Crashed | Waiting

definition parse_error :: response where
  "parse_error = err_response None (new_error code_parse (Msg ''parse error''))"

fun serve :: "'s registry \<Rightarrow> string \<Rightarrow> (message \<times> bool) list \<Rightarrow> 's \<Rightarrow> response list \<times> 's ending" where
  "serve reg session [] s = ([], Ended s)"
| "serve reg session ((Garbage, w) # rest) s = (if w then [parse_error] else [], Ended s)"
| "serve reg session ((Incoming q, w) # rest) s =
     (case dispatch reg session q s of
        Crash \<Rightarrow> ([], Crashed)
      | Stuck \<Rightarrow> ([], Waiting)
      | Response session' a s' \<Rightarrow>
          if w then (case serve reg session' rest s' of (as, e) \<Rightarrow> (a # as, e)) else ([], Ended s'))"

text \<open>Admission: the uid of the peer if it can be read, then the authenticator.\<close>

definition peer_uid_mismatch :: "nat \<Rightarrow> bool \<Rightarrow> nat \<Rightarrow> bool" where
  "peer_uid_mismatch uid known daemon_uid \<longleftrightarrow> known \<and> uid \<noteq> daemon_uid"

definition peer_mismatch :: "nat option \<Rightarrow> nat \<Rightarrow> bool" where
  "peer_mismatch peer daemon_uid =
     (case peer of None \<Rightarrow> peer_uid_mismatch 0 False daemon_uid | Some u \<Rightarrow> peer_uid_mismatch u True daemon_uid)"

definition refusal :: "string \<Rightarrow> response" where
  "refusal m = err_response None (new_error code_authz (Msg m))"

definition handle_conn :: "'s registry \<Rightarrow> nat option \<Rightarrow> nat \<Rightarrow> ('a, string) eff \<Rightarrow> 'a \<Rightarrow>
    (message \<times> bool) list \<Rightarrow> 's \<Rightarrow> (response list \<times> 's ending) \<times> 'a" where
  "handle_conn reg peer daemon_uid auth a msgs s =
     (if peer_mismatch peer daemon_uid then (([refusal ''peer uid mismatch''], Ended s), a)
      else case auth a of
          (Inl e, a') \<Rightarrow> (([refusal ''authentication failed''], Ended s), a')
        | (Inr session, a') \<Rightarrow> (serve reg session msgs s, a'))"

section \<open>Built-in methods\<close>

text \<open>The audit seams: the sink, and the reader if one is installed.\<close>

record 's audit_seam =
  sink :: "audit_record \<Rightarrow> ('s, unit) eff"
  reader :: "(int \<Rightarrow> ('s, audit_record list) eff) option"

definition noop_seam :: "'s audit_seam" where
  "noop_seam = \<lparr>sink = \<lambda>_. ret (), reader = None\<rparr>"

definition health_handler :: "int \<Rightarrow> int \<Rightarrow> string \<Rightarrow> int \<Rightarrow> 's handler" where
  "health_handler pid uptime path conns session p s = Reply session (Inr (JObj
     [(''active_connections'', JInt conns), (''contract_version'', JInt contract_version), (''pid'', JInt pid),
      (''socket_path'', JStr path), (''uptime_seconds'', JInt uptime)])) s"

definition whoami_handler :: "'s handler" where
  "whoami_handler session p s = Reply session (Inr (JObj [(''session'', JStr session)])) s"

text \<open>A raw field keeps the last matching value, \<open>null\<close> included.\<close>

definition raw_field :: "string \<Rightarrow> (string \<times> json) list \<Rightarrow> payload" where
  "raw_field name kvs = foldl (\<lambda>acc (k, v). if same_key k name then PJson v else acc) PNone kvs"

definition audit_params :: "string \<Rightarrow> json option \<Rightarrow> rpc_error + (string \<times> json) list" where
  "audit_params m p =
     (case p of
        None \<Rightarrow> Inr []
      | Some j \<Rightarrow> (case obj_fields j of
          None \<Rightarrow> Inl (new_error code_invalid_params (Msg m)) | Some kvs \<Rightarrow> Inr kvs))"

definition audit_append_handler :: "'s audit_seam \<Rightarrow> int \<Rightarrow> 's handler" where
  "audit_append_handler seam now = plain (\<lambda>session p.
     checked (audit_params ''invalid audit params'' p) (\<lambda>kvs.
     case (str_field ''decision_project'' kvs, str_field ''decision_kind'' kvs) of
       (Some project, Some kind) \<Rightarrow>
         if project = [] \<or> kind = [] then
           (\<lambda>s. (Inl (new_error code_invalid_params (Msg ''decision_project and decision_kind required'')), s))
         else (\<lambda>s. case sink seam \<lparr>rec_time = now, rec_session = session, rec_project = project,
                 rec_kind = kind, rec_payload = raw_field ''payload'' kvs\<rparr> s of
               (Inl e, s') \<Rightarrow> (Inl (new_error code_internal (Msg ''audit append failed'')), s')
             | (Inr _, s') \<Rightarrow> (Inr (JObj [(''ok'', JBool True)]), s'))
     | _ \<Rightarrow> (\<lambda>s. (Inl (new_error code_invalid_params (Msg ''invalid audit params'')), s))))"

definition audit_tail_default_limit :: int where "audit_tail_default_limit = 100"
definition audit_tail_max_limit :: int where "audit_tail_max_limit = 500"

definition normalize_audit_limit :: "int \<Rightarrow> int" where
  "normalize_audit_limit limit =
     (if limit \<le> 0 then audit_tail_default_limit
      else if audit_tail_max_limit < limit then audit_tail_max_limit else limit)"

text \<open>
  Marshalling a record: its payload is emitted as raw JSON, and \<open>json.Marshal\<close> fails if it is not JSON;
  \<open>pr\<close> is the table of printable runes behind \<open>%q\<close>. \<open>mustJSON\<close> turns the failure into a panic.
\<close>

fun payload_json :: "(nat \<Rightarrow> bool) \<Rightarrow> payload \<Rightarrow> json option" where
  "payload_json pr PNone = Some JNull"
| "payload_json pr (PJson j) = Some j"
| "payload_json pr (PQuoted kvs) =
     (if list_all (\<lambda>(k, v). quoted_is_json pr v) kvs then Some (JObj (map (\<lambda>(k, v). (k, JStr v)) kvs))
      else None)"

definition audit_record_json :: "(nat \<Rightarrow> bool) \<Rightarrow> audit_record \<Rightarrow> json option" where
  "audit_record_json pr r = map_option (\<lambda>j. JObj
     [(''decision_kind'', JStr (rec_kind r)), (''decision_project'', JStr (rec_project r)), (''payload'', j),
      (''session'', JStr (rec_session r)), (''timestamp_ms'', JInt (rec_time r div ms))])
     (payload_json pr (rec_payload r))"

fun all_some :: "'a option list \<Rightarrow> 'a list option" where
  "all_some [] = Some []"
| "all_some (None # xs) = None"
| "all_some (Some x # xs) = map_option ((#) x) (all_some xs)"

definition records_json :: "(nat \<Rightarrow> bool) \<Rightarrow> audit_record list \<Rightarrow> json option" where
  "records_json pr rs = map_option (\<lambda>js. JObj [(''records'', JArr js)]) (all_some (map (audit_record_json pr) rs))"

definition audit_tail_handler :: "(nat \<Rightarrow> bool) \<Rightarrow> 's audit_seam \<Rightarrow> 's handler" where
  "audit_tail_handler pr seam session p s =
     (case audit_params ''invalid audit.tail params'' p of
        Inl e \<Rightarrow> Reply session (Inl e) s
      | Inr kvs \<Rightarrow>
          (case int_field ''limit'' kvs of
             None \<Rightarrow> Reply session (Inl (new_error code_invalid_params (Msg ''invalid audit.tail params''))) s
           | Some n \<Rightarrow>
               (case reader seam of
                  None \<Rightarrow> Reply session (Inr (JObj [(''records'', JArr [])])) s
                | Some tail \<Rightarrow>
                    (case tail (normalize_audit_limit n) s of
                       (Inl e, s') \<Rightarrow> Reply session (Inl (new_error code_internal (Msg ''audit tail failed''))) s'
                     | (Inr rs, s') \<Rightarrow>
                         (case records_json pr rs of None \<Rightarrow> Panics | Some j \<Rightarrow> Reply session (Inr j) s')))))"

definition builtins :: "(nat \<Rightarrow> bool) \<Rightarrow> 's audit_seam \<Rightarrow> int \<Rightarrow> int \<Rightarrow> int \<Rightarrow> string \<Rightarrow> int \<Rightarrow>
    (string \<times> 's handler) list" where
  "builtins pr seam now pid uptime path conns =
     [(''diag.health'', health_handler pid uptime path conns), (''session.whoami'', whoami_handler),
      (''audit.append'', audit_append_handler seam now), (''audit.tail'', audit_tail_handler pr seam)]"

text \<open>The session methods as handlers: \<open>attach\<close> alone changes the session of the connection.\<close>

definition attach_method :: "host \<Rightarrow> 's token_store \<Rightarrow> 's lease_checker \<Rightarrow> 's keeper handler" where
  "attach_method host ts chk session p k =
     (case attach_handler host ts chk p k of
        (Inl e, k') \<Rightarrow> Reply session (Inl e) k'
      | (Inr sid, k') \<Rightarrow> Reply sid (Inr (attach_result sid)) k')"

definition mint_method :: "host \<Rightarrow> 's token_store \<Rightarrow> 's lease_checker \<Rightarrow> 's keeper handler" where
  "mint_method host ts chk session p k =
     (case mint_token_handler host ts chk session k of
        None \<Rightarrow> Hangs
      | Some (r, k') \<Rightarrow> Reply session r k')"

definition session_methods :: "host \<Rightarrow> 's token_store \<Rightarrow> 's lease_checker \<Rightarrow> (string \<times> 's keeper handler) list" where
  "session_methods host ts chk =
     [(''session.mint_token'', mint_method host ts chk), (''session.attach'', attach_method host ts chk)]"

end
