(* ===== verification/SessionFacts.thy ===== *)
theory SessionFacts
  imports Session
begin

text \<open>
  What a token is worth: the laws of a token table and a lease reader as the locale \<open>session_host\<close>, the
  behaviour of minting, pruning and attaching proved inside it, its interpretations on the ledger and
  on the in-memory table, and the system of connections that share them.
\<close>

section \<open>The laws\<close>

definition calm :: "('s \<Rightarrow> 'b) \<Rightarrow> (int \<Rightarrow> string \<Rightarrow> string \<Rightarrow> 's \<Rightarrow> bool) \<Rightarrow> ('s \<Rightarrow> bool) \<Rightarrow> 's \<Rightarrow> 's \<Rightarrow> bool" where
  "calm bound holds ok s s' \<longleftrightarrow> (ok s \<longrightarrow> ok s') \<and> bound s' = bound s
     \<and> (\<forall>now k h. holds now k h s' = holds now k h s)"

lemma calm_order [simp]: "reflp (calm bound holds ok)" "transp (calm bound holds ok)"
  by (auto simp: calm_def reflp_def transp_def)

locale session_host =
  fixes ts :: "'s token_store"
    and chk :: "'s lease_checker"
    and bound :: "'s \<Rightarrow> string \<Rightarrow> (string \<times> int) option"
    and holds :: "int \<Rightarrow> string \<Rightarrow> string \<Rightarrow> 's \<Rightarrow> bool"
    and ok :: "'s \<Rightarrow> bool"
  assumes put_bound: "ok s \<Longrightarrow> ts_put ts h i c s = (r, s') \<Longrightarrow>
      bound s' = (case r of Inl _ \<Rightarrow> bound s | Inr _ \<Rightarrow> (bound s)(h \<mapsto> (i, c)))"
    and get_bound: "ok s \<Longrightarrow> ts_get ts h s = (Inr (i, b), s') \<Longrightarrow>
      (case bound s h of None \<Rightarrow> \<not> b | Some (x, _) \<Rightarrow> b \<and> i = x)"
    and delete_bound: "ok s \<Longrightarrow> ts_delete ts h s = (r, s') \<Longrightarrow>
      bound s' = (case r of Inl _ \<Rightarrow> bound s | Inr _ \<Rightarrow> (bound s)(h := None))"
    and list_bound: "ok s \<Longrightarrow> ts_list ts s = (Inr rows, s') \<Longrightarrow>
      tb \<in> set rows \<longleftrightarrow> bound s (b_hash tb) = Some (b_session tb, b_created tb)"
    and check_holds: "ok s \<Longrightarrow> chk now k s = (Inr (x, live), s') \<Longrightarrow>
      (live \<longleftrightarrow> (\<exists>y. holds now k y s)) \<and> (live \<longrightarrow> holds now k x s)"
    and holds_one: "holds now k x s \<Longrightarrow> holds now k y s \<Longrightarrow> x = y"
    and get_calm: "within (calm bound holds ok) (ts_get ts h)"
    and list_calm: "within (calm bound holds ok) (ts_list ts)"
    and check_calm: "within (calm bound holds ok) (chk now k)"
    and put_calm: "within (calm (\<lambda>_. ()) holds ok) (ts_put ts h i c)"
    and delete_calm: "within (calm (\<lambda>_. ()) holds ok) (ts_delete ts h)"

subsection \<open>Lifting to the keeper\<close>

definition on_keeper :: "('s \<Rightarrow> 's \<Rightarrow> bool) \<Rightarrow> 's keeper \<Rightarrow> 's keeper \<Rightarrow> bool" where
  "on_keeper R k k' \<longleftrightarrow> R (store k) (store k') \<and> ticks k \<le> ticks k' \<and> draws k \<le> draws k'"

lemma on_keeper_reflp [simp]: "reflp R \<Longrightarrow> reflp (on_keeper R)"
  by (simp add: reflp_def on_keeper_def)

lemma on_keeper_transp [simp]: "transp R \<Longrightarrow> transp (on_keeper R)"
  unfolding transp_def on_keeper_def by (meson order_trans)

lemma within_on_store [within_intros]: "within R m \<Longrightarrow> within (on_keeper R) (on_store m)"
  by (auto simp: within_def on_keeper_def on_store_def split: prod.split) (metis snd_conv)

lemma within_tick [within_intros]: "reflp R \<Longrightarrow> within (on_keeper R) (tick host)"
  by (simp add: within_def on_keeper_def tick_def reflpD)

lemma within_draw [within_intros]: "reflp R \<Longrightarrow> within (on_keeper R) (draw host n)"
  by (simp add: within_def on_keeper_def draw_def reflpD split: sum.split)

lemma within_now_ms [within_intros]:
  "reflp R \<Longrightarrow> transp R \<Longrightarrow> within (on_keeper R) (now_ms host)"
  unfolding now_ms_def by (intro within_intros) simp_all

lemma store_parts [simp]:
  "store (snd (tick host k)) = store k" "store (snd (now_ms host k)) = store k"
  "store (snd (draw host n k)) = store k" "store (snd (on_store m k)) = snd (m (store k))"
  by (simp_all add: tick_def now_ms_def draw_def on_store_def andThen_eq split: sum.split prod.split)

lemma on_store_fst [simp]: "fst (on_store m k) = fst (m (store k))"
  by (simp add: on_store_def split: prod.split)

lemma on_store_eq: "on_store m k = (r, k') \<longleftrightarrow> (\<exists>s. m (store k) = (r, s) \<and> k' = k\<lparr>store := s\<rparr>)"
  by (auto simp: on_store_def split: prod.splits)

lemma now_ms_eq: "now_ms host k = (Inr (clock host (ticks k) sdiv ms), k\<lparr>ticks := ticks k + 1\<rparr>)"
  by (simp add: now_ms_def tick_def andThen_eq)

lemma tick_eq: "tick host k = (Inr (clock host (ticks k)), k\<lparr>ticks := ticks k + 1\<rparr>)"
  by (simp add: tick_def)

lemma resolve_token_eq:
  "resolve_token host ts tok k = (Inr (case fst (ts_get ts (hash_token host tok) (store k)) of
      Inl _ \<Rightarrow> None | Inr (sid, b) \<Rightarrow> if b then Some sid else None),
    k\<lparr>store := snd (ts_get ts (hash_token host tok) (store k))\<rparr>)"
  by (simp add: resolve_token_def andThen_eq on_store_def split: prod.split)

lemma attach_within:
  assumes "reflp R" "transp R" and get: "\<And>h. within R (ts_get ts h)" and check: "\<And>now key. within R (chk now key)"
  shows "on_keeper R k (snd (attach_handler host ts chk p k))"
proof (cases "token_param p")
  case (Inl e)
  then show ?thesis using assms(1) by (simp add: attach_handler_def reflpD [OF on_keeper_reflp])
next
  case (Inr tok)
  obtain r k1 where r: "resolve_token host ts tok k = (r, k1)" by (cases "resolve_token host ts tok k")
  have g: "on_keeper R k k1"
    using withinD [OF get, of "store k" "hash_token host tok"] r
    by (auto simp: resolve_token_eq on_keeper_def)
  have "within (on_keeper R) (live_holder host chk key)" for key
    unfolding live_holder_def using assms by (intro within_intros) simp_all
  from withinD [OF this] have l: "on_keeper R k (snd (live_holder host chk key k1))" for key
    using transpD [OF on_keeper_transp [OF assms(2)] g] by blast
  have "snd (attach_handler host ts chk p k) \<in> insert k1 (range (\<lambda>sid. snd (live_holder host chk (liveness_key sid) k1)))"
    by (auto simp: attach_handler_def Inr r split: sum.split option.split prod.split)
      (metis rangeI snd_conv)+
  then show ?thesis using g l by auto
qed

section \<open>Minting and pruning\<close>

text \<open>A binding that a prune may not touch: young, or of a session that holds its liveness lease.\<close>

definition safe_binding ::
  "host \<Rightarrow> (int \<Rightarrow> string \<Rightarrow> string \<Rightarrow> 's \<Rightarrow> bool) \<Rightarrow> string \<Rightarrow> int \<Rightarrow> nat \<Rightarrow> nat \<Rightarrow> 's \<Rightarrow> bool" where
  "safe_binding host holds sid c lo hi s \<longleftrightarrow>
     (\<forall>m n. lo \<le> m \<and> m \<le> n \<and> n < hi \<longrightarrow>
        clock host m sdiv ms - prune_grace_ms < c \<or> holds (clock host n) (liveness_key sid) sid s)"

context session_host
begin

lemma calm_weaken: "within (calm bound holds ok) m \<Longrightarrow> within (calm (\<lambda>_. ()) holds ok) m"
  by (simp add: within_def calm_def)

lemma live_holder_calm: "within (on_keeper (calm bound holds ok)) (live_holder host chk key)"
  unfolding live_holder_def by (intro within_intros check_calm) simp_all

lemma prune_row_calm: "within (on_keeper (calm (\<lambda>_. ()) holds ok)) (prune_row host ts chk r)"
  unfolding prune_row_def live_holder_def
  by (intro within_intros calm_weaken [OF check_calm] | simp | auto split: sum.split prod.split
      intro!: within_intros delete_calm)+

lemma prune_rows_calm: "within (on_keeper (calm (\<lambda>_. ()) holds ok)) (prune_rows host ts chk cutoff rs)"
  by (induction rs) (auto intro!: within_intros prune_row_calm)

lemma prune_dead_calm: "within (on_keeper (calm (\<lambda>_. ()) holds ok)) (prune_dead host ts chk)"
  unfolding prune_dead_def
  by (intro within_intros calm_weaken [OF list_calm] | simp | auto split: sum.split
      intro!: within_intros prune_rows_calm)+

lemma prune_row_bound:
  assumes "ok (store k)" and "prune_row host ts chk r k = (x, k')"
  shows "bound (store k') = bound (store k) \<or>
    bound (store k') = (bound (store k))(b_hash r := None)
      \<and> \<not> holds (clock host (ticks k)) (liveness_key (b_session r)) (b_session r) (store k)"
proof -
  let ?key = "liveness_key (b_session r)" and ?now = "clock host (ticks k)"
  obtain y s1 where c: "chk ?now ?key (store k) = (y, s1)" by (cases "chk ?now ?key (store k)")
  have lh: "live_holder host chk ?key k = (y, k\<lparr>ticks := ticks k + 1, store := s1\<rparr>)"
    by (simp add: live_holder_def tick_def on_store_def c andThen_eq)
  have calm1: "calm bound holds ok (store k) s1"
    using withinD_eq [OF check_calm c] .
  show ?thesis
  proof (cases "\<exists>holder live. y = Inr (holder, live) \<and> (\<not> live \<or> holder \<noteq> b_session r)")
    case False
    then have "store k' = s1"
      using assms(2) lh by (auto simp: prune_row_def andThen_eq split: sum.splits prod.splits if_splits)
    then show ?thesis using calm1 by (simp add: calm_def)
  next
    case True
    then obtain holder live where y: "y = Inr (holder, live)" "\<not> live \<or> holder \<noteq> b_session r" by blast
    obtain z s2 where d: "ts_delete ts (b_hash r) s1 = (z, s2)" by (cases "ts_delete ts (b_hash r) s1")
    have "store k' = s2"
      using assms(2) lh y d by (auto simp: prune_row_def andThen_eq on_store_def split: if_splits)
    moreover have "bound s2 = (case z of Inl _ \<Rightarrow> bound s1 | Inr _ \<Rightarrow> (bound s1)(b_hash r := None))"
      using calm1 assms(1) by (intro delete_bound [OF _ d]) (simp add: calm_def)
    moreover have "\<not> holds ?now ?key (b_session r) (store k)"
      using check_holds [OF assms(1), of ?now ?key holder live s1] c y holds_one by blast
    ultimately show ?thesis using calm1 by (cases z) (auto simp: calm_def)
  qed
qed

lemma prune_row_ticks: "ticks (snd (prune_row host ts chk r k)) = ticks k + 1"
proof -
  have "ticks (snd (on_store m x)) = ticks x" for m :: "('s, 'a) eff" and x
    by (simp add: on_store_def split: prod.split)
  then show ?thesis
    by (simp add: prune_row_def live_holder_def tick_def andThen_eq on_store_def split: sum.split prod.split)
qed

definition listed :: "token_binding list \<Rightarrow> 's \<Rightarrow> bool" where
  "listed rs s \<longleftrightarrow> (\<forall>r \<in> set rs. bound s (b_hash r) \<in> {Some (b_session r, b_created r), None})"

lemma prune_rows_bound:
  assumes "ok (store k)" and "prune_rows host ts chk cutoff rs k = (x, k')" and "listed rs (store k)"
  shows "bound (store k') \<subseteq>\<^sub>m bound (store k) \<and>
    (bound (store k) h = Some (sid, c) \<and> (\<forall>n. ticks k \<le> n \<and> n < ticks k' \<longrightarrow>
        cutoff < c \<or> holds (clock host n) (liveness_key sid) sid (store k))
     \<longrightarrow> bound (store k') h = Some (sid, c))"
  using assms
proof (induction rs arbitrary: k)
  case Nil
  then show ?case by simp
next
  case (Cons r rs)
  show ?case
  proof (cases "cutoff < b_created r")
    case True
    with Cons show ?thesis by (simp add: listed_def)
  next
    case False
    obtain y k1 where r: "prune_row host ts chk r k = (y, k1)" by (cases "prune_row host ts chk r k")
    have y: "y = Inr ()"
      using r by (auto simp: prune_row_def andThen_eq split: sum.splits prod.splits if_splits)
    have c1: "on_keeper (calm (\<lambda>_. ()) holds ok) k k1"
      using withinD_eq [OF prune_row_calm r] .
    have t1: "ticks k1 = ticks k + 1" using prune_row_ticks [of host r k] by (simp add: r)
    have rest: "prune_rows host ts chk cutoff rs k1 = (x, k')"
      using Cons.prems(2) False r y by (simp add: andThen_eq)
    have t2: "ticks k1 \<le> ticks k'"
      using withinD_eq [OF prune_rows_calm rest] by (simp add: on_keeper_def)
    have one: "bound (store k1) = bound (store k) \<or>
      bound (store k1) = (bound (store k))(b_hash r := None)
      \<and> \<not> holds (clock host (ticks k)) (liveness_key (b_session r)) (b_session r) (store k)"
      using prune_row_bound [OF Cons.prems(1) r] .
    have sub: "bound (store k1) \<subseteq>\<^sub>m bound (store k)"
      using one by (auto simp: map_le_def split: if_splits)
    have "listed rs (store k1)"
      using Cons.prems(3) one by (auto simp: listed_def split: if_splits)
    then have ih: "bound (store k') \<subseteq>\<^sub>m bound (store k1) \<and>
        (bound (store k1) h = Some (sid, c) \<and> (\<forall>n. ticks k1 \<le> n \<and> n < ticks k' \<longrightarrow>
        cutoff < c \<or> holds (clock host n) (liveness_key sid) sid (store k1)) \<longrightarrow> bound (store k') h = Some (sid, c))"
      using Cons.prems(1) c1 by (intro Cons.IH [OF _ rest]) (simp add: on_keeper_def calm_def)
    have "bound (store k') h = Some (sid, c)"
      if b: "bound (store k) h = Some (sid, c)"
        and s: "\<forall>n. ticks k \<le> n \<and> n < ticks k' \<longrightarrow>
          cutoff < c \<or> holds (clock host n) (liveness_key sid) sid (store k)"
    proof -
      have "cutoff < c \<or> holds (clock host (ticks k)) (liveness_key sid) sid (store k)"
        using s t1 t2 by simp
      then have "bound (store k1) h = Some (sid, c)"
        using one b False Cons.prems(3) by (auto simp: listed_def)
      with ih s t1 c1 show ?thesis by (auto simp: on_keeper_def calm_def)
    qed
    with ih sub show ?thesis by (blast intro: map_le_trans)
  qed
qed

lemma prune_dead_bound:
  assumes "ok (store k)" and "prune_dead host ts chk k = (x, k')"
  shows "bound (store k') \<subseteq>\<^sub>m bound (store k) \<and>
    (bound (store k) h = Some (sid, c) \<and> safe_binding host holds sid c (ticks k) (ticks k') (store k)
     \<longrightarrow> bound (store k') h = Some (sid, c))"
proof -
  obtain y s1 where l: "ts_list ts (store k) = (y, s1)" by (cases "ts_list ts (store k)")
  have c1: "calm bound holds ok (store k) s1" using withinD_eq [OF list_calm l] .
  show ?thesis
  proof (cases y)
    case (Inl e)
    then have "store k' = s1" using assms(2) l by (auto simp: prune_dead_def andThen_eq on_store_def)
    then show ?thesis using c1 by (simp add: calm_def)
  next
    case (Inr rows)
    define k1 where "k1 = k\<lparr>store := s1, ticks := ticks k + 1\<rparr>"
    define cutoff where "cutoff = clock host (ticks k) sdiv ms - prune_grace_ms"
    have p: "prune_rows host ts chk cutoff rows k1 = (x, k')"
      using assms(2) l Inr by (simp add: prune_dead_def andThen_eq on_store_def now_ms_eq k1_def cutoff_def)
    have "listed rows (store k1)"
      using list_bound [OF assms(1) l [unfolded Inr]] c1 by (auto simp: listed_def k1_def calm_def)
    then have b: "bound (store k') \<subseteq>\<^sub>m bound (store k1) \<and>
      (bound (store k1) h = Some (sid, c) \<and> (\<forall>n. ticks k1 \<le> n \<and> n < ticks k' \<longrightarrow>
        cutoff < c \<or> holds (clock host n) (liveness_key sid) sid (store k1))
       \<longrightarrow> bound (store k') h = Some (sid, c))"
      using assms(1) c1 by (intro prune_rows_bound [OF _ p]) (simp add: calm_def k1_def)
    have s: "store k1 = s1" "ticks k1 = ticks k + 1" by (simp_all add: k1_def)
    have t: "ticks k1 \<le> ticks k'"
      using withinD_eq [OF prune_rows_calm p] by (simp add: on_keeper_def)
    have "cutoff < c \<or> holds (clock host n) (liveness_key sid) sid (store k1)"
      if "safe_binding host holds sid c (ticks k) (ticks k') (store k)" "ticks k1 \<le> n" "n < ticks k'" for n
      using that(1) [unfolded safe_binding_def, rule_format, of "ticks k" n] that(2,3) c1
      by (simp add: cutoff_def s calm_def)
    then show ?thesis using b c1 by (auto simp: calm_def s)
  qed
qed

lemma mint_turn_calm: "within (on_keeper (calm (\<lambda>_. ()) holds ok)) (mint_turn host ts sid)"
  unfolding mint_turn_def Let_def
  by (auto intro!: within_intros calm_weaken [OF get_calm] put_calm)

lemma mint_turn_cases:
  assumes "ok (store k)" and "mint_turn host ts sid k = (r, k')"
  shows "case r of
      Inl e \<Rightarrow> bound (store k') = bound (store k)
    | Inr None \<Rightarrow> bound (store k') = bound (store k) \<and> draws k' = draws k + 1
        \<and> (\<exists>b. random host token_bytes (draws k) = Inr b \<and> bound (store k) (hash_token host (b64_encode b)) \<noteq> None)
    | Inr (Some tok) \<Rightarrow> (\<exists>b n. random host token_bytes (draws k) = Inr b \<and> tok = b64_encode b
        \<and> n < ticks k' \<and> ticks k \<le> n \<and> bound (store k) (hash_token host tok) = None
        \<and> bound (store k') = (bound (store k))(hash_token host tok \<mapsto> (sid, clock host n sdiv ms)))"
proof (cases "random host token_bytes (draws k)")
  case (Inl m)
  then show ?thesis using assms(2) by (auto simp: mint_turn_def andThen_eq draw_def)
next
  case (Inr b)
  define h where "h = hash_token host (b64_encode b)"
  obtain g s1 where g: "ts_get ts h (store k) = (g, s1)" by (cases "ts_get ts h (store k)")
  have c1: "calm bound holds ok (store k) s1" using withinD_eq [OF get_calm g] .
  have ok1: "ok s1" using c1 assms(1) by (simp add: calm_def)
  note run = assms(2) [unfolded mint_turn_def andThen_eq draw_def] Inr g h_def [symmetric]
  show ?thesis
  proof (cases g)
    case (Inl e)
    then show ?thesis using run c1 by (auto simp: andThen_eq on_store_def Let_def calm_def)
  next
    case g_ok: (Inr y)
    obtain i dup where y: "y = (i, dup)" by (cases y)
    have gb: "case bound (store k) h of None \<Rightarrow> \<not> dup | Some (x, _) \<Rightarrow> dup \<and> i = x"
      using get_bound [OF assms(1), of h i dup s1] g g_ok y by simp
    show ?thesis
    proof (cases dup)
      case True
      then show ?thesis
        using run g_ok y gb c1 by (auto simp: andThen_eq on_store_def Let_def calm_def split: option.splits)
    next
      case False
      obtain q s2 where q: "ts_put ts h sid (clock host (ticks k) sdiv ms) s1 = (q, s2)"
        by (cases "ts_put ts h sid (clock host (ticks k) sdiv ms) s1")
      from run g_ok y False q put_bound [OF ok1 q] gb c1 show ?thesis
        by (cases q) (auto simp: andThen_eq on_store_def Let_def calm_def now_ms_eq split: option.splits)
    qed
  qed
qed

definition minted :: "host \<Rightarrow> string \<Rightarrow> 's keeper \<Rightarrow> err + string \<Rightarrow> 's keeper \<Rightarrow> bool" where
  "minted host sid k r k' \<longleftrightarrow> on_keeper (calm (\<lambda>_. ()) holds ok) k k' \<and>
     (case r of
        Inl e \<Rightarrow> bound (store k') = bound (store k)
      | Inr tok \<Rightarrow> (\<exists>i b n. draws k \<le> i \<and> random host token_bytes i = Inr b \<and> tok = b64_encode b
          \<and> ticks k \<le> n \<and> n < ticks k' \<and> bound (store k) (hash_token host tok) = None
          \<and> bound (store k') = (bound (store k))(hash_token host tok \<mapsto> (sid, clock host n sdiv ms))))"

lemma mint_loop_minted:
  assumes ret: "mint_loop host ts sid k = Some y" and okk: "ok (store k)"
  shows "minted host sid k (fst y) (snd y)"
proof -
  let ?P = "\<lambda>host ts' sid k y. ts' = ts \<and> ok (store k) \<longrightarrow> minted host sid k (fst y) (snd y)"
  have "?P host ts sid k y"
  proof (rule mint_loop.raw_induct [where P = ?P, OF _ ret], intro impI, elim conjE)
    fix f host ts' sid k y
    assume ih: "\<And>host ts' sid k y. f host ts' sid k = Some y \<Longrightarrow> ?P host ts' sid k y"
      and body: "(case mint_turn host ts' sid k of (Inl e, k') \<Rightarrow> Some (Inl e, k')
          | (Inr None, k') \<Rightarrow> f host ts' sid k' | (Inr (Some tok), k') \<Rightarrow> Some (Inr tok, k')) = Some y"
      and ts: "ts' = ts" and okk: "ok (store k)"
    obtain x k1 where turn: "mint_turn host ts sid k = (x, k1)" by (cases "mint_turn host ts sid k")
    note c = withinD_eq [OF mint_turn_calm turn] and m = mint_turn_cases [OF okk turn]
    show "minted host sid k (fst y) (snd y)"
    proof (cases "x = Inr None")
      case True
      then have "f host ts sid k1 = Some y" using body turn ts by simp
      then have mk: "minted host sid k1 (fst y) (snd y)"
        using ih [of host ts sid k1 y] c okk by (simp add: on_keeper_def calm_def)
      have same: "bound (store k1) = bound (store k)" "draws k \<le> draws k1" "ticks k \<le> ticks k1"
        using m c True by (auto simp: on_keeper_def)
      have "on_keeper (calm (\<lambda>_. ()) holds ok) k (snd y)"
        using mk c transpD [OF on_keeper_transp [OF calm_order(2)]] by (auto simp: minted_def)
      then show ?thesis
        using mk same unfolding minted_def by (auto split: sum.splits) (blast intro: order_trans)+
    next
      case False
      then have "y = (case x of Inl e \<Rightarrow> (Inl e, k1) | Inr (Some tok) \<Rightarrow> (Inr tok, k1))"
        using body turn ts by (auto split: sum.splits option.splits)
      then show ?thesis
        using m c False by (auto simp: minted_def split: sum.splits option.splits)
    qed
  qed
  with okk show ?thesis by simp
qed

lemma mint_minted:
  assumes "mint host ts chk sid k = Some (r, k')" and "ok (store k)"
  obtains k1 where "prune_dead host ts chk k = (Inr (), k1)" and "minted host sid k1 r k'" and "ok (store k1)"
proof -
  obtain x k1 where p: "prune_dead host ts chk k = (x, k1)" by (cases "prune_dead host ts chk k")
  have "ok (store k1)"
    using withinD_eq [OF prune_dead_calm p] assms(2) by (simp add: on_keeper_def calm_def)
  moreover have "x = Inr ()"
  proof -
    have "fst (prune_rows host ts chk cutoff rs k) = Inr ()" for cutoff rs and k
      by (induction rs arbitrary: k)
        (auto simp: prune_row_def andThen_eq split: sum.split prod.split)
    then show ?thesis
      using arg_cong [OF p, of fst] by (auto simp: prune_dead_def andThen_eq now_ms_eq split: sum.splits)
  qed
  ultimately show thesis
    using assms(1) p mint_loop_minted [of host sid k1 "(r, k')"] that by (simp add: mint_def)
qed

text \<open>The loop ends as soon as a draw fails or yields a token whose hash is free.\<close>

lemma mint_loop_returns:
  assumes "ok (store k)" and "draws k \<le> i"
    and "\<forall>b. random host token_bytes i = Inr b \<longrightarrow> bound (store k) (hash_token host (b64_encode b)) = None"
  shows "\<exists>r k'. mint_loop host ts sid k = Some (r, k')"
  using assms
proof (induction "i - draws k" arbitrary: k rule: less_induct)
  case less
  obtain x k1 where t: "mint_turn host ts sid k = (x, k1)" by (cases "mint_turn host ts sid k")
  note c = withinD_eq [OF mint_turn_calm t] and m = mint_turn_cases [OF less.prems(1) t]
  show ?case
  proof (cases "x = Inr None")
    case True
    then have k1: "bound (store k1) = bound (store k)" "draws k1 = draws k + 1" and "draws k \<noteq> i"
      using m less.prems(3) by auto
    then have "\<exists>r k'. mint_loop host ts sid k1 = Some (r, k')"
      using less.prems c by (intro less.hyps) (auto simp: on_keeper_def calm_def)
    with True t show ?thesis by (subst mint_loop.simps) simp
  next
    case False
    with t show ?thesis by (subst mint_loop.simps) (auto split: sum.split option.split)
  qed
qed

subsection \<open>Attaching\<close>

lemma attach_store_calm: "on_keeper (calm bound holds ok) k (snd (attach_handler host ts chk p k))"
  by (rule attach_within) (simp_all add: get_calm check_calm)

lemma attach_rebinds:
  assumes "ok (store k)" and "attach_handler host ts chk p k = (Inr sid, k')"
  obtains tok c where "token_param p = Inr tok" and "bound (store k) (hash_token host tok) = Some (sid, c)"
    and "holds (clock host (ticks k)) (liveness_key sid) sid (store k)"
proof -
  obtain tok where tok: "token_param p = Inr tok"
    using assms(2) by (cases "token_param p") (auto simp: attach_handler_def)
  define h where "h = hash_token host tok"
  obtain g s1 where g: "ts_get ts h (store k) = (g, s1)" by (cases "ts_get ts h (store k)")
  obtain x where x: "g = Inr (sid, True)"
      and lh: "live_holder host chk (liveness_key sid) (k\<lparr>store := s1\<rparr>) = (Inr (sid, True), k')"
    using assms(2) tok g
    by (auto simp: attach_handler_def resolve_token_eq h_def split: sum.splits prod.splits if_splits option.splits)
  have c1: "calm bound holds ok (store k) s1" using withinD_eq [OF get_calm g] .
  have "bound (store k) h = Some (sid, c)" if "bound (store k) h = Some (sid', c)" for sid' c
    using get_bound [OF assms(1), of h sid True s1] g x that by simp
  moreover have "bound (store k) h \<noteq> None"
    using get_bound [OF assms(1), of h sid True s1] g x by (auto split: option.splits)
  ultimately obtain c where "bound (store k) h = Some (sid, c)" by fastforce
  moreover obtain s2 where "chk (clock host (ticks k)) (liveness_key sid) s1 = (Inr (sid, True), s2)"
    using lh by (auto simp: live_holder_def andThen_eq tick_eq on_store_eq)
  then have "holds (clock host (ticks k)) (liveness_key sid) sid s1"
    using check_holds [of s1 "clock host (ticks k)" "liveness_key sid" sid True s2] c1 assms(1)
    by (simp add: calm_def)
  ultimately show thesis
    using that tok c1 by (auto simp: h_def calm_def)
qed

lemma attach_succeeds:
  assumes "ok (store k)" and "token_param p = Inr tok" and "bound (store k) (hash_token host tok) = Some (sid, c)"
    and "holds (clock host (ticks k)) (liveness_key sid) sid (store k)"
    and "ts_get ts (hash_token host tok) (store k) = (Inr g, s1)"
    and "chk (clock host (ticks k)) (liveness_key sid) s1 = (Inr x, s2)"
  shows "fst (attach_handler host ts chk p k) = Inr sid"
proof -
  obtain i b where g: "g = (i, b)" by (cases g)
  obtain holder live where x: "x = (holder, live)" by (cases x)
  have c1: "calm bound holds ok (store k) s1" using withinD_eq [OF get_calm assms(5)] .
  have gb: "b \<and> i = sid" using get_bound [OF assms(1) assms(5) [unfolded g]] assms(3) by simp
  have "live \<and> holder = sid"
    using check_holds [OF _ assms(6) [unfolded x]] c1 assms(1,4) holds_one by (auto simp: calm_def)
  then have "live_holder host chk (liveness_key sid) (k\<lparr>store := s1\<rparr>)
      = (Inr (sid, True), k\<lparr>store := s2, ticks := ticks k + 1\<rparr>)"
    using assms(6) x by (simp add: live_holder_def andThen_eq tick_eq on_store_eq)
  with gb g assms(2,5) show ?thesis
    by (simp add: attach_handler_def resolve_token_eq)
qed

end
section \<open>The ledger and the in-memory table provide them\<close>

definition ledger_bound :: "ledger \<Rightarrow> string \<Rightarrow> (string \<times> int) option" where
  "ledger_bound d h = map_option (\<lambda>r. (t_session r, t_created r)) (List.find (\<lambda>r. t_hash r = h) (tokens (tabs d)))"

lemma find_upsert_token:
  "map_option (\<lambda>r. (t_session r, t_created r)) (List.find (\<lambda>r. t_hash r = h')
     (snd (upsert (\<lambda>r. t_hash r = h) \<lparr>t_hash = h, t_session = i, t_created = c\<rparr> (\<lambda>_. True)
        (\<lambda>r. r\<lparr>t_session := i, t_created := c\<rparr>) rs)))
   = ((\<lambda>h. map_option (\<lambda>r. (t_session r, t_created r)) (List.find (\<lambda>r. t_hash r = h) rs))(h \<mapsto> (i, c))) h'"
proof (cases "List.find (\<lambda>r. t_hash r = h) rs")
  case None
  then show ?thesis by (auto simp: upsert_def find_append split: option.split)
next
  case (Some r0)
  have "List.find (\<lambda>r. t_hash r = h') (map (\<lambda>r. if t_hash r = h then r\<lparr>t_session := i, t_created := c\<rparr> else r) rs)
    = map_option (\<lambda>r. if t_hash r = h then r\<lparr>t_session := i, t_created := c\<rparr> else r)
        (List.find (\<lambda>r. t_hash r = h') rs)"
    by (rule find_map_same) simp
  then show ?thesis using Some
    by (cases "List.find (\<lambda>r. t_hash r = h') rs") (auto simp: upsert_def upd_where_def dest: find_SomeD)
qed

lemma find_del_token:
  "List.find (\<lambda>r. t_hash r = h') (filter (\<lambda>r. t_hash r \<noteq> h) rs)
    = (if h' = h then None else List.find (\<lambda>r. t_hash r = h') rs)"
  by (induction rs) auto

lemma ledger_find_list:
  "ledger_ok d \<Longrightarrow>
     \<lparr>b_hash = h, b_session = i, b_created = c\<rparr> \<in> (\<lambda>r. \<lparr>b_hash = t_hash r, b_session = t_session r, b_created = t_created r\<rparr>)
       ` set (tokens (tabs d)) \<longleftrightarrow> ledger_bound d h = Some (i, c)"
  unfolding ledger_bound_def ledger_ok_def ledger_wf_def
  by (auto simp: find_distinct [of t_hash "tokens (tabs d)"] image_iff)

lemma session_lease_reader_Inr:
  "session_lease_reader now k d = (Inr (x, live), d') \<Longrightarrow>
     live = (\<exists>y. ledger_holds now k y d) \<and> (live \<longrightarrow> ledger_holds now k x d)"
  by (auto simp: session_lease_reader_def andThen_Inr ledger_holds_def held_by_def info_now_def info_of_def
      absent_info_def dest!: inspect_Inr split: option.splits)

lemma calm_same_tabs: "tabs d' = tabs d \<Longrightarrow> calm ledger_bound ledger_holds ledger_ok d d'"
  by (simp add: calm_def ledger_bound_def ledger_holds_def ledger_ok_def fun_eq_iff)

lemma within_tabs:
  "(\<And>d. tabs (snd (m d)) = tabs d) \<Longrightarrow> within (calm ledger_bound ledger_holds ledger_ok) m"
  by (simp add: within_def calm_same_tabs)

lemma calm_tokens:
  assumes "\<And>t. distinct (map t_hash t) \<Longrightarrow> distinct (map t_hash (snd (f t)))"
  shows "within (calm (\<lambda>_. ()) ledger_holds ledger_ok) (andThen (sql (on_tokens f)) (\<lambda>_. ret ()))"
proof (rule withinI)
  fix d :: ledger
  have t: "tabs (snd (andThen (sql (on_tokens f)) (\<lambda>_. ret ()) d)) \<in> {tabs d, snd (on_tokens f (tabs d))}"
    using sql_tabs_cases [of "on_tokens f" d] by (auto simp: andThen_eq split: sum.split)
  have "ledger_wf (tabs d) \<Longrightarrow> ledger_wf (snd (on_tokens f (tabs d)))"
    using keeps_wf_tokens [of "tabs d" f] assms by (simp add: keeps_wf_def preserves_def)
  with t show "calm (\<lambda>_. ()) ledger_holds ledger_ok d (snd (andThen (sql (on_tokens f)) (\<lambda>_. ret ()) d))"
    by (auto simp: calm_def ledger_holds_def held_by_def ledger_ok_def)
qed
lemma ledger_tokens_sel [simp]:
  "ts_put ledger_tokens = put_session_token" "ts_get ledger_tokens = get_session_token"
  "ts_delete ledger_tokens = delete_session_token"
  by (simp_all add: ledger_tokens_def)

lemma same_tabs_ops [simp]:
  "tabs (snd (get_session_token h d)) = tabs d"
  "tabs (snd (ts_list ledger_tokens d)) = tabs d"
  "tabs (snd (session_lease_reader now k d)) = tabs d"
  by (simp_all add: get_session_token_def ledger_tokens_def list_session_tokens_def
      session_lease_reader_def andThen_eq split: sum.split prod.split)

lemma put_ledger_bound:
  assumes "put_session_token h i c d = (r, d')"
  shows "ledger_bound d' = (case r of Inl _ \<Rightarrow> ledger_bound d | Inr _ \<Rightarrow> (ledger_bound d)(h \<mapsto> (i, c)))"
proof (cases r)
  case (Inl e)
  then have "tabs d' = tabs d"
    using assms by (auto simp: put_session_token_def andThen_Inl dest: sql_Inl)
  with Inl show ?thesis by (simp add: ledger_bound_def fun_eq_iff)
next
  case (Inr u)
  then have "tabs d' = snd (put_stmt h i c (tabs d))"
    using assms by (auto simp: put_session_token_def andThen_Inr dest!: sql_Inr)
  then have "tokens (tabs d') = snd (upsert (\<lambda>r. t_hash r = h) \<lparr>t_hash = h, t_session = i, t_created = c\<rparr>
      (\<lambda>_. True) (\<lambda>r. r\<lparr>t_session := i, t_created := c\<rparr>) (tokens (tabs d)))"
    by (simp add: put_stmt_def)
  with Inr show ?thesis
    by (simp only: ledger_bound_def [abs_def] find_upsert_token sum.case)
qed

lemma delete_ledger_bound:
  "delete_session_token h d = (r, d') \<Longrightarrow>
     ledger_bound d' = (case r of Inl _ \<Rightarrow> ledger_bound d | Inr _ \<Rightarrow> (ledger_bound d)(h := None))"
  by (auto simp: delete_session_token_def andThen_def ledger_bound_def delete_stmt_def fun_eq_iff
      del_where_def find_del_token dest!: sql_Inr sql_Inl split: prod.splits sum.splits)

interpretation ledger_sessions:
  session_host ledger_tokens session_lease_reader ledger_bound ledger_holds ledger_ok
proof unfold_locales
  show "ledger_bound d' = (case r of Inl _ \<Rightarrow> ledger_bound d | Inr _ \<Rightarrow> (ledger_bound d)(h \<mapsto> (i, c)))"
    if "ts_put ledger_tokens h i c d = (r, d')" for d h i c r d'
    using that by (simp add: put_ledger_bound)
  show "case ledger_bound d h of None \<Rightarrow> \<not> b | Some (x, _) \<Rightarrow> b \<and> i = x"
    if "ts_get ledger_tokens h d = (Inr (i, b), d')" for d h i b d'
    using that
    by (auto simp: get_session_token_def andThen_Inr ledger_bound_def dest!: reading_Inr split: option.splits)
  show "ledger_bound d' = (case r of Inl _ \<Rightarrow> ledger_bound d | Inr _ \<Rightarrow> (ledger_bound d)(h := None))"
    if "ts_delete ledger_tokens h d = (r, d')" for d h r d'
    using that by (simp add: delete_ledger_bound)
  show "tb \<in> set rows \<longleftrightarrow> ledger_bound d (b_hash tb) = Some (b_session tb, b_created tb)"
    if "ledger_ok d" "ts_list ledger_tokens d = (Inr rows, d')" for d rows d' tb
    using that ledger_find_list [of d "b_hash tb" "b_session tb" "b_created tb"]
    by (cases tb) (auto simp: ledger_tokens_def andThen_Inr list_session_tokens_def dest!: reading_Inr)
  show "live = (\<exists>y. ledger_holds now k y d) \<and> (live \<longrightarrow> ledger_holds now k x d)"
    if "session_lease_reader now k d = (Inr (x, live), d')" for d now k x live d'
    using that by (rule session_lease_reader_Inr)
  show "x = y" if "ledger_holds now k x d" "ledger_holds now k y d" for now k x d y
    using that held_by_unique by (simp add: ledger_holds_def)
  show "within (calm (\<lambda>_. ()) ledger_holds ledger_ok) (ts_put ledger_tokens h i c)" for h i c
    unfolding ledger_tokens_sel put_session_token_def put_stmt_def
    by (rule calm_tokens) (auto intro: upsert_keys)
  show "within (calm (\<lambda>_. ()) ledger_holds ledger_ok) (ts_delete ledger_tokens h)" for h
    unfolding ledger_tokens_sel delete_session_token_def delete_stmt_def
    by (rule calm_tokens) (rule del_keys)
qed (simp_all add: within_tabs)

text \<open>The in-memory table has one entry per hash.\<close>

definition mem_bound :: "mem_host \<Rightarrow> string \<Rightarrow> (string \<times> int) option" where
  "mem_bound m h = map_option (\<lambda>b. (b_session b, b_created b)) (List.find (\<lambda>b. b_hash b = h) (fst m))"

definition mem_holds :: "int \<Rightarrow> string \<Rightarrow> string \<Rightarrow> mem_host \<Rightarrow> bool" where
  "mem_holds now k h m = ledger_holds now k h (snd m)"

definition mem_ok :: "mem_host \<Rightarrow> bool" where
  "mem_ok m \<longleftrightarrow> distinct (map b_hash (fst m)) \<and> ledger_ok (snd m)"

lemma mem_find_drop:
  "List.find (\<lambda>b. b_hash b = h') (filter (\<lambda>b. b_hash b \<noteq> h) bs)
    = (if h' = h then None else List.find (\<lambda>b. b_hash b = h') bs)"
  by (induction bs) auto

lemma token_eta [simp]:
  "\<lparr>b_hash = b_hash z, b_session = b_session z, b_created = b_created z\<rparr> = (z :: token_binding)"
  by simp

lemma mem_distinct_drop: "distinct (map b_hash bs) \<Longrightarrow> distinct (map b_hash (filter p bs))"
  by (simp add: distinct_map_filter)

lemmas mem_defs = mem_tokens_def mem_put_def mem_get_def mem_delete_def mem_list_def mem_bound_def
  mem_holds_def mem_ok_def mem_lease_reader_def

interpretation mem_sessions:
  session_host mem_tokens mem_lease_reader mem_bound mem_holds mem_ok
proof unfold_locales
  show "mem_bound m' = (case r of Inl _ \<Rightarrow> mem_bound m | Inr _ \<Rightarrow> (mem_bound m)(h \<mapsto> (i, c)))"
    if "ts_put mem_tokens h i c m = (r, m')" for m h i c r m'
    using that by (auto simp: mem_defs mem_find_drop fun_eq_iff)
  show "case mem_bound m h of None \<Rightarrow> \<not> b | Some (x, _) \<Rightarrow> b \<and> i = x"
    if "ts_get mem_tokens h m = (Inr (i, b), m')" for m h i b m'
    using that by (auto simp: mem_defs split: option.splits)
  show "mem_bound m' = (case r of Inl _ \<Rightarrow> mem_bound m | Inr _ \<Rightarrow> (mem_bound m)(h := None))"
    if "ts_delete mem_tokens h m = (r, m')" for m h r m'
    using that by (auto simp: mem_defs mem_find_drop fun_eq_iff)
  show "tb \<in> set rows \<longleftrightarrow> mem_bound m (b_hash tb) = Some (b_session tb, b_created tb)"
    if "mem_ok m" "ts_list mem_tokens m = (Inr rows, m')" for m rows m' tb
    using that token_eta by (cases tb) (auto simp: mem_defs find_distinct [of b_hash "fst m'"])
  show "live = (\<exists>y. mem_holds now k y m) \<and> (live \<longrightarrow> mem_holds now k x m)"
    if "mem_lease_reader now k m = (Inr (x, live), m')" for m now k x live m'
    using that session_lease_reader_Inr [of now k "snd m" x live] by (auto simp: mem_defs split: prod.splits)
  show "x = y" if "mem_holds now k x m" "mem_holds now k y m" for now k x m y
    using that held_by_unique by (simp add: mem_defs ledger_holds_def)
  show "within (calm mem_bound mem_holds mem_ok) (mem_lease_reader now k)" for now k
    using calm_same_tabs [OF same_tabs_ops(3)]
    by (auto simp: within_def calm_def mem_defs fun_eq_iff split: prod.split) (metis snd_conv)+
qed (auto simp: within_def calm_def mem_defs mem_distinct_drop)

end
