(* ===== verification/SessionWorld.thy ===== *)
theory SessionWorld
  imports SessionFacts
begin

text \<open>
  The daemon's connections, their identities and the tokens, over the ledger-backed table: what an
  attach needs, that a minted token keeps working while its session lives, that minting returns, and
  that no connection ever acts under an identity it was not given.
\<close>

section \<open>One call\<close>

abbreviation ledger_attach where
  "ledger_attach host \<equiv> attach_handler host ledger_tokens session_lease_reader"

abbreviation ledger_mint where
  "ledger_mint host \<equiv> mint host ledger_tokens session_lease_reader"

text \<open>The token is bound to the session, and the session holds its own liveness lease.\<close>

definition may_attach :: "host \<Rightarrow> json option \<Rightarrow> string \<Rightarrow> ledger keeper \<Rightarrow> bool" where
  "may_attach host p sid k \<longleftrightarrow>
     (\<exists>tok c. token_param p = Inr tok \<and> ledger_bound (store k) (hash_token host tok) = Some (sid, c))
     \<and> ledger_holds (clock host (ticks k)) (liveness_key sid) sid (store k)"

lemma attach_may: "ledger_ok (store k) \<Longrightarrow> ledger_attach host p k = (Inr sid, k') \<Longrightarrow> may_attach host p sid k"
  by (erule (1) ledger_sessions.attach_rebinds) (auto simp: may_attach_def)

lemma may_attach_runs:
  assumes "ledger_ok (store k)" and "healthy (store k)" and "may_attach host p sid k"
  shows "fst (ledger_attach host p k) = Inr sid"
proof -
  let ?d = "store k"
  obtain tok c where t: "token_param p = Inr tok" "ledger_bound ?d (hash_token host tok) = Some (sid, c)"
    using assms(3) by (auto simp: may_attach_def)
  have "\<exists>g. get_session_token (hash_token host tok) ?d = (Inr g, ?d)"
    using assms(2) by (simp add: get_session_token_def eff_simps)
  then obtain g where g: "ts_get ledger_tokens (hash_token host tok) ?d = (Inr g, ?d)" by auto
  have "\<exists>x. session_lease_reader (clock host (ticks k)) (liveness_key sid) ?d = (Inr x, ?d)"
    using assms(2) by (simp add: session_lease_reader_def inspect_def eff_simps split: option.split)
  then obtain x where x: "session_lease_reader (clock host (ticks k)) (liveness_key sid) ?d = (Inr x, ?d)" ..
  show ?thesis
    using ledger_sessions.attach_succeeds [OF assms(1) t(1,2) _ g x] assms(3) by (simp add: may_attach_def)
qed

lemma attach_tables: "tabs (store (snd (ledger_attach host p k))) = tabs (store k)"
proof -
  have "on_keeper (\<lambda>d d'. tabs d' = tabs d) k (snd (ledger_attach host p k))"
    by (rule attach_within) (auto simp: reflp_def transp_def within_def)
  then show ?thesis by (simp add: on_keeper_def)
qed

section \<open>Runs of mints\<close>

fun run_mints :: "host \<Rightarrow> string list \<Rightarrow> ledger keeper \<Rightarrow> ledger keeper option" where
  "run_mints host [] k = Some k"
| "run_mints host (sid # sids) k =
     (case ledger_mint host sid k of None \<Rightarrow> None | Some (r, k') \<Rightarrow> run_mints host sids k')"

lemma mint_calm:
  assumes "ledger_mint host sid k = Some (r, k')" and "ledger_ok (store k)"
  shows "on_keeper (calm (\<lambda>_. ()) ledger_holds ledger_ok) k k'"
proof -
  obtain k1 where p: "prune_dead host ledger_tokens session_lease_reader k = (Inr (), k1)"
    and m: "ledger_sessions.minted host sid k1 r k'"
    using ledger_sessions.mint_minted [OF assms] by blast
  show ?thesis
    using m withinD_eq [OF ledger_sessions.prune_dead_calm p]
    by (auto simp: ledger_sessions.minted_def intro: transpD [OF on_keeper_transp [OF calm_order(2)]])
qed

lemma safe_binding_within:
  "safe_binding host holds sid c lo hi s \<Longrightarrow> lo \<le> lo' \<Longrightarrow> hi' \<le> hi \<Longrightarrow>
     (\<And>now k h. holds now k h s' = holds now k h s) \<Longrightarrow> safe_binding host holds sid c lo' hi' s'"
  by (auto simp: safe_binding_def)

lemma mint_keeps:
  assumes "ledger_mint host sid' k = Some (r, k')" and "ledger_ok (store k)"
    and "ledger_bound (store k) h = Some (sid, c)"
    and "safe_binding host ledger_holds sid c (ticks k) (ticks k') (store k)"
  shows "ledger_bound (store k') h = Some (sid, c)"
proof -
  obtain k1 where p: "prune_dead host ledger_tokens session_lease_reader k = (Inr (), k1)"
    and m: "ledger_sessions.minted host sid' k1 r k'"
    using ledger_sessions.mint_minted [OF assms(1,2)] by blast
  have "safe_binding host ledger_holds sid c (ticks k) (ticks k1) (store k)"
    using m by (intro safe_binding_within [OF assms(4)])
      (auto simp: ledger_sessions.minted_def on_keeper_def)
  then have "ledger_bound (store k1) h = Some (sid, c)"
    using ledger_sessions.prune_dead_bound [OF assms(2) p, of h sid c] assms(3) by simp
  then show ?thesis
    using m by (auto simp: ledger_sessions.minted_def split: sum.splits)
qed

lemma run_mints_calm:
  "run_mints host sids k = Some k' \<Longrightarrow> ledger_ok (store k) \<Longrightarrow>
     on_keeper (calm (\<lambda>_. ()) ledger_holds ledger_ok) k k'"
proof (induction sids arbitrary: k)
  case Nil
  then show ?case by (simp add: reflpD [OF on_keeper_reflp])
next
  case (Cons s sids)
  then obtain r k1 where m: "ledger_mint host s k = Some (r, k1)" and rest: "run_mints host sids k1 = Some k'"
    by (auto split: option.splits)
  note c = mint_calm [OF m Cons.prems(2)]
  then have "ledger_ok (store k1)" using Cons.prems(2) by (simp add: on_keeper_def calm_def)
  from Cons.IH [OF rest this] c show ?case
    by (blast intro: transpD [OF on_keeper_transp [OF calm_order(2)]])
qed

lemma run_mints_keeps:
  assumes "run_mints host sids k = Some k'" and "ledger_ok (store k)"
    and "ledger_bound (store k) h = Some (sid, c)"
    and "safe_binding host ledger_holds sid c (ticks k) (ticks k') (store k)"
  shows "ledger_bound (store k') h = Some (sid, c)"
  using assms
proof (induction sids arbitrary: k)
  case Nil
  then show ?case by simp
next
  case (Cons s sids)
  then obtain r k1 where m: "ledger_mint host s k = Some (r, k1)" and rest: "run_mints host sids k1 = Some k'"
    by (auto split: option.splits)
  note c = mint_calm [OF m Cons.prems(2)]
  have ok1: "ledger_ok (store k1)" using c Cons.prems(2) by (simp add: on_keeper_def calm_def)
  have t: "ticks k \<le> ticks k1" "ticks k1 \<le> ticks k'"
    using c run_mints_calm [OF rest ok1] by (simp_all add: on_keeper_def)
  have "ledger_bound (store k1) h = Some (sid, c)"
    using t by (intro mint_keeps [OF m Cons.prems(2,3)] safe_binding_within [OF Cons.prems(4)]) simp_all
  moreover have "safe_binding host ledger_holds sid c (ticks k1) (ticks k') (store k1)"
    using t c by (intro safe_binding_within [OF Cons.prems(4)]) (simp_all add: on_keeper_def calm_def)
  ultimately show ?case using Cons.IH [OF rest ok1] by blast
qed

section \<open>The connections\<close>

text \<open>
  The daemon with its connections: \<open>idents\<close> is the session of every open connection, \<open>own\<close> the session
  it was accepted with, \<open>minted\<close> the tokens handed out with the session that asked, \<open>shown\<close> the tokens
  that a connection attached with. A connection is accepted, minted for, attached, closed; the daemon
  restarts (every connection drops, the counter starts again, the table stays); and the ledger does
  everything else it does.
\<close>

record realm =
  keeper :: "ledger keeper"
  auth_state :: auth
  idents :: "nat \<Rightarrow> string option"
  own :: "nat \<Rightarrow> string option"
  minted_for :: "(string \<times> string) list"
  shown :: "(nat \<times> string) list"

fun token_op :: "ledger_op \<Rightarrow> bool" where
  "token_op (PutToken h s c) = True"
| "token_op (DeleteToken h) = True"
| "token_op _ = False"

inductive realm_step :: "host \<Rightarrow> (nat \<Rightarrow> nat \<Rightarrow> string + string) \<Rightarrow> realm \<Rightarrow> realm \<Rightarrow> bool" for host rnd where
  accept: "own r c = None \<Longrightarrow> authenticate rnd (auth_state r) = (Inr sid, a) \<Longrightarrow>
     realm_step host rnd r
       (r\<lparr>auth_state := a, idents := (idents r)(c \<mapsto> sid), own := (own r)(c \<mapsto> sid)\<rparr>)"
| refuse: "authenticate rnd (auth_state r) = (Inl e, a) \<Longrightarrow> realm_step host rnd r (r\<lparr>auth_state := a\<rparr>)"
| hang_up: "realm_step host rnd r (r\<lparr>idents := (idents r)(c := None)\<rparr>)"
| restart: "realm_step host rnd r (r\<lparr>idents := \<lambda>_. None, auth_state := \<lparr>seq = 0, auth_draws = auth_draws (auth_state r)\<rparr>\<rparr>)"
| minting: "idents r c = Some sid \<Longrightarrow> ledger_mint host sid (keeper r) = Some (Inr tok, k) \<Longrightarrow>
     realm_step host rnd r (r\<lparr>keeper := k, minted_for := (tok, sid) # minted_for r\<rparr>)"
| mint_fails: "idents r c = Some sid \<Longrightarrow> ledger_mint host sid (keeper r) = Some (Inl e, k) \<Longrightarrow>
     realm_step host rnd r (r\<lparr>keeper := k\<rparr>)"
| attaching: "idents r c = Some old \<Longrightarrow> ledger_attach host p (keeper r) = (Inr sid, k) \<Longrightarrow>
     token_param p = Inr tok \<Longrightarrow>
     realm_step host rnd r (r\<lparr>keeper := k, idents := (idents r)(c \<mapsto> sid), shown := (c, tok) # shown r\<rparr>)"
| attach_fails: "idents r c = Some old \<Longrightarrow> ledger_attach host p (keeper r) = (Inl e, k) \<Longrightarrow>
     realm_step host rnd r (r\<lparr>keeper := k\<rparr>)"
| other: "\<not> token_op op \<Longrightarrow> realm_step host rnd r
     (r\<lparr>keeper := (keeper r)\<lparr>store := run_op now op (store (keeper r))\<rparr>\<rparr>)"
| time_passes: "realm_step host rnd r (r\<lparr>keeper := (keeper r)\<lparr>ticks := ticks (keeper r) + n\<rparr>\<rparr>)"

definition realm_start :: "ledger \<Rightarrow> nat \<Rightarrow> realm" where
  "realm_start d n = \<lparr>keeper = \<lparr>draws = 0, ticks = n, store = d\<rparr>, auth_state = \<lparr>seq = 0, auth_draws = 0\<rparr>,
     idents = (\<lambda>_. None), own = (\<lambda>_. None), minted_for = [], shown = []\<rparr>"

abbreviation realm_reaches :: "host \<Rightarrow> (nat \<Rightarrow> nat \<Rightarrow> string + string) \<Rightarrow> realm \<Rightarrow> realm \<Rightarrow> bool" where
  "realm_reaches host rnd \<equiv> (realm_step host rnd)\<^sup>*\<^sup>*"

definition by_token :: "host \<Rightarrow> realm \<Rightarrow> nat \<Rightarrow> string \<Rightarrow> bool" where
  "by_token host r c sid \<longleftrightarrow> (\<exists>tok tok'. (c, tok) \<in> set (shown r) \<and> (tok', sid) \<in> set (minted_for r)
     \<and> hash_token host tok = hash_token host tok')"

definition realm_inv :: "host \<Rightarrow> realm \<Rightarrow> bool" where
  "realm_inv host r \<longleftrightarrow> ledger_ok (store (keeper r))
     \<and> (\<forall>h sid c. ledger_bound (store (keeper r)) h = Some (sid, c) \<longrightarrow>
          (\<exists>tok. (tok, sid) \<in> set (minted_for r) \<and> hash_token host tok = h))
     \<and> (\<forall>tok sid. (tok, sid) \<in> set (minted_for r) \<longrightarrow> (\<exists>c. own r c = Some sid))
     \<and> (\<forall>c sid. idents r c = Some sid \<longrightarrow> own r c = Some sid \<or> by_token host r c sid)"

lemma tokens_kept:
  assumes "\<not> token_op op"
  shows "tokens (tabs (run_op now op d)) = tokens (tabs d)"
proof -
  let ?R = "\<lambda>t t' :: ledger_tabs. tokens t' = tokens t"
  have R: "reflp ?R" "transp ?R" by (auto simp: reflp_def transp_def)
  have get_same: "on_tabs ?R d (snd (get_session_token h d))" and list_same: "on_tabs ?R d (snd (list_session_tokens d))" for h
    by (simp_all add: on_tabs_def list_session_tokens_def)
  have "on_tabs ?R d (run_op now op d)"
    using assms
    by (cases op) (simp_all add: list_holders_def expired_leases_def withinD [OF within_acquire] withinD [OF within_renew]
      withinD [OF within_release] withinD [OF within_reclaim] withinD [OF within_enqueue]
      withinD [OF within_dequeue] withinD [OF within_queue] get_same list_same withinD [OF within_audit(1)] withinD [OF within_audit(2)]
      withinD [OF within_inspect] withinD [OF within_list_where] R stmt_defs)
  then show ?thesis by (simp add: on_tabs_def)
qed

lemma other_bound: "\<not> token_op op \<Longrightarrow> ledger_bound (run_op now op d) = ledger_bound d"
  by (simp add: ledger_bound_def fun_eq_iff tokens_kept)

lemma run_op_ok: "ledger_ok d \<Longrightarrow> ledger_ok (run_op now op d)"
  by (simp add: ledger_ok_def run_op_wf)

lemma mint_bindings:
  assumes "ledger_mint host sid k = Some (x, k')" and "ledger_ok (store k)"
  shows "ledger_bound (store k') h = Some (i, c) \<Longrightarrow> ledger_bound (store k) h = Some (i, c)
      \<or> (i = sid \<and> (\<exists>tok. x = Inr tok \<and> h = hash_token host tok))"
    and "ledger_ok (store k')"
proof -
  obtain k1 where p: "prune_dead host ledger_tokens session_lease_reader k = (Inr (), k1)"
    and m: "ledger_sessions.minted host sid k1 x k'"
    using ledger_sessions.mint_minted [OF assms] by blast
  have sub: "ledger_bound (store k1) \<subseteq>\<^sub>m ledger_bound (store k)"
    using ledger_sessions.prune_dead_bound [OF assms(2) p] by blast
  show "ledger_bound (store k') h = Some (i, c) \<Longrightarrow> ledger_bound (store k) h = Some (i, c)
      \<or> (i = sid \<and> (\<exists>tok. x = Inr tok \<and> h = hash_token host tok))"
    using m sub by (force simp: ledger_sessions.minted_def map_le_def split: sum.splits if_splits)
  show "ledger_ok (store k')"
    using mint_calm [OF assms] assms(2) by (simp add: on_keeper_def calm_def)
qed

lemma attach_ok_state:
  "ledger_ok (store k) \<Longrightarrow> ledger_attach host p k = (x, k') \<Longrightarrow>
     ledger_ok (store k') \<and> ledger_bound (store k') = ledger_bound (store k)"
  using attach_tables [of host p k] by (simp add: ledger_ok_def ledger_bound_def fun_eq_iff)

lemma realm_invD:
  assumes "realm_inv host r"
  shows "ledger_ok (store (keeper r))"
    and "ledger_bound (store (keeper r)) h = Some (sid, c) \<Longrightarrow>
      \<exists>tok. (tok, sid) \<in> set (minted_for r) \<and> hash_token host tok = h"
    and "(tok, sid) \<in> set (minted_for r) \<Longrightarrow> \<exists>c. own r c = Some sid"
    and "idents r c' = Some sid \<Longrightarrow> own r c' = Some sid \<or> by_token host r c' sid"
  using assms by (auto simp: realm_inv_def)

lemma realm_ident_own: "realm_inv host r \<Longrightarrow> idents r c = Some sid \<Longrightarrow> \<exists>c'. own r c' = Some sid"
  by (metis by_token_def realm_invD(3,4))

lemma realm_step_inv:
  assumes "realm_step host rnd r r'" and inv: "realm_inv host r"
  shows "realm_inv host r'"
  using assms(1)
proof (cases rule: realm_step.cases)
  case (accept c sid a)
  have "\<exists>c'. own r' c' = Some i" if "(tok, i) \<in> set (minted_for r)" for tok i
    using realm_invD(3) [OF inv that] accept(2) by (auto simp: accept(1)) (metis option.distinct(1))
  moreover have "own r' c' = Some i \<or> by_token host r' c' i" if "idents r' c' = Some i" for c' i
    using that realm_invD(4) [OF inv, of c' i] by (auto simp: accept(1) by_token_def split: if_splits)
  ultimately show ?thesis using inv by (simp add: realm_inv_def accept(1))
next
  case (minting c sid tok k)
  note m = mint_bindings [OF minting(3) realm_invD(1) [OF inv]]
  have own: "\<exists>c'. own r c' = Some sid" using realm_ident_own [OF inv minting(2)] .
  have "\<exists>t. (t, i) \<in> set ((tok, sid) # minted_for r) \<and> hash_token host t = h"
    if "ledger_bound (store k) h = Some (i, n)" for h i n
    using m(1) [OF that] realm_invD(2) [OF inv, of h i n] by fastforce
  moreover have "own r c' = Some i \<or> by_token host r' c' i" if "idents r c' = Some i" for c' i
    using realm_invD(4) [OF inv that] by (auto simp: by_token_def minting(1))
  ultimately show ?thesis
    using m(2) realm_invD(3) [OF inv] own by (auto simp: realm_inv_def minting(1))
next
  case (mint_fails c sid e k)
  note m = mint_bindings [OF mint_fails(3) realm_invD(1) [OF inv]]
  have "\<exists>t. (t, i) \<in> set (minted_for r) \<and> hash_token host t = h"
    if "ledger_bound (store k) h = Some (i, n)" for h i n
    using m(1) [OF that] realm_invD(2) [OF inv] by auto
  then show ?thesis
    using m(2) inv by (auto simp: realm_inv_def by_token_def mint_fails(1))
next
  case (attaching c old p sid k tok)
  note a = attach_ok_state [OF realm_invD(1) [OF inv] attaching(3)]
  obtain n where b: "ledger_bound (store (keeper r)) (hash_token host tok) = Some (sid, n)"
    using attach_may [OF realm_invD(1) [OF inv] attaching(3)] attaching(4) by (auto simp: may_attach_def)
  obtain tok' where "(tok', sid) \<in> set (minted_for r)" "hash_token host tok' = hash_token host tok"
    using realm_invD(2) [OF inv b] by blast
  then have "by_token host r' c sid" by (auto simp: by_token_def attaching(1)) metis
  moreover have "own r c' = Some i \<or> by_token host r' c' i" if "idents r c' = Some i" for c' i
    using realm_invD(4) [OF inv that] by (auto simp: by_token_def attaching(1))
  ultimately show ?thesis
    using a inv by (auto simp: realm_inv_def attaching(1))
next
  case (attach_fails c old p e k)
  then show ?thesis
    using attach_ok_state [OF realm_invD(1) [OF inv] attach_fails(3)] inv
    by (auto simp: realm_inv_def by_token_def)
qed (use inv in \<open>auto simp: realm_inv_def by_token_def other_bound run_op_ok\<close>)

lemma realm_reaches_inv: "realm_reaches host rnd r r' \<Longrightarrow> realm_inv host r \<Longrightarrow> realm_inv host r'"
  by (induction rule: rtranclp_induct) (auto intro: realm_step_inv)

lemma realm_start_inv:
  "ledger_ok d \<Longrightarrow> tokens (tabs d) = [] \<Longrightarrow> realm_inv host (realm_start d n)"
  by (simp add: realm_inv_def realm_start_def ledger_bound_def by_token_def)

section \<open>Properties\<close>

text \<open>
  C20: \<open>session.attach\<close> rebinds a connection to a session only when the token it presents is bound to
  that session and the session holds its own liveness lease at that moment, and whenever both are so
  and the database answers, it does; it never changes a table.
\<close>

theorem attach_gate:
  assumes "ledger_ok (store k)"
  shows "(fst (ledger_attach host p k) = Inr sid \<longrightarrow> may_attach host p sid k)
    \<and> (healthy (store k) \<and> may_attach host p sid k \<longrightarrow> fst (ledger_attach host p k) = Inr sid)
    \<and> tabs (store (snd (ledger_attach host p k))) = tabs (store k)"
  using attach_may [OF assms, of host p sid] may_attach_runs [OF assms, of host p sid] attach_tables
  by (metis prod.collapse)

text \<open>
  C19: whatever connections, mints, attaches, hang-ups, restarts and other ledger operations happen, the
  session of a connection is the one it was accepted with, or the connection attached with a token
  whose hash is that of a token minted by a connection of that very session; and every session in use
  was given to some accepted connection by the daemon.
\<close>

theorem identity_by_token:
  assumes "ledger_ok d" and "tokens (tabs d) = []"
    and "realm_reaches host rnd (realm_start d n) r" and "idents r c = Some sid"
  shows "(own r c = Some sid \<or> by_token host r c sid) \<and> (\<exists>c'. own r c' = Some sid)"
  using realm_reaches_inv [OF assms(3) realm_start_inv [OF assms(1,2)]] assms(4)
  by (simp add: realm_invD(4) realm_ident_own)

definition created_of :: "host \<Rightarrow> string \<Rightarrow> ledger keeper \<Rightarrow> int" where
  "created_of host tok k = (case ledger_bound (store k) (hash_token host tok) of None \<Rightarrow> 0 | Some (_, c) \<Rightarrow> c)"

lemma mint_binds:
  assumes "ledger_mint host sid k = Some (Inr tok, k')" and "ledger_ok (store k)"
  shows "ledger_bound (store k') (hash_token host tok) = Some (sid, created_of host tok k')"
proof -
  obtain k1 where "ledger_sessions.minted host sid k1 (Inr tok) k'"
    using ledger_sessions.mint_minted [OF assms] by blast
  then show ?thesis by (auto simp: ledger_sessions.minted_def created_of_def)
qed


lemma mint_result:
  assumes "ledger_ok (store k)"
    and "\<forall>m. \<exists>i \<ge> m. \<forall>b. random host token_bytes i = Inr b \<longrightarrow>
      ledger_bound (store k) (hash_token host (b64_encode b)) = None"
  shows "\<exists>r k'. ledger_mint host sid k = Some (r, k')"
proof -
  obtain x k1 where p: "prune_dead host ledger_tokens session_lease_reader k = (x, k1)"
    by (cases "prune_dead host ledger_tokens session_lease_reader k")
  have ok1: "ledger_ok (store k1)"
    using withinD_eq [OF ledger_sessions.prune_dead_calm p] assms(1) by (simp add: on_keeper_def calm_def)
  obtain i where i: "draws k1 \<le> i" "\<forall>b. random host token_bytes i = Inr b \<longrightarrow>
      ledger_bound (store k) (hash_token host (b64_encode b)) = None"
    using assms(2) by blast
  have sub: "ledger_bound (store k1) \<subseteq>\<^sub>m ledger_bound (store k)"
    using ledger_sessions.prune_dead_bound [OF assms(1) p] by blast
  have "ledger_bound (store k1) h = None" if "ledger_bound (store k) h = None" for h
    using sub that by (metis domIff map_le_implies_dom_le subset_iff)
  then show ?thesis
    using ledger_sessions.mint_loop_returns [OF ok1 i(1)] i(2) p by (simp add: mint_def)
qed

text \<open>
  C22: minting ends. If the random source, at some point after any point, fails or gives bytes whose token
  has a free hash, \<open>Mint\<close> returns; and a token that it returns is bound to the caller afterwards.
\<close>

theorem mint_returns:
  assumes "ledger_ok (store k)"
    and "\<forall>m. \<exists>i \<ge> m. \<forall>b. random host token_bytes i = Inr b \<longrightarrow>
      ledger_bound (store k) (hash_token host (b64_encode b)) = None"
  shows "\<exists>r k'. ledger_mint host sid k = Some (r, k')
    \<and> (\<forall>tok. r = Inr tok \<longrightarrow> ledger_bound (store k') (hash_token host tok) = Some (sid, created_of host tok k'))"
  using mint_result [OF assms, of sid] mint_binds [OF _ assms(1)] by fastforce
section \<open>Concrete runs\<close>

text \<open>
  A host with constant draws, a clock of one reading per second and a digest of one byte; a ledger in
  which the first session holds its liveness lease.
\<close>

declare mint_loop.simps [code]

definition demo_random :: "nat \<Rightarrow> nat \<Rightarrow> string + string" where
  "demo_random n i = Inr (replicate n (char_of i))"

definition demo_clock :: "nat \<Rightarrow> int" where
  "demo_clock n = 10 ^ 9 * int n"

definition demo_digest :: "string \<Rightarrow> string" where
  "demo_digest s = take 1 (drop 1 s)"

definition demo_host :: host where
  "demo_host = \<lparr>random = demo_random, clock = demo_clock, sha256 = demo_digest\<rparr>"

definition demo_sid :: string where
  "demo_sid = session_name 1 (replicate 12 (char_of (0 :: nat)))"

definition live_ledger :: ledger where
  "live_ledger = \<lparr>script = [], tabs = empty_tabs\<lparr>leases :=
     [\<lparr>l_key = liveness_key demo_sid, l_holder = demo_sid, l_acquired = 0, l_expires = 10 ^ 15, l_fence = 1\<rparr>]\<rparr>\<rparr>"

definition demo_keeper :: "ledger keeper" where
  "demo_keeper = \<lparr>draws = 0, ticks = 0, store = live_ledger\<rparr>"

definition demo_token :: string where
  "demo_token = b64_encode (replicate 32 (char_of (0 :: nat)))"

definition demo_params :: "json option" where
  "demo_params = Some (JObj [(''token'', JStr demo_token)])"

definition token_table :: "token_row list \<Rightarrow> ledger" where
  "token_table rows = live_ledger\<lparr>tabs := (tabs live_ledger)\<lparr>tokens := rows\<rparr>\<rparr>"

definition first_row :: token_row where
  "first_row = \<lparr>t_hash = hex_encode ''A'', t_session = demo_sid, t_created = 1000\<rparr>"

definition second_row :: token_row where
  "second_row = \<lparr>t_hash = hex_encode ''Q'', t_session = ''b'', t_created = 3000\<rparr>"

definition after_mint :: "ledger keeper" where
  "after_mint = \<lparr>draws = 1, ticks = 2, store = token_table [first_row]\<rparr>"

definition after_mints :: "ledger keeper" where
  "after_mints = \<lparr>draws = 2, ticks = 4, store = token_table [first_row, second_row]\<rparr>"

lemma demo_mint: "ledger_mint demo_host demo_sid demo_keeper = Some (Inr demo_token, after_mint)"
  by code_simp

lemma demo_mints: "run_mints demo_host [''b''] after_mint = Some after_mints"
  by code_simp

lemma demo_param: "token_param demo_params = Inr demo_token"
  by code_simp

lemma demo_hash: "hash_token demo_host demo_token = hex_encode ''A''"
  by code_simp

lemma demo_tables:
  "ledger_ok live_ledger" "ledger_ok (token_table [first_row])" "ledger_ok (token_table [first_row, second_row])"
  "healthy (token_table rows)" "tokens (tabs live_ledger) = []"
proof -
  have "hex_encode ''A'' \<noteq> hex_encode ''Q''" by code_simp
  then show "ledger_ok (token_table [first_row, second_row])"
    by (simp add: ledger_ok_def ledger_wf_def token_table_def live_ledger_def empty_tabs_def
        first_row_def second_row_def)
  have "healthy live_ledger" by (simp add: healthy_def live_ledger_def)
  then show "healthy (token_table rows)" by (simp add: token_table_def)
qed (simp_all add: ledger_ok_def ledger_wf_def token_table_def live_ledger_def empty_tabs_def)

lemma demo_holds:
  "n < 1000 \<Longrightarrow> ledger_holds (clock demo_host n) (liveness_key demo_sid) demo_sid (token_table rows)"
  by (simp add: ledger_holds_def held_by_def find_lease_def row_held_def token_table_def live_ledger_def
      demo_host_def demo_clock_def) (simp add: demo_sid_def session_name_def)

lemma demo_bound:
  "ledger_bound (token_table (first_row # rows)) (hash_token demo_host demo_token) = Some (demo_sid, 1000)"
  by (simp add: ledger_bound_def token_table_def demo_hash) (simp add: first_row_def)

lemma attach_gate_witness:
  "fst (ledger_attach demo_host demo_params after_mints) = Inr demo_sid"
proof -
  have "may_attach demo_host demo_params demo_sid after_mints"
    using demo_param demo_bound [of "[second_row]"] demo_holds [of 4 "[first_row, second_row]"]
    by (simp add: may_attach_def after_mints_def)
  then show ?thesis
    using attach_gate [of after_mints demo_host demo_params demo_sid] demo_tables
    by (simp add: after_mints_def)
qed


lemma mint_returns_witness: "\<exists>r k'. ledger_mint demo_host demo_sid demo_keeper = Some (r, k')"
  using mint_returns [of demo_keeper demo_host demo_sid] demo_tables(1,5)
  by (simp add: demo_keeper_def ledger_bound_def) blast

text \<open>Two connections: the first mints, the second attaches with the token.\<close>

definition demo_start :: realm where
  "demo_start = realm_start live_ledger 0"

definition demo_other :: string where
  "demo_other = session_name 2 (replicate 12 (char_of (1 :: nat)))"

definition demo_accepted :: realm where
  "demo_accepted = demo_start\<lparr>auth_state := \<lparr>seq = 2, auth_draws = 2\<rparr>,
     idents := [1 \<mapsto> demo_sid, 2 \<mapsto> demo_other], own := [1 \<mapsto> demo_sid, 2 \<mapsto> demo_other]\<rparr>"

definition demo_minted :: realm where
  "demo_minted = demo_accepted\<lparr>keeper := after_mint, minted_for := [(demo_token, demo_sid)]\<rparr>"

definition demo_attached :: realm where
  "demo_attached = demo_minted\<lparr>keeper := after_mint\<lparr>ticks := 3\<rparr>,
     idents := [1 \<mapsto> demo_sid, 2 \<mapsto> demo_sid], shown := [(2, demo_token)]\<rparr>"

lemma demo_attach: "ledger_attach demo_host demo_params after_mint = (Inr demo_sid, after_mint\<lparr>ticks := 3\<rparr>)"
  by code_simp

lemma demo_run: "realm_reaches demo_host demo_random demo_start demo_attached"
proof -
  have a1: "authenticate demo_random \<lparr>seq = 0, auth_draws = 0\<rparr> = (Inr demo_sid, \<lparr>seq = 1, auth_draws = 1\<rparr>)"
    and a2: "authenticate demo_random \<lparr>seq = 1, auth_draws = 1\<rparr> = (Inr demo_other, \<lparr>seq = 2, auth_draws = 2\<rparr>)"
    by (simp_all add: authenticate_def demo_random_def demo_sid_def demo_other_def Let_def
        numeral_2_eq_2 [symmetric])
  let ?r1 = "demo_start\<lparr>auth_state := \<lparr>seq = 1, auth_draws = 1\<rparr>, idents := [1 \<mapsto> demo_sid], own := [1 \<mapsto> demo_sid]\<rparr>"
  have s1: "realm_step demo_host demo_random demo_start ?r1"
    using realm_step.accept [of demo_start 1 demo_random demo_sid, OF _ _] a1
    by (simp add: demo_start_def realm_start_def)
  have s2: "realm_step demo_host demo_random ?r1 demo_accepted"
    using realm_step.accept [of ?r1 2 demo_random demo_other] a2
    by (simp add: demo_start_def realm_start_def demo_accepted_def fun_upd_twist)
  have s3: "realm_step demo_host demo_random demo_accepted demo_minted"
    using realm_step.minting [of demo_accepted 1 demo_sid demo_host demo_token after_mint] demo_mint
    by (simp add: demo_accepted_def demo_start_def realm_start_def demo_minted_def demo_keeper_def)
  have s4: "realm_step demo_host demo_random demo_minted demo_attached"
    using realm_step.attaching [of demo_minted 2 demo_other demo_host demo_params demo_sid "after_mint\<lparr>ticks := 3\<rparr>"]
      demo_attach demo_param
    by (simp add: demo_minted_def demo_accepted_def demo_start_def realm_start_def demo_attached_def)
  from s1 s2 s3 s4 show ?thesis by (meson converse_rtranclp_into_rtranclp r_into_rtranclp)
qed

lemma identity_by_token_witness:
  "idents demo_attached 2 = Some demo_sid \<and> own demo_attached 2 = Some demo_other \<and> demo_other \<noteq> demo_sid
   \<and> by_token demo_host demo_attached 2 demo_sid"
proof -
  have i: "idents demo_attached 2 = Some demo_sid" "own demo_attached 2 = Some demo_other"
    by (simp_all add: demo_attached_def demo_minted_def demo_accepted_def)
  have "demo_other \<noteq> demo_sid" by code_simp
  then show ?thesis
    using identity_by_token [OF demo_tables(1) demo_tables(5) demo_run [unfolded demo_start_def] i(1)] i by simp
qed

end
