(* ===== verification/DaemonFacts.thy ===== *)
theory DaemonFacts
  imports Daemon SessionWorld
begin

text \<open>
  The connection loop answers in order and echoes ids; the frozen surface; and the methods that the
  ledger serves, composed the way \<open>app.Build\<close> composes them: only \<open>session.attach\<close> changes who a
  connection is.
\<close>

section \<open>The registry\<close>

lemma lookup_register:
  "register m h r = (Inr (), r') \<Longrightarrow> lookup_method r' m' = (if m' = m then Some h else lookup_method r m')"
  by (auto simp: register_def lookup_method_def split: if_splits)

lemma register_frozen: "frozen r \<Longrightarrow> snd (register m h r) = r \<and> fst (register m h r) \<noteq> Inr ()"
  by (simp add: register_def)

lemma register_refused: "register m h r = (Inl e, r') \<Longrightarrow> r' = r"
  by (auto simp: register_def split: if_splits)

lemma frozen_register: "frozen (snd (register m h r)) = frozen r"
  by (simp add: register_def)

lemma register_all_ok:
  assumes "\<not> frozen r" and "distinct (map fst hs)" and "set (map fst hs) \<inter> fst ` set (methods r) = {}"
  shows "\<exists>r'. register_all hs r = (Inr (), r') \<and> \<not> frozen r'
    \<and> (\<forall>m. lookup_method r' m = (case map_of hs m of None \<Rightarrow> lookup_method r m | Some h \<Rightarrow> Some h))"
  using assms
proof (induction hs arbitrary: r)
  case Nil
  then show ?case by simp
next
  case (Cons mh hs)
  obtain m h where mh: "mh = (m, h)" by (cases mh)
  define r1 where "r1 = r\<lparr>methods := (m, h) # methods r\<rparr>"
  have "map_of (methods r) m = None"
    using Cons.prems(3) by (simp add: mh map_of_eq_None_iff)
  then have r: "register m h r = (Inr (), r1)"
    using Cons.prems(1) by (simp add: register_def r1_def)
  have "\<exists>r'. register_all hs r1 = (Inr (), r') \<and> \<not> frozen r'
    \<and> (\<forall>m. lookup_method r' m = (case map_of hs m of None \<Rightarrow> lookup_method r1 m | Some h \<Rightarrow> Some h))"
    using Cons.prems by (intro Cons.IH) (auto simp: r1_def mh)
  then obtain r' where r': "register_all hs r1 = (Inr (), r')" "\<not> frozen r'"
    and l: "lookup_method r' m' = (case map_of hs m' of None \<Rightarrow> lookup_method r1 m' | Some h \<Rightarrow> Some h)" for m'
    by blast
  have n: "map_of hs m = None"
    using Cons.prems(2) by (simp add: mh map_of_eq_None_iff)
  have "register_all (mh # hs) r = (Inr (), r')"
    using r r' by (simp add: mh andThen_def)
  moreover have "lookup_method r' m' = (case map_of (mh # hs) m' of None \<Rightarrow> lookup_method r m' | Some h \<Rightarrow> Some h)" for m'
    using l [of m'] lookup_register [OF r, of m'] n by (auto simp: mh split: option.split)
  ultimately show ?case using r'(2) by blast
qed

lemma lookup_freeze [simp]: "lookup_method (freeze r) m = lookup_method r m"
  by (simp add: freeze_def lookup_method_def)

section \<open>A connection is answered in order\<close>

definition answers :: "response \<Rightarrow> message \<Rightarrow> bool" where
  "answers a m \<longleftrightarrow> r_jsonrpc a = jsonrpc_version \<and> r_v a = contract_version
     \<and> (case m of Incoming q \<Rightarrow> r_id a = q_id q | Garbage \<Rightarrow> a = parse_error)"

lemma dispatch_echoes: "dispatch reg session q s = Response session' a s' \<Longrightarrow> answers a (Incoming q)"
  by (auto simp: dispatch_def answers_def err_response_def response_of_def
      split: option.splits reply.splits sum.splits)

lemma serve_answers_prefix:
  "list_all2 answers (fst (serve reg session msgs s)) (take (length (fst (serve reg session msgs s))) (map fst msgs))"
proof (induction reg session msgs s rule: serve.induct)
  case (2 reg session w rest s)
  then show ?case
    by (simp add: answers_def parse_error_def err_response_def response_of_def)
next
  case (3 reg session q w rest s)
  then show ?case
    by (auto split: dispatched.split prod.split dest: dispatch_echoes)
qed simp

definition clean :: "(message \<times> bool) list \<Rightarrow> bool" where
  "clean msgs \<longleftrightarrow> (\<forall>(m, w) \<in> set msgs. w \<and> m \<noteq> Garbage)"

lemma serve_complete:
  "snd (serve reg session msgs s) = Ended s' \<Longrightarrow> clean msgs \<Longrightarrow>
     length (fst (serve reg session msgs s)) = length msgs"
proof (induction reg session msgs s rule: serve.induct)
  case (3 reg session q w rest s)
  obtain session1 a s1 where d: "dispatch reg session q s = Response session1 a s1"
    using 3(2) by (cases "dispatch reg session q s") auto
  obtain as e where t: "serve reg session1 rest s1 = (as, e)" by (cases "serve reg session1 rest s1")
  have w: "w" "clean rest" using 3(3) by (auto simp: clean_def)
  then have "e = Ended s'" using 3(2) by (simp add: d t)
  then show ?case using 3(1) [OF d w(1)] w t by (simp add: d)
qed (auto simp: clean_def)


definition whoami_request :: request where
  "whoami_request = \<lparr>q_jsonrpc = jsonrpc_version, q_v = contract_version, q_id = Some (JInt 7),
     q_method = ''session.whoami'', q_params = None\<rparr>"

definition whoami_registry :: "unit registry" where
  "whoami_registry = \<lparr>methods = [(''session.whoami'', whoami_handler)], frozen = True\<rparr>"


section \<open>The surface of the ledger\<close>

text \<open>The ledger's handlers on the keeper, and its audit log as the daemon's sink and reader.\<close>

definition keeper_handled :: "('s, 'a) handled \<Rightarrow> ('s keeper, 'a) handled" where
  "keeper_handled h k = (case h (store k) of (r, s) \<Rightarrow> (r, k\<lparr>store := s\<rparr>))"

definition ledger_seam :: "ledger keeper audit_seam" where
  "ledger_seam = \<lparr>sink = \<lambda>r. on_store (sink_append r), reader = Some (\<lambda>n. on_store (sink_tail n))\<rparr>"

definition lease_surface :: "int \<Rightarrow> int \<Rightarrow> (string \<times> ledger keeper handler) list" where
  "lease_surface now now2 =
     map (\<lambda>(m, h). (m, plain (\<lambda>session p. keeper_handled (h session p)))) (lease_methods now now2)"

definition core_methods where
  "core_methods host pr now now2 pid uptime path conns =
     builtins pr ledger_seam now pid uptime path conns @ lease_surface now now2
     @ session_methods host ledger_tokens session_lease_reader"

definition core_registry where
  "core_registry host pr now now2 pid uptime path conns =
     freeze (snd (register_all (core_methods host pr now now2 pid uptime path conns) new_registry))"

lemma core_names:
  "map fst (core_methods host pr now now2 pid uptime path conns) =
    [''diag.health'', ''session.whoami'', ''audit.append'', ''audit.tail'', ''lease.acquire'', ''lease.renew'',
     ''lease.release'', ''lease.inspect'', ''lease.list'', ''lease.enqueue'', ''lease.dequeue'', ''lease.queue'',
     ''session.mint_token'', ''session.attach'']"
  by (simp add: core_methods_def builtins_def lease_surface_def lease_methods_def session_methods_def)

lemma core_lookup:
  "lookup_method (core_registry host pr now now2 pid uptime path conns) m
     = map_of (core_methods host pr now now2 pid uptime path conns) m"
proof -
  let ?ms = "core_methods host pr now now2 pid uptime path conns"
  have "distinct (map fst ?ms)" unfolding core_names by simp
  then obtain r' where "register_all ?ms new_registry = (Inr (), r')"
    and "\<forall>m. lookup_method r' m = (case map_of ?ms m of None \<Rightarrow> lookup_method new_registry m | Some h \<Rightarrow> Some h)"
    using register_all_ok [of new_registry ?ms] by (auto simp: new_registry_def)
  then show ?thesis
    by (simp add: core_registry_def) (simp add: lookup_method_def new_registry_def split: option.split)
qed

definition keeps_session :: "'s handler \<Rightarrow> bool" where
  "keeps_session h \<longleftrightarrow> (\<forall>session p s. case h session p s of Reply session' _ _ \<Rightarrow> session' = session | _ \<Rightarrow> True)"

lemma keeps_session_plain [simp]: "keeps_session (plain h)"
  by (simp add: keeps_session_def plain_def split: prod.split)

lemma keeps_session_others:
  "keeps_session (health_handler pid uptime path conns)" "keeps_session whoami_handler"
  "keeps_session (audit_append_handler seam now)" "keeps_session (audit_tail_handler pr seam)"
  "keeps_session (mint_method host ts chk)"
  by (simp_all add: keeps_session_def health_handler_def whoami_handler_def audit_tail_handler_def mint_method_def
      audit_append_handler_def keeps_session_plain [unfolded keeps_session_def]
      split: sum.split option.split prod.split)

lemma core_keeps_session:
  "(m, h) \<in> set (core_methods host pr now now2 pid uptime path conns) \<Longrightarrow> m \<noteq> ''session.attach'' \<Longrightarrow> keeps_session h"
  by (auto simp: core_methods_def builtins_def lease_surface_def session_methods_def keeps_session_others
      split: prod.splits)

text \<open>
  On the composed surface a request leaves the session of its connection as it is, unless it is a
  \<open>session.attach\<close> whose token is bound to the new session while that session holds its liveness lease.
\<close>

theorem only_attach_rebinds:
  assumes "ledger_ok (store k)"
    and "dispatch (core_registry host pr now now2 pid uptime path conns) session q k = Response session' a k'"
    and "session' \<noteq> session"
  shows "q_method q = ''session.attach'' \<and> may_attach host (q_params q) session' k"
proof -
  let ?ms = "core_methods host pr now now2 pid uptime path conns"
  obtain h where h: "map_of ?ms (q_method q) = Some h"
    and r: "\<exists>x. h session (q_params q) k = Reply session' x k'"
    using assms(2,3) by (auto simp: dispatch_def core_lookup split: option.splits reply.splits sum.splits)
  have "\<not> keeps_session h"
  proof
    assume "keeps_session h"
    from this [unfolded keeps_session_def, rule_format, of session "q_params q" k] r assms(3)
    show False by auto
  qed
  then have m: "q_method q = ''session.attach''"
    using core_keeps_session map_of_SomeD [OF h] by blast
  have "map_of ?ms ''session.attach'' = Some (attach_method host ledger_tokens session_lease_reader)"
    by (simp add: core_methods_def builtins_def lease_surface_def lease_methods_def session_methods_def)
  then have "h = attach_method host ledger_tokens session_lease_reader"
    using h m by simp
  then obtain k1 where "ledger_attach host (q_params q) k = (Inr session', k1)"
    using r assms(3) by (auto simp: attach_method_def split: prod.splits sum.splits)
  then show ?thesis using attach_may [OF assms(1)] m by blast
qed

definition attach_request :: request where
  "attach_request = \<lparr>q_jsonrpc = jsonrpc_version, q_v = contract_version, q_id = Some (JInt 1),
     q_method = ''session.attach'', q_params = demo_params\<rparr>"

lemma only_attach_rebinds_witness:
  "\<exists>a k'. dispatch (core_registry demo_host (\<lambda>_. True) 0 0 1 0 ''sock'' 1) ''other'' attach_request after_mint
     = Response demo_sid a k'
   \<and> may_attach demo_host demo_params demo_sid after_mint"
proof -
  let ?reg = "core_registry demo_host (\<lambda>_. True) 0 0 1 0 ''sock'' 1"
  have "lookup_method ?reg ''session.attach'' = Some (attach_method demo_host ledger_tokens session_lease_reader)"
    by (simp add: core_lookup core_methods_def builtins_def lease_surface_def lease_methods_def session_methods_def)
  then have d: "dispatch ?reg ''other'' attach_request after_mint = Response demo_sid
      (response_of (Some (JInt 1)) (Inr (attach_result demo_sid))) (after_mint\<lparr>ticks := 3\<rparr>)"
    using demo_attach
    by (simp add: dispatch_def validate_def attach_request_def attach_method_def)
  have "ledger_ok (store after_mint)" using demo_tables by (simp add: after_mint_def)
  moreover have "demo_sid \<noteq> ''other''" by (simp add: demo_sid_def session_name_def)
  ultimately show ?thesis
    using only_attach_rebinds [OF _ d] d by (simp add: attach_request_def)
qed

end
