(* ===== verification/Lifecycle.thy ===== *)
theory Lifecycle
  imports GoText
begin

text \<open>
  One daemon per socket (\<open>acquireSocket\<close>, \<open>Start\<close> and \<open>Close\<close> of \<open>internal/daemon/daemon.go\<close>, and the
  helpers of \<open>lifecycle.go\<close>): processes that take an advisory lock, bind the socket file, write the
  pidfile, probe, stop and crash, cut at the system calls, any of which may fail.
\<close>

section \<open>The pidfile\<close>

fun digits_val :: "nat \<Rightarrow> string \<Rightarrow> nat option" where
  "digits_val acc [] = Some acc"
| "digits_val acc (c # s) = (if is_digit c then digits_val (acc * 10 + (byte c - 48)) s else None)"

text \<open>\<open>strconv.Atoi\<close>: an optional sign, at least one digit, a value that fits 64 bits.\<close>

definition atoi :: "string \<Rightarrow> int option" where
  "atoi s =
     (let neg = (s \<noteq> [] \<and> hd s = CHR ''-'');
          ds = (if s \<noteq> [] \<and> hd s \<in> {CHR ''-'', CHR ''+''} then tl s else s)
      in if ds = [] then None
         else case digits_val 0 ds of
             None \<Rightarrow> None
           | Some n \<Rightarrow> let v = (if neg then - int n else int n) in
               if - (2 ^ 63) \<le> v \<and> v < 2 ^ 63 then Some v else None)"

definition write_pidfile :: "int \<Rightarrow> string" where
  "write_pidfile pid = itoa pid @ [CHR 0x0A]"

datatype pid_read = Absent | Present int | Unreadable

definition read_pidfile :: "string option \<Rightarrow> pid_read" where
  "read_pidfile f =
     (case f of
        None \<Rightarrow> Absent
      | Some b \<Rightarrow> (case atoi (trim_space b) of None \<Rightarrow> Unreadable | Some p \<Rightarrow> Present p))"

lemma digits_val_append:
  "digits_val acc (s @ t) = (case digits_val acc s of None \<Rightarrow> None | Some n \<Rightarrow> digits_val n t)"
  by (induction acc s rule: digits_val.induct) auto

lemma digit_char:
  fixes n :: nat
  assumes "n < 10"
  shows "byte (char_of (48 + n)) = 48 + n" and "is_digit (char_of (48 + n))" and "visible (char_of (48 + n))"
proof -
  show b: "byte (char_of (48 + n)) = 48 + n" using assms by simp
  then show "is_digit (char_of (48 + n))" and "visible (char_of (48 + n))"
    using assms unfolding is_digit_def visible_def by simp_all
qed

lemma digits10_val: "n < k \<Longrightarrow> digits_val 0 (digits10 k n) = Some n"
proof (induction k arbitrary: n)
  case (Suc k)
  show ?case
  proof (cases "n < 10")
    case True
    then show ?thesis using digit_char [OF True] by (simp del: of_char_of)
  next
    case False
    then have "digits_val 0 (digits10 k (n div 10)) = Some (n div 10)"
      using Suc.prems by (intro Suc.IH) linarith
    moreover have "n mod 10 < 10" by simp
    ultimately show ?thesis
      using False digit_char [of "n mod 10"] by (simp add: digits_val_append del: of_char_of)
  qed
qed simp

lemma digits10_visible: "n < k \<Longrightarrow> digits10 k n \<noteq> [] \<and> (\<forall>c \<in> set (digits10 k n). visible c \<and> is_digit c)"
proof (induction k arbitrary: n)
  case (Suc k)
  have "n mod 10 < 10" by simp
  note d = digit_char(2,3) [OF this]
  show ?case
  proof (cases "n < 10")
    case True
    then show ?thesis using digit_char [OF True] by simp
  next
    case False
    then have "n div 10 < k" using Suc.prems by linarith
    from Suc.IH [OF this] d False show ?thesis by auto
  qed
qed simp

lemma trim_newline:
  assumes "s \<noteq> []" and "\<forall>c \<in> set s. visible c"
  shows "trim_space (s @ [CHR 0x0A]) = s"
proof -
  have ends: "visible (hd s)" "visible (last s)" using assms by simp_all
  have only: "list_all (\<lambda>w. hd w = CHR 0x0A \<longrightarrow> w = [CHR 0x0A]) (map rev space_runes)" by code_simp
  have "list_ex ((=) [CHR 0x0A]) (map rev space_runes)" by code_simp
  then have lf: "[CHR 0x0A] \<in> set (map rev space_runes)" by (auto simp: list_ex_iff simp del: set_map)
  have first: "List.find (has_prefix (CHR 0x0A # r)) (map rev space_runes) = Some [CHR 0x0A]" for r
  proof (cases "List.find (has_prefix (CHR 0x0A # r)) (map rev space_runes)")
    case None
    with lf show ?thesis by (auto simp: find_None_iff has_prefix_def)
  next
    case (Some w)
    from find_SomeD [OF Some] have w: "w \<in> set (map rev space_runes)" "has_prefix (CHR 0x0A # r) w" by auto
    have "w \<noteq> []" using w(1) space_runes_ends by auto
    moreover obtain r' where "CHR 0x0A # r = w @ r'" using w(2) has_prefix_ex by blast
    ultimately have "hd w = CHR 0x0A" by (metis hd_append list.sel(1))
    with w(1) only have "w = [CHR 0x0A]" by (auto simp only: list_all_iff)
    with Some show ?thesis by simp
  qed
  have "trim_left (length (s @ [CHR 0x0A])) space_runes (s @ [CHR 0x0A]) = s @ [CHR 0x0A]"
    using assms ends space_runes_ends by (intro trim_left_visible) auto
  moreover have "trim_left (length s) (map rev space_runes) (rev s) = rev s"
    using assms ends space_runes_ends by (intro trim_left_visible) (auto simp: hd_rev)
  ultimately show ?thesis
    using first [of "rev s"] by (simp add: trim_space_def)
qed

lemma read_write_pidfile:
  assumes "0 \<le> pid" and "pid < 2 ^ 63"
  shows "read_pidfile (Some (write_pidfile pid)) = Present pid"
proof -
  obtain n where n: "pid = int n" using assms(1) by (metis nonneg_int_cases)
  define s where "s = digits10 (Suc n) n"
  have s: "s \<noteq> []" "\<forall>c \<in> set s. visible c \<and> is_digit c" "digits_val 0 s = Some n"
    using digits10_visible [of n "Suc n"] digits10_val [of n "Suc n"] by (simp_all add: s_def)
  have "hd s \<noteq> CHR ''-''" "hd s \<noteq> CHR ''+''"
    using s(2) hd_in_set [OF s(1)] by (fastforce simp: is_digit_def)+
  then have "atoi s = Some pid"
    using s assms(2) by (simp add: atoi_def n Let_def)
  moreover have "trim_space (write_pidfile pid) = s"
    using trim_newline [of s] s by (simp add: write_pidfile_def itoa_def n s_def)
  ultimately show ?thesis by (simp add: read_pidfile_def)
qed
section \<open>The processes\<close>

text \<open>
  Where a process is: not a daemon; in \<open>acquireSocket\<close> with the lock, after removing a leftover
  socket, and after listening; serving (with whether its pidfile was written); in \<open>Close\<close> after
  closing the listener and after removing the pidfile; or in \<open>IsRunning\<close> with the lock and after
  removing a leftover pidfile. A socket file carries the process whose listener made it.
\<close>

datatype phase =
    Off | Locked | Cleared | Listening | Serving bool | Unbound | Unlisted | Probing | ProbeDone

record site =
  lock :: "nat option"
  socket :: "nat option"
  pidfile :: "string option"
  phase_of :: "nat \<Rightarrow> phase"

datatype event = Quiet | StartRefused | StartFailed | Started | Answer bool

definition moved :: "nat \<Rightarrow> phase \<Rightarrow> site \<Rightarrow> site" where
  "moved p x s = s\<lparr>phase_of := (phase_of s)(p := x)\<rparr>"

definition unlocked :: "site \<Rightarrow> site" where
  "unlocked s = s\<lparr>lock := None\<rparr>"

text \<open>
  \<open>acquireSocket\<close> and \<open>Start\<close>. A failed pidfile write is ignored; it leaves the old content or an
  empty file.
\<close>

inductive start_step :: "nat \<Rightarrow> event \<Rightarrow> site \<Rightarrow> site \<Rightarrow> bool" where
  open_fails: "phase_of s p = Off \<Longrightarrow> start_step p StartFailed s s"
| contended: "phase_of s p = Off \<Longrightarrow> lock s = Some q \<Longrightarrow> start_step p StartRefused s s"
| locks: "phase_of s p = Off \<Longrightarrow> lock s = None \<Longrightarrow> start_step p Quiet s (moved p Locked s\<lparr>lock := Some p\<rparr>)"
| removes: "phase_of s p = Locked \<Longrightarrow> start_step p Quiet s (moved p Cleared s\<lparr>socket := None\<rparr>)"
| remove_fails: "phase_of s p = Locked \<Longrightarrow> start_step p StartFailed s (moved p Off (unlocked s))"
| listens: "phase_of s p = Cleared \<Longrightarrow> socket s = None \<Longrightarrow>
     start_step p Quiet s (moved p Listening s\<lparr>socket := Some p\<rparr>)"
| listen_fails: "phase_of s p = Cleared \<Longrightarrow> start_step p StartFailed s (moved p Off (unlocked s))"
| writes: "phase_of s p = Listening \<Longrightarrow>
     start_step p Started s (moved p (Serving True) s\<lparr>pidfile := Some (write_pidfile (int p))\<rparr>)"
| write_fails: "phase_of s p = Listening \<Longrightarrow> f \<in> {pidfile s, Some []} \<Longrightarrow>
     start_step p Started s (moved p (Serving False) s\<lparr>pidfile := f\<rparr>)"

inductive close_step :: "nat \<Rightarrow> site \<Rightarrow> site \<Rightarrow> bool" where
  unlinks: "phase_of s p = Serving w \<Longrightarrow> close_step p s (moved p Unbound s\<lparr>socket := None\<rparr>)"
| unlists: "phase_of s p = Unbound \<Longrightarrow> f \<in> {None, pidfile s} \<Longrightarrow>
     close_step p s (moved p Unlisted s\<lparr>pidfile := f\<rparr>)"
| unlocks: "phase_of s p = Unlisted \<Longrightarrow> close_step p s (moved p Off (unlocked s))"

inductive probe_step :: "nat \<Rightarrow> event \<Rightarrow> site \<Rightarrow> site \<Rightarrow> bool" where
  busy: "phase_of s p = Off \<Longrightarrow> lock s = Some q \<Longrightarrow> probe_step p (Answer True) s s"
| probes: "phase_of s p = Off \<Longrightarrow> lock s = None \<Longrightarrow> probe_step p Quiet s (moved p Probing s\<lparr>lock := Some p\<rparr>)"
| cleans: "phase_of s p = Probing \<Longrightarrow> f \<in> {None, pidfile s} \<Longrightarrow>
     probe_step p Quiet s (moved p ProbeDone s\<lparr>pidfile := f\<rparr>)"
| probed: "phase_of s p = ProbeDone \<Longrightarrow> probe_step p (Answer False) s (moved p Off (unlocked s))"

text \<open>A dying process leaves its files; the kernel releases its lock.\<close>

definition died :: "nat \<Rightarrow> site \<Rightarrow> site" where
  "died p s = moved p Off (if lock s = Some p then unlocked s else s)"

inductive site_step :: "event \<Rightarrow> site \<Rightarrow> site \<Rightarrow> bool" where
  start: "start_step p e s s' \<Longrightarrow> site_step e s s'"
| close: "close_step p s s' \<Longrightarrow> site_step Quiet s s'"
| probe: "probe_step p e s s' \<Longrightarrow> site_step e s s'"
| crash: "site_step Quiet s (died p s)"

inductive site_reaches :: "site \<Rightarrow> site \<Rightarrow> bool" where
  here: "site_reaches s s"
| further: "site_reaches s s' \<Longrightarrow> site_step e s' s'' \<Longrightarrow> site_reaches s s''"

definition idle :: "site \<Rightarrow> bool" where
  "idle s \<longleftrightarrow> lock s = None \<and> (\<forall>p. phase_of s p = Off)"

definition bound_phase :: "phase \<Rightarrow> bool" where
  "bound_phase x \<longleftrightarrow> x = Listening \<or> (\<exists>w. x = Serving w)"

definition site_inv :: "site \<Rightarrow> bool" where
  "site_inv s \<longleftrightarrow> (\<forall>p. phase_of s p \<noteq> Off \<longleftrightarrow> lock s = Some p)
     \<and> (\<forall>p. bound_phase (phase_of s p) \<longrightarrow> socket s = Some p)
     \<and> (\<forall>p. phase_of s p = Serving True \<longrightarrow> pidfile s = Some (write_pidfile (int p)))"

lemma site_fields [simp]:
  "lock (moved p x s) = lock s" "socket (moved p x s) = socket s" "pidfile (moved p x s) = pidfile s"
  "phase_of (moved p x s) = (phase_of s)(p := x)"
  "lock (unlocked s) = None" "socket (unlocked s) = socket s" "pidfile (unlocked s) = pidfile s"
  "phase_of (unlocked s) = phase_of s"
  by (simp_all add: moved_def unlocked_def)

text \<open>Only the holder of the lock is in a phase of its own, so a step of it changes nobody else's.\<close>

lemma site_inv_alone: "site_inv s \<Longrightarrow> phase_of s p \<noteq> Off \<Longrightarrow> phase_of s q \<noteq> Off \<Longrightarrow> p = q"
  by (simp add: site_inv_def)

lemma inv_lock: "site_inv s \<Longrightarrow> phase_of s p \<noteq> Off \<Longrightarrow> lock s = Some p"
  by (simp add: site_inv_def)

lemma holder_step:
  assumes inv: "site_inv s" and p: "phase_of s p \<noteq> Off \<or> lock s = None"
    and s': "phase_of s' = (phase_of s)(p := x)" "lock s' = (if x = Off then None else Some p)"
    and x: "bound_phase x \<longrightarrow> socket s' = Some p" "x = Serving True \<longrightarrow> pidfile s' = Some (write_pidfile (int p))"
  shows "site_inv s'"
proof -
  have off: "phase_of s q = Off" if "q \<noteq> p" for q
    using inv p that by (force simp: site_inv_def)
  then show ?thesis using s' x by (simp add: site_inv_def bound_phase_def)
qed

lemma site_inv_bound: "site_inv s \<Longrightarrow> bound_phase (phase_of s p) \<Longrightarrow> socket s = Some p"
  by (simp add: site_inv_def)

lemma start_step_inv:
  assumes "start_step p e s s'" and inv: "site_inv s"
  shows "site_inv s'"
  using assms(1)
proof cases
  case writes
  with site_inv_bound [OF inv, of p] inv_lock [OF inv, of p] show ?thesis
    by (intro holder_step [OF inv, of p _ "Serving True"]) (simp_all add: bound_phase_def)
next
  case (write_fails f)
  with site_inv_bound [OF inv, of p] inv_lock [OF inv, of p] show ?thesis
    by (intro holder_step [OF inv, of p _ "Serving False"]) (simp_all add: bound_phase_def)
next
  case locks
  then show ?thesis by (intro holder_step [OF inv, of p _ Locked]) (simp_all add: bound_phase_def)
next
  case removes
  then show ?thesis using inv_lock [OF inv, of p] by (intro holder_step [OF inv, of p _ Cleared]) (simp_all add: bound_phase_def)
next
  case listens
  then show ?thesis using inv_lock [OF inv, of p] by (intro holder_step [OF inv, of p _ Listening]) simp_all
next
  case remove_fails
  then show ?thesis by (intro holder_step [OF inv, of p _ Off]) (simp_all add: bound_phase_def)
next
  case listen_fails
  then show ?thesis by (intro holder_step [OF inv, of p _ Off]) (simp_all add: bound_phase_def)
qed (use inv in simp_all)

lemma close_step_inv:
  assumes "close_step p s s'" and inv: "site_inv s"
  shows "site_inv s'"
  using assms(1)
proof cases
  case (unlinks w)
  then show ?thesis using inv_lock [OF inv, of p] by (intro holder_step [OF inv, of p _ Unbound]) (simp_all add: bound_phase_def)
next
  case (unlists f)
  then show ?thesis using inv_lock [OF inv, of p] by (intro holder_step [OF inv, of p _ Unlisted]) (simp_all add: bound_phase_def)
next
  case unlocks
  then show ?thesis by (intro holder_step [OF inv, of p _ Off]) (simp_all add: bound_phase_def)
qed

lemma probe_step_inv:
  assumes "probe_step p e s s'" and inv: "site_inv s"
  shows "site_inv s'"
  using assms(1)
proof cases
  case probes
  then show ?thesis by (intro holder_step [OF inv, of p _ Probing]) (simp_all add: bound_phase_def)
next
  case (cleans f)
  then show ?thesis using inv_lock [OF inv, of p] by (intro holder_step [OF inv, of p _ ProbeDone]) (simp_all add: bound_phase_def)
next
  case probed
  then show ?thesis by (intro holder_step [OF inv, of p _ Off]) (simp_all add: bound_phase_def)
qed (use inv in simp_all)

lemma died_inv:
  assumes inv: "site_inv s"
  shows "site_inv (died p s)"
proof (cases "lock s = Some p")
  case True
  then show ?thesis using inv
    by (intro holder_step [OF inv, of p _ Off]) (simp_all add: died_def bound_phase_def site_inv_def)
next
  case False
  then have "phase_of s p = Off" using inv_lock [OF inv, of p] by auto
  then have "died p s = s" using False by (simp add: died_def moved_def fun_upd_idem)
  then show ?thesis using inv by simp
qed

lemma site_step_inv: "site_step e s s' \<Longrightarrow> site_inv s \<Longrightarrow> site_inv s'"
  by (erule site_step.cases) (auto intro: start_step_inv close_step_inv probe_step_inv died_inv)

lemma site_reaches_inv: "site_reaches s s' \<Longrightarrow> site_inv s \<Longrightarrow> site_inv s'"
  by (induction rule: site_reaches.induct) (auto intro: site_step_inv)

lemma idle_inv: "idle s \<Longrightarrow> site_inv s"
  by (simp add: idle_def site_inv_def bound_phase_def)


definition crashed_site :: site where
  "crashed_site = \<lparr>lock = None, socket = Some 9, pidfile = Some (write_pidfile 9), phase_of = (\<lambda>_. Off)\<rparr>"

lemma served_after_crash:
  "\<exists>s. site_reaches crashed_site s \<and> phase_of s 4 = Serving True"
proof -
  let ?s1 = "moved 4 Locked crashed_site\<lparr>lock := Some 4\<rparr>"
  let ?s2 = "moved 4 Cleared ?s1\<lparr>socket := None\<rparr>"
  let ?s3 = "moved 4 Listening ?s2\<lparr>socket := Some 4\<rparr>"
  let ?s4 = "moved 4 (Serving True) ?s3\<lparr>pidfile := Some (write_pidfile (int 4))\<rparr>"
  have "start_step 4 Quiet crashed_site ?s1" by (rule locks) (simp_all add: crashed_site_def)
  moreover have "start_step 4 Quiet ?s1 ?s2" by (rule removes) simp
  moreover have "start_step 4 Quiet ?s2 ?s3" by (rule listens) simp_all
  moreover have "start_step 4 Started ?s3 ?s4" by (rule writes) simp
  ultimately have "site_reaches crashed_site ?s4"
    by (meson site_reaches.here site_reaches.further site_step.start)
  moreover have "phase_of ?s4 4 = Serving True" by simp
  ultimately show ?thesis by blast
qed


text \<open>
  A probe is not a reader: it takes the lock itself. While one process probes, another is told that a
  daemon is running, and a daemon that starts is refused, though no process is a daemon.
\<close>

theorem probe_reports_running:
  "\<exists>s. site_reaches crashed_site s \<and> (\<forall>p. \<not> bound_phase (phase_of s p)) \<and> (\<forall>p. phase_of s p \<noteq> Locked)
     \<and> probe_step 2 (Answer True) s s \<and> start_step 3 StartRefused s s"
proof -
  let ?s = "moved 1 Probing crashed_site\<lparr>lock := Some 1\<rparr>"
  have "probe_step 1 Quiet crashed_site ?s" by (rule probes) (simp_all add: crashed_site_def)
  then have "site_reaches crashed_site ?s"
    by (meson site_reaches.here site_reaches.further site_step.probe)
  moreover have "probe_step 2 (Answer True) ?s ?s" by (rule busy [of _ _ 1]) (simp_all add: crashed_site_def)
  moreover have "start_step 3 StartRefused ?s ?s" by (rule contended [of _ _ 1]) (simp_all add: crashed_site_def)
  moreover have "\<not> bound_phase (phase_of ?s p) \<and> phase_of ?s p \<noteq> Locked" for p
    by (simp add: crashed_site_def bound_phase_def)
  ultimately show ?thesis by blast
qed

end
