(* ===== verification/Liveness.thy ===== *)
theory Liveness
  imports Session Manifest
begin

text \<open>
  The recovery pass (\<open>internal/liveness\<close>): the surfaces the recoverer consumes as a record of operations
  (each that reads the clock takes the reading), \<open>Scan\<close> with its accumulated errors, the loop, and
  the adapter of the ledger. The three map iterations visit their keys in an order of their own,
  given by \<open>rc_order\<close>.
\<close>

record in_flight_integration =
  if_id :: string
  if_holder :: string
  if_state :: string

text \<open>A count beside an error.\<close>

type_synonym 's counted = "'s \<Rightarrow> (nat \<times> err option) \<times> 's"

record 's recoverer =
  rc_expired :: "int \<Rightarrow> ('s, (string \<times> string) list) eff"
  rc_live :: "int \<Rightarrow> ('s, string list) eff"
  rc_reclaim :: "int \<Rightarrow> string \<Rightarrow> ('s, bool \<times> string) eff"
  rc_integ :: "(('s, in_flight_integration list) eff \<times> (string \<Rightarrow> ('s, unit) eff)) option"
  rc_bound :: "(string \<Rightarrow> ('s, unit) eff) option"
  rc_claims :: "(((string \<Rightarrow> bool) \<Rightarrow> 's counted) \<times> 's counted) option"
  rc_audit :: "string \<Rightarrow> string \<Rightarrow> payload \<Rightarrow> ('s, unit) eff"
  rc_trunk_key :: string
  rc_session_key :: string
  rc_order :: "nat \<Rightarrow> string list \<Rightarrow> string list"

record report =
  rp_reclaimed :: nat
  rp_aborted :: nat
  rp_torn_down :: nat
  rp_claims :: nat
  rp_gced :: nat
  rp_dead :: "string list"

definition no_report :: report where
  "no_report = \<lparr>rp_reclaimed = 0, rp_aborted = 0, rp_torn_down = 0, rp_claims = 0, rp_gced = 0, rp_dead = []\<rparr>"

text \<open>What a pass carries along: the report, the joined errors and the two sets of dead holders.\<close>

record pass =
  ps_report :: report
  ps_errs :: "err list"
  ps_trunk_dead :: "string list"
  ps_session_dead :: "string list"

definition add_err :: "err \<Rightarrow> pass \<Rightarrow> pass" where
  "add_err e p = p\<lparr>ps_errs := ps_errs p @ [e]\<rparr>"

definition map_report :: "(report \<Rightarrow> report) \<Rightarrow> pass \<Rightarrow> pass" where
  "map_report f p = p\<lparr>ps_report := f (ps_report p)\<rparr>"

definition timed :: "host \<Rightarrow> (int \<Rightarrow> ('s, 'a) eff) \<Rightarrow> ('s keeper, 'a) eff" where
  "timed host f = andThen (tick host) (\<lambda>now. on_store (f now))"

definition audited :: "'s recoverer \<Rightarrow> string \<Rightarrow> string \<Rightarrow> payload \<Rightarrow> 's keeper \<Rightarrow> 's keeper" where
  "audited r h kind p k = snd (on_store (rc_audit r h kind p) k)"

section \<open>The steps of a pass\<close>

text \<open>1: reclaim every expired lease and note whose trunk or session lease it was.\<close>

definition note_dead :: "'s recoverer \<Rightarrow> string \<Rightarrow> string \<Rightarrow> pass \<Rightarrow> pass" where
  "note_dead r key prior p =
     (let p1 = (if prior \<noteq> [] \<and> rc_trunk_key r \<noteq> [] \<and> key = rc_trunk_key r
                then p\<lparr>ps_trunk_dead := List.insert prior (ps_trunk_dead p)\<rparr> else p)
      in if prior \<noteq> [] \<and> rc_session_key r \<noteq> [] \<and> has_prefix key (rc_session_key r)
         then p1\<lparr>ps_session_dead := List.insert prior (ps_session_dead p1)\<rparr> else p1)"

definition reclaim_one :: "host \<Rightarrow> 's recoverer \<Rightarrow> string \<Rightarrow> pass \<Rightarrow> 's keeper \<Rightarrow> pass \<times> 's keeper" where
  "reclaim_one host r key p k =
     (case timed host (\<lambda>now. rc_reclaim r now key) k of
        (Inl e, k') \<Rightarrow> (add_err e p, k')
      | (Inr (reclaimed, prior), k') \<Rightarrow>
          if reclaimed then
            (note_dead r key prior (map_report (\<lambda>x. x\<lparr>rp_reclaimed := rp_reclaimed x + 1\<rparr>) p),
             audited r prior ''liveness.reclaimed'' (PQuoted [(''holder'', prior), (''key'', key)]) k')
          else (p, k'))"

fun reclaim_expired :: "host \<Rightarrow> 's recoverer \<Rightarrow> (string \<times> string) list \<Rightarrow> pass \<Rightarrow> 's keeper \<Rightarrow> pass \<times> 's keeper" where
  "reclaim_expired host r [] p k = (p, k)"
| "reclaim_expired host r ((key, holder) # es) p k =
     (case reclaim_one host r key p k of (p', k') \<Rightarrow> reclaim_expired host r es p' k')"

text \<open>2: the holders that are alive. A failed read leaves the set empty.\<close>

definition live_set :: "host \<Rightarrow> 's recoverer \<Rightarrow> pass \<Rightarrow> 's keeper \<Rightarrow> (string list \<times> pass) \<times> 's keeper" where
  "live_set host r p k =
     (case timed host (rc_live r) k of
        (Inl e, k') \<Rightarrow> (([], add_err e p), k')
      | (Inr hs, k') \<Rightarrow> ((hs, p), k'))"

text \<open>3: abort the integrations that a dead holder left validating.\<close>

fun abort_stuck :: "'s recoverer \<Rightarrow> (string \<Rightarrow> ('s, unit) eff) \<Rightarrow> string list \<Rightarrow> in_flight_integration list \<Rightarrow>
    pass \<Rightarrow> 's keeper \<Rightarrow> pass \<times> 's keeper" where
  "abort_stuck r abort live [] p k = (p, k)"
| "abort_stuck r abort live (i # is) p k =
     (if if_state i = ''validating'' \<and> if_holder i \<notin> set live then
        (case on_store (abort (if_id i)) k of
           (Inl e, k') \<Rightarrow> abort_stuck r abort live is (add_err e p) k'
         | (Inr _, k') \<Rightarrow> abort_stuck r abort live is
             (map_report (\<lambda>x. x\<lparr>rp_aborted := rp_aborted x + 1\<rparr>) p)
             (audited r (if_holder i) ''liveness.aborted'' (PQuoted [(''id'', if_id i)]) k'))
      else abort_stuck r abort live is p k)"

definition abort_dead :: "'s recoverer \<Rightarrow> string list \<Rightarrow> pass \<Rightarrow> 's keeper \<Rightarrow> pass \<times> 's keeper" where
  "abort_dead r live p k =
     (case rc_integ r of
        None \<Rightarrow> (p, k)
      | Some (in_flight, abort) \<Rightarrow>
          (case on_store in_flight k of
             (Inl e, k') \<Rightarrow> (add_err e p, k')
           | (Inr is, k') \<Rightarrow> abort_stuck r abort live is p k'))"

text \<open>4: tear down the boundary of every holder whose death was signalled and who is not alive.\<close>

definition death_signal :: "pass \<Rightarrow> string list" where
  "death_signal p = remdups (ps_trunk_dead p @ ps_session_dead p)"

fun tear_down :: "'s recoverer \<Rightarrow> (string \<Rightarrow> ('s, unit) eff) \<Rightarrow> string list \<Rightarrow> string list \<Rightarrow>
    pass \<Rightarrow> 's keeper \<Rightarrow> pass \<times> 's keeper" where
  "tear_down r teardown live [] p k = (p, k)"
| "tear_down r teardown live (h # hs) p k =
     (if h \<in> set live then
        tear_down r teardown live hs p (audited r h ''liveness.skipped_live_holder'' (PQuoted [(''holder'', h)]) k)
      else
        (case on_store (teardown h) k of
           (Inl e, k') \<Rightarrow> tear_down r teardown live hs (add_err e p) k'
         | (Inr _, k') \<Rightarrow> tear_down r teardown live hs
             (map_report (\<lambda>x. x\<lparr>rp_torn_down := rp_torn_down x + 1\<rparr>) p)
             (audited r h ''liveness.reclaimed_boundary'' (PQuoted [(''holder'', h)]) k')))"

definition tear_down_dead :: "'s recoverer \<Rightarrow> string list \<Rightarrow> pass \<Rightarrow> 's keeper \<Rightarrow> pass \<times> 's keeper" where
  "tear_down_dead r live p k =
     (case rc_bound r of
        None \<Rightarrow> (p, k)
      | Some teardown \<Rightarrow> tear_down r teardown live (rc_order r 0 (death_signal p)) p k)"

text \<open>5 and 6: requeue the reviews that a dead integrator claimed, and collect the old records.\<close>

definition counting :: "'s counted \<Rightarrow> 's keeper counted" where
  "counting m k = (case m (store k) of (x, s) \<Rightarrow> (x, k\<lparr>store := s\<rparr>))"

definition note_err :: "err option \<Rightarrow> pass \<Rightarrow> pass" where
  "note_err x p = (case x of None \<Rightarrow> p | Some e \<Rightarrow> add_err e p)"

definition count_audit :: "'s recoverer \<Rightarrow> string \<Rightarrow> nat \<Rightarrow> 's keeper \<Rightarrow> 's keeper" where
  "count_audit r kind n k =
     (if 0 < n then audited r [] kind (PJson (JObj [(''count'', JInt (int n))])) k else k)"

definition sweep_claims :: "'s recoverer \<Rightarrow> string list \<Rightarrow> pass \<Rightarrow> 's keeper \<Rightarrow> pass \<times> 's keeper" where
  "sweep_claims r live p k =
     (case rc_claims r of
        None \<Rightarrow> (p, k)
      | Some (reclaim, gc) \<Rightarrow>
          (case counting (reclaim (\<lambda>h. h \<notin> set live)) k of
             ((n, x), k1) \<Rightarrow>
               (let p1 = map_report (\<lambda>y. y\<lparr>rp_claims := n\<rparr>) (note_err x p);
                    k2 = count_audit r ''liveness.reclaimed_claims'' n k1
                in case counting gc k2 of
                     ((m, y), k3) \<Rightarrow>
                       (map_report (\<lambda>z. z\<lparr>rp_gced := m\<rparr>) (note_err y p1),
                        count_audit r ''liveness.gc_records'' m k3))))"

section \<open>The pass\<close>

definition scan :: "host \<Rightarrow> 's recoverer \<Rightarrow> 's keeper \<Rightarrow> (report \<times> err list) \<times> 's keeper" where
  "scan host r k =
     (case timed host (rc_expired r) k of
        (Inl e, k1) \<Rightarrow> ((no_report, [e]), k1)
      | (Inr es, k1) \<Rightarrow>
          (case reclaim_expired host r es \<lparr>ps_report = no_report, ps_errs = [], ps_trunk_dead = [], ps_session_dead = []\<rparr> k1 of
             (p2, k2) \<Rightarrow> (case live_set host r p2 k2 of
             ((live, p3), k3) \<Rightarrow> (case abort_dead r live p3 k3 of
             (p4, k4) \<Rightarrow> (case tear_down_dead r live p4 k4 of
             (p5, k5) \<Rightarrow> (case sweep_claims r live p5 k5 of
             (p6, k6) \<Rightarrow>
               (((ps_report p6)\<lparr>rp_dead := filter (\<lambda>h. h \<notin> set live) (rc_order r 1 (death_signal p6))\<rparr>,
                 ps_errs p6), k6)))))))"

definition scan_handler :: "host \<Rightarrow> 's recoverer \<Rightarrow> ('s keeper, json) handled" where
  "scan_handler host r k =
     (case scan host r k of
        ((rep, e # es), k') \<Rightarrow> (Inl (new_error code_internal (Joined (e # es))), k')
      | ((rep, []), k') \<Rightarrow> (Inr (JObj
          [(''aborted'', JInt (int (rp_aborted rep))),
           (''dead_holders'', if rp_dead rep = [] then JNull else JArr (map JStr (rp_dead rep))),
           (''reclaimed'', JInt (int (rp_reclaimed rep))), (''torn_down'', JInt (int (rp_torn_down rep)))]), k'))"

text \<open>
  The loop: one pass at once, then one per tick until the context ends. \<open>turns\<close> is the number of ticks
  before that, \<open>between\<close> what the rest of the daemon does before each of them.
\<close>

definition loop_interval :: "int \<Rightarrow> int" where
  "loop_interval n = (if n \<le> 0 then 5 * 10 ^ 9 else n)"

fun scan_loop :: "host \<Rightarrow> 's recoverer \<Rightarrow> (nat \<Rightarrow> 's keeper \<Rightarrow> 's keeper) \<Rightarrow> nat \<Rightarrow> 's keeper \<Rightarrow> 's keeper" where
  "scan_loop host r between 0 k = snd (scan host r k)"
| "scan_loop host r between (Suc n) k = snd (scan host r (between n (scan_loop host r between n k)))"

section \<open>The ledger as the lease surface\<close>

definition ledger_expired :: "int \<Rightarrow> (ledger, (string \<times> string) list) eff" where
  "ledger_expired now = andThen (expired_leases now) (\<lambda>is. ret (map (\<lambda>i. (i_key i, i_holder i)) is))"

definition ledger_live :: "int \<Rightarrow> (ledger, string list) eff" where
  "ledger_live now = andThen (list_holders now) (\<lambda>is. ret (map i_holder is))"

end
