(* ===== verification/LivenessFacts.thy ===== *)
theory LivenessFacts
  imports Liveness SessionFacts
begin

text \<open>
  What a recovery pass does to whom: the calls it makes, recorded by a wrapper of the recoverer; and,
  on the ledger, which leases it frees.
\<close>

section \<open>Recording the calls\<close>

datatype call =
    ReclaimCall string "err + bool \<times> string"
  | LiveRead "err + string list"
  | InFlightRead "err + in_flight_integration list"
  | AbortCall string
  | TearDown string
  | Sweep "string \<Rightarrow> bool"

type_synonym 's logged = "'s \<times> call list"

definition logging :: "('x \<Rightarrow> call list) \<Rightarrow> ('s \<Rightarrow> 'x \<times> 's) \<Rightarrow> 's logged \<Rightarrow> 'x \<times> 's logged" where
  "logging f m s = (case m (fst s) of (x, t) \<Rightarrow> (x, (t, snd s @ f x)))"

abbreviation silent :: "('s \<Rightarrow> 'x \<times> 's) \<Rightarrow> 's logged \<Rightarrow> 'x \<times> 's logged" where
  "silent \<equiv> logging (\<lambda>_. [])"

definition traced :: "'s recoverer \<Rightarrow> 's logged recoverer" where
  "traced r = \<lparr>
     rc_expired = (\<lambda>now. silent (rc_expired r now)),
     rc_live = (\<lambda>now. logging (\<lambda>x. [LiveRead x]) (rc_live r now)),
     rc_reclaim = (\<lambda>now key. logging (\<lambda>x. [ReclaimCall key x]) (rc_reclaim r now key)),
     rc_integ = map_option (\<lambda>(l, a). (logging (\<lambda>x. [InFlightRead x]) l, \<lambda>i. logging (\<lambda>_. [AbortCall i]) (a i))) (rc_integ r),
     rc_bound = map_option (\<lambda>t h. logging (\<lambda>_. [TearDown h]) (t h)) (rc_bound r),
     rc_claims = map_option (\<lambda>(c, g). (\<lambda>dead. logging (\<lambda>_. [Sweep dead]) (c dead), silent g)) (rc_claims r),
     rc_audit = (\<lambda>h kind p. silent (rc_audit r h kind p)),
     rc_trunk_key = rc_trunk_key r, rc_session_key = rc_session_key r, rc_order = rc_order r\<rparr>"

definition trace :: "'s logged keeper \<Rightarrow> call list" where
  "trace k = snd (store k)"

text \<open>\<open>calls P k k'\<close>: between the two states the trace grew by calls that satisfy \<open>P\<close>.\<close>

definition calls :: "(call \<Rightarrow> bool) \<Rightarrow> 's logged keeper \<Rightarrow> 's logged keeper \<Rightarrow> bool" where
  "calls P k k' \<longleftrightarrow> (\<exists>cs. trace k' = trace k @ cs \<and> list_all P cs)"

lemma calls_refl [simp]: "calls P k k"
  by (simp add: calls_def)

lemma calls_trans: "calls P k k' \<Longrightarrow> calls P k' k'' \<Longrightarrow> calls P k k''"
  by (auto simp: calls_def)

lemma calls_weaken: "calls P k k' \<Longrightarrow> (\<And>c. P c \<Longrightarrow> Q c) \<Longrightarrow> calls Q k k'"
  unfolding calls_def by (metis list.pred_mono_strong)

lemma calls_in: "calls P k k' \<Longrightarrow> c \<in> set (trace k') \<Longrightarrow> c \<in> set (trace k) \<or> P c"
  by (auto simp: calls_def list_all_iff)

lemma calls_grow: "calls P k k' \<Longrightarrow> set (trace k) \<subseteq> set (trace k')"
  by (auto simp: calls_def)

lemma trace_tick [simp]: "trace (k\<lparr>ticks := n\<rparr>) = trace k"
  by (simp add: trace_def)

lemma on_store_logging:
  "on_store (logging f m) k = (x, k') \<Longrightarrow> trace k' = trace k @ f x"
  by (auto simp: on_store_def logging_def trace_def split: prod.splits)

lemma counting_logging:
  "counting (logging f m) k = (x, k') \<Longrightarrow> trace k' = trace k @ f x"
  by (auto simp: counting_def logging_def trace_def split: prod.splits)

lemma timed_logging:
  "timed host (\<lambda>now. logging f (m now)) k = (x, k') \<Longrightarrow> trace k' = trace k @ f x"
  by (auto simp: timed_def tick_def andThen_eq dest: on_store_logging)

lemma trace_audited [simp]: "trace (audited (traced r) h kind p k) = trace k"
  by (simp add: audited_def traced_def on_store_def logging_def trace_def split: prod.split)

lemma trace_count_audit [simp]: "trace (count_audit (traced r) kind n k) = trace k"
  by (simp add: count_audit_def)

lemma calls_audited [simp]: "calls P k (audited (traced r) h kind p k') = calls P k k'"
  by (simp add: calls_def)

section \<open>The calls of each step\<close>

definition signalled :: "'s recoverer \<Rightarrow> string \<Rightarrow> call \<Rightarrow> bool" where
  "signalled r h c \<longleftrightarrow> (\<exists>key. c = ReclaimCall key (Inr (True, h))
     \<and> (key = rc_trunk_key r \<or> has_prefix key (rc_session_key r)))"

definition signals_in :: "'s recoverer \<Rightarrow> pass \<Rightarrow> call list \<Rightarrow> bool" where
  "signals_in r p cs \<longleftrightarrow> (\<forall>h \<in> set (death_signal p). \<exists>c \<in> set cs. signalled r h c)"

lemma death_signal_parts [simp]:
  "set (death_signal p) = set (ps_trunk_dead p) \<union> set (ps_session_dead p)"
  by (simp add: death_signal_def)

lemma traced_keys [simp]:
  "rc_trunk_key (traced r) = rc_trunk_key r" "rc_session_key (traced r) = rc_session_key r"
  "rc_order (traced r) = rc_order r"
  "rc_claims (traced r) = map_option (\<lambda>(c, g). (\<lambda>dead. logging (\<lambda>_. [Sweep dead]) (c dead), silent g)) (rc_claims r)"
  by (simp_all add: traced_def)

lemma signals_mono: "signals_in r p cs \<Longrightarrow> set cs \<subseteq> set cs' \<Longrightarrow> signals_in r p cs'"
  by (auto simp: signals_in_def)

lemma note_dead_signals:
  assumes "signals_in r p cs" and "ReclaimCall key (Inr (True, prior)) \<in> set cs"
  shows "signals_in r (note_dead (traced r) key prior (map_report f p)) cs"
  using assms by (auto simp: signals_in_def note_dead_def Let_def map_report_def signalled_def)

lemma reclaim_one_calls:
  assumes "reclaim_one host (traced r) key p k = (p', k')" and "signals_in r p (trace k)"
  shows "calls (\<lambda>c. \<exists>key x. c = ReclaimCall key x) k k' \<and> signals_in r p' (trace k')"
proof -
  obtain x k1 where t: "timed host (\<lambda>now. rc_reclaim (traced r) now key) k = (x, k1)"
    by (cases "timed host (\<lambda>now. rc_reclaim (traced r) now key) k")
  have tr: "trace k1 = trace k @ [ReclaimCall key x]"
    using t by (auto simp: traced_def dest: timed_logging)
  have s: "signals_in r p (trace k1)" using signals_mono [OF assms(2)] by (simp add: tr subset_insertI)
  have "trace k' = trace k1 \<and> signals_in r p' (trace k1)"
  proof (cases "\<exists>prior. x = Inr (True, prior)")
    case True
    then obtain prior where x: "x = Inr (True, prior)" by blast
    then have m: "ReclaimCall key (Inr (True, prior)) \<in> set (trace k1)" by (simp add: tr)
    from note_dead_signals [OF s m] assms(1) t show ?thesis
      by (auto simp: reclaim_one_def x)
  next
    case False
    then show ?thesis
      using assms(1) t s
      by (auto simp: reclaim_one_def add_err_def signals_in_def split: sum.splits prod.splits if_splits)
  qed
  then show ?thesis by (simp add: calls_def tr)
qed

lemma reclaim_expired_calls:
  "reclaim_expired host (traced r) es p k = (p', k') \<Longrightarrow> signals_in r p (trace k) \<Longrightarrow>
     calls (\<lambda>c. \<exists>key x. c = ReclaimCall key x) k k' \<and> signals_in r p' (trace k')"
proof (induction es arbitrary: p k)
  case Nil
  then show ?case by simp
next
  case (Cons e es)
  obtain key holder where e: "e = (key, holder)" by (cases e)
  obtain p1 k1 where one: "reclaim_one host (traced r) key p k = (p1, k1)"
    by (cases "reclaim_one host (traced r) key p k")
  from reclaim_one_calls [OF one Cons.prems(2)] Cons.IH [of p1 k1] Cons.prems(1) e one
  show ?case by (auto intro: calls_trans)
qed

definition read_live :: "err + string list \<Rightarrow> string list" where
  "read_live x = (case x of Inl _ \<Rightarrow> [] | Inr hs \<Rightarrow> hs)"

lemma live_set_calls:
  "live_set host (traced r) p k = ((live, p'), k') \<Longrightarrow>
     \<exists>x. trace k' = trace k @ [LiveRead x] \<and> live = read_live x
       \<and> ps_trunk_dead p' = ps_trunk_dead p \<and> ps_session_dead p' = ps_session_dead p"
  by (auto simp: live_set_def traced_def add_err_def read_live_def dest!: timed_logging split: prod.splits sum.splits)

definition stuck :: "string list \<Rightarrow> in_flight_integration list \<Rightarrow> string \<Rightarrow> bool" where
  "stuck live ifs i \<longleftrightarrow> (\<exists>j \<in> set ifs. if_id j = i \<and> if_state j = ''validating'' \<and> if_holder j \<notin> set live)"

definition same_dead :: "pass \<Rightarrow> pass \<Rightarrow> bool" where
  "same_dead p p' \<longleftrightarrow> ps_trunk_dead p' = ps_trunk_dead p \<and> ps_session_dead p' = ps_session_dead p"

lemma same_dead_simps [simp]:
  "same_dead p p" "same_dead p (add_err e p') = same_dead p p'" "same_dead p (map_report f p') = same_dead p p'"
  "same_dead (add_err e p) p' = same_dead p p'" "same_dead (map_report f p) p' = same_dead p p'"
  "same_dead p (note_err x p') = same_dead p p'"
  by (auto simp: same_dead_def add_err_def map_report_def note_err_def split: option.split)

lemma abort_stuck_calls:
  assumes "abort_stuck (traced r) (\<lambda>i. logging (\<lambda>_. [AbortCall i]) (a i)) live ifs p k = (p', k')"
  shows "calls (\<lambda>c. \<exists>i. c = AbortCall i \<and> stuck live ifs i) k k' \<and> same_dead p p'"
  using assms
proof (induction ifs arbitrary: p k)
  case Nil
  then show ?case by simp
next
  case (Cons i ifs)
  let ?abort = "\<lambda>i. logging (\<lambda>_. [AbortCall i]) (a i)"
  have more: "calls (\<lambda>c. \<exists>j. c = AbortCall j \<and> stuck live (i # ifs) j) k1 k'" and d: "same_dead p1 p'"
    if "abort_stuck (traced r) ?abort live ifs p1 k1 = (p', k')" for p1 k1
    using Cons.IH [OF that] by (auto elim!: calls_weaken simp: stuck_def)
  show ?case
  proof (cases "if_state i = ''validating'' \<and> if_holder i \<notin> set live")
    case False
    then show ?thesis using Cons.prems more d by (simp split: if_splits)
  next
    case True
    obtain x k1 where x: "on_store (?abort (if_id i)) k = (x, k1)"
      by (cases "on_store (?abort (if_id i)) k")
    have "calls (\<lambda>c. \<exists>j. c = AbortCall j \<and> stuck live (i # ifs) j) k k1"
      using on_store_logging [OF x] True by (auto simp: calls_def stuck_def)
    moreover obtain p1 k2 where rest: "abort_stuck (traced r) ?abort live ifs p1 k2 = (p', k')"
      and "trace k2 = trace k1" and "same_dead p p1"
      using Cons.prems True x by (cases x) auto
    ultimately have "calls (\<lambda>c. \<exists>j. c = AbortCall j \<and> stuck live (i # ifs) j) k k2" "same_dead p p'"
      using d [OF rest] by (simp_all add: calls_def same_dead_def)
    then show ?thesis using more [OF rest] by (blast intro: calls_trans)
  qed
qed

lemma abort_dead_calls:
  assumes "abort_dead (traced r) live p k = (p', k')"
  shows "same_dead p p' \<and> calls (\<lambda>c. (\<exists>x. c = InFlightRead x)
      \<or> (\<exists>i ifs. c = AbortCall i \<and> InFlightRead (Inr ifs) \<in> set (trace k') \<and> stuck live ifs i)) k k'"
proof (cases "rc_integ r")
  case None
  then show ?thesis using assms by (simp add: abort_dead_def traced_def)
next
  case (Some la)
  obtain l a where la: "la = (l, a)" by (cases la)
  obtain x k1 where x: "on_store (logging (\<lambda>x. [InFlightRead x]) l) k = (x, k1)"
    by (cases "on_store (logging (\<lambda>x. [InFlightRead x]) l) k")
  have tr: "trace k1 = trace k @ [InFlightRead x]" using on_store_logging [OF x] .
  have integ: "rc_integ (traced r) = Some (logging (\<lambda>x. [InFlightRead x]) l, \<lambda>i. logging (\<lambda>_. [AbortCall i]) (a i))"
    using Some la by (simp add: traced_def)
  show ?thesis
  proof (cases x)
    case (Inl e)
    then show ?thesis using assms x integ tr by (auto simp: abort_dead_def calls_def)
  next
    case (Inr ifs)
    then have rest: "abort_stuck (traced r) (\<lambda>i. logging (\<lambda>_. [AbortCall i]) (a i)) live ifs p k1 = (p', k')"
      using assms x integ by (simp add: abort_dead_def)
    note c = abort_stuck_calls [OF rest]
    have "InFlightRead (Inr ifs) \<in> set (trace k')"
      using calls_grow [of _ k1 k'] c tr Inr by fastforce
    then have "calls (\<lambda>c. (\<exists>x. c = InFlightRead x)
      \<or> (\<exists>i ifs. c = AbortCall i \<and> InFlightRead (Inr ifs) \<in> set (trace k') \<and> stuck live ifs i)) k1 k'"
      by (intro calls_weaken [OF conjunct1 [OF c]]) blast
    moreover have "calls (\<lambda>c. (\<exists>x. c = InFlightRead x)
      \<or> (\<exists>i ifs. c = AbortCall i \<and> InFlightRead (Inr ifs) \<in> set (trace k') \<and> stuck live ifs i)) k k1"
      using tr by (simp add: calls_def)
    ultimately show ?thesis using c by (blast intro: calls_trans)
  qed
qed

lemma tear_down_calls:
  assumes "tear_down (traced r) (\<lambda>h. logging (\<lambda>_. [TearDown h]) (t h)) live hs p k = (p', k')"
  shows "same_dead p p' \<and> calls (\<lambda>c. \<exists>h. c = TearDown h \<and> h \<in> set hs \<and> h \<notin> set live) k k'"
  using assms
proof (induction hs arbitrary: p k)
  case Nil
  then show ?case by simp
next
  case (Cons h hs)
  let ?P = "\<lambda>c. \<exists>g. c = TearDown g \<and> g \<in> set (h # hs) \<and> g \<notin> set live"
  let ?t = "\<lambda>h. logging (\<lambda>_. [TearDown h]) (t h)"
  obtain p1 k1 where rest: "tear_down (traced r) ?t live hs p1 k1 = (p', k')" and "same_dead p p1"
    and one: "calls ?P k k1"
  proof (cases "h \<in> set live")
    case True
    then show thesis using Cons.prems that by auto
  next
    case False
    obtain x k1 where x: "on_store (?t h) k = (x, k1)" by (cases "on_store (?t h) k")
    have c: "calls ?P k k1" using on_store_logging [OF x] False by (auto simp: calls_def)
    show thesis
      using Cons.prems False x c
      by (cases x) (auto intro!: that simp: calls_def)
  qed
  moreover have "calls ?P k1 k'" and "same_dead p1 p'"
    using Cons.IH [OF rest] by (auto elim!: calls_weaken)
  ultimately show ?case by (auto intro: calls_trans simp: same_dead_def)
qed

lemma tear_down_dead_calls:
  assumes "tear_down_dead (traced r) live p k = (p', k')" and "\<And>n hs. set (rc_order r n hs) = set hs"
  shows "same_dead p p' \<and>
    calls (\<lambda>c. \<exists>h. c = TearDown h \<and> h \<in> set (death_signal p) \<and> h \<notin> set live) k k'"
proof (cases "rc_bound r")
  case None
  then show ?thesis using assms(1) by (simp add: tear_down_dead_def traced_def)
next
  case (Some t)
  then have "tear_down (traced r) (\<lambda>h. logging (\<lambda>_. [TearDown h]) (t h)) live (rc_order r 0 (death_signal p)) p k = (p', k')"
    using assms(1) by (simp add: tear_down_dead_def traced_def)
  from tear_down_calls [OF this] show ?thesis by (simp add: assms(2))
qed

lemma sweep_claims_calls:
  assumes "sweep_claims (traced r) live p k = (p', k')"
  shows "calls (\<lambda>c. c = Sweep (\<lambda>h. h \<notin> set live)) k k'"
  using assms
  by (auto simp: sweep_claims_def calls_def Let_def dest!: counting_logging
      split: option.splits prod.splits)
section \<open>The pass spares the living\<close>

lemma scan_calls:
  assumes "\<And>n hs. set (rc_order r n hs) = set hs" and "scan host (traced r) k = (res, k')" and "trace k = []"
  shows "(\<forall>h. TearDown h \<in> set (trace k') \<longrightarrow> (\<exists>c \<in> set (trace k'). signalled r h c))
    \<and> (\<forall>x. LiveRead x \<in> set (trace k') \<longrightarrow>
        (\<forall>h. TearDown h \<in> set (trace k') \<longrightarrow> h \<notin> set (read_live x))
      \<and> (\<forall>i. AbortCall i \<in> set (trace k') \<longrightarrow> (\<exists>ifs. InFlightRead (Inr ifs) \<in> set (trace k')
            \<and> stuck (read_live x) ifs i))
      \<and> (\<forall>dead. Sweep dead \<in> set (trace k') \<longrightarrow> dead = (\<lambda>h. h \<notin> set (read_live x))))"
proof -
  obtain x k1 where e: "timed host (rc_expired (traced r)) k = (x, k1)"
    by (cases "timed host (rc_expired (traced r)) k")
  have "trace k1 = trace k @ []"
    using e by (auto simp: traced_def dest: timed_logging)
  then have t1: "trace k1 = []" by (simp add: assms(3))
  show ?thesis
  proof (cases x)
    case (Inl err)
    then have "trace k' = []" using assms(2) e t1 by (simp add: scan_def)
    then show ?thesis by simp
  next
    case (Inr es)
    define p1 where "p1 = \<lparr>ps_report = no_report, ps_errs = [], ps_trunk_dead = [], ps_session_dead = []\<rparr>"
    obtain p2 k2 where s2: "reclaim_expired host (traced r) es p1 k1 = (p2, k2)"
      by (cases "reclaim_expired host (traced r) es p1 k1")
    obtain live p3 k3 where s3: "live_set host (traced r) p2 k2 = ((live, p3), k3)"
      by (cases "live_set host (traced r) p2 k2") auto
    obtain p4 k4 where s4: "abort_dead (traced r) live p3 k3 = (p4, k4)"
      by (cases "abort_dead (traced r) live p3 k3")
    obtain p5 k5 where s5: "tear_down_dead (traced r) live p4 k4 = (p5, k5)"
      by (cases "tear_down_dead (traced r) live p4 k4")
    obtain p6 k6 where s6: "sweep_claims (traced r) live p5 k5 = (p6, k6)"
      by (cases "sweep_claims (traced r) live p5 k5")
    have k': "k' = k6" using assms(2) e Inr s2 s3 s4 s5 s6 by (simp add: scan_def p1_def)
    have c2: "calls (\<lambda>c. \<exists>key x. c = ReclaimCall key x) k1 k2" and sig2: "signals_in r p2 (trace k2)"
      using reclaim_expired_calls [OF s2] by (auto simp: signals_in_def p1_def)
    obtain y where y: "trace k3 = trace k2 @ [LiveRead y]" "live = read_live y"
      and d3: "set (death_signal p3) = set (death_signal p2)"
      using live_set_calls [OF s3] by auto
    note c4 = abort_dead_calls [OF s4] and c5 = tear_down_dead_calls [OF s5 assms(1)]
      and c6 = sweep_claims_calls [OF s6]
    have g: "set (trace k2) \<subseteq> set (trace k3)" "set (trace k3) \<subseteq> set (trace k4)"
      "set (trace k4) \<subseteq> set (trace k5)" "set (trace k5) \<subseteq> set (trace k6)"
      using y(1) calls_grow [OF conjunct2 [OF c4]] calls_grow [OF conjunct2 [OF c5]] calls_grow [OF c6]
      by auto
    have kinds: "(\<exists>key x. c = ReclaimCall key x) \<or> c = LiveRead y \<or> (\<exists>x. c = InFlightRead x)
        \<or> (\<exists>i ifs. c = AbortCall i \<and> InFlightRead (Inr ifs) \<in> set (trace k6) \<and> stuck live ifs i)
        \<or> (\<exists>h. c = TearDown h \<and> h \<in> set (death_signal p4) \<and> h \<notin> set live)
        \<or> c = Sweep (\<lambda>h. h \<notin> set live)" if "c \<in> set (trace k6)" for c
      using calls_in [OF c6 that] calls_in [OF conjunct2 [OF c5], of c] calls_in [OF conjunct2 [OF c4], of c]
        calls_in [OF c2, of c] y(1) t1 g by auto blast
    have "signals_in r p4 (trace k6)"
      using signals_mono [OF sig2, of "trace k6"] c4 d3 g by (auto simp: signals_in_def same_dead_def)
    then have "\<exists>c \<in> set (trace k6). signalled r h c" if "TearDown h \<in> set (trace k6)" for h
      using kinds [OF that] by (auto simp: signals_in_def)
    moreover have "z = y" if "LiveRead z \<in> set (trace k6)" for z
      using kinds [OF that] by auto
    moreover have "h \<notin> set live" if "TearDown h \<in> set (trace k6)" for h
      using kinds [OF that] by blast
    moreover have "\<exists>ifs. InFlightRead (Inr ifs) \<in> set (trace k6) \<and> stuck live ifs i"
      if "AbortCall i \<in> set (trace k6)" for i
      using kinds [OF that] by blast
    moreover have "dead = (\<lambda>h. h \<notin> set live)" if "Sweep dead \<in> set (trace k6)" for dead
      using kinds [OF that] by blast
    ultimately show ?thesis unfolding k' y(2) by blast
  qed
qed

text \<open>
  C26: a pass tears down only the boundary of a holder whose trunk or session lease it has just
  reclaimed; and if the live holders could be read, it neither tears down the boundary of a holder that
  is among them, nor aborts an integration of one (only integrations found validating are aborted), nor
  lets the review plane requeue a claim of one.
\<close>

theorem scan_spares_live:
  assumes "\<And>n hs. set (rc_order r n hs) = set hs" and "scan host (traced r) k = (res, k')" and "trace k = []"
  shows "(\<forall>h. TearDown h \<in> set (trace k') \<longrightarrow> (\<exists>c \<in> set (trace k'). signalled r h c))
    \<and> (\<forall>hs. LiveRead (Inr hs) \<in> set (trace k') \<longrightarrow>
        (\<forall>h. TearDown h \<in> set (trace k') \<longrightarrow> h \<notin> set hs)
      \<and> (\<forall>i. AbortCall i \<in> set (trace k') \<longrightarrow>
            (\<exists>ifs. InFlightRead (Inr ifs) \<in> set (trace k') \<and> stuck hs ifs i))
      \<and> (\<forall>dead. Sweep dead \<in> set (trace k') \<longrightarrow> dead = (\<lambda>h. h \<notin> set hs)))"
  using scan_calls [OF assms] by (auto simp: read_live_def)

section \<open>Which leases a pass frees\<close>

definition freed :: "lease_row \<Rightarrow> lease_row" where
  "freed r = r\<lparr>l_holder := [], l_expires := 0, l_fence := l_fence r + 1\<rparr>"

definition lapsed :: "int \<Rightarrow> lease_row \<Rightarrow> bool" where
  "lapsed now r \<longleftrightarrow> l_holder r \<noteq> [] \<and> l_expires r \<le> now"

lemma lapsed_eq: "lapsed now = (\<lambda>r. l_holder r \<noteq> [] \<and> l_expires r \<le> now)"
  by (simp add: lapsed_def fun_eq_iff)

definition keeps_rows :: "('s \<Rightarrow> lease_row list) \<Rightarrow> ('s \<Rightarrow> bool) \<Rightarrow> 's \<Rightarrow> 's \<Rightarrow> bool" where
  "keeps_rows rows fine s s' \<longleftrightarrow> (fine s \<longrightarrow> fine s' \<and> rows s' = rows s)"

locale lease_plane =
  fixes r :: "'s recoverer" and rows :: "'s \<Rightarrow> lease_row list" and fine :: "'s \<Rightarrow> bool"
  assumes expired_read: "fine s \<Longrightarrow> \<exists>es s'. rc_expired r now s = (Inr es, s') \<and> keeps_rows rows fine s s'
      \<and> fst ` set es = l_key ` {x \<in> set (rows s). lapsed now x} \<and> length es = length (filter (lapsed now) (rows s))
      \<and> distinct (map fst es)"
    and live_read: "fine s \<Longrightarrow> \<exists>hs s'. rc_live r now s = (Inr hs, s') \<and> keeps_rows rows fine s s'"
    and reclaim_row: "fine s \<Longrightarrow> \<exists>b prior s'. rc_reclaim r now key s = (Inr (b, prior), s') \<and> fine s'
      \<and> rows s' = map (\<lambda>x. if l_key x = key \<and> lapsed now x then freed x else x) (rows s)
      \<and> (b \<longleftrightarrow> (\<exists>x \<in> set (rows s). l_key x = key \<and> lapsed now x))"
    and keys: "fine s \<Longrightarrow> distinct (map l_key (rows s))"
    and audit_keeps: "within (keeps_rows rows fine) (rc_audit r h kind p)"
    and integ_keeps: "rc_integ r = Some (l, a) \<Longrightarrow>
      within (keeps_rows rows fine) l \<and> within (keeps_rows rows fine) (a i)"
    and bound_keeps: "rc_bound r = Some t \<Longrightarrow> within (keeps_rows rows fine) (t h)"
    and claims_keep: "rc_claims r = Some (c, g) \<Longrightarrow>
      keeps_rows rows fine s (snd (c dead s)) \<and> keeps_rows rows fine s (snd (g s))"
begin

lemma reclaim_expired_rows:
  assumes "fine (store k)" and "mono (clock host)" and "n0 \<le> ticks k" and "distinct (map fst es)"
    and "\<forall>x \<in> set (rows (store k)). l_key x \<in> fst ` set es \<longrightarrow> lapsed (clock host n0) x"
    and "fst ` set es \<subseteq> l_key ` set (rows (store k))"
    and "reclaim_expired host r es p k = (p', k')"
  shows "fine (store k') \<and> rows (store k') = map (\<lambda>x. if l_key x \<in> fst ` set es then freed x else x) (rows (store k))
    \<and> rp_reclaimed (ps_report p') = rp_reclaimed (ps_report p) + length es \<and> ps_errs p' = ps_errs p"
  using assms
proof (induction es arbitrary: p k)
  case Nil
  then show ?case by simp
next
  case (Cons e es)
  obtain key holder where e: "e = (key, holder)" by (cases e)
  let ?now = "clock host (ticks k)"
  obtain b prior s1 where rc: "rc_reclaim r ?now key (store k) = (Inr (b, prior), s1)" and f1: "fine s1"
    and rows1: "rows s1 = map (\<lambda>x. if l_key x = key \<and> lapsed ?now x then freed x else x) (rows (store k))"
    and b: "b \<longleftrightarrow> (\<exists>x \<in> set (rows (store k)). l_key x = key \<and> lapsed ?now x)"
    using reclaim_row [OF Cons.prems(1)] by blast
  have later: "clock host n0 \<le> ?now" using monoD [OF Cons.prems(2,3)] .
  have lap: "lapsed ?now x" if "x \<in> set (rows (store k))" "l_key x = key" for x
    using Cons.prems(5) that later by (auto simp: e lapsed_def)
  then have b: b using b Cons.prems(6) by (auto simp: e)
  define k1 where "k1 = audited r prior ''liveness.reclaimed'' (PQuoted [(''holder'', prior), (''key'', key)])
      (k\<lparr>ticks := ticks k + 1, store := s1\<rparr>)"
  have one: "reclaim_one host r key p k
      = (note_dead r key prior (map_report (\<lambda>x. x\<lparr>rp_reclaimed := rp_reclaimed x + 1\<rparr>) p), k1)"
    by (simp add: reclaim_one_def timed_def tick_def andThen_eq on_store_def rc b k1_def)
  have k1: "keeps_rows rows fine s1 (store k1)" "ticks k1 = ticks k + 1"
    using withinD [OF audit_keeps, of s1] by (simp_all add: k1_def audited_def) (simp add: on_store_def split: prod.split)
  have r1: "rows (store k1) = map (\<lambda>x. if l_key x = key then freed x else x) (rows (store k))"
    using k1(1) f1 rows1 lap by (simp add: keeps_rows_def cong: map_cong)
  have notin: "key \<notin> fst ` set es" using Cons.prems(4) by (simp add: e)
  have same: "ps_errs (note_dead r key prior q) = ps_errs q" "ps_report (note_dead r key prior q) = ps_report q" for q
    by (simp_all add: note_dead_def Let_def)
  have "fine (store k') \<and> rows (store k') = map (\<lambda>x. if l_key x \<in> fst ` set es then freed x else x) (rows (store k1))
    \<and> rp_reclaimed (ps_report p') = rp_reclaimed (ps_report (note_dead r key prior
        (map_report (\<lambda>x. x\<lparr>rp_reclaimed := rp_reclaimed x + 1\<rparr>) p))) + length es
    \<and> ps_errs p' = ps_errs (note_dead r key prior (map_report (\<lambda>x. x\<lparr>rp_reclaimed := rp_reclaimed x + 1\<rparr>) p))"
  proof (rule Cons.IH)
    show "fine (store k1)" using k1 f1 by (simp add: keeps_rows_def)
    show "mono (clock host)" by fact
    show "n0 \<le> ticks k1" using Cons.prems(3) k1 by simp
    show "distinct (map fst es)" using Cons.prems(4) by simp
    show "\<forall>x \<in> set (rows (store k1)). l_key x \<in> fst ` set es \<longrightarrow> lapsed (clock host n0) x"
    proof (intro ballI impI)
      fix x assume x: "x \<in> set (rows (store k1))" and kx: "l_key x \<in> fst ` set es"
      then obtain y where y: "y \<in> set (rows (store k))" "x = (if l_key y = key then freed y else y)"
        by (auto simp: r1)
      have "l_key y = l_key x" using y by (simp add: freed_def)
      then have "l_key y \<noteq> key" using notin kx by auto
      with y have "x = y" by simp
      then show "lapsed (clock host n0) x" using Cons.prems(5) y(1) kx by simp
    qed
    show "fst ` set es \<subseteq> l_key ` set (rows (store k1))"
    proof
      fix key' assume "key' \<in> fst ` set es"
      then obtain y where y: "y \<in> set (rows (store k))" "l_key y = key'" using Cons.prems(6) by auto
      have "l_key (if l_key y = key then freed y else y) = key'" using y(2) by (simp add: freed_def)
      then show "key' \<in> l_key ` set (rows (store k1))"
        unfolding r1 set_map using y(1) by (metis (no_types, lifting) imageI)
    qed
    show "reclaim_expired host r es (note_dead r key prior
        (map_report (\<lambda>x. x\<lparr>rp_reclaimed := rp_reclaimed x + 1\<rparr>) p)) k1 = (p', k')"
      using Cons.prems(7) one by (simp add: e)
  qed
  then show ?case
    using notin by (auto simp: r1 e same map_report_def freed_def intro!: map_cong)
qed

lemma audited_keeps: "keeps_rows rows fine (store k) (store (audited r h kind p k))"
  using withinD [OF audit_keeps, of "store k"] by (simp add: audited_def)

lemma count_audit_keeps: "keeps_rows rows fine (store k) (store (count_audit r kind n k))"
  using audited_keeps by (simp add: count_audit_def keeps_rows_def)

lemma keeps_rows_trans: "keeps_rows rows fine s s' \<Longrightarrow> keeps_rows rows fine s' s'' \<Longrightarrow> keeps_rows rows fine s s''"
  by (simp add: keeps_rows_def)

lemma keeps_rows_refl: "keeps_rows rows fine s s"
  by (simp add: keeps_rows_def)

lemma abort_stuck_keeps:
  assumes "\<And>i. within (keeps_rows rows fine) (a i)"
  shows "keeps_rows rows fine (store k) (store (snd (abort_stuck r a live ifs p k)))"
proof (induction ifs arbitrary: p k)
  case Nil
  then show ?case by (simp add: keeps_rows_refl)
next
  case (Cons i ifs)
  obtain x k1 where x: "on_store (a (if_id i)) k = (x, k1)" by (cases "on_store (a (if_id i)) k")
  have k1: "keeps_rows rows fine (store k) (store k1)"
    using withinD [OF assms, of "store k" "if_id i"] store_parts(4) [of "a (if_id i)" k] by (simp add: x)
  have k2: "keeps_rows rows fine (store k1) (store (audited r (if_holder i) ''liveness.aborted'' (PQuoted [(''id'', if_id i)]) k1))"
    by (rule audited_keeps)
  note steps = Cons.IH keeps_rows_trans [OF k1 Cons.IH] keeps_rows_trans [OF keeps_rows_trans [OF k1 k2] Cons.IH]
  show ?case
  proof (cases "if_state i = ''validating'' \<and> if_holder i \<notin> set live")
    case False
    then show ?thesis using steps(1) by (simp only: abort_stuck.simps if_False)
  next
    case True
    then show ?thesis using steps by (cases x) (simp_all add: x)
  qed
qed

lemma tear_down_keeps:
  assumes "\<And>h. within (keeps_rows rows fine) (t h)"
  shows "keeps_rows rows fine (store k) (store (snd (tear_down r t live hs p k)))"
proof (induction hs arbitrary: p k)
  case Nil
  then show ?case by (simp add: keeps_rows_refl)
next
  case (Cons h hs)
  obtain x k1 where x: "on_store (t h) k = (x, k1)" by (cases "on_store (t h) k")
  have k1: "keeps_rows rows fine (store k) (store k1)"
    using withinD [OF assms, of "store k" h] store_parts(4) [of "t h" k] by (simp add: x)
  have au: "keeps_rows rows fine (store j) (store (audited r h kind q j))" for kind q j
    by (rule audited_keeps)
  have torn: "keeps_rows rows fine (store k) (store (snd (tear_down r t live hs q (audited r h kind y j))))"
    if "keeps_rows rows fine (store k) (store j)" for kind y j q
    using keeps_rows_trans [OF keeps_rows_trans [OF that au] Cons.IH] .
  show ?case
    using torn [OF k1] torn [OF keeps_rows_refl] keeps_rows_trans [OF k1 Cons.IH]
    by (cases x) (auto simp: x)
qed

lemma counting_store [simp]: "store (snd (counting m k)) = snd (m (store k))"
  by (simp add: counting_def split: prod.split)

lemma abort_dead_keeps: "keeps_rows rows fine (store k) (store (snd (abort_dead r live p k)))"
proof (cases "rc_integ r")
  case None
  then show ?thesis by (simp add: abort_dead_def keeps_rows_refl)
next
  case (Some la)
  obtain l a where la: "rc_integ r = Some (l, a)" using Some by (cases la) auto
  obtain x k1 where x: "on_store l k = (x, k1)" by (cases "on_store l k")
  have k1: "keeps_rows rows fine (store k) (store k1)"
    using withinD [OF conjunct1 [OF integ_keeps [OF la]], of "store k"] store_parts(4) [of l k] by (simp add: x)
  show ?thesis
    using k1 keeps_rows_trans [OF k1 abort_stuck_keeps [OF conjunct2 [OF integ_keeps [OF la]]]]
    by (cases x) (simp_all add: abort_dead_def la x)
qed

lemma tear_down_dead_keeps: "keeps_rows rows fine (store k) (store (snd (tear_down_dead r live p k)))"
  by (cases "rc_bound r") (auto simp: tear_down_dead_def keeps_rows_refl intro!: tear_down_keeps bound_keeps)

lemma sweep_claims_keeps: "keeps_rows rows fine (store k) (store (snd (sweep_claims r live p k)))"
proof (cases "rc_claims r")
  case None
  then show ?thesis by (simp add: sweep_claims_def keeps_rows_refl)
next
  case (Some cg)
  obtain c g where cg: "rc_claims r = Some (c, g)" using Some by (cases cg) auto
  obtain n x k1 where c: "counting (c (\<lambda>h. h \<notin> set live)) k = ((n, x), k1)"
    by (cases "counting (c (\<lambda>h. h \<notin> set live)) k") auto
  let ?k2 = "count_audit r ''liveness.reclaimed_claims'' n k1"
  obtain m y k3 where g: "counting g ?k2 = ((m, y), k3)" by (cases "counting g ?k2") auto
  have "keeps_rows rows fine (store k) (store k1)" "keeps_rows rows fine (store ?k2) (store k3)"
    using claims_keep [OF cg] counting_store [of "c (\<lambda>h. h \<notin> set live)" k] counting_store [of g ?k2]
    by (simp_all add: c g)
  then have "keeps_rows rows fine (store k) (store (count_audit r ''liveness.gc_records'' m k3))"
    using count_audit_keeps keeps_rows_trans by blast
  then show ?thesis by (simp add: sweep_claims_def cg c g)
qed

lemma scan_rows:
  assumes "fine (store k)" and "mono (clock host)"
  shows "rows (store (snd (scan host r k)))
      = map (\<lambda>x. if lapsed (clock host (ticks k)) x then freed x else x) (rows (store k))
    \<and> fine (store (snd (scan host r k)))"
proof -
  let ?now = "clock host (ticks k)"
  obtain es s1 where e: "rc_expired r ?now (store k) = (Inr es, s1)" and s1: "keeps_rows rows fine (store k) s1"
    and es: "fst ` set es = l_key ` {x \<in> set (rows (store k)). lapsed ?now x}" "distinct (map fst es)"
    using expired_read [OF assms(1)] by blast
  define k1 where "k1 = k\<lparr>ticks := ticks k + 1, store := s1\<rparr>"
  have t: "timed host (rc_expired r) k = (Inr es, k1)"
    by (simp add: timed_def tick_def andThen_eq on_store_def e k1_def)
  have k1: "fine (store k1)" "rows (store k1) = rows (store k)" "ticks k \<le> ticks k1"
    using s1 assms(1) by (simp_all add: k1_def keeps_rows_def)
  define p1 where "p1 = \<lparr>ps_report = no_report, ps_errs = [], ps_trunk_dead = [], ps_session_dead = []\<rparr>"
  obtain p2 k2 where s2: "reclaim_expired host r es p1 k1 = (p2, k2)" by (cases "reclaim_expired host r es p1 k1")
  have lap: "lapsed ?now x" if "x \<in> set (rows (store k))" "l_key x \<in> fst ` set es" for x
    using that keys [OF assms(1)] by (auto simp: es(1) distinct_map inj_on_def)
  have r2: "fine (store k2)" "rows (store k2) = map (\<lambda>x. if l_key x \<in> fst ` set es then freed x else x) (rows (store k))"
    using reclaim_expired_rows [OF k1(1) assms(2) k1(3) es(2) _ _ s2] lap by (auto simp: k1 es(1))
  obtain live p3 k3 where s3: "live_set host r p2 k2 = ((live, p3), k3)" by (cases "live_set host r p2 k2") auto
  obtain hs s3' where "rc_live r (clock host (ticks k2)) (store k2) = (Inr hs, s3')"
    and "keeps_rows rows fine (store k2) s3'" using live_read [OF r2(1)] by blast
  then have k3: "keeps_rows rows fine (store k2) (store k3)"
    using s3 by (auto simp: live_set_def timed_def tick_def andThen_eq on_store_def)
  obtain p4 k4 where s4: "abort_dead r live p3 k3 = (p4, k4)" by (cases "abort_dead r live p3 k3")
  obtain p5 k5 where s5: "tear_down_dead r live p4 k4 = (p5, k5)" by (cases "tear_down_dead r live p4 k4")
  obtain p6 k6 where s6: "sweep_claims r live p5 k5 = (p6, k6)" by (cases "sweep_claims r live p5 k5")
  have "keeps_rows rows fine (store k2) (store k6)"
    using k3 abort_dead_keeps [of k3 live p3] tear_down_dead_keeps [of k4 live p4] sweep_claims_keeps [of k5 live p5]
    by (simp add: s4 s5 s6) (blast intro: keeps_rows_trans)
  then have "fine (store k6)" "rows (store k6) = rows (store k2)" using r2 by (simp_all add: keeps_rows_def)
  moreover have "snd (scan host r k) = k6" using t s2 s3 s4 s5 s6 by (simp add: scan_def p1_def)
  moreover have "l_key x \<in> fst ` set es \<longleftrightarrow> lapsed ?now x" if "x \<in> set (rows (store k))" for x
    using lap that es(1) by auto
  ultimately show ?thesis using r2 by (simp cong: map_cong)
qed

end

end
