(* ===== verification/Recovery.thy ===== *)
theory Recovery
  imports LivenessFacts IntegratorRpc ReviewRpc
begin

text \<open>
  The recoverer as \<open>Build\<close> wires it (\<open>internal/app/compose.go\<close>): the lease surface is the ledger, the
  integrator and the review plane share that ledger for their audit records, and the boundaries are
  the substrate's. Then what a pass does to the leases, whatever the other planes do.
\<close>

section \<open>The state of the daemon\<close>

record ('g, 'b) app =
  ap_ledger :: ledger
  ap_trunk :: integ_store
  ap_git :: 'g
  ap_review :: review_db
  ap_bound :: 'b

definition on_ledger :: "(ledger \<Rightarrow> 'x \<times> ledger) \<Rightarrow> ('g, 'b) app \<Rightarrow> 'x \<times> ('g, 'b) app" where
  "on_ledger m a = (case m (ap_ledger a) of (x, d) \<Rightarrow> (x, a\<lparr>ap_ledger := d\<rparr>))"

definition on_bound :: "('b \<Rightarrow> 'x \<times> 'b) \<Rightarrow> ('g, 'b) app \<Rightarrow> 'x \<times> ('g, 'b) app" where
  "on_bound m a = (case m (ap_bound a) of (x, b) \<Rightarrow> (x, a\<lparr>ap_bound := b\<rparr>))"

definition trunk_world :: "('g, 'b) app \<Rightarrow> (ledger, 'g) world" where
  "trunk_world a = \<lparr>w_lease = ap_ledger a, w_store = ap_trunk a, w_git = ap_git a\<rparr>"

definition on_trunk :: "(ledger, 'g, 'x) wprog \<Rightarrow> ('g, 'b) app \<Rightarrow> 'x \<times> ('g, 'b) app" where
  "on_trunk p a = (case run p (trunk_world a) of (x, w) \<Rightarrow>
     (x, a\<lparr>ap_ledger := w_lease w, ap_trunk := w_store w, ap_git := w_git w\<rparr>))"

definition on_review :: "(ledger plane \<Rightarrow> 'x \<times> ledger plane) \<Rightarrow> ('g, 'b) app \<Rightarrow> 'x \<times> ('g, 'b) app" where
  "on_review m a = (case m \<lparr>pl_db = ap_review a, pl_log = ap_ledger a\<rparr> of (x, p) \<Rightarrow>
     (x, a\<lparr>ap_ledger := pl_log p, ap_review := pl_db p\<rparr>))"

section \<open>The adapters\<close>

definition app_integrator :: "'g git \<Rightarrow> string \<Rightarrow> int \<Rightarrow> (ledger, 'g) integrator" where
  "app_integrator git branch t = \<lparr>ig_git = git, ig_branch = branch, ig_key = trunk_key, ig_gate = ledger_gate,
     ig_audit = ledger_audit ''integrator-trunk'' t, ig_ttl = 120 * 10 ^ 9\<rparr>"

definition integ_in_flight :: "(ledger, 'g, err + in_flight_integration list) wprog" where
  "integ_in_flight = pthen in_flight (\<lambda>rows. Done (Inr (map (\<lambda>r.
     \<lparr>if_id = n_id r, if_holder = n_holder r, if_state = state_name (n_state r)\<rparr>) rows)))"

definition integ_abort :: "(ledger, 'g) integrator \<Rightarrow> string \<Rightarrow> (ledger, 'g, err + unit) wprog" where
  "integ_abort ig i = pbind (abort ig i) (\<lambda>(out, e). Done (case e of Some x \<Rightarrow> Inl x | None \<Rightarrow> Inr ()))"

text \<open>\<open>t\<close> is the clock reading of the records that a pass writes, \<open>teardown\<close> the substrate's operation.\<close>

definition build_recoverer ::
  "(ledger, 'g) integrator \<Rightarrow> (string \<Rightarrow> ('b, unit) eff) \<Rightarrow> int \<Rightarrow> (nat \<Rightarrow> string list \<Rightarrow> string list)
     \<Rightarrow> ('g, 'b) app recoverer" where
  "build_recoverer ig teardown t order =
     \<lparr>rc_expired = (\<lambda>now. on_ledger (ledger_expired now)), rc_live = (\<lambda>now. on_ledger (ledger_live now)),
      rc_reclaim = (\<lambda>now key. on_ledger (reclaim_if_expired now key)),
      rc_integ = Some (on_trunk integ_in_flight, \<lambda>i. on_trunk (integ_abort ig i)),
      rc_bound = Some (\<lambda>h. on_bound (teardown h)),
      rc_claims = Some (\<lambda>dead. on_review (reclaim_claims (ledger_audit ''integration-review'' t) t t dead),
        on_review (gc_stale t)),
      rc_audit = (\<lambda>h kind p. on_ledger (ledger_audit ''liveness-recovery'' t h kind p)),
      rc_trunk_key = trunk_key, rc_session_key = session_lease_key_prefix, rc_order = order\<rparr>"

section \<open>The leases in the state\<close>


definition lease_rows :: "ledger \<Rightarrow> lease_row list" where
  "lease_rows d = leases (tabs d)"

definition sound_ledger :: "ledger \<Rightarrow> bool" where
  "sound_ledger d \<longleftrightarrow> healthy d \<and> ledger_ok d"

lemma reclaim_healthy:
  assumes "healthy d"
  shows "\<exists>b prior. reclaim_if_expired now key d = (Inr (b, prior), after d (snd (reclaim_stmt key now (tabs d))))
    \<and> b = (fst (reclaim_stmt key now (tabs d)) = 1)"
proof (cases "find_lease key (tabs d)")
  case None
  then have "filter (\<lambda>r. l_key r = key \<and> l_holder r \<noteq> [] \<and> l_expires r \<le> now) (leases (tabs d)) = []"
    by (auto simp: find_lease_def find_None_iff filter_empty_conv)
  moreover have "map (\<lambda>r. if l_key r = key \<and> l_holder r \<noteq> [] \<and> l_expires r \<le> now
      then r\<lparr>l_holder := [], l_expires := 0, l_fence := l_fence r + 1\<rparr> else r) (leases (tabs d)) = leases (tabs d)"
    using calculation by (intro map_idI) (auto simp: filter_empty_conv)
  ultimately have "reclaim_stmt key now (tabs d) = (0, tabs d)"
    by (simp add: reclaim_stmt_def on_leases_def upd_where_def)
  then show ?thesis
    using None assms by (simp add: reclaim_if_expired_def txn_def eff_simps rolled_back_def) blast
next
  case (Some row)
  then show ?thesis
    using assms by (simp add: reclaim_if_expired_def txn_def eff_simps rolled_back_def)
qed

lemma one_match:
  assumes "distinct (map f xs)"
  shows "length (filter (\<lambda>x. f x = k \<and> P x) xs) = 1 \<longleftrightarrow> (\<exists>x \<in> set xs. f x = k \<and> P x)"
  using assms
proof (induction xs)
  case Nil
  then show ?case by simp
next
  case (Cons x xs)
  have new: "\<forall>y \<in> set xs. f y \<noteq> f x" using Cons.prems by (auto simp: image_iff)
  show ?case
  proof (cases "f x = k")
    case True
    then have "filter (\<lambda>x. f x = k \<and> P x) xs = []" using new by (auto simp: filter_empty_conv)
    then show ?thesis using new True by auto
  next
    case False
    then show ?thesis using Cons by simp
  qed
qed

lemma ledger_audit_rows: "within (keeps_rows lease_rows sound_ledger) (ledger_audit project t h kind p)"
proof (rule withinI)
  fix d :: ledger
  show "keeps_rows lease_rows sound_ledger d (snd (ledger_audit project t h kind p d))"
  proof (clarsimp simp: keeps_rows_def sound_ledger_def, intro conjI)
    assume h: "healthy d" and ok: "ledger_ok d"
    let ?op = "Append \<lparr>rec_time = t, rec_session = h, rec_project = project, rec_kind = kind, rec_payload = p\<rparr>"
    have d': "snd (ledger_audit project t h kind p d) = run_op 0 ?op d" by (simp add: ledger_audit_def)
    show "healthy (snd (ledger_audit project t h kind p d))"
      "lease_rows (snd (ledger_audit project t h kind p d)) = lease_rows d"
      using h by (simp_all add: ledger_audit_def sink_append_def eff_simps audit_stmt_def lease_rows_def)
    show "ledger_ok (snd (ledger_audit project t h kind p d))"
      unfolding d' ledger_ok_def by (rule run_op_wf) (use ok in \<open>simp add: ledger_ok_def\<close>)
  qed
qed

abbreviation ledger_kept :: "ledger \<Rightarrow> ledger \<Rightarrow> bool" where
  "ledger_kept \<equiv> keeps_rows lease_rows sound_ledger"

abbreviation app_kept :: "('g, 'b) app \<Rightarrow> ('g, 'b) app \<Rightarrow> bool" where
  "app_kept \<equiv> keeps_rows (\<lambda>a. lease_rows (ap_ledger a)) (\<lambda>a. sound_ledger (ap_ledger a))"

lemma app_kept_iff: "app_kept a a' \<longleftrightarrow> ledger_kept (ap_ledger a) (ap_ledger a')"
  by (simp add: keeps_rows_def)

lemma ledger_kept_order [simp]: "ledger_kept d d" "reflp ledger_kept" "transp ledger_kept"
  by (auto simp: keeps_rows_def reflp_def transp_def)

lemma within_on_ledger: "within ledger_kept m \<Longrightarrow> within app_kept (on_ledger m)"
  by (auto simp: within_def on_ledger_def app_kept_iff split: prod.split)
    (metis snd_conv)

subsection \<open>The trunk's calls\<close>

definition world_kept :: "(ledger, 'g) world \<Rightarrow> (ledger, 'g) world \<Rightarrow> bool" where
  "world_kept w w' \<longleftrightarrow> ledger_kept (w_lease w) (w_lease w')"

lemma world_kept_order: "reflp world_kept" "transp world_kept"
  by (auto simp: world_kept_def keeps_rows_def reflp_def transp_def)

lemma acts_store_kept [acts_intros]: "acts_in world_kept (Trunk.on_store m)"
  unfolding Trunk.on_store_def by (rule acts_atomic) (auto simp: world_kept_def split: prod.split)

lemma acts_git_kept [acts_intros]: "acts_in world_kept (run_git ig env args)"
  unfolding run_git_def by (rule acts_atomic) (auto simp: world_kept_def split: prod.split)

lemma acts_audit_kept: "acts_in world_kept (on_lease (ledger_audit project t session kind p))"
  unfolding on_lease_def
proof (rule acts_atomic)
  fix w :: "(ledger, 'g) world"
  show "world_kept w (snd (case ledger_audit project t session kind p (w_lease w) of (r, l) \<Rightarrow> (r, w\<lparr>w_lease := l\<rparr>)))"
    using withinD [OF ledger_audit_rows, of "w_lease w" project t session kind p]
    by (cases "ledger_audit project t session kind p (w_lease w)") (simp add: world_kept_def)
qed

interpretation trunk_calm: calm_actions world_kept "app_integrator git branch t"
proof unfold_locales
  show "acts_in world_kept (on_lease (ig_audit (app_integrator git branch t) session kind p))" for session kind p
    by (simp add: app_integrator_def acts_audit_kept)
qed (auto simp: get_row_def cas_state_def set_validating_def intro!: acts_intros)

lemma on_trunk_kept:
  fixes p :: "(ledger, 'g, err + 'x) wprog"
  assumes "acts_in world_kept p"
  shows "within app_kept (on_trunk p :: ('g, 'b) app \<Rightarrow> (err + 'x) \<times> ('g, 'b) app)"
proof (rule withinI)
  fix a :: "('g, 'b) app"
  from run_acts [OF assms world_kept_order, of "trunk_world a"]
  show "app_kept a (snd (on_trunk p a))"
    by (cases "run p (trunk_world a)") (simp add: on_trunk_def world_kept_def app_kept_iff, simp add: trunk_world_def)
qed

subsection \<open>The review plane's calls\<close>

definition plane_kept :: "ledger plane \<Rightarrow> ledger plane \<Rightarrow> bool" where
  "plane_kept p p' \<longleftrightarrow> ledger_kept (pl_log p) (pl_log p')"

lemma plane_kept_order [simp]: "reflp plane_kept" "transp plane_kept"
  by (auto simp: plane_kept_def keeps_rows_def reflp_def transp_def)

lemma within_on_db_kept: "within plane_kept (on_db m)"
  by (rule withinI) (simp add: on_db_def plane_kept_def split: prod.split)

lemma within_on_log_kept: "within ledger_kept m \<Longrightarrow> within plane_kept (on_log m)"
  by (auto simp: within_def on_log_def plane_kept_def split: prod.split) (metis snd_conv)

lemma announce_kept: "plane_kept p (announce_requeued (ledger_audit project t) now r p)"
  unfolding announce_requeued_def event_best_effort_def audit_best_effort_def
  by (intro withinD [where R = plane_kept] within_andThen within_on_db_kept within_on_log_kept
      within_ignoring ledger_audit_rows plane_kept_order)

lemma announces_kept: "plane_kept p (fold (announce_requeued (ledger_audit project t) now) rows p)"
proof (induction rows arbitrary: p)
  case Nil
  then show ?case by (simp add: plane_kept_def)
next
  case (Cons r rows)
  then show ?case
    using transpD [OF plane_kept_order(2) announce_kept [of p project t now r]] by simp
qed

lemma sweep_kept:
  "plane_kept p (snd (reclaim_claims (ledger_audit project t) now now2 dead p))"
  "plane_kept p (snd (gc_stale now p))"
proof -
  have db: "plane_kept p (p\<lparr>pl_db := d\<rparr>)" for d by (simp add: plane_kept_def)
  show "plane_kept p (snd (gc_stale now p))" using db by (simp add: gc_stale_def split: prod.split)
  have "plane_kept p (fold (announce_requeued (ledger_audit project t) now2) rows (p\<lparr>pl_db := d\<rparr>))" for rows d
    using transpD [OF plane_kept_order(2) db announces_kept] .
  with db show "plane_kept p (snd (reclaim_claims (ledger_audit project t) now now2 dead p))"
    by (simp add: reclaim_claims_def split: prod.split option.split)
qed

lemma on_review_kept: "(\<And>p. plane_kept p (snd (m p))) \<Longrightarrow> app_kept a (snd (on_review m a))"
  by (auto simp: on_review_def plane_kept_def app_kept_iff split: prod.split)
    (metis plane.select_convs(2) snd_conv)

subsection \<open>The wired recoverer meets the contract\<close>

lemma on_ledger_run: "m (ap_ledger a) = (x, d) \<Longrightarrow> on_ledger m a = (x, a\<lparr>ap_ledger := d\<rparr>)"
  by (simp add: on_ledger_def)

lemma expired_healthy:
  assumes "healthy d"
  shows "ledger_expired now d
    = (Inr (map (\<lambda>r. (l_key r, l_holder r)) (sort_key l_key (filter (lapsed now) (leases (tabs d))))), d)"
  using assms by (simp add: ledger_expired_def expired_leases_def list_where_def eff_simps info_of_def lapsed_eq o_def)

lemma live_healthy: "healthy d \<Longrightarrow> \<exists>hs. ledger_live now d = (Inr hs, d)"
  by (simp add: ledger_live_def list_holders_def list_where_def eff_simps)

lemma reclaim_sound:
  assumes "sound_ledger d"
  shows "\<exists>b prior d'. reclaim_if_expired now key d = (Inr (b, prior), d') \<and> sound_ledger d'
    \<and> lease_rows d' = map (\<lambda>x. if l_key x = key \<and> lapsed now x then freed x else x) (lease_rows d)
    \<and> (b \<longleftrightarrow> (\<exists>x \<in> set (lease_rows d). l_key x = key \<and> lapsed now x))"
proof -
  have h: "healthy d" and wf: "ledger_wf (tabs d)" using assms by (simp_all add: sound_ledger_def ledger_ok_def)
  let ?stmt = "reclaim_stmt key now (tabs d)"
  obtain b prior where r: "reclaim_if_expired now key d = (Inr (b, prior), after d (snd ?stmt))"
    and b: "b = (fst ?stmt = 1)"
    using reclaim_healthy [OF h] by blast
  have p: "(\<lambda>r. l_key r = key \<and> l_holder r \<noteq> [] \<and> l_expires r \<le> now) = (\<lambda>r. l_key r = key \<and> lapsed now r)"
    by (simp add: lapsed_def fun_eq_iff)
  have "fst ?stmt = length (filter (\<lambda>r. l_key r = key \<and> lapsed now r) (leases (tabs d)))"
    and rows: "leases (snd ?stmt) = map (\<lambda>x. if l_key x = key \<and> lapsed now x then freed x else x) (leases (tabs d))"
    by (simp_all add: reclaim_stmt_def p on_leases_def upd_where_def freed_def)
  moreover have "length (filter (\<lambda>r. l_key r = key \<and> lapsed now r) (leases (tabs d))) = 1
      \<longleftrightarrow> (\<exists>x \<in> set (leases (tabs d)). l_key x = key \<and> lapsed now x)"
    by (rule one_match) (use wf in \<open>simp add: ledger_wf_def\<close>)
  ultimately have "b \<longleftrightarrow> (\<exists>x \<in> set (lease_rows d). l_key x = key \<and> lapsed now x)"
    using b by (simp add: lease_rows_def)
  moreover have "sound_ledger (after d (snd ?stmt))"
    using h wf keeps_wf_stmts(6) [of "tabs d" key now]
    by (simp add: sound_ledger_def ledger_ok_def keeps_wf_def preserves_def)
  ultimately show ?thesis using r rows by (auto simp: lease_rows_def)
qed

interpretation wired: lease_plane "build_recoverer (app_integrator git branch ti) teardown t order :: ('g, 'b) app recoverer"
  "\<lambda>a. lease_rows (ap_ledger a)" "\<lambda>a. sound_ledger (ap_ledger a)"
proof unfold_locales
  fix now and a :: "('g, 'b) app"
  assume fine: "sound_ledger (ap_ledger a)"
  then have h: "healthy (ap_ledger a)" and wf: "ledger_wf (tabs (ap_ledger a))"
    by (simp_all add: sound_ledger_def ledger_ok_def)
  let ?r = "build_recoverer (app_integrator git branch ti) teardown t order :: ('g, 'b) app recoverer"
  let ?es = "map (\<lambda>r. (l_key r, l_holder r)) (sort_key l_key (filter (lapsed now) (leases (tabs (ap_ledger a)))))"
  have "rc_expired ?r now a = (Inr ?es, a)"
    using on_ledger_run [where m = "ledger_expired now" and a = a, OF expired_healthy [OF h]] by (simp add: build_recoverer_def)
  moreover have "distinct (map fst ?es)"
    using wf by (simp add: ledger_wf_def o_def distinct_map inj_on_def)
  ultimately show "\<exists>es s'. rc_expired ?r now a = (Inr es, s') \<and> app_kept a s'
      \<and> fst ` set es = l_key ` {x \<in> set (lease_rows (ap_ledger a)). lapsed now x}
      \<and> length es = length (filter (lapsed now) (lease_rows (ap_ledger a))) \<and> distinct (map fst es)"
    by (intro exI [of _ ?es] exI [of _ a]) (auto simp: keeps_rows_def lease_rows_def image_image)
  obtain hs where "ledger_live now (ap_ledger a) = (Inr hs, ap_ledger a)" using live_healthy [OF h] by blast
  then show "\<exists>hs s'. rc_live ?r now a = (Inr hs, s') \<and> app_kept a s'"
    by (simp add: build_recoverer_def on_ledger_def keeps_rows_def)
  show "distinct (map l_key (lease_rows (ap_ledger a)))" using wf by (simp add: ledger_wf_def lease_rows_def)
  fix key
  obtain b prior d' where r: "reclaim_if_expired now key (ap_ledger a) = (Inr (b, prior), d')" and "sound_ledger d'"
    "lease_rows d' = map (\<lambda>x. if l_key x = key \<and> lapsed now x then freed x else x) (lease_rows (ap_ledger a))"
    "b \<longleftrightarrow> (\<exists>x \<in> set (lease_rows (ap_ledger a)). l_key x = key \<and> lapsed now x)"
    using reclaim_sound [OF fine] by blast
  then show "\<exists>b prior s'. rc_reclaim ?r now key a = (Inr (b, prior), s') \<and> sound_ledger (ap_ledger s')
      \<and> lease_rows (ap_ledger s') = map (\<lambda>x. if l_key x = key \<and> lapsed now x then freed x else x) (lease_rows (ap_ledger a))
      \<and> (b \<longleftrightarrow> (\<exists>x \<in> set (lease_rows (ap_ledger a)). l_key x = key \<and> lapsed now x))"
    by (simp add: build_recoverer_def on_ledger_def)
next
  let ?r = "build_recoverer (app_integrator git branch ti) teardown t order :: ('g, 'b) app recoverer"
  show "within app_kept (rc_audit ?r h kind p)" for h kind p
    by (simp add: build_recoverer_def within_on_ledger ledger_audit_rows)
  show "within app_kept l \<and> within app_kept (f i)" if "rc_integ ?r = Some (l, f)" for l f i
    using that by (auto simp: build_recoverer_def integ_in_flight_def in_flight_def integ_abort_def
        intro!: on_trunk_kept acts_intros trunk_calm.abort_in split: prod.split)
  show "within app_kept (f h)" if "rc_bound ?r = Some f" for f h
    using that by (auto simp: build_recoverer_def on_bound_def within_def keeps_rows_def split: prod.split)
  show "app_kept a (snd (c dead a)) \<and> app_kept a (snd (g a))" if "rc_claims ?r = Some (c, g)" for c dead g a
    using that by (auto simp: build_recoverer_def intro!: on_review_kept sweep_kept)
qed

text \<open>
  C27: over a ledger that answers and a clock that does not go back, one pass of the wired recoverer frees
  exactly the leases that had expired at its first clock reading and leaves every other lease as it
  was, whatever the integrator, the substrate and the review plane do in that pass.
\<close>

theorem scan_frees_expired:
  assumes "healthy (ap_ledger (store k))" and "ledger_wf (tabs (ap_ledger (store k)))" and "mono (clock host)"
  shows "leases (tabs (ap_ledger (store (snd (scan host
        (build_recoverer (app_integrator git branch ti) teardown t order) k)))))
    = map (\<lambda>x. if l_holder x \<noteq> [] \<and> l_expires x \<le> clock host (ticks k)
           then x\<lparr>l_holder := [], l_expires := 0, l_fence := l_fence x + 1\<rparr> else x)
        (leases (tabs (ap_ledger (store k))))"
proof -
  have "sound_ledger (ap_ledger (store k))" using assms(1,2) by (simp add: sound_ledger_def ledger_ok_def)
  from conjunct1 [OF wired.scan_rows [OF this assms(3)]]
  show ?thesis unfolding lease_rows_def lapsed_eq freed_def .
qed

end
