(* ===== verification/RecoveryScenarios.thy ===== *)
theory RecoveryScenarios
  imports Recovery DaemonFacts
begin

text \<open>
  Passes of the wired recoverer over concrete states: the witnesses of the properties of a pass, and
  the behaviours of \<open>Scan\<close> that differ from its documentation.
\<close>

section \<open>The states\<close>

definition held :: "string \<Rightarrow> string \<Rightarrow> int \<Rightarrow> lease_row" where
  "held k h e = \<lparr>l_key = k, l_holder = h, l_acquired = 0, l_expires = e, l_fence = 1\<rparr>"

definition validating :: "string \<Rightarrow> string \<Rightarrow> integ_row" where
  "validating i h = \<lparr>n_id = i, n_branch = ''b'', n_holder = h, n_base = [], n_merge = [], n_state = Validating,
     n_gate_ok = True, n_gate_reason = [], n_created = 0\<rparr>"

text \<open>A repository in which every command fails, and the boundaries as the list of their owners.\<close>

definition no_git :: "unit git" where
  "no_git env args g = ((Some 1, []), g)"

definition drop_boundary :: "string \<Rightarrow> (string list, unit) eff" where
  "drop_boundary h bs = (Inr (), removeAll h bs)"

definition visit_order :: "nat \<Rightarrow> string list \<Rightarrow> string list" where
  "visit_order n hs = hs"

definition demo_recoverer :: "(unit, string list) app recoverer" where
  "demo_recoverer = build_recoverer (app_integrator no_git ''trunk'' 0) drop_boundary 0 visit_order"

definition seen_by :: "string option list \<Rightarrow> lease_row list \<Rightarrow> nat \<Rightarrow> (unit, string list) app keeper" where
  "seen_by faults rows n = \<lparr>draws = 0, ticks = n, store =
     \<lparr>ap_ledger = \<lparr>script = faults, tabs = empty_tabs\<lparr>leases := rows\<rparr>\<rparr>,
      ap_trunk = \<lparr>script = [], tabs = [validating ''i1'' ''s1'', validating ''i2'' ''s2'']\<rparr>, ap_git = (),
      ap_review = \<lparr>script = [], tabs =
        \<lparr>requests = [], events = [], event_seq = 0, cursors = []\<rparr>\<rparr>, ap_bound = [''s1'', ''s2'']\<rparr>\<rparr>"

definition logged :: "'s keeper \<Rightarrow> 's logged keeper" where
  "logged k = \<lparr>draws = draws k, ticks = ticks k, store = (store k, [])\<rparr>"

text \<open>What a trace says of the calls, in a form that evaluates.\<close>

definition torn :: "call list \<Rightarrow> string list" where
  "torn cs = concat (map (\<lambda>c. case c of TearDown h \<Rightarrow> [h] | _ \<Rightarrow> []) cs)"

definition aborted_ids :: "call list \<Rightarrow> string list" where
  "aborted_ids cs = concat (map (\<lambda>c. case c of AbortCall i \<Rightarrow> [i] | _ \<Rightarrow> []) cs)"

definition live_reads :: "call list \<Rightarrow> (err + string list) list" where
  "live_reads cs = concat (map (\<lambda>c. case c of LiveRead x \<Rightarrow> [x] | _ \<Rightarrow> []) cs)"

lemma trace_views:
  "TearDown h \<in> set cs \<longleftrightarrow> h \<in> set (torn cs)"
  "AbortCall i \<in> set cs \<longleftrightarrow> i \<in> set (aborted_ids cs)"
  "LiveRead x \<in> set cs \<longleftrightarrow> x \<in> set (live_reads cs)"
  by (auto simp: torn_def aborted_ids_def live_reads_def split: call.splits)

definition leases_in :: "(unit, string list) app \<Rightarrow> lease_row list" where
  "leases_in a = leases (tabs (ap_ledger a))"

definition outcome_of :: "(unit, string list) app \<Rightarrow> string list \<times> string list \<times> integ_state list" where
  "outcome_of a = (map l_holder (leases_in a), ap_bound a, map n_state (tabs (ap_trunk a)))"

definition calls_of :: "(unit, string list) app logged keeper \<Rightarrow>
    (string list \<times> string list \<times> (err + string list) list) \<times> (string list \<times> string list \<times> integ_state list)" where
  "calls_of k = ((torn (trace k), aborted_ids (trace k), live_reads (trace k)), outcome_of (fst (store k)))"

section \<open>A pass that frees, aborts and tears down\<close>

text \<open>At 5 s the trunk lease of \<open>s2\<close> has lapsed, a lease of \<open>s1\<close> has not.\<close>

definition half_dead :: "(unit, string list) app keeper" where
  "half_dead = seen_by [] [held trunk_key ''s2'' (10 ^ 9), held ''grant'' ''s1'' (100 * 10 ^ 9)] 5"

lemma half_dead_scan:
  "calls_of (snd (scan demo_host (traced demo_recoverer) (logged half_dead)))
     = (([''s2''], [''i2''], [Inr [''s1'']]), ([[], ''s1''], [''s1''], [Validating, Aborted]))"
  by code_simp

lemma scan_spares_live_witness:
  "\<exists>k'. snd (scan demo_host (traced demo_recoverer) (logged half_dead)) = k'
     \<and> LiveRead (Inr [''s1'']) \<in> set (trace k') \<and> TearDown ''s2'' \<in> set (trace k')
     \<and> (\<exists>c \<in> set (trace k'). signalled demo_recoverer ''s2'' c)
     \<and> (\<exists>ifs. InFlightRead (Inr ifs) \<in> set (trace k') \<and> stuck [''s1''] ifs ''i2'')"
proof -
  obtain res k' where k': "scan demo_host (traced demo_recoverer) (logged half_dead) = (res, k')"
    by (cases "scan demo_host (traced demo_recoverer) (logged half_dead)")
  have t: "torn (trace k') = [''s2'']" "aborted_ids (trace k') = [''i2'']" "live_reads (trace k') = [Inr [''s1'']]"
    using half_dead_scan by (simp_all add: k' calls_of_def)
  have "set (rc_order demo_recoverer n hs) = set hs" for n hs
    by (simp add: demo_recoverer_def build_recoverer_def visit_order_def)
  moreover have "trace (logged half_dead) = []" by (simp add: trace_def logged_def)
  ultimately show ?thesis
    using scan_spares_live [OF _ k'] by (auto simp: k' trace_views t)
qed

lemma clock_forward: "mono (clock demo_host)"
  by (simp add: demo_host_def demo_clock_def mono_def)

lemma half_dead_ledger:
  "healthy (ap_ledger (store half_dead))" "ledger_wf (tabs (ap_ledger (store half_dead)))" "ticks half_dead = 5"
  "leases (tabs (ap_ledger (store half_dead))) = [held trunk_key ''s2'' (10 ^ 9), held ''grant'' ''s1'' (100 * 10 ^ 9)]"
  by (simp_all add: half_dead_def seen_by_def healthy_def ledger_wf_def empty_tabs_def held_def trunk_key_def)

lemma scan_frees_expired_witness:
  "leases (tabs (ap_ledger (store (snd (scan demo_host demo_recoverer half_dead)))))
     = [\<lparr>l_key = trunk_key, l_holder = [], l_acquired = 0, l_expires = 0, l_fence = 2\<rparr>, held ''grant'' ''s1'' (100 * 10 ^ 9)]"
  using scan_frees_expired [OF half_dead_ledger(1,2) clock_forward, of no_git "''trunk''" 0 drop_boundary 0 visit_order]
  by (simp add: demo_recoverer_def half_dead_ledger held_def) (simp add: demo_host_def demo_clock_def)

section \<open>A failed read of the live holders\<close>

text \<open>
  \<open>Scan\<close> promises never to touch a holder that still holds a live lease. Here \<open>s1\<close> and \<open>s2\<close> hold
  leases to 100 s, and the read of the live holders fails at 6 s: the live set is empty, and
  the pass aborts the integrations that both are validating.
\<close>

definition both_live :: "lease_row list" where
  "both_live = [held trunk_key ''s2'' (100 * 10 ^ 9), held ''grant'' ''s1'' (100 * 10 ^ 9)]"

theorem failed_read_aborts_living:
  "calls_of (snd (scan demo_host (traced demo_recoverer) (logged (seen_by [None, Some ''disk I/O error''] both_live 5))))
     = (([], [''i1'', ''i2''], [Inl (DbErr ''disk I/O error'')]), ([''s2'', ''s1''], [''s1'', ''s2''], [Aborted, Aborted]))"
  by code_simp

section \<open>A death signal that is lost\<close>

text \<open>
  The session lease of \<open>s1\<close> lapses while another lease of \<open>s1\<close> has not: the pass reclaims it and
  skips the boundary. When the other lease lapses too, no signal is left: the later pass frees it,
  \<open>s1\<close> holds nothing any more, and its boundary stays for good.
\<close>

definition later :: "'s keeper \<Rightarrow> 's keeper" where
  "later k = k\<lparr>ticks := ticks k + 30\<rparr>"

theorem death_signal_lost:
  "outcome_of (store (snd (scan demo_host demo_recoverer (later (snd (scan demo_host demo_recoverer
       (seen_by [] [held (liveness_key ''s1'') ''s1'' (10 ^ 9), held ''grant'' ''s1'' (20 * 10 ^ 9)] 5)))))))
     = ([[], []], [''s1'', ''s2''], [Aborted, Aborted])"
  by code_simp

text \<open>
  The same for a teardown that fails: its comment says that a later scan attempts it again, but the
  signal was the reclaim itself, and the lease is free afterwards.
\<close>

definition stubborn :: "string \<Rightarrow> (string list, unit) eff" where
  "stubborn h bs = (if h \<in> set bs then (Inl (Msg ''busy''), removeAll h bs) else (Inr (), bs @ [''retried'']))"

definition stubborn_recoverer :: "(unit, string list) app recoverer" where
  "stubborn_recoverer = build_recoverer (app_integrator no_git ''trunk'' 0) stubborn 0 visit_order"

theorem teardown_not_retried:
  "outcome_of (store (snd (scan demo_host stubborn_recoverer (later (snd (scan demo_host stubborn_recoverer
       (seen_by [] [held (liveness_key ''s1'') ''s1'' (10 ^ 9)] 5)))))))
     = ([[]], [''s2''], [Aborted, Aborted])"
  by code_simp

section \<open>A lease key that is not text\<close>

text \<open>
  The record of a reclaimed lease formats the key with \<open>%q\<close>, which escapes a control character in a way
  that JSON does not have. \<open>audit.tail\<close> emits the payload as it is, \<open>mustJSON\<close> panics, and nothing recovers it.
\<close>

definition no_rune :: "nat \<Rightarrow> bool" where
  "no_rune r \<longleftrightarrow> False"

definition ledger_seam :: "ledger audit_seam" where
  "ledger_seam = \<lparr>sink = sink_append, reader = Some sink_tail\<rparr>"

definition hostile_start :: "(unit, string list) app keeper" where
  "hostile_start = \<lparr>draws = 0, ticks = 5, store =
     \<lparr>ap_ledger = \<lparr>script = [], tabs = empty_tabs\<lparr>leases := [held [CHR 0x01] ''s1'' (10 ^ 9)]\<rparr>\<rparr>,
      ap_trunk = \<lparr>script = [], tabs = []\<rparr>, ap_git = (),
      ap_review = \<lparr>script = [], tabs = \<lparr>requests = [], events = [], event_seq = 0, cursors = []\<rparr>\<rparr>,
      ap_bound = [''s1'']\<rparr>\<rparr>"

definition hostile_ledger :: ledger where
  "hostile_ledger = ap_ledger (store (snd (scan demo_host demo_recoverer hostile_start)))"

definition tail_request :: request where
  "tail_request = \<lparr>q_jsonrpc = jsonrpc_version, q_v = contract_version, q_id = None, q_method = ''audit.tail'', q_params = None\<rparr>"

lemma hostile_records: "length (audits (tabs hostile_ledger)) = 1"
  by code_simp

lemma hostile_payload:
  "case hd (audits (tabs hostile_ledger)) of a \<Rightarrow> a_payload a = PQuoted [(''holder'', ''s1''), (''key'', [CHR 0x01])]"
  by code_simp

lemma hostile_healthy: "script hostile_ledger = []"
  by code_simp

lemma hostile_text: "\<not> quoted_is_json no_rune [CHR 0x01]"
  by (simp add: quoted_is_json_def json_escape_def decode_rune_def Let_def)

lemma hostile_tail: "audit_tail_handler no_rune ledger_seam ''s2'' None hostile_ledger = Panics"
proof -
  obtain a where a: "audits (tabs hostile_ledger) = [a]" "a_payload a = PQuoted [(''holder'', ''s1''), (''key'', [CHR 0x01])]"
    using hostile_records hostile_payload by (cases "audits (tabs hostile_ledger)") auto
  have "healthy hostile_ledger" by (simp add: healthy_def hostile_healthy)
  then have "sink_tail 100 hostile_ledger = (Inr [record_of a], hostile_ledger)"
    by (simp add: sink_tail_def eff_simps a(1) insort_key.simps sort_key_def)
  moreover have "int_field ''limit'' [] = Some 0" by code_simp
  ultimately show ?thesis
    by (simp add: audit_tail_handler_def ledger_seam_def audit_params_def normalize_audit_limit_def
        audit_tail_default_limit_def records_json_def audit_record_json_def record_of_def a(2) hostile_text)
qed

theorem hostile_key_crashes_audit_tail:
  "serve \<lparr>methods = builtins no_rune ledger_seam 0 1 0 ''s'' 1, frozen = True\<rparr> ''s2''
     [(Incoming tail_request, True)] hostile_ledger = ([], Crashed)"
proof -
  have "validate tail_request = None" by code_simp
  then show ?thesis
    by (simp add: dispatch_def lookup_method_def builtins_def tail_request_def hostile_tail)
qed

end
