(* ===== verification/Paths.thy ===== *)
theory Paths
  imports GoText "HOL-Library.Sublist"
begin

text \<open>
  Slash-separated paths: \<open>filepath.Clean\<close>, \<open>Join\<close>, \<open>Abs\<close> and \<open>Rel\<close> of Go's standard library, and over them
  the path checks of \<open>internal/substrate/contain.go\<close>. A path is seen as its cleaned components.
\<close>

section \<open>Components\<close>

abbreviation slash :: char where "slash \<equiv> CHR ''/''"

definition rooted :: "string \<Rightarrow> bool" where
  "rooted s \<longleftrightarrow> s \<noteq> [] \<and> hd s = slash"

fun join_with :: "string \<Rightarrow> string list \<Rightarrow> string" where
  "join_with sep [] = []"
| "join_with sep [x] = x"
| "join_with sep (x # y # ys) = x @ sep @ join_with sep (y # ys)"

text \<open>\<open>out\<close> is what has been written so far, last component first.\<close>

fun clean_comps :: "bool \<Rightarrow> string list \<Rightarrow> string list \<Rightarrow> string list" where
  "clean_comps r out [] = rev out"
| "clean_comps r out (c # cs) =
     (if c = [] \<or> c = ''.'' then clean_comps r out cs
      else if c = ''..'' then
        (if out \<noteq> [] \<and> hd out \<noteq> ''..'' then clean_comps r (tl out) cs
         else if r then clean_comps r out cs
         else clean_comps r (c # out) cs)
      else clean_comps r (c # out) cs)"

definition comps :: "string \<Rightarrow> string list" where
  "comps s = clean_comps (rooted s) [] (split_on slash s)"

definition clean :: "string \<Rightarrow> string" where
  "clean s = (if rooted s then slash # join_with [slash] (comps s)
     else if comps s = [] then ''.'' else join_with [slash] (comps s))"

definition join_path :: "string list \<Rightarrow> string" where
  "join_path ps = (case dropWhile (\<lambda>p. p = []) ps of [] \<Rightarrow> [] | qs \<Rightarrow> clean (join_with [slash] qs))"

text \<open>\<open>Abs\<close> reads the working directory, which may fail, for a relative path only.\<close>

definition abs_path :: "string option \<Rightarrow> string \<Rightarrow> string option" where
  "abs_path cwd p = (if rooted p then Some (clean p) else map_option (\<lambda>d. join_path [d, p]) cwd)"

text \<open>\<open>Rel\<close> of two absolute paths, which is how every caller here uses it.\<close>

fun rel_comps :: "string list \<Rightarrow> string list \<Rightarrow> string list" where
  "rel_comps (b # bs) (t # ts) = (if b = t then rel_comps bs ts else replicate (length (b # bs)) ''..'' @ t # ts)"
| "rel_comps bs ts = replicate (length bs) ''..'' @ ts"

definition rel_path :: "string \<Rightarrow> string \<Rightarrow> string" where
  "rel_path base targ =
     (let b = comps base; t = comps targ in if t = b then ''.'' else join_with [slash] (rel_comps b t))"

definition within_base :: "string \<Rightarrow> string \<Rightarrow> bool" where
  "within_base base p =
     (let rel = rel_path base p in rel = ''.'' \<or> rel \<noteq> ''..'' \<and> \<not> has_prefix rel ''../'')"

section \<open>Containment\<close>

text \<open>
  \<open>resolveExisting\<close> of an absolute clean path, given by its components last first: \<open>ev\<close> is
  \<open>filepath.EvalSymlinks\<close>, which fails on a path that does not exist.
\<close>

definition abs_of :: "string list \<Rightarrow> string" where
  "abs_of cs = slash # join_with [slash] cs"

primrec resolve_existing :: "(string \<Rightarrow> string option) \<Rightarrow> string list \<Rightarrow> string" where
  "resolve_existing ev [] = (case ev [slash] of Some real \<Rightarrow> real | None \<Rightarrow> [slash])"
| "resolve_existing ev (c # cs) =
     (case ev (abs_of (rev (c # cs))) of
        Some real \<Rightarrow> real
      | None \<Rightarrow> join_path [resolve_existing ev cs, c])"

definition resolved :: "(string \<Rightarrow> string option) \<Rightarrow> string \<Rightarrow> string" where
  "resolved ev p = resolve_existing ev (rev (comps p))"

definition contain :: "(string \<Rightarrow> string option) \<Rightarrow> string option \<Rightarrow> string \<Rightarrow> string \<Rightarrow> err + string" where
  "contain ev cwd base untrusted =
     (if untrusted = [] then Inl (Msg ''contain: empty path'')
      else if rooted untrusted then Inl (Fmt ''contain: absolute path rejected: %q'' [untrusted])
      else case abs_path cwd base of
          None \<Rightarrow> Inl (Msg ''getwd'')
        | Some b \<Rightarrow>
            (let joined = join_path [b, untrusted] in
             if \<not> within_base b joined then Inl (Fmt ''contain: path escapes base: %q'' [untrusted])
             else if \<not> within_base (resolved ev b) (resolved ev joined) then
               Inl (Fmt ''contain: symlink escapes base: %q'' [untrusted])
             else Inr joined))"

text \<open>\<open>disjoint\<close>: an unresolvable path counts as not disjoint.\<close>

definition apart :: "string option \<Rightarrow> string \<Rightarrow> string \<Rightarrow> bool" where
  "apart cwd a b =
     (case (abs_path cwd a, abs_path cwd b) of
        (Some x, Some y) \<Rightarrow> x \<noteq> y \<and> \<not> within_base x y \<and> \<not> within_base y x
      | _ \<Rightarrow> False)"

section \<open>What containment means\<close>

definition plain_comp :: "string \<Rightarrow> bool" where
  "plain_comp c \<longleftrightarrow> c \<noteq> [] \<and> c \<noteq> ''.'' \<and> c \<noteq> ''..'' \<and> slash \<notin> set c"

lemma split_no_sep: "c \<in> set (split_on d s) \<Longrightarrow> d \<notin> set c"
proof (induction d s arbitrary: c rule: split_on.induct)
  case (2 d x s)
  then show ?case by (auto split: if_splits list.splits)
qed simp

lemma clean_rooted_plain:
  "list_all plain_comp out \<Longrightarrow> \<forall>c \<in> set cs. slash \<notin> set c \<Longrightarrow> list_all plain_comp (clean_comps True out cs)"
proof (induction True out cs rule: clean_comps.induct)
  case (2 out c cs)
  then show ?case by (cases out) (auto simp: plain_comp_def)
qed (simp add: list_all_iff)

lemma comps_plain: "rooted s \<Longrightarrow> list_all plain_comp (comps s)"
  by (auto simp: comps_def intro!: clean_rooted_plain dest: split_no_sep)

lemma rel_comps_up: "\<not> prefix b t \<Longrightarrow> \<exists>r. rel_comps b t = ''..'' # r"
  by (induction b t rule: rel_comps.induct) (auto simp: neq_Nil_conv)

lemma rel_comps_down: "rel_comps b (b @ t) = t"
proof (induction b)
  case Nil
  then show ?case by (cases t) simp_all
qed simp

lemma until_slash: "slash \<notin> set c \<Longrightarrow> takeWhile (\<lambda>x. x \<noteq> slash) (c @ slash # r) = c"
  by (induction c) auto

lemma join_up:
  assumes "slash \<notin> set c"
  shows "join_with [slash] (c # cs) = ''..'' \<or> has_prefix (join_with [slash] (c # cs)) ''../'' \<longleftrightarrow> c = ''..''"
proof (cases cs)
  case Nil
  have "\<not> has_prefix c ''../''" using assms by (auto simp: has_prefix_ex)
  then show ?thesis using Nil by simp
next
  case (Cons d ds)
  define r where "r = join_with [slash] (d # ds)"
  have j: "join_with [slash] (c # cs) = c @ slash # r" by (simp add: Cons r_def)
  have "c @ slash # r \<noteq> ''..''"
  proof
    assume "c @ slash # r = ''..''"
    then have "slash \<in> set ''..''" by (metis in_set_conv_decomp)
    then show False by simp
  qed
  moreover have "c = ''..''" if e: "c @ slash # r = ''../'' @ q" for q
  proof -
    have "c = takeWhile (\<lambda>x. x \<noteq> slash) (''../'' @ q)" using until_slash [OF assms, of r] e by simp
    then show ?thesis by simp
  qed
  ultimately show ?thesis by (auto simp: j has_prefix_ex)
qed

theorem within_base_prefix:
  assumes "rooted b" and "rooted p"
  shows "within_base b p \<longleftrightarrow> prefix (comps b) (comps p)"
proof (cases "prefix (comps b) (comps p)")
  case True
  then obtain t where t: "comps p = comps b @ t" by (auto simp: prefix_def)
  show ?thesis
  proof (cases t)
    case Nil
    then show ?thesis using t by (simp add: within_base_def rel_path_def)
  next
    case (Cons c cs)
    have "plain_comp c" using comps_plain [OF assms(2)] t Cons by (simp add: list_all_iff)
    then have c: "slash \<notin> set c" "c \<noteq> ''..''" by (simp_all add: plain_comp_def)
    then show ?thesis
      using t Cons True join_up [OF c(1), of cs] by (simp add: within_base_def rel_path_def rel_comps_down Let_def)
  qed
next
  case False
  then have "comps p \<noteq> comps b" by auto
  moreover obtain r where "rel_comps (comps b) (comps p) = ''..'' # r" using rel_comps_up [OF False] by blast
  ultimately show ?thesis
    using False join_up [of "''..''" r] by (auto simp: within_base_def rel_path_def Let_def has_prefix_def)
qed

section \<open>Cleaning\<close>

lemma clean_comps_plain: "list_all plain_comp cs \<Longrightarrow> clean_comps r out cs = rev out @ cs"
  by (induction r out cs rule: clean_comps.induct) (auto simp: plain_comp_def)

lemma split_no_slash: "d \<notin> set c \<Longrightarrow> split_on d c = [c]"
  by (induction d c rule: split_on.induct) auto

lemma split_append: "d \<notin> set c \<Longrightarrow> split_on d (c @ d # s) = c # split_on d s"
  by (induction c) (auto split: list.splits)

lemma split_join: "\<forall>c \<in> set cs. slash \<notin> set c \<Longrightarrow> cs \<noteq> [] \<Longrightarrow> split_on slash (join_with [slash] cs) = cs"
  by (induction "[slash]" cs rule: join_with.induct) (auto simp: split_no_slash split_append)

lemma comps_abs_of:
  assumes "list_all plain_comp cs"
  shows "comps (abs_of cs) = cs"
proof (cases cs)
  case Nil
  then show ?thesis by (simp add: comps_def abs_of_def rooted_def)
next
  case (Cons c ds)
  have "split_on slash (abs_of cs) = [] # cs"
    using assms Cons split_append [of slash "[]" "join_with [slash] cs"] split_join [of cs]
    by (auto simp: abs_of_def list_all_iff plain_comp_def)
  then show ?thesis
    using clean_comps_plain [OF assms] by (simp add: comps_def rooted_def abs_of_def)
qed

lemma clean_rooted: "rooted s \<Longrightarrow> clean s = abs_of (comps s)"
  by (simp add: clean_def abs_of_def)

lemma rooted_abs_of [simp]: "rooted (abs_of cs)"
  by (simp add: rooted_def abs_of_def)

lemma comps_clean: "rooted s \<Longrightarrow> comps (clean s) = comps s"
  by (simp add: clean_rooted comps_abs_of comps_plain)

lemma join_rooted:
  assumes "rooted b"
  shows "join_path [b, u] = abs_of (comps (join_path [b, u]))" and "rooted (join_path [b, u])"
proof -
  have "b \<noteq> []" using assms by (auto simp: rooted_def)
  then have j: "join_path [b, u] = clean (b @ [slash] @ u)" by (simp add: join_path_def)
  have "rooted (b @ [slash] @ u)" using assms by (auto simp: rooted_def)
  then show "join_path [b, u] = abs_of (comps (join_path [b, u]))"
    by (simp add: j clean_rooted comps_abs_of comps_plain)
  then show "rooted (join_path [b, u])" by (metis rooted_abs_of)
qed

lemma abs_path_rooted: "abs_path cwd p = Some a \<Longrightarrow> (\<And>d. cwd = Some d \<Longrightarrow> rooted d) \<Longrightarrow> rooted a"
  by (auto simp: abs_path_def clean_rooted join_rooted(2) split: if_splits)

lemma resolved_rooted:
  assumes "\<And>q r. ev q = Some r \<Longrightarrow> rooted r"
  shows "rooted (resolved ev p)"
proof -
  have "rooted (resolve_existing ev cs)" for cs
  proof (induction cs)
    case Nil
    then show ?case using assms by (auto simp: rooted_def split: option.split)
  next
    case (Cons c cs)
    then show ?case using assms by (auto simp: join_rooted(2) split: option.split)
  qed
  then show ?thesis by (simp add: resolved_def)
qed

lemma resolved_real:
  assumes "p = abs_of (comps p)" and "ev p = Some real"
  shows "resolved ev p = real"
proof (cases "rev (comps p)")
  case Nil
  then have "comps p = []" by simp
  with assms have "ev [slash] = Some real" by (metis abs_of_def join_with.simps(1))
  then show ?thesis by (simp add: resolved_def Nil)
next
  case (Cons c cs)
  then have "comps p = rev (c # cs)" by (metis rev_rev_ident)
  with assms have "ev (abs_of (rev (c # cs))) = Some real" by metis
  then show ?thesis by (simp add: resolved_def Cons)
qed

lemma contain_iff:
  assumes ev: "\<And>q r. ev q = Some r \<Longrightarrow> rooted r" and cwd: "\<And>d. cwd = Some d \<Longrightarrow> rooted d"
  shows "contain ev cwd base u = Inr p \<longleftrightarrow> u \<noteq> [] \<and> \<not> rooted u \<and> (\<exists>b. abs_path cwd base = Some b \<and> p = join_path [b, u]
    \<and> prefix (comps b) (comps p) \<and> prefix (comps (resolved ev b)) (comps (resolved ev p)))"
proof (cases "abs_path cwd base")
  case None
  then show ?thesis by (simp add: contain_def)
next
  case (Some b)
  then have b: "rooted b" using abs_path_rooted cwd by blast
  have "within_base (resolved ev b) (resolved ev (join_path [b, u]))
      \<longleftrightarrow> prefix (comps (resolved ev b)) (comps (resolved ev (join_path [b, u])))"
    by (intro within_base_prefix resolved_rooted) (blast intro: ev)+
  then show ?thesis
    using Some within_base_prefix [OF b join_rooted(2) [OF b, of u]] by (auto simp: contain_def Let_def)
qed

end
