(* ===== verification/Substrate.thy ===== *)
theory Substrate
  imports Paths Manifest "HOL-Library.AList"
begin

text \<open>
  The isolation substrate (\<open>internal/substrate\<close>, \<open>internal/worktree\<close>): the boundary that a session works in.
  The grain that makes the directory, the file system, the ports of the host and SHA-256 are
  parameters. A provision or a teardown is a sequence of steps, cut where the code lets go of a mutex
  or touches the outside world, so that concurrent calls interleave.
\<close>

section \<open>Names\<close>

definition slug_char :: "char \<Rightarrow> bool" where
  "slug_char c \<longleftrightarrow> is_alnum c \<or> c = CHR ''-'' \<or> c = CHR ''_''"

definition sanitize :: "string \<Rightarrow> string" where
  "sanitize s = map (\<lambda>r. if r < 128 \<and> slug_char (char_of r) then char_of r else CHR ''_'') (runes s)"

definition trim_set :: "char set \<Rightarrow> string \<Rightarrow> string" where
  "trim_set cs s = rev (dropWhile (\<lambda>c. c \<in> cs) (rev (dropWhile (\<lambda>c. c \<in> cs) s)))"

definition safe_slug :: "(string \<Rightarrow> string) \<Rightarrow> string \<Rightarrow> string" where
  "safe_slug sha s =
     (let out = trim_set {CHR ''-'', CHR ''_''} (sanitize s) in
      if out = [] then []
      else if out \<noteq> s then out @ ''-'' @ hex_encode (take 4 (sha s)) else out)"

definition resource_slug :: "(string \<Rightarrow> string) \<Rightarrow> string \<Rightarrow> string" where
  "resource_slug sha r =
     (let san = trim_set {CHR ''-'', CHR ''_''} (sanitize r) in
      (if san = [] then ''res'' else san) @ ''-'' @ hex_encode (take 6 (sha r)))"

definition resource_env_name :: "string \<Rightarrow> string" where
  "resource_env_name slug = ''MAD_RES_'' @ to_upper (map (\<lambda>c. if c = CHR ''-'' then CHR ''_'' else c) slug)"

definition is_alpha :: "char \<Rightarrow> bool" where
  "is_alpha c \<longleftrightarrow> c = CHR ''_'' \<or> is_upper c \<or> is_lower c"

definition is_env_ident :: "string \<Rightarrow> bool" where
  "is_env_ident s \<longleftrightarrow> s \<noteq> [] \<and> is_alpha (hd s) \<and> list_all (\<lambda>c. is_alpha c \<or> is_digit c) (tl s)"

definition launch_sensitive :: "string \<Rightarrow> bool" where
  "launch_sensitive n \<longleftrightarrow>
     n \<in> set [''PATH'', ''HOME'', ''SHELL'', ''IFS'', ''ENV'', ''BASH_ENV'', ''PWD'', ''OLDPWD'', ''USER'', ''LOGNAME'']
     \<or> list_ex (has_prefix n) [''LD_'', ''DYLD_'', ''GIT_'', ''SSH_'']"

definition env_name_error :: "string \<Rightarrow> (string \<times> string) list \<Rightarrow> err option" where
  "env_name_error n env =
     (if \<not> is_env_ident n then Some (Fmt ''env name %q is not a valid identifier'' [n])
      else if launch_sensitive n then Some (Fmt ''env name %q is reserved (launch-critical)'' [n])
      else if map_of env n \<noteq> None then Some (Fmt ''env name %q is reserved or already assigned'' [n])
      else None)"

section \<open>The outside world\<close>

record boundary =
  bd_cwd :: string
  bd_branch :: string
  bd_worktree :: string
  bd_container :: string

definition no_boundary :: boundary where
  "no_boundary = \<lparr>bd_cwd = [], bd_branch = [], bd_worktree = [], bd_container = []\<rparr>"

text \<open>A grain may report a boundary beside an error.\<close>

record 'e grain =
  gr_name :: string
  gr_provision :: "string \<Rightarrow> 'e \<Rightarrow> (boundary \<times> err option) \<times> 'e"
  gr_teardown :: "boundary \<Rightarrow> ('e, unit) eff"
  gr_reclaim :: "string \<Rightarrow> ('e, unit) eff"

text \<open>\<open>os_listen\<close> opens a listener on a free port while those of the list are held open.\<close>

record 'e os =
  os_mkdir :: "string \<Rightarrow> ('e, unit) eff"
  os_remove :: "string \<Rightarrow> ('e, unit) eff"
  os_listen :: "int list \<Rightarrow> ('e, int) eff"
  os_eval :: "'e \<Rightarrow> string \<Rightarrow> string option"
  os_cwd :: "string option"

section \<open>Ports\<close>

function alloc_ports :: "'e os \<Rightarrow> nat \<Rightarrow> int list \<Rightarrow> int list \<Rightarrow> int set \<Rightarrow> 'e \<Rightarrow> (err + int list) \<times> int set \<times> 'e" where
  "alloc_ports os n probes ports res e =
     (if n \<le> length ports then (Inr ports, res, e)
      else if n + 256 < length probes then
        (Inl (Fmt ''substrate: could not allocate %d free ports (too many collisions)'' [itoa (int n)]), res, e)
      else case os_listen os probes e of
          (Inl x, e') \<Rightarrow> (Inl (Wrapped ''substrate: port probe'' x), res, e')
        | (Inr p, e') \<Rightarrow>
            if p \<in> res then alloc_ports os n (probes @ [p]) ports res e'
            else alloc_ports os n (probes @ [p]) (ports @ [p]) (insert p res) e')"
  by pat_completeness auto
termination by (relation "measure (\<lambda>(os, n, probes, ports, res, e). n + 257 - length probes)") auto

declare alloc_ports.simps [simp del]

section \<open>The substrate\<close>

record res_req =
  rr_name :: string
  rr_domain :: string
  rr_ref :: string

record prov_req =
  pq_ports :: int
  pq_resources :: "res_req list"

record env_spec =
  es_session :: string
  es_grain :: string
  es_boundary :: boundary
  es_ports :: "int list"
  es_env :: "(string \<times> string) list"
  es_dirs :: "(string \<times> string) list"
  es_root :: string
  es_deferred :: "(string \<times> kind) list"

record 'e sub_conf =
  sc_repo :: string
  sc_cls :: manifest
  sc_grain :: "'e grain"
  sc_os :: "'e os"
  sc_default_ports :: int
  sc_sha :: "string \<Rightarrow> string"
  sc_state_env :: string
  sc_home :: string
  sc_canonical :: string

record 'e sub =
  sb_live :: "string \<Rightarrow> env_spec option"
  sb_busy :: "string set"
  sb_reserved :: "int set"
  sb_env :: 'e

definition fresh_sub :: "'e \<Rightarrow> 'e sub" where
  "fresh_sub e = \<lparr>sb_live = Map.empty, sb_busy = {}, sb_reserved = {}, sb_env = e\<rparr>"

definition default_ports :: "int \<Rightarrow> int" where
  "default_ports n = (if n \<le> 0 then 4 else n)"

definition on_env :: "('e, 'a) eff \<Rightarrow> ('e sub, 'a) eff" where
  "on_env m s = (case m (sb_env s) of (r, e) \<Rightarrow> (r, s\<lparr>sb_env := e\<rparr>))"

definition should_isolate :: "kind \<Rightarrow> bool" where
  "should_isolate k \<longleftrightarrow> k = Forkable"

definition resource_ref :: "res_req \<Rightarrow> ref" where
  "resource_ref r = (if rr_domain r = ''path'' then PathRef (rr_ref r)
     else if rr_domain r = ''external'' then ExternalRef (rr_ref r) else UnknownRef (rr_ref r))"

definition state_roles :: "string list" where
  "state_roles = [''scratch'', ''cache'', ''state'']"

definition state_base :: "'e sub_conf \<Rightarrow> string" where
  "state_base cf = join_path [if sc_state_env cf = [] then join_path [sc_home cf, ''.mad-trellis'', ''state''] else sc_state_env cf,
     hex_encode (take 8 (sc_sha cf (sc_canonical cf)))]"

definition state_root :: "'e sub_conf \<Rightarrow> string \<Rightarrow> string" where
  "state_root cf slug = join_path [state_base cf, slug]"

definition remove_state :: "'e sub_conf \<Rightarrow> string \<Rightarrow> ('e sub, unit) eff" where
  "remove_state cf root = (if root = [] then ret () else on_env (os_remove (sc_os cf) root))"

definition role :: "(string \<times> string) list \<Rightarrow> string \<Rightarrow> string" where
  "role dirs r = (case map_of dirs r of None \<Rightarrow> [] | Some p \<Rightarrow> p)"

definition port_env :: "int list \<Rightarrow> (string \<times> string) list" where
  "port_env ports = (case ports of [] \<Rightarrow> []
     | p # _ \<Rightarrow> map (\<lambda>(i, q). (''MAD_PORT_'' @ itoa (int i), itoa q)) (zip [0..<length ports] ports)
         @ [(''PORT'', itoa p), (''MAD_PORTS'', join_with '','' (map itoa ports))])"

definition build_env :: "string \<Rightarrow> int list \<Rightarrow> (string \<times> string) list \<Rightarrow> (string \<times> string) list" where
  "build_env session ports dirs =
     [(''MAD_SESSION'', session), (''MAD_SCRATCH'', role dirs ''scratch''), (''MAD_CACHE'', role dirs ''cache''),
      (''MAD_STATE'', role dirs ''state''), (''TMPDIR'', role dirs ''scratch''),
      (''XDG_CACHE_HOME'', role dirs ''cache''), (''XDG_STATE_HOME'', role dirs ''state'')] @ port_env ports"

section \<open>Provision and teardown\<close>

text \<open>What a provision has built so far.\<close>

record build =
  bl_session :: string
  bl_slug :: string
  bl_req :: prov_req
  bl_bound :: boundary
  bl_ports :: "int list"
  bl_root :: string
  bl_dirs :: "(string \<times> string) list"
  bl_env :: "(string \<times> string) list"
  bl_deferred :: "(string \<times> kind) list"

datatype stage = AtGrain | AtPorts | AtDirs "string list" | AtEnv | AtRoute "res_req list"

text \<open>
  Where a call is: before its first critical section; building; in the rollback of a failed build, before
  it gives back the reservation, the ports, the state and the boundary; a teardown that found nothing, before
  it reclaims an orphan and its state; a teardown that found a boundary, before it drops the ports, the
  state, the boundary and the reservation; returned, or panicked after the rollback had run.
\<close>

datatype phase =
    Provisioning string prov_req
  | Building stage build
  | GiveBack err build
  | GivePorts err build
  | GiveState err build
  | GiveGrain err build
  | Tearing string
  | Orphan string
  | OrphanState string
  | DropPorts string env_spec
  | DropState string env_spec
  | DropGrain string env_spec "err option"
  | Unreserve string "err option"
  | Provisioned env_spec
  | Refused err
  | Panicked
  | TornDown "err option"

definition reserve :: "'e sub_conf \<Rightarrow> string \<Rightarrow> prov_req \<Rightarrow> 'e sub \<Rightarrow> phase \<times> 'e sub" where
  "reserve cf session q s =
     (let slug = safe_slug (sc_sha cf) session in
      if trim_space session = [] then (Refused (Msg ''substrate: empty session''), s)
      else if slug = [] then (Refused (Fmt ''substrate: session has no safe slug: %q'' [session]), s)
      else if sb_live s slug \<noteq> None then (Refused (Fmt ''substrate: session %q already provisioned'' [session]), s)
      else if slug \<in> sb_busy s then
        (Refused (Fmt ''substrate: session %q busy: a lifecycle operation is in flight'' [session]), s)
      else (Building AtGrain \<lparr>bl_session = session, bl_slug = slug, bl_req = q, bl_bound = no_boundary, bl_ports = [],
              bl_root = [], bl_dirs = [], bl_env = [], bl_deferred = []\<rparr>, s\<lparr>sb_busy := insert slug (sb_busy s)\<rparr>))"

definition make_boundary :: "'e sub_conf \<Rightarrow> build \<Rightarrow> 'e sub \<Rightarrow> phase \<times> 'e sub" where
  "make_boundary cf b s =
     (case gr_provision (sc_grain cf) (bl_slug b) (sb_env s) of
        ((bd, Some x), e) \<Rightarrow> (GiveBack (Wrapped ''substrate: grain provision'' x) (b\<lparr>bl_bound := bd\<rparr>), s\<lparr>sb_env := e\<rparr>)
      | ((bd, None), e) \<Rightarrow>
          (let path = (if bd_worktree bd = [] then bd_cwd bd else bd_worktree bd); b' = b\<lparr>bl_bound := bd\<rparr>
           in (if apart (os_cwd (sc_os cf)) path (sc_repo cf) then Building AtPorts b'
               else GiveBack (Fmt ''substrate: grain placed boundary %q inside the governed repo %q'' [path, sc_repo cf]) b',
               s\<lparr>sb_env := e\<rparr>)))"

text \<open>
  The rollback knows the ports only if the allocation succeeded. \<open>make([]int, 0, n)\<close> panics when the
  slice would exceed the address space, \<open>2 ^ 48\<close> bytes.
\<close>

definition max_slice :: int where "max_slice = 2 ^ 45"

definition slice_panic :: err where "slice_panic = Msg ''panic: makeslice: cap out of range''"

definition take_ports :: "'e sub_conf \<Rightarrow> build \<Rightarrow> 'e sub \<Rightarrow> phase \<times> 'e sub" where
  "take_ports cf b s =
     (let n = (if pq_ports (bl_req b) \<le> 0 then sc_default_ports cf else pq_ports (bl_req b)) in
      if n \<le> 0 then (Building (AtDirs state_roles) (b\<lparr>bl_root := state_root cf (bl_slug b)\<rparr>), s)
      else if max_slice < n then (GiveBack slice_panic b, s)
      else case alloc_ports (sc_os cf) (nat n) [] [] (sb_reserved s) (sb_env s) of
          (Inl x, res, e) \<Rightarrow> (GiveBack (Wrapped ''substrate: port allocate'' x) b, s\<lparr>sb_reserved := res, sb_env := e\<rparr>)
        | (Inr ps, res, e) \<Rightarrow>
            (Building (AtDirs state_roles) (b\<lparr>bl_ports := ps, bl_root := state_root cf (bl_slug b)\<rparr>),
             s\<lparr>sb_reserved := res, sb_env := e\<rparr>))"

definition make_dir :: "'e sub_conf \<Rightarrow> string \<Rightarrow> string \<Rightarrow> ('e sub, string) eff" where
  "make_dir cf root sub s =
     (case contain (os_eval (sc_os cf) (sb_env s)) (os_cwd (sc_os cf)) root sub of
        Inl x \<Rightarrow> (Inl x, s)
      | Inr p \<Rightarrow> andThen (on_env (os_mkdir (sc_os cf) p)) (\<lambda>_. ret p) s)"

definition make_state :: "'e sub_conf \<Rightarrow> string \<Rightarrow> string list \<Rightarrow> build \<Rightarrow> 'e sub \<Rightarrow> phase \<times> 'e sub" where
  "make_state cf r rs b s =
     (case make_dir cf (bl_root b) r s of
        (Inl x, s') \<Rightarrow> (GiveBack (Wrapped ''substrate: local-state'' x) b, s')
      | (Inr p, s') \<Rightarrow> (Building (AtDirs rs) (b\<lparr>bl_dirs := bl_dirs b @ [(r, p)]\<rparr>), s'))"

definition start_env :: "'e sub_conf \<Rightarrow> build \<Rightarrow> phase" where
  "start_env cf b =
     (if apart (os_cwd (sc_os cf)) (bl_root b) (sc_repo cf) then
        Building (AtRoute (pq_resources (bl_req b))) (b\<lparr>bl_env := build_env (bl_session b) (bl_ports b) (bl_dirs b)\<rparr>)
      else GiveBack (Fmt ''substrate: local-state root %q inside the governed repo %q'' [bl_root b, sc_repo cf]) b)"

definition route_resource :: "'e sub_conf \<Rightarrow> res_req \<Rightarrow> res_req list \<Rightarrow> build \<Rightarrow> 'e sub \<Rightarrow> phase \<times> 'e sub" where
  "route_resource cf r rs b s =
     (if trim_space (rr_ref r) = [] then (GiveBack (Msg ''substrate: resource ref required'') b, s)
      else let k = classify (sc_cls cf) (resource_ref r) in
      if \<not> should_isolate k then
        (Building (AtRoute rs) (b\<lparr>bl_deferred := bl_deferred b @ [(rr_ref r, k)]\<rparr>), s)
      else
        (let slug = resource_slug (sc_sha cf) (rr_ref r) in
         case make_dir cf (bl_root b) (join_path [''res'', slug]) s of
           (Inl x, s') \<Rightarrow> (GiveBack (Wrapped ''substrate: route resource'' x) b, s')
         | (Inr p, s') \<Rightarrow>
             (let name = (if rr_name r = [] then resource_env_name slug else rr_name r) in
              (case env_name_error name (bl_env b) of
                 Some x \<Rightarrow> GiveBack (Wrapped ''substrate: route resource'' x) b
               | None \<Rightarrow> Building (AtRoute rs) (b\<lparr>bl_env := bl_env b @ [(name, p)]\<rparr>), s'))))"

definition spec_of :: "'e sub_conf \<Rightarrow> build \<Rightarrow> env_spec" where
  "spec_of cf b = \<lparr>es_session = bl_session b, es_grain = gr_name (sc_grain cf), es_boundary = bl_bound b,
     es_ports = bl_ports b, es_env = bl_env b, es_dirs = bl_dirs b, es_root = bl_root b,
     es_deferred = sort_key fst (bl_deferred b)\<rparr>"

definition publish :: "'e sub_conf \<Rightarrow> build \<Rightarrow> 'e sub \<Rightarrow> phase \<times> 'e sub" where
  "publish cf b s = (Provisioned (spec_of cf b),
     s\<lparr>sb_busy := sb_busy s - {bl_slug b}, sb_live := (sb_live s)(bl_slug b \<mapsto> spec_of cf b)\<rparr>)"

definition begin_teardown :: "'e sub_conf \<Rightarrow> string \<Rightarrow> 'e sub \<Rightarrow> phase \<times> 'e sub" where
  "begin_teardown cf session s =
     (let slug = safe_slug (sc_sha cf) session in
      case sb_live s slug of
        None \<Rightarrow> (if slug \<in> sb_busy s then TornDown None else Orphan slug, s)
      | Some sp \<Rightarrow> (DropPorts slug sp, s\<lparr>sb_live := (sb_live s)(slug := None), sb_busy := insert slug (sb_busy s)\<rparr>))"

definition error_of :: "(err + unit) \<times> 's \<Rightarrow> err option \<times> 's" where
  "error_of r = (case r of (Inl x, s) \<Rightarrow> (Some x, s) | (Inr _, s) \<Rightarrow> (None, s))"

fun op_step :: "'e sub_conf \<Rightarrow> phase \<Rightarrow> 'e sub \<Rightarrow> phase \<times> 'e sub" where
  "op_step cf (Provisioning session q) s = reserve cf session q s"
| "op_step cf (Building AtGrain b) s = make_boundary cf b s"
| "op_step cf (Building AtPorts b) s = take_ports cf b s"
| "op_step cf (Building (AtDirs (r # rs)) b) s = make_state cf r rs b s"
| "op_step cf (Building (AtDirs []) b) s = (Building AtEnv b, s)"
| "op_step cf (Building AtEnv b) s = (start_env cf b, s)"
| "op_step cf (Building (AtRoute (r # rs)) b) s = route_resource cf r rs b s"
| "op_step cf (Building (AtRoute []) b) s = publish cf b s"
| "op_step cf (GiveBack x b) s = (GivePorts x b, s\<lparr>sb_busy := sb_busy s - {bl_slug b}\<rparr>)"
| "op_step cf (GivePorts x b) s = (GiveState x b, s\<lparr>sb_reserved := sb_reserved s - set (bl_ports b)\<rparr>)"
| "op_step cf (GiveState x b) s = (GiveGrain x b, snd (remove_state cf (bl_root b) s))"
| "op_step cf (GiveGrain x b) s = (if x = slice_panic then Panicked else Refused x,
     if bd_cwd (bl_bound b) = [] then s else snd (on_env (gr_teardown (sc_grain cf) (bl_bound b)) s))"
| "op_step cf (Tearing session) s = begin_teardown cf session s"
| "op_step cf (Orphan slug) s = (OrphanState slug, snd (on_env (gr_reclaim (sc_grain cf) slug) s))"
| "op_step cf (OrphanState slug) s = (TornDown None, snd (remove_state cf (state_root cf slug) s))"
| "op_step cf (DropPorts slug sp) s = (DropState slug sp, s\<lparr>sb_reserved := sb_reserved s - set (es_ports sp)\<rparr>)"
| "op_step cf (DropState slug sp) s = (case error_of (remove_state cf (es_root sp) s) of (x, s') \<Rightarrow> (DropGrain slug sp x, s'))"
| "op_step cf (DropGrain slug sp x) s = (case error_of (on_env (gr_teardown (sc_grain cf) (es_boundary sp)) s) of
     (y, s') \<Rightarrow> (Unreserve slug (if x = None then y else x), s'))"
| "op_step cf (Unreserve slug x) s = (TornDown x, s\<lparr>sb_busy := sb_busy s - {slug}\<rparr>)"
| "op_step cf (Provisioned sp) s = (Provisioned sp, s)"
| "op_step cf (Refused x) s = (Refused x, s)"
| "op_step cf Panicked s = (Panicked, s)"
| "op_step cf (TornDown x) s = (TornDown x, s)"

definition lookup_spec :: "'e sub_conf \<Rightarrow> string \<Rightarrow> 'e sub \<Rightarrow> env_spec option" where
  "lookup_spec cf session s = sb_live s (safe_slug (sc_sha cf) session)"

section \<open>Interleaved calls\<close>

inductive sub_step :: "'e sub_conf \<Rightarrow> phase list \<times> 'e sub \<Rightarrow> phase list \<times> 'e sub \<Rightarrow> bool" for cf where
  provision: "sub_step cf (ops, s) (ops @ [Provisioning session q], s)"
| teardown: "sub_step cf (ops, s) (ops @ [Tearing session], s)"
| advance: "i < length ops \<Longrightarrow> op_step cf (ops ! i) s = (p, s') \<Longrightarrow> sub_step cf (ops, s) (ops[i := p], s')"
| outside: "sub_step cf (ops, s) (ops, s\<lparr>sb_env := e\<rparr>)"

definition sub_reaches :: "'e sub_conf \<Rightarrow> phase list \<times> 'e sub \<Rightarrow> phase list \<times> 'e sub \<Rightarrow> bool" where
  "sub_reaches cf = (sub_step cf)\<^sup>*\<^sup>*"

text \<open>A call that nothing interrupts, for as many steps as it needs.\<close>

primrec advance_n :: "'e sub_conf \<Rightarrow> nat \<Rightarrow> phase \<times> 'e sub \<Rightarrow> phase \<times> 'e sub" where
  "advance_n cf 0 c = c"
| "advance_n cf (Suc n) c = advance_n cf n (case c of (p, s) \<Rightarrow> op_step cf p s)"

end
