(* ===== verification/SubstrateFacts.thy ===== *)
theory SubstrateFacts
  imports Substrate
begin

text \<open>
  What concurrent provisions and teardowns keep apart: an abstract book of reservations, which the
  steps of the substrate follow, and its invariant; what a finished boundary contains.
\<close>

section \<open>The book of reservations\<close>

text \<open>
  Slugs and ports are held by a live boundary or by a call in flight (numbered). Ports that a failed
  allocation reserved belong to nobody.
\<close>

record book =
  bk_live :: "string \<Rightarrow> int list option"
  bk_busy :: "string set"
  bk_reserved :: "int set"
  bk_hold :: "nat \<Rightarrow> string option"
  bk_own :: "nat \<Rightarrow> int list"

inductive book_step :: "book \<Rightarrow> book \<Rightarrow> bool" where
  quiet: "book_step k k"
| reserve: "bk_hold k i = None \<Longrightarrow> h \<notin> bk_busy k \<Longrightarrow> bk_live k h = None \<Longrightarrow>
     book_step k (k\<lparr>bk_hold := (bk_hold k)(i := Some h), bk_busy := insert h (bk_busy k)\<rparr>)"
| grab: "bk_own k i = [] \<Longrightarrow> distinct ps \<Longrightarrow> set ps \<inter> bk_reserved k = {} \<Longrightarrow> bk_reserved k \<union> set ps \<subseteq> res \<Longrightarrow>
     book_step k (k\<lparr>bk_own := (bk_own k)(i := ps), bk_reserved := res\<rparr>)"
| strand: "bk_reserved k \<subseteq> res \<Longrightarrow> book_step k (k\<lparr>bk_reserved := res\<rparr>)"
| publish: "bk_hold k i = Some h \<Longrightarrow>
     book_step k (k\<lparr>bk_live := (bk_live k)(h \<mapsto> bk_own k i), bk_own := (bk_own k)(i := []),
       bk_hold := (bk_hold k)(i := None), bk_busy := bk_busy k - {h}\<rparr>)"
| unhold: "bk_hold k i = Some h \<Longrightarrow>
     book_step k (k\<lparr>bk_hold := (bk_hold k)(i := None), bk_busy := bk_busy k - {h}\<rparr>)"
| free: "book_step k (k\<lparr>bk_own := (bk_own k)(i := []), bk_reserved := bk_reserved k - set (bk_own k i)\<rparr>)"
| withdraw: "bk_hold k i = None \<Longrightarrow> bk_own k i = [] \<Longrightarrow> bk_live k h = Some ps \<Longrightarrow>
     book_step k (k\<lparr>bk_live := (bk_live k)(h := None), bk_own := (bk_own k)(i := ps),
       bk_hold := (bk_hold k)(i := Some h), bk_busy := insert h (bk_busy k)\<rparr>)"

definition book_inv :: "book \<Rightarrow> bool" where
  "book_inv k \<longleftrightarrow>
     (\<forall>h. h \<in> bk_busy k \<longleftrightarrow> (\<exists>i. bk_hold k i = Some h))
   \<and> (\<forall>i j h. bk_hold k i = Some h \<and> bk_hold k j = Some h \<longrightarrow> i = j)
   \<and> (\<forall>i h. bk_hold k i = Some h \<longrightarrow> bk_live k h = None)
   \<and> (\<forall>i. set (bk_own k i) \<subseteq> bk_reserved k \<and> distinct (bk_own k i))
   \<and> (\<forall>h ps. bk_live k h = Some ps \<longrightarrow> set ps \<subseteq> bk_reserved k \<and> distinct ps)
   \<and> (\<forall>i j. i \<noteq> j \<longrightarrow> set (bk_own k i) \<inter> set (bk_own k j) = {})
   \<and> (\<forall>i h ps. bk_live k h = Some ps \<longrightarrow> set (bk_own k i) \<inter> set ps = {})
   \<and> (\<forall>h g ps qs. bk_live k h = Some ps \<and> bk_live k g = Some qs \<and> h \<noteq> g \<longrightarrow> set ps \<inter> set qs = {})"

lemma book_invD:
  assumes "book_inv k"
  shows busy_iff: "h \<in> bk_busy k \<longleftrightarrow> (\<exists>i. bk_hold k i = Some h)"
    and hold_one: "bk_hold k i = Some h \<Longrightarrow> bk_hold k j = Some h \<Longrightarrow> i = j"
    and hold_dead: "bk_hold k i = Some h \<Longrightarrow> bk_live k h = None"
    and own_reserved: "set (bk_own k i) \<subseteq> bk_reserved k" "distinct (bk_own k i)"
    and live_reserved: "bk_live k h = Some ps \<Longrightarrow> set ps \<subseteq> bk_reserved k" "bk_live k h = Some ps \<Longrightarrow> distinct ps"
    and own_own: "i \<noteq> j \<Longrightarrow> set (bk_own k i) \<inter> set (bk_own k j) = {}"
    and own_live: "bk_live k h = Some ps \<Longrightarrow> set (bk_own k i) \<inter> set ps = {}"
    and live_live: "bk_live k h = Some ps \<Longrightarrow> bk_live k g = Some qs \<Longrightarrow> h \<noteq> g \<Longrightarrow> set ps \<inter> set qs = {}"
  using assms unfolding book_inv_def by simp_all

lemma book_invI:
  assumes "\<And>h. h \<in> bk_busy k \<longleftrightarrow> (\<exists>i. bk_hold k i = Some h)"
    and "\<And>i j h. bk_hold k i = Some h \<Longrightarrow> bk_hold k j = Some h \<Longrightarrow> i = j"
    and "\<And>i h. bk_hold k i = Some h \<Longrightarrow> bk_live k h = None"
    and "\<And>i. set (bk_own k i) \<subseteq> bk_reserved k \<and> distinct (bk_own k i)"
    and "\<And>h ps. bk_live k h = Some ps \<Longrightarrow> set ps \<subseteq> bk_reserved k \<and> distinct ps"
    and "\<And>i j. i \<noteq> j \<Longrightarrow> set (bk_own k i) \<inter> set (bk_own k j) = {}"
    and "\<And>i h ps. bk_live k h = Some ps \<Longrightarrow> set (bk_own k i) \<inter> set ps = {}"
    and "\<And>h g ps qs. bk_live k h = Some ps \<Longrightarrow> bk_live k g = Some qs \<Longrightarrow> h \<noteq> g \<Longrightarrow> set ps \<inter> set qs = {}"
  shows "book_inv k"
proof -
  have "\<forall>h. h \<in> bk_busy k \<longleftrightarrow> (\<exists>i. bk_hold k i = Some h)" using assms(1) by blast
  moreover have "\<forall>i j h. bk_hold k i = Some h \<and> bk_hold k j = Some h \<longrightarrow> i = j" using assms(2) by blast
  moreover have "\<forall>i h. bk_hold k i = Some h \<longrightarrow> bk_live k h = None" using assms(3) by blast
  moreover have "\<forall>i h ps. bk_live k h = Some ps \<longrightarrow> set (bk_own k i) \<inter> set ps = {}" using assms(7) by blast
  moreover have "\<forall>h g ps qs. bk_live k h = Some ps \<and> bk_live k g = Some qs \<and> h \<noteq> g \<longrightarrow> set ps \<inter> set qs = {}"
    using assms(8) by blast
  ultimately show ?thesis unfolding book_inv_def using assms(4-6) by simp
qed

lemma book_step_inv: "book_step k k' \<Longrightarrow> book_inv k \<Longrightarrow> book_inv k'"
proof (induction rule: book_step.induct)
  case (reserve k i h)
  then show ?case by (simp add: book_inv_def) (metis option.distinct(1))
next
  case (grab k i ps res)
  have "set (bk_own k j) \<inter> set ps = {}" "set ps \<inter> set (bk_own k j) = {}" "set (bk_own k j) \<subseteq> res"
    and "bk_live k h = Some qs \<Longrightarrow> set ps \<inter> set qs = {}" "bk_live k h = Some qs \<Longrightarrow> set qs \<subseteq> res" for j h qs
    using own_reserved(1) [OF grab.prems, of j] live_reserved(1) [OF grab.prems, of h qs] grab.hyps by blast+
  then show ?case using grab by (simp add: book_inv_def)
next
  case (strand k res)
  have "set (bk_own k j) \<subseteq> res" and "bk_live k h = Some qs \<Longrightarrow> set qs \<subseteq> res" for j h qs
    using own_reserved(1) [OF strand.prems, of j] live_reserved(1) [OF strand.prems, of h qs] strand.hyps by blast+
  then show ?case using strand by (simp add: book_inv_def)
next
  case (publish k i h)
  note inv = publish.prems
  note hold = publish.hyps
  have other: "bk_hold k j = Some h \<longleftrightarrow> j = i" for j using hold_one [OF inv] hold by blast
  let ?k = "k\<lparr>bk_live := (bk_live k)(h \<mapsto> bk_own k i), bk_own := (bk_own k)(i := []),
       bk_hold := (bk_hold k)(i := None), bk_busy := bk_busy k - {h}\<rparr>"
  show ?case
  proof (rule book_invI)
    fix g
    show "g \<in> bk_busy ?k \<longleftrightarrow> (\<exists>j. bk_hold ?k j = Some g)"
      using busy_iff [OF inv, of g] other [of i] hold by (simp add: fun_upd_def) (metis other option.inject)
  next
    fix j j' g
    assume "bk_hold ?k j = Some g" "bk_hold ?k j' = Some g"
    then show "j = j'" using hold_one [OF inv] by (auto split: if_splits)
  next
    fix j g
    assume "bk_hold ?k j = Some g"
    then show "bk_live ?k g = None" using other hold_dead [OF inv, of j g] by (auto split: if_splits)
  next
    fix j
    show "set (bk_own ?k j) \<subseteq> bk_reserved ?k \<and> distinct (bk_own ?k j)" using own_reserved [OF inv, of j] by simp
  next
    fix g qs
    assume "bk_live ?k g = Some qs"
    then show "set qs \<subseteq> bk_reserved ?k \<and> distinct qs"
      using own_reserved [OF inv, of i] live_reserved [OF inv, of g qs] by (auto split: if_splits)
  next
    fix j j' :: nat
    assume "j \<noteq> j'"
    then show "set (bk_own ?k j) \<inter> set (bk_own ?k j') = {}" using own_own [OF inv, of j j'] by simp
  next
    fix j g qs
    assume "bk_live ?k g = Some qs"
    then show "set (bk_own ?k j) \<inter> set qs = {}"
      using own_own [OF inv, of j i] own_live [OF inv, of g qs j] by (cases "j = i") (auto split: if_splits)
  next
    fix g g' ps qs
    assume "bk_live ?k g = Some ps" "bk_live ?k g' = Some qs" "g \<noteq> g'"
    then show "set ps \<inter> set qs = {}"
      using live_live [OF inv, of g ps g' qs] own_live [OF inv, of g ps i] own_live [OF inv, of g' qs i]
      by (auto split: if_splits)
  qed
next
  case (unhold k i h)
  note inv = unhold.prems
  let ?k = "k\<lparr>bk_hold := (bk_hold k)(i := None), bk_busy := bk_busy k - {h}\<rparr>"
  have "g \<in> bk_busy ?k \<longleftrightarrow> (\<exists>j. bk_hold ?k j = Some g)" for g
    using busy_iff [OF inv, of g] hold_one [OF inv] unhold.hyps by (simp add: fun_upd_def) (metis option.inject)
  moreover have "bk_hold ?k j = Some g \<Longrightarrow> bk_hold k j = Some g" for j g by (simp split: if_splits)
  ultimately show ?case
    by (intro book_invI) (use inv in \<open>auto intro: hold_one [OF inv] dest: book_invD simp del: fun_upd_apply\<close>)
next
  case (free k i)
  then show ?case by (simp add: book_inv_def) blast
next
  case (withdraw k i h ps)
  note inv = withdraw.prems and live = withdraw.hyps(3)
  have held: "bk_hold k j = Some g \<Longrightarrow> g \<noteq> h" for j g using hold_dead [OF inv] live by fastforce
  let ?k = "k\<lparr>bk_live := (bk_live k)(h := None), bk_own := (bk_own k)(i := ps),
       bk_hold := (bk_hold k)(i := Some h), bk_busy := insert h (bk_busy k)\<rparr>"
  show ?case
  proof (rule book_invI)
    fix g
    show "g \<in> bk_busy ?k \<longleftrightarrow> (\<exists>j. bk_hold ?k j = Some g)"
      using busy_iff [OF inv, of g] withdraw.hyps(1) by (simp add: fun_upd_def) (metis option.distinct(1))
  next
    fix j j' g
    assume "bk_hold ?k j = Some g" "bk_hold ?k j' = Some g"
    then show "j = j'" using hold_one [OF inv, of j g j'] held [of j g] held [of j' g] by (auto split: if_splits)
  next
    fix j g
    assume "bk_hold ?k j = Some g"
    then show "bk_live ?k g = None" using hold_dead [OF inv, of j g] by (auto split: if_splits)
  next
    fix j
    show "set (bk_own ?k j) \<subseteq> bk_reserved ?k \<and> distinct (bk_own ?k j)"
      using own_reserved [OF inv, of j] live_reserved [OF inv live] by simp
  next
    fix g qs
    assume "bk_live ?k g = Some qs"
    then show "set qs \<subseteq> bk_reserved ?k \<and> distinct qs"
      using live_reserved [OF inv, of g qs] by (auto split: if_splits)
  next
    fix j j' :: nat
    assume "j \<noteq> j'"
    then show "set (bk_own ?k j) \<inter> set (bk_own ?k j') = {}"
      using own_own [OF inv, of j j'] own_live [OF inv live, of j] own_live [OF inv live, of j'] by auto
  next
    fix j g qs
    assume "bk_live ?k g = Some qs"
    then show "set (bk_own ?k j) \<inter> set qs = {}"
      using live_live [OF inv live, of g qs] own_live [OF inv, of g qs j] by (auto split: if_splits)
  next
    fix g g' qs qs'
    assume "bk_live ?k g = Some qs" "bk_live ?k g' = Some qs'" "g \<noteq> g'"
    then show "set qs \<inter> set qs' = {}"
      using live_live [OF inv, of g qs g' qs'] by (auto split: if_splits)
  qed
qed simp

section \<open>The substrate keeps the book\<close>

fun hold :: "phase \<Rightarrow> string option" where
  "hold (Building st b) = Some (bl_slug b)"
| "hold (GiveBack x b) = Some (bl_slug b)"
| "hold (DropPorts slug sp) = Some slug"
| "hold (DropState slug sp) = Some slug"
| "hold (DropGrain slug sp x) = Some slug"
| "hold (Unreserve slug x) = Some slug"
| "hold _ = None"

fun own :: "phase \<Rightarrow> int list" where
  "own (Building st b) = bl_ports b"
| "own (GiveBack x b) = bl_ports b"
| "own (GivePorts x b) = bl_ports b"
| "own (DropPorts slug sp) = es_ports sp"
| "own _ = []"

definition book_of :: "phase list \<times> 'e sub \<Rightarrow> book" where
  "book_of c = \<lparr>bk_live = (\<lambda>h. map_option es_ports (sb_live (snd c) h)), bk_busy = sb_busy (snd c),
     bk_reserved = sb_reserved (snd c),
     bk_hold = (\<lambda>i. if i < length (fst c) then hold (fst c ! i) else None),
     bk_own = (\<lambda>i. if i < length (fst c) then own (fst c ! i) else [])\<rparr>"

lemma alloc_ports_fresh:
  "alloc_ports os n probes ports res e = (r, res', e') \<Longrightarrow> length ports \<le> n \<Longrightarrow>
     res \<subseteq> res' \<and> (\<forall>ps. r = Inr ps \<longrightarrow> length ps = n
       \<and> (\<exists>new. ps = ports @ new \<and> distinct new \<and> set new \<inter> res = {} \<and> set new \<subseteq> res'))"
proof (induction os n probes ports res e rule: alloc_ports.induct)
  case (1 os n probes ports res e)
  show ?case
  proof (cases "n \<le> length ports")
    case True
    then have "(Inr ports, res, e) = (r, res', e')" using 1(3) by (subst (asm) alloc_ports.simps) simp
    then show ?thesis using 1(4) True by auto
  next
    case False
    show ?thesis
    proof (cases "n + 256 < length probes")
      case True
      then show ?thesis using 1(3) False by (auto simp: alloc_ports.simps [of os n])
    next
      case more: False
      obtain x e1 where x: "os_listen os probes e = (x, e1)" by (cases "os_listen os probes e")
      show ?thesis
      proof (cases x)
        case (Inl m)
        then show ?thesis using 1(3) False more x by (auto simp: alloc_ports.simps [of os n])
      next
        case (Inr p)
        show ?thesis
        proof (cases "p \<in> res")
          case True
          then show ?thesis
            using 1(1) [OF False more x [symmetric] Inr True] 1(3) False more x Inr
            by (simp add: alloc_ports.simps [of os n _ _ res e])
        next
          case new: False
          then have "alloc_ports os n (probes @ [p]) (ports @ [p]) (insert p res) e1 = (r, res', e')"
            using 1(3) False more x Inr by (simp add: alloc_ports.simps [of os n _ _ res e])
          from 1(2) [OF False more x [symmetric] Inr new this] False new show ?thesis by fastforce
        qed
      qed
    qed
  qed
qed

text \<open>A build has no ports before they are allocated.\<close>

fun no_ports_yet :: "phase \<Rightarrow> bool" where
  "no_ports_yet (Building AtGrain b) = (bl_ports b = [])"
| "no_ports_yet (Building AtPorts b) = (bl_ports b = [])"
| "no_ports_yet _ = True"

definition same_book :: "'e sub \<Rightarrow> 'e sub \<Rightarrow> bool" where
  "same_book s s' \<longleftrightarrow> sb_live s' = sb_live s \<and> sb_busy s' = sb_busy s \<and> sb_reserved s' = sb_reserved s"

lemma same_book_env:
  "same_book s s" "same_book s (s\<lparr>sb_env := e\<rparr>)" "same_book s (snd (on_env m s))" "same_book s (snd (remove_state cf root s))"
  "same_book s (snd (error_of (on_env m s)))" "same_book s (snd (error_of (remove_state cf root s)))"
  "same_book s (snd (make_dir cf root sub s))"
  by (auto simp: same_book_def on_env_def remove_state_def error_of_def make_dir_def andThen_eq
      split: prod.split sum.split)

text \<open>A step of call \<open>i\<close>, told by what it does to the call's own entries and to the tables.\<close>

lemma book_of_set:
  assumes "i < length ops"
  shows "book_of (ops[i := p'], s') = \<lparr>bk_live = (\<lambda>h. map_option es_ports (sb_live s' h)), bk_busy = sb_busy s',
     bk_reserved = sb_reserved s', bk_hold = (bk_hold (book_of (ops, s)))(i := hold p'),
     bk_own = (bk_own (book_of (ops, s)))(i := own p')\<rparr>"
  using assms by (simp add: book_of_def fun_eq_iff nth_list_update)

lemma book_of_now:
  assumes "i < length ops"
  shows "bk_hold (book_of (ops, s)) i = hold (ops ! i)" "bk_own (book_of (ops, s)) i = own (ops ! i)"
    "bk_live (book_of (ops, s)) = (\<lambda>h. map_option es_ports (sb_live s h))" "bk_busy (book_of (ops, s)) = sb_busy s"
    "bk_reserved (book_of (ops, s)) = sb_reserved s"
  using assms by (simp_all add: book_of_def)

lemma step_quiet:
  assumes "i < length ops" and "hold p' = hold (ops ! i)" and "own p' = own (ops ! i)" and "same_book s s'"
  shows "book_step (book_of (ops, s)) (book_of (ops[i := p'], s'))"
proof -
  have "book_of (ops[i := p'], s') = book_of (ops, s)"
    using assms by (simp add: book_of_set [OF assms(1), of p' s' s] same_book_def)
      (simp add: book_of_def fun_eq_iff)
  then show ?thesis by (simp add: quiet)
qed

lemma op_step_book:
  assumes i: "i < length ops" and st: "op_step cf (ops ! i) s = (p', s')" and np: "no_ports_yet (ops ! i)"
  shows "book_step (book_of (ops, s)) (book_of (ops[i := p'], s')) \<and> no_ports_yet p'"
proof (cases "ops ! i")
  case (Provisioning session q)
  let ?h = "safe_slug (sc_sha cf) session"
  show ?thesis
  proof (cases "hold p' = None")
    case True
    then have "own p' = []" "s' = s" "no_ports_yet p'"
      using st Provisioning by (auto simp: reserve_def Let_def split: if_splits)
    with True show ?thesis using Provisioning by (auto intro: step_quiet [OF i] same_book_env)
  next
    case False
    then have h: "hold p' = Some ?h" "own p' = []" "no_ports_yet p'" "sb_live s ?h = None" "?h \<notin> sb_busy s"
      "s' = s\<lparr>sb_busy := insert ?h (sb_busy s)\<rparr>"
      using st Provisioning by (auto simp: reserve_def Let_def split: if_splits)
    have "book_of (ops[i := p'], s') = (book_of (ops, s))\<lparr>bk_hold := (bk_hold (book_of (ops, s)))(i := Some ?h),
        bk_busy := insert ?h (bk_busy (book_of (ops, s)))\<rparr>"
      using h Provisioning i by (simp add: book_of_def fun_eq_iff nth_list_update)
    then show ?thesis
      using book_step.reserve [of "book_of (ops, s)" i ?h] h Provisioning book_of_now [OF i, of s] by simp
  qed
next
  case (Building stage b)
  note at = Building
  have quiet: ?thesis if "hold p' = Some (bl_slug b)" "own p' = bl_ports b" "same_book s s'" "no_ports_yet p'"
    using that at by (auto intro: step_quiet [OF i])
  show ?thesis
  proof (cases stage)
    case AtGrain
    then have "hold p' = Some (bl_slug b) \<and> own p' = bl_ports b \<and> same_book s s' \<and> no_ports_yet p'"
      using st at np by (auto simp: make_boundary_def same_book_def Let_def split: prod.splits option.splits if_splits)
    then show ?thesis using quiet by blast
  next
    case AtPorts
    then have none: "bl_ports b = []" using np at by simp
    define n where "n = (if pq_ports (bl_req b) \<le> 0 then sc_default_ports cf else pq_ports (bl_req b))"
    show ?thesis
    proof (cases "n \<le> 0")
      case True
      then have "hold p' = Some (bl_slug b) \<and> own p' = bl_ports b \<and> same_book s s' \<and> no_ports_yet p'"
        using st at AtPorts by (auto simp: take_ports_def n_def [symmetric] Let_def same_book_env)
      then show ?thesis using quiet by blast
    next
      case pos: False
      show ?thesis
      proof (cases "max_slice < n")
        case True
        then have "hold p' = Some (bl_slug b) \<and> own p' = bl_ports b \<and> same_book s s' \<and> no_ports_yet p'"
          using st pos AtPorts at by (auto simp: take_ports_def n_def [symmetric] Let_def same_book_env)
        then show ?thesis using quiet by blast
      next
      case False
      note False = False pos
      obtain r res e where a: "alloc_ports (sc_os cf) (nat n) [] [] (sb_reserved s) (sb_env s) = (r, res, e)"
        by (metis prod_cases3)
      note fresh = alloc_ports_fresh [OF a]
      show ?thesis
      proof (cases r)
        case (Inl x)
        then have p: "hold p' = Some (bl_slug b)" "own p' = []" "no_ports_yet p'" "s' = s\<lparr>sb_reserved := res, sb_env := e\<rparr>"
          using st at AtPorts False a none by (auto simp: take_ports_def n_def [symmetric] Let_def)
        have "book_of (ops[i := p'], s') = (book_of (ops, s))\<lparr>bk_reserved := res\<rparr>"
          using p at none i by (simp add: book_of_def fun_eq_iff nth_list_update)
        then show ?thesis
          using book_step.strand [of "book_of (ops, s)" res] fresh p(3) book_of_now [OF i, of s] by simp
      next
        case (Inr ps)
        then have p: "hold p' = Some (bl_slug b)" "own p' = ps" "no_ports_yet p'" "s' = s\<lparr>sb_reserved := res, sb_env := e\<rparr>"
          using st at AtPorts False a by (auto simp: take_ports_def n_def [symmetric] Let_def state_roles_def)
        have "book_of (ops[i := p'], s') = (book_of (ops, s))\<lparr>bk_own := (bk_own (book_of (ops, s)))(i := ps), bk_reserved := res\<rparr>"
          using p at i by (simp add: book_of_def fun_eq_iff nth_list_update)
        then show ?thesis
          using book_step.grab [of "book_of (ops, s)" i ps res] fresh Inr p(3) at none book_of_now [OF i, of s] by simp
      qed
      qed
    qed
  next
    case (AtDirs rs)
    have "hold p' = Some (bl_slug b) \<and> own p' = bl_ports b \<and> same_book s s' \<and> no_ports_yet p'"
    proof (cases rs)
      case Nil
      then show ?thesis using st at AtDirs by (auto simp: same_book_env)
    next
      case (Cons r rs')
      then show ?thesis
        using st at AtDirs same_book_env(7) [of s cf "bl_root b" r] by (auto simp: make_state_def split: prod.splits sum.splits)
    qed
    then show ?thesis using quiet by blast
  next
    case AtEnv
    then have "hold p' = Some (bl_slug b) \<and> own p' = bl_ports b \<and> same_book s s' \<and> no_ports_yet p'"
      using st at by (auto simp: start_env_def same_book_env split: if_splits)
    then show ?thesis using quiet by blast
  next
    case (AtRoute rs)
    show ?thesis
    proof (cases rs)
      case Nil
      then have p: "p' = Provisioned (spec_of cf b)" "s' = s\<lparr>sb_busy := sb_busy s - {bl_slug b},
          sb_live := (sb_live s)(bl_slug b \<mapsto> spec_of cf b)\<rparr>"
        using st at AtRoute by (auto simp: publish_def)
      have "book_of (ops[i := p'], s') = (book_of (ops, s))\<lparr>bk_live := (bk_live (book_of (ops, s)))(bl_slug b \<mapsto> bk_own (book_of (ops, s)) i),
          bk_own := (bk_own (book_of (ops, s)))(i := []), bk_hold := (bk_hold (book_of (ops, s)))(i := None),
          bk_busy := bk_busy (book_of (ops, s)) - {bl_slug b}\<rparr>"
        using p at i by (simp add: book_of_def fun_eq_iff spec_of_def)
      then show ?thesis
        using book_step.publish [of "book_of (ops, s)" i "bl_slug b"] p at book_of_now [OF i, of s] by simp
    next
      case (Cons r rs')
      then have "hold p' = Some (bl_slug b) \<and> own p' = bl_ports b \<and> same_book s s' \<and> no_ports_yet p'"
        using st at AtRoute same_book_env(7) [of s cf "bl_root b" "join_path [''res'', resource_slug (sc_sha cf) (rr_ref r)]"]
        by (auto simp: route_resource_def Let_def same_book_env(1) split: prod.splits sum.splits option.splits if_splits)
      then show ?thesis using quiet by blast
    qed
  qed
next
  case (GiveBack x b)
  then have p: "p' = GivePorts x b" "s' = s\<lparr>sb_busy := sb_busy s - {bl_slug b}\<rparr>" using st by auto
  have "book_of (ops[i := p'], s') = (book_of (ops, s))\<lparr>bk_hold := (bk_hold (book_of (ops, s)))(i := None),
      bk_busy := bk_busy (book_of (ops, s)) - {bl_slug b}\<rparr>"
    using p GiveBack i by (simp add: book_of_def fun_eq_iff nth_list_update)
  then show ?thesis
    using book_step.unhold [of "book_of (ops, s)" i "bl_slug b"] p GiveBack book_of_now [OF i, of s] by simp
next
  case (GivePorts x b)
  then have p: "p' = GiveState x b" "s' = s\<lparr>sb_reserved := sb_reserved s - set (bl_ports b)\<rparr>" using st by auto
  have "book_of (ops[i := p'], s') = (book_of (ops, s))\<lparr>bk_own := (bk_own (book_of (ops, s)))(i := []),
      bk_reserved := bk_reserved (book_of (ops, s)) - set (bk_own (book_of (ops, s)) i)\<rparr>"
    using p GivePorts i by (simp add: book_of_def fun_eq_iff nth_list_update)
  then show ?thesis using book_step.free [of "book_of (ops, s)" i] p by simp
next
  case (GiveState x b)
  then have "p' = GiveGrain x b" "same_book s s'" using st same_book_env(4) [of s cf "bl_root b"] by auto
  then show ?thesis using GiveState by (auto intro: step_quiet [OF i])
next
  case (GiveGrain x b)
  then have "hold p' = None" "own p' = []" "no_ports_yet p'" "same_book s s'"
    using st same_book_env(1,3) by (auto split: if_splits)
  then show ?thesis using GiveGrain by (auto intro: step_quiet [OF i])
next
  case (Tearing session)
  let ?h = "safe_slug (sc_sha cf) session"
  show ?thesis
  proof (cases "sb_live s ?h")
    case None
    then have "hold p' = None" "own p' = []" "s' = s" "no_ports_yet p'"
      using st Tearing by (auto simp: begin_teardown_def Let_def split: if_splits)
    then show ?thesis using Tearing by (auto intro: step_quiet [OF i] same_book_env)
  next
    case (Some sp)
    then have p: "p' = DropPorts ?h sp"
      "s' = s\<lparr>sb_live := (sb_live s)(?h := None), sb_busy := insert ?h (sb_busy s)\<rparr>"
      using st Tearing by (auto simp: begin_teardown_def Let_def)
    have "book_of (ops[i := p'], s') = (book_of (ops, s))\<lparr>bk_live := (bk_live (book_of (ops, s)))(?h := None),
        bk_own := (bk_own (book_of (ops, s)))(i := es_ports sp), bk_hold := (bk_hold (book_of (ops, s)))(i := Some ?h),
        bk_busy := insert ?h (bk_busy (book_of (ops, s)))\<rparr>"
      using p Tearing i by (simp add: book_of_def fun_eq_iff nth_list_update)
    then show ?thesis
      using book_step.withdraw [of "book_of (ops, s)" i ?h "es_ports sp"] Some p Tearing book_of_now [OF i, of s]
      by simp
  qed
next
  case (Orphan slug)
  then have "p' = OrphanState slug" "same_book s s'" using st same_book_env(3) by auto
  then show ?thesis using Orphan by (auto intro: step_quiet [OF i])
next
  case (OrphanState slug)
  then have "p' = TornDown None" "same_book s s'" using st same_book_env(4) by auto
  then show ?thesis using OrphanState by (auto intro: step_quiet [OF i])
next
  case (DropPorts slug sp)
  then have p: "p' = DropState slug sp" "s' = s\<lparr>sb_reserved := sb_reserved s - set (es_ports sp)\<rparr>" using st by auto
  have "book_of (ops[i := p'], s') = (book_of (ops, s))\<lparr>bk_own := (bk_own (book_of (ops, s)))(i := []),
      bk_reserved := bk_reserved (book_of (ops, s)) - set (bk_own (book_of (ops, s)) i)\<rparr>"
    using p DropPorts i by (simp add: book_of_def fun_eq_iff nth_list_update)
  then show ?thesis using book_step.free [of "book_of (ops, s)" i] p by simp
next
  case (DropState slug sp)
  then have "hold p' = Some slug" "own p' = []" "no_ports_yet p'" "same_book s s'"
    using st same_book_env(6) [of s cf "es_root sp"] by (auto split: prod.splits)
  then show ?thesis using DropState by (auto intro: step_quiet [OF i])
next
  case (DropGrain slug sp x)
  then have "hold p' = Some slug" "own p' = []" "no_ports_yet p'" "same_book s s'"
    using st same_book_env(5) [of s "gr_teardown (sc_grain cf) (es_boundary sp)"] by (auto split: prod.splits)
  then show ?thesis using DropGrain by (auto intro: step_quiet [OF i])
next
  case (Unreserve slug x)
  then have p: "p' = TornDown x" "s' = s\<lparr>sb_busy := sb_busy s - {slug}\<rparr>" using st by auto
  have "book_of (ops[i := p'], s') = (book_of (ops, s))\<lparr>bk_hold := (bk_hold (book_of (ops, s)))(i := None),
      bk_busy := bk_busy (book_of (ops, s)) - {slug}\<rparr>"
    using p Unreserve i by (simp add: book_of_def fun_eq_iff nth_list_update)
  then show ?thesis
    using book_step.unhold [of "book_of (ops, s)" i slug] p Unreserve book_of_now [OF i, of s] by simp
qed (use st np in \<open>auto intro: step_quiet [OF i] same_book_env\<close>)

section \<open>Every reachable substrate\<close>

lemma book_of_append: "hold p = None \<Longrightarrow> own p = [] \<Longrightarrow> book_of (ops @ [p], s) = book_of (ops, s)"
  by (auto simp: book_of_def fun_eq_iff nth_append less_Suc_eq)

theorem sub_step_book:
  "sub_step cf c c' \<Longrightarrow> list_all no_ports_yet (fst c) \<Longrightarrow>
     book_step (book_of c) (book_of c') \<and> list_all no_ports_yet (fst c')"
proof (induction rule: sub_step.induct)
  case (provision ops s session q)
  then show ?case by (simp add: book_of_append quiet)
next
  case (teardown ops s session)
  then show ?case by (simp add: book_of_append quiet)
next
  case (advance i ops s p s')
  then have "book_step (book_of (ops, s)) (book_of (ops[i := p], s')) \<and> no_ports_yet p"
    by (intro op_step_book) (auto simp: list_all_length)
  then show ?case using advance by (auto simp: list_all_length nth_list_update)
next
  case (outside ops s e)
  have "book_of (ops, s\<lparr>sb_env := e\<rparr>) = book_of (ops, s)" by (simp only: book_of_def fst_conv snd_conv) simp
  then show ?case using outside by (simp add: quiet)
qed

lemma book_fresh: "book_inv (book_of ([], fresh_sub e))"
  by (rule book_invI) (auto simp: book_of_def fresh_sub_def)

lemma sub_book_inv:
  assumes "sub_reaches cf ([], fresh_sub e) c"
  shows "book_inv (book_of c) \<and> list_all no_ports_yet (fst c)"
proof -
  have "(sub_step cf)\<^sup>*\<^sup>* ([], fresh_sub e) c" using assms by (simp add: sub_reaches_def)
  then show ?thesis
  proof (induction rule: rtranclp_induct)
    case base
    then show ?case by (simp add: book_fresh)
  next
    case (step c c')
    then show ?case using sub_step_book book_step_inv by blast
  qed
qed

text \<open>C28: boundaries stay apart. However provisions and teardowns interleave, two live boundaries
  never share a port, every port of a live boundary is reserved, and at most one call holds a slug, while nothing is live there.\<close>

theorem boundaries_apart:
  assumes "sub_reaches cf ([], fresh_sub e) (ops, s)"
  shows "(\<forall>h sp. sb_live s h = Some sp \<longrightarrow> distinct (es_ports sp) \<and> set (es_ports sp) \<subseteq> sb_reserved s \<and> h \<notin> sb_busy s)
    \<and> (\<forall>h g sp sp'. sb_live s h = Some sp \<and> sb_live s g = Some sp' \<and> h \<noteq> g \<longrightarrow> set (es_ports sp) \<inter> set (es_ports sp') = {})
    \<and> (\<forall>h. h \<in> sb_busy s \<longleftrightarrow> (\<exists>!i. i < length ops \<and> hold (ops ! i) = Some h))
    \<and> (\<forall>h sp i. sb_live s h = Some sp \<and> i < length ops \<longrightarrow> set (own (ops ! i)) \<inter> set (es_ports sp) = {})"
proof -
  have inv: "book_inv (book_of (ops, s))" using sub_book_inv [OF assms] by blast
  have now: "bk_live (book_of (ops, s)) h = map_option es_ports (sb_live s h)" "bk_busy (book_of (ops, s)) = sb_busy s"
    "bk_reserved (book_of (ops, s)) = sb_reserved s"
    "bk_hold (book_of (ops, s)) i = (if i < length ops then hold (ops ! i) else None)"
    "i < length ops \<Longrightarrow> bk_own (book_of (ops, s)) i = own (ops ! i)" for h i
    by (simp_all add: book_of_def)
  have busy: "h \<in> sb_busy s \<longleftrightarrow> (\<exists>i. i < length ops \<and> hold (ops ! i) = Some h)" for h
    using busy_iff [OF inv, of h] by (auto simp: now split: if_splits)
  have one: "i < length ops \<Longrightarrow> j < length ops \<Longrightarrow> hold (ops ! i) = Some h \<Longrightarrow> hold (ops ! j) = Some h \<Longrightarrow> i = j" for i j h
    using hold_one [OF inv, of i h j] by (simp add: now)
  have dead: "i < length ops \<Longrightarrow> hold (ops ! i) = Some h \<Longrightarrow> sb_live s h = None" for i h
    using hold_dead [OF inv, of i h] by (simp add: now)
  have "distinct (es_ports sp) \<and> set (es_ports sp) \<subseteq> sb_reserved s \<and> h \<notin> sb_busy s" if "sb_live s h = Some sp" for h sp
    using live_reserved [OF inv, of h "es_ports sp"] busy [of h] dead [of _ h] that by (auto simp: now)
  moreover have "set (es_ports sp) \<inter> set (es_ports sp') = {}"
    if "sb_live s h = Some sp" "sb_live s g = Some sp'" "h \<noteq> g" for h g sp sp'
    using live_live [OF inv, of h "es_ports sp" g "es_ports sp'"] that by (simp add: now)
  moreover have "set (own (ops ! i)) \<inter> set (es_ports sp) = {}" if "sb_live s h = Some sp" "i < length ops" for h sp i
    using own_live [OF inv, of h "es_ports sp" i] that by (simp add: now)
  ultimately show ?thesis using busy one by blast
qed

end
