(* ===== verification/BoundaryFacts.thy ===== *)
theory BoundaryFacts
  imports SubstrateFacts
begin

text \<open>
  What a finished boundary contains: the names, directories, ports and environment of every live
  \<open>env_spec\<close>, whatever calls ran beside the provision that made it.
\<close>

section \<open>Names of the environment\<close>

definition digit_value :: "string \<Rightarrow> nat" where
  "digit_value = foldl (\<lambda>a c. 10 * a + (byte c - 48)) 0"

lemma byte_digit: "n < 10 \<Longrightarrow> byte (char_of (48 + n)) = 48 + n"
  by (simp add: take_bit_eq_mod)

lemma digits10_value: "n < k \<Longrightarrow> digit_value (digits10 k n) = n"
proof (induction k n rule: digits10.induct)
  case (2 k n)
  show ?case
  proof (cases "n < 10")
    case True
    then show ?thesis by (simp add: digit_value_def byte_digit del: of_char_of)
  next
    case False
    then have "n div 10 < k" using 2(2) by simp
    then show ?thesis
      using 2(1) False byte_digit [of "n mod 10"] by (simp add: digit_value_def del: of_char_of)
  qed
qed simp

lemma itoa_inj: "itoa (int i) = itoa (int j) \<Longrightarrow> i = j"
  using digits10_value [of i "Suc i"] digits10_value [of j "Suc j"] by (simp add: itoa_def)

lemma port_names:
  "map fst (port_env ps) = (if ps = [] then [] else map (\<lambda>i. ''MAD_PORT_'' @ itoa (int i)) [0..<length ps] @ [''PORT'', ''MAD_PORTS''])"
proof (cases ps)
  case (Cons p qs)
  have "map fst (map (\<lambda>(i, q). (''MAD_PORT_'' @ itoa (int i), itoa q)) (zip [0..<length ps] ps))
      = map (\<lambda>i. ''MAD_PORT_'' @ itoa (int i)) [0..<length ps]"
    by (intro nth_equalityI) simp_all
  then show ?thesis using Cons by (simp add: port_env_def del: upt_Suc map_map)
qed (simp add: port_env_def)

lemma port_names_distinct: "distinct (map fst (port_env ps))"
  by (auto simp: port_names distinct_map inj_on_def simp del: of_nat_Suc dest: itoa_inj)

lemma build_env_distinct: "distinct (map fst (build_env session ps dirs))"
  using port_names_distinct [of ps] by (auto simp: build_env_def port_names)

section \<open>What a build has made\<close>

definition place :: "'e sub_conf \<Rightarrow> string \<Rightarrow> string \<Rightarrow> string" where
  "place cf root p = (case abs_path (os_cwd (sc_os cf)) root of None \<Rightarrow> [] | Some b \<Rightarrow> join_path [b, p])"

definition inside :: "'e sub_conf \<Rightarrow> string \<Rightarrow> string \<Rightarrow> bool" where
  "inside cf root p \<longleftrightarrow>
     (case abs_path (os_cwd (sc_os cf)) root of None \<Rightarrow> False | Some b \<Rightarrow> prefix (comps b) (comps p))"

definition forkable :: "'e sub_conf \<Rightarrow> res_req \<Rightarrow> bool" where
  "forkable cf r \<longleftrightarrow> classify (sc_cls cf) (resource_ref r) = Forkable"

definition routed :: "'e sub_conf \<Rightarrow> string \<Rightarrow> res_req \<Rightarrow> string \<times> string" where
  "routed cf root r =
     (let slug = resource_slug (sc_sha cf) (rr_ref r) in
      (if rr_name r = [] then resource_env_name slug else rr_name r, place cf root (join_path [''res'', slug])))"

definition put_off :: "'e sub_conf \<Rightarrow> res_req \<Rightarrow> string \<times> kind" where
  "put_off cf r = (rr_ref r, classify (sc_cls cf) (resource_ref r))"

definition role_dirs :: "'e sub_conf \<Rightarrow> string \<Rightarrow> string list \<Rightarrow> (string \<times> string) list" where
  "role_dirs cf root rs = map (\<lambda>r. (r, place cf root r)) rs"

definition outside_repo :: "'e sub_conf \<Rightarrow> boundary \<Rightarrow> bool" where
  "outside_repo cf bd \<longleftrightarrow>
     apart (os_cwd (sc_os cf)) (if bd_worktree bd = [] then bd_cwd bd else bd_worktree bd) (sc_repo cf)"

definition wanted_ports :: "'e sub_conf \<Rightarrow> prov_req \<Rightarrow> nat" where
  "wanted_ports cf q = nat (if pq_ports q \<le> 0 then sc_default_ports cf else pq_ports q)"

definition env_made :: "'e sub_conf \<Rightarrow> string \<Rightarrow> string \<Rightarrow> int list \<Rightarrow> (string \<times> string) list \<Rightarrow> res_req list \<Rightarrow> (string \<times> string) list" where
  "env_made cf root session ps dirs qs = build_env session ps dirs @ map (routed cf root) (filter (forkable cf) qs)"

definition names_ok :: "'e sub_conf \<Rightarrow> string \<Rightarrow> res_req list \<Rightarrow> bool" where
  "names_ok cf root qs \<longleftrightarrow> (\<forall>r \<in> set qs. trim_space (rr_ref r) \<noteq> [] \<and> (forkable cf r \<longrightarrow>
     is_env_ident (fst (routed cf root r)) \<and> \<not> launch_sensitive (fst (routed cf root r)) \<and> inside cf root (snd (routed cf root r))))"

fun stage_ok :: "'e sub_conf \<Rightarrow> stage \<Rightarrow> build \<Rightarrow> bool" where
  "stage_ok cf AtGrain b = True"
| "stage_ok cf AtPorts b = outside_repo cf (bl_bound b)"
| "stage_ok cf (AtDirs rs) b = (outside_repo cf (bl_bound b) \<and> bl_root b = state_root cf (bl_slug b)
     \<and> length (bl_ports b) = wanted_ports cf (bl_req b)
     \<and> (\<exists>ds. state_roles = ds @ rs \<and> bl_dirs b = role_dirs cf (bl_root b) ds \<and> (\<forall>r \<in> set ds. inside cf (bl_root b) (place cf (bl_root b) r))))"
| "stage_ok cf AtEnv b = (outside_repo cf (bl_bound b) \<and> bl_root b = state_root cf (bl_slug b)
     \<and> length (bl_ports b) = wanted_ports cf (bl_req b)
     \<and> bl_dirs b = role_dirs cf (bl_root b) state_roles \<and> (\<forall>r \<in> set state_roles. inside cf (bl_root b) (place cf (bl_root b) r)))"
| "stage_ok cf (AtRoute rs) b = (outside_repo cf (bl_bound b) \<and> bl_root b = state_root cf (bl_slug b)
     \<and> length (bl_ports b) = wanted_ports cf (bl_req b)
     \<and> bl_dirs b = role_dirs cf (bl_root b) state_roles \<and> (\<forall>r \<in> set state_roles. inside cf (bl_root b) (place cf (bl_root b) r))
     \<and> apart (os_cwd (sc_os cf)) (bl_root b) (sc_repo cf)
     \<and> (\<exists>qs. pq_resources (bl_req b) = qs @ rs \<and> names_ok cf (bl_root b) qs
          \<and> bl_env b = env_made cf (bl_root b) (bl_session b) (bl_ports b) (bl_dirs b) qs \<and> distinct (map fst (bl_env b))
          \<and> bl_deferred b = map (put_off cf) (filter (Not \<circ> forkable cf) qs)))"

fun blank :: "stage \<Rightarrow> build \<Rightarrow> bool" where
  "blank (AtRoute rs) b = True"
| "blank (AtDirs rs) b = (bl_env b = [] \<and> bl_deferred b = [])"
| "blank AtEnv b = (bl_env b = [] \<and> bl_deferred b = [])"
| "blank _ b = (bl_ports b = [] \<and> bl_dirs b = [] \<and> bl_env b = [] \<and> bl_deferred b = [])"

fun phase_ok :: "'e sub_conf \<Rightarrow> phase \<Rightarrow> bool" where
  "phase_ok cf (Building st b) = (bl_slug b = safe_slug (sc_sha cf) (bl_session b) \<and> bl_slug b \<noteq> []
     \<and> blank st b \<and> stage_ok cf st b)"
| "phase_ok cf p = True"

text \<open>What a live boundary under slug \<open>h\<close> is.\<close>

definition boundary_ok :: "'e sub_conf \<Rightarrow> string \<Rightarrow> env_spec \<Rightarrow> bool" where
  "boundary_ok cf h sp \<longleftrightarrow>
     h = safe_slug (sc_sha cf) (es_session sp) \<and> h \<noteq> [] \<and> es_root sp = state_root cf h \<and> es_grain sp = gr_name (sc_grain cf)
     \<and> outside_repo cf (es_boundary sp) \<and> apart (os_cwd (sc_os cf)) (es_root sp) (sc_repo cf)
     \<and> es_dirs sp = role_dirs cf (es_root sp) state_roles \<and> (\<forall>(r, p) \<in> set (es_dirs sp). inside cf (es_root sp) p)
     \<and> distinct (map fst (es_env sp))
     \<and> (\<exists>q. length (es_ports sp) = wanted_ports cf q \<and> names_ok cf (es_root sp) (pq_resources q)
          \<and> es_env sp = env_made cf (es_root sp) (es_session sp) (es_ports sp) (es_dirs sp) (pq_resources q)
          \<and> es_deferred sp = sort_key fst (map (put_off cf) (filter (Not \<circ> forkable cf) (pq_resources q))))"

text \<open>The file system answers with absolute paths.\<close>

definition absolute_os :: "'e os \<Rightarrow> bool" where
  "absolute_os os \<longleftrightarrow> (\<forall>d. os_cwd os = Some d \<longrightarrow> rooted d) \<and> (\<forall>e p r. os_eval os e p = Some r \<longrightarrow> rooted r)"

section \<open>Each step\<close>

lemma make_dir_placed:
  assumes "absolute_os (sc_os cf)" and "make_dir cf root p s = (Inr d, s')"
  shows "d = place cf root p" and "inside cf root (place cf root p)"
proof -
  have "contain (os_eval (sc_os cf) (sb_env s)) (os_cwd (sc_os cf)) root p = Inr d"
    using assms(2) by (auto simp: make_dir_def andThen_eq ret_def split: sum.splits prod.splits)
  moreover have "contain (os_eval (sc_os cf) (sb_env s)) (os_cwd (sc_os cf)) root p = Inr d \<longleftrightarrow>
      p \<noteq> [] \<and> \<not> rooted p \<and> (\<exists>b. abs_path (os_cwd (sc_os cf)) root = Some b \<and> d = join_path [b, p]
      \<and> prefix (comps b) (comps d) \<and> prefix (comps (resolved (os_eval (sc_os cf) (sb_env s)) b))
          (comps (resolved (os_eval (sc_os cf) (sb_env s)) d)))"
    by (rule contain_iff) (use assms(1) in \<open>auto simp: absolute_os_def\<close>)
  ultimately show "d = place cf root p" and "inside cf root (place cf root p)"
    by (auto simp: place_def inside_def)
qed

lemma env_name_none:
  "env_name_error n env = None \<longleftrightarrow> is_env_ident n \<and> \<not> launch_sensitive n \<and> n \<notin> set (map fst env)"
  by (auto simp: env_name_error_def map_of_eq_None_iff)

lemma route_ok:
  assumes os: "absolute_os (sc_os cf)" and ok: "phase_ok cf (Building (AtRoute (r # rs)) b)"
    and st: "route_resource cf r rs b s = (p', s')"
  shows "phase_ok cf p'"
proof (cases "trim_space (rr_ref r) = []")
  case True
  then show ?thesis using st by (auto simp: route_resource_def)
next
  case ref: False
  show ?thesis
  proof (cases "forkable cf r")
    case False
    then have p: "p' = Building (AtRoute rs) (b\<lparr>bl_deferred := bl_deferred b @ [put_off cf r]\<rparr>)"
      using st ref by (simp add: route_resource_def should_isolate_def forkable_def put_off_def Let_def)
    have extend: "names_ok cf root (qs @ [r])" "env_made cf root x ps ds (qs @ [r]) = env_made cf root x ps ds qs"
      if "names_ok cf root qs" for root qs x ps ds
      using that False ref by (auto simp: names_ok_def env_made_def)
    from ok obtain qs where "pq_resources (bl_req b) = (qs @ [r]) @ rs" "names_ok cf (bl_root b) qs"
      "bl_env b = env_made cf (bl_root b) (bl_session b) (bl_ports b) (bl_dirs b) qs"
      "bl_deferred b @ [put_off cf r] = map (put_off cf) (filter (Not \<circ> forkable cf) (qs @ [r]))"
      using False by auto
    with ok p extend show ?thesis
      by (simp del: append_assoc) (metis append_assoc extend)
  next
    case True
    obtain d s1 where d: "make_dir cf (bl_root b) (join_path [''res'', resource_slug (sc_sha cf) (rr_ref r)]) s = (d, s1)"
      by (cases "make_dir cf (bl_root b) (join_path [''res'', resource_slug (sc_sha cf) (rr_ref r)]) s")
    show ?thesis
    proof (cases "\<exists>path. d = Inr path \<and> env_name_error (fst (routed cf (bl_root b) r)) (bl_env b) = None")
      case False
      then show ?thesis
        using st ref True d by (auto simp: route_resource_def should_isolate_def forkable_def routed_def Let_def split: sum.splits option.splits if_splits)
    next
      case ok': True
      then obtain path where path: "d = Inr path" "env_name_error (fst (routed cf (bl_root b) r)) (bl_env b) = None" by blast
      note made = make_dir_placed [OF os d [unfolded path(1)]]
      have p: "p' = Building (AtRoute rs) (b\<lparr>bl_env := bl_env b @ [routed cf (bl_root b) r]\<rparr>)"
        using st ref True d path made(1) by (auto simp: route_resource_def should_isolate_def forkable_def routed_def Let_def)
      have name: "is_env_ident (fst (routed cf (bl_root b) r))" "\<not> launch_sensitive (fst (routed cf (bl_root b) r))"
        "fst (routed cf (bl_root b) r) \<notin> set (map fst (bl_env b))"
        using path(2) by (simp_all add: env_name_none)
      have "inside cf (bl_root b) (snd (routed cf (bl_root b) r))" using made(2) by (simp add: routed_def Let_def)
      then have extend: "names_ok cf (bl_root b) (qs @ [r])"
          "env_made cf (bl_root b) x ps ds (qs @ [r]) = env_made cf (bl_root b) x ps ds qs @ [routed cf (bl_root b) r]"
        if "names_ok cf (bl_root b) qs" for qs x ps ds
        using that True ref name by (auto simp: names_ok_def env_made_def)
      from ok obtain qs where "pq_resources (bl_req b) = (qs @ [r]) @ rs" "names_ok cf (bl_root b) qs"
        "bl_env b = env_made cf (bl_root b) (bl_session b) (bl_ports b) (bl_dirs b) qs"
        "bl_deferred b = map (put_off cf) (filter (Not \<circ> forkable cf) (qs @ [r]))"
        using True by auto
      with ok p extend name show ?thesis
        by (simp del: append_assoc) (metis append_assoc extend)
    qed
  qed
qed

lemma make_state_ok:
  assumes os: "absolute_os (sc_os cf)" and ok: "phase_ok cf (Building (AtDirs (r # rs)) b)"
    and st: "make_state cf r rs b s = (p', s')"
  shows "phase_ok cf p'"
proof -
  obtain d s1 where d: "make_dir cf (bl_root b) r s = (d, s1)" by (cases "make_dir cf (bl_root b) r s")
  show ?thesis
  proof (cases d)
    case (Inl x)
    then show ?thesis using st d by (auto simp: make_state_def)
  next
    case (Inr p)
    note made = make_dir_placed [OF os d [unfolded Inr]]
    from st d Inr made(1) have p': "p' = Building (AtDirs rs) (b\<lparr>bl_dirs := bl_dirs b @ [(r, place cf (bl_root b) r)]\<rparr>)"
      by (simp add: make_state_def)
    from ok obtain ds where ds: "state_roles = (ds @ [r]) @ rs" "bl_dirs b = role_dirs cf (bl_root b) ds"
      "\<forall>r \<in> set ds. inside cf (bl_root b) (place cf (bl_root b) r)" by auto
    have "\<exists>ds. state_roles = ds @ rs \<and> bl_dirs b @ [(r, place cf (bl_root b) r)] = role_dirs cf (bl_root b) ds
        \<and> (\<forall>r \<in> set ds. inside cf (bl_root b) (place cf (bl_root b) r))"
      by (rule exI [of _ "ds @ [r]"]) (use ds made(2) in \<open>auto simp: role_dirs_def\<close>)
    moreover have "safe_slug (sc_sha cf) (bl_session b) \<noteq> []" using ok by auto
    ultimately show ?thesis unfolding p' using ok by simp
  qed
qed

lemma take_ports_ok:
  assumes ok: "phase_ok cf (Building AtPorts b)" and st: "take_ports cf b s = (p', s')"
  shows "phase_ok cf p'"
proof -
  define n where "n = (if pq_ports (bl_req b) \<le> 0 then sc_default_ports cf else pq_ports (bl_req b))"
  have w: "wanted_ports cf (bl_req b) = nat n" by (simp add: wanted_ports_def n_def)
  have none: "bl_ports b = []" "bl_dirs b = []" using ok by simp_all
  have dirs: "role_dirs cf root [] = []" for root by (simp add: role_dirs_def)
  show ?thesis
  proof (cases "n \<le> 0")
    case True
    then show ?thesis using st ok w none dirs by (auto simp: take_ports_def n_def [symmetric])
  next
    case pos: False
    obtain r res e where a: "alloc_ports (sc_os cf) (nat n) [] [] (sb_reserved s) (sb_env s) = (r, res, e)"
      by (metis prod_cases3)
    consider "max_slice < n" | "\<not> max_slice < n" by blast
    then show ?thesis
    proof cases
      case 1
      then show ?thesis using st pos by (auto simp: take_ports_def n_def [symmetric])
    next
    case 2
    note False = pos 2
    show ?thesis
    proof (cases r)
      case (Inl x)
      then show ?thesis using st a False by (auto simp: take_ports_def n_def [symmetric])
    next
      case (Inr ps)
      then show ?thesis
        using st a False alloc_ports_fresh [OF a] w none dirs ok by (auto simp: take_ports_def n_def [symmetric])
    qed
    qed
  qed
qed

lemma start_env_ok: "phase_ok cf (Building AtEnv b) \<Longrightarrow> phase_ok cf (start_env cf b)"
  by (auto simp: start_env_def names_ok_def env_made_def build_env_distinct)

lemma op_step_ok:
  assumes os: "absolute_os (sc_os cf)" and ok: "phase_ok cf p" and st: "op_step cf p s = (p', s')"
  shows "phase_ok cf p'"
proof (cases "(cf, p, s)" rule: op_step.cases)
  case (1 cf' session q x)
  then show ?thesis using st by (auto simp: reserve_def Let_def split: if_splits)
next
  case (2 cf' b s1)
  then show ?thesis
    using st ok by (auto simp: make_boundary_def outside_repo_def Let_def split: prod.splits option.splits if_splits)
next
  case (3 cf' b s1)
  then show ?thesis using take_ports_ok [of cf b s p' s'] ok st by (simp del: phase_ok.simps)
next
  case (4 cf' r rs b s1)
  then show ?thesis using make_state_ok [OF os, of r rs b s p' s'] ok st by (simp del: phase_ok.simps)
next
  case (6 cf' b s1)
  then show ?thesis using start_env_ok [of cf b] ok st by auto
next
  case (7 cf' r rs b s1)
  then show ?thesis using route_ok [OF os, of r rs b s p' s'] ok st by (simp del: phase_ok.simps)
next
  case (13 cf' session x)
  then show ?thesis using st by (auto simp: begin_teardown_def Let_def split: option.splits if_splits)
qed (use st ok in \<open>auto simp: publish_def split: prod.splits\<close>)

lemma publish_ok:
  assumes "phase_ok cf (Building (AtRoute []) b)"
  shows "boundary_ok cf (bl_slug b) (spec_of cf b)"
proof -
  from assms obtain qs where "pq_resources (bl_req b) = qs" "names_ok cf (bl_root b) qs"
    "bl_env b = env_made cf (bl_root b) (bl_session b) (bl_ports b) (bl_dirs b) qs"
    "bl_deferred b = map (put_off cf) (filter (Not \<circ> forkable cf) qs)" by auto
  with assms show ?thesis
    by (auto simp: boundary_ok_def spec_of_def role_dirs_def)
qed

lemma live_kept: "sb_live (snd (on_env m s)) = sb_live s" "sb_live (snd (remove_state cf root s)) = sb_live s"
  by (simp_all add: on_env_def remove_state_def ret_def split: prod.split)

lemma live_kept_error:
  "error_of (on_env m s) = (x, s') \<Longrightarrow> sb_live s' = sb_live s" "error_of (remove_state cf root s) = (x, s') \<Longrightarrow> sb_live s' = sb_live s"
  by (auto simp: on_env_def remove_state_def error_of_def ret_def split: prod.splits sum.splits if_splits)

text \<open>Only the last step of a provision makes a slug live.\<close>

lemma op_step_live:
  assumes st: "op_step cf p s = (p', s')" and ok: "phase_ok cf p" and live: "sb_live s' h = Some sp"
  shows "sb_live s h = Some sp \<or> boundary_ok cf h sp"
proof (cases "(cf, p, s)" rule: op_step.cases)
  case (1 cf' session q s1)
  then show ?thesis using st live by (auto simp: reserve_def Let_def split: if_splits)
next
  case (2 cf' b s1)
  then show ?thesis
    using st live by (auto simp: make_boundary_def Let_def split: prod.splits option.splits if_splits)
next
  case (3 cf' b s1)
  then show ?thesis using st live by (auto simp: take_ports_def Let_def split: prod.splits sum.splits if_splits)
next
  case (4 cf' r rs b s1)
  then show ?thesis using st live same_book_env(7) [of s cf "bl_root b" r]
    by (auto simp: make_state_def same_book_def split: prod.splits sum.splits)
next
  case (7 cf' r rs b s1)
  then show ?thesis
    using st live same_book_env(7) [of s cf "bl_root b" "join_path [''res'', resource_slug (sc_sha cf) (rr_ref r)]"]
    by (auto simp: route_resource_def same_book_def Let_def split: prod.splits sum.splits option.splits if_splits)
next
  case (8 cf' b s1)
  then show ?thesis using st live ok publish_ok [of cf b] by (auto simp: publish_def split: if_splits)
next
  case (13 cf' session s1)
  then show ?thesis using st live by (auto simp: begin_teardown_def Let_def split: option.splits if_splits)
qed (use st live in \<open>auto simp: live_kept split: prod.splits if_splits dest: live_kept_error\<close>)

section \<open>Every live boundary\<close>

lemma sub_step_ok:
  assumes "sub_step cf c c'" and "absolute_os (sc_os cf)"
    and "list_all (phase_ok cf) (fst c) \<and> (\<forall>h sp. sb_live (snd c) h = Some sp \<longrightarrow> boundary_ok cf h sp)"
  shows "list_all (phase_ok cf) (fst c') \<and> (\<forall>h sp. sb_live (snd c') h = Some sp \<longrightarrow> boundary_ok cf h sp)"
  using assms
proof (induction rule: sub_step.induct)
  case (advance i ops s p s')
  then have i: "phase_ok cf (ops ! i)" by (simp add: list_all_length)
  have "phase_ok cf p" using op_step_ok [OF advance.prems(1) i advance.hyps(2)] .
  moreover have "boundary_ok cf h sp" if "sb_live s' h = Some sp" for h sp
    using op_step_live [OF advance.hyps(2) i that] advance.prems(2) by auto
  ultimately show ?case
    using advance.prems advance.hyps(1) by (auto simp: list_all_length nth_list_update)
qed auto

lemma live_spec_ok:
  assumes "absolute_os (sc_os cf)" and "sub_reaches cf ([], fresh_sub e) (ops, s)" and "sb_live s h = Some sp"
  shows "boundary_ok cf h sp"
proof -
  have "(sub_step cf)\<^sup>*\<^sup>* ([], fresh_sub e) (ops, s)" using assms(2) by (simp add: sub_reaches_def)
  then have "list_all (phase_ok cf) (fst (ops, s)) \<and> (\<forall>h sp. sb_live (snd (ops, s)) h = Some sp \<longrightarrow> boundary_ok cf h sp)"
  proof (induction rule: rtranclp_induct)
    case base
    then show ?case by (simp add: fresh_sub_def)
  next
    case (step c c')
    then show ?case using sub_step_ok [OF _ assms(1)] by blast
  qed
  then show ?thesis using assms(3) by simp
qed


end
