(* ===== verification/Worktree.thy ===== *)
theory Worktree
  imports BoundaryFacts
begin

text \<open>
  \<open>internal/worktree\<close>, \<open>internal/repoid\<close> and the worktree grain of \<open>internal/substrate/grain.go\<close>: the
  agent's worktree at a path that only the repository and the slug determine. Git is a parameter: a
  command run in a directory answers its trimmed output and, when it fails, the text of the exit error.
\<close>

section \<open>Running git\<close>

datatype stat = Present | Absent | Unreadable

record 'e host =
  ho_git :: "string \<Rightarrow> string list \<Rightarrow> 'e \<Rightarrow> (string \<times> string option) \<times> 'e"
  ho_stat :: "'e \<Rightarrow> string \<Rightarrow> stat"
  ho_is_dir :: "'e \<Rightarrow> string \<Rightarrow> bool"
  ho_os :: "'e os"

record wt_conf =
  wt_repo :: string
  wt_env :: string
  wt_home :: string
  wt_canonical :: string
  wt_sha :: "string \<Rightarrow> string"

definition git_failed :: "string \<Rightarrow> string \<Rightarrow> string \<Rightarrow> string" where
  "git_failed what x out = what @ '': '' @ x @ '': '' @ out"

definition git_ask :: "'e host \<Rightarrow> string \<Rightarrow> string list \<Rightarrow> ('e, string \<times> string option) eff" where
  "git_ask ho dir args e = (case ho_git ho dir args e of (r, e') \<Rightarrow> (Inr r, e'))"

definition git_do :: "'e host \<Rightarrow> string \<Rightarrow> string list \<Rightarrow> string \<Rightarrow> ('e, unit) eff" where
  "git_do ho dir args what = andThen (git_ask ho dir args) (\<lambda>(out, x).
     case x of None \<Rightarrow> ret () | Some t \<Rightarrow> failing (Msg (git_failed what t out)))"

text \<open>
  \<open>repoid.Canonical\<close>: \<open>probe\<close> is what \<open>git rev-parse --git-common-dir\<close> prints in a directory, if it runs.
\<close>

definition canonical_repo :: "(string \<Rightarrow> string option) \<Rightarrow> (string \<Rightarrow> string option) \<Rightarrow> string option \<Rightarrow> string \<Rightarrow> string" where
  "canonical_repo probe ev cwd repo =
     (let a = (case abs_path cwd repo of None \<Rightarrow> repo | Some p \<Rightarrow> p) in
      case probe a of
        None \<Rightarrow> a
      | Some out \<Rightarrow>
          (let p = trim_space out in
           if p = [] then a
           else let q = (if rooted p then p else join_path [a, p]) in
             case ev q of Some real \<Rightarrow> real | None \<Rightarrow> q))"

section \<open>Worktrees\<close>

definition safe_name :: "string \<Rightarrow> bool" where
  "safe_name s \<longleftrightarrow> s \<noteq> [] \<and> list_all (\<lambda>r. r < 128 \<and> slug_char (char_of r)) (runes s)"

definition branch_of :: "string \<Rightarrow> string" where
  "branch_of n = ''nm/'' @ n"

definition worktree_base :: "wt_conf \<Rightarrow> string" where
  "worktree_base w = join_path [if wt_env w = [] then join_path [wt_home w, ''.mad-trellis'', ''worktrees''] else wt_env w,
     hex_encode (take 8 (wt_sha w (wt_canonical w)))]"

record worktree =
  wk_name :: string
  wk_branch :: string
  wk_path :: string

definition worktree_at :: "wt_conf \<Rightarrow> string \<Rightarrow> worktree" where
  "worktree_at w n = \<lparr>wk_name = n, wk_branch = branch_of n, wk_path = join_path [worktree_base w, n]\<rparr>"

definition unsafe_name :: "string \<Rightarrow> err" where
  "unsafe_name n = Fmt ''worktree: unsafe name %q (want [A-Za-z0-9_-]+)'' [n]"

definition wt_create :: "'e host \<Rightarrow> wt_conf \<Rightarrow> string \<Rightarrow> ('e, worktree) eff" where
  "wt_create ho w n =
     (if \<not> safe_name n then failing (unsafe_name n)
      else case abs_path (os_cwd (ho_os ho)) (wt_repo w) of
          None \<Rightarrow> failing (Msg ''getwd'')
        | Some _ \<Rightarrow>
            andThen (os_mkdir (ho_os ho) (worktree_base w)) (\<lambda>_.
            andThen (git_do ho (wt_repo w)
              [''worktree'', ''add'', ''-b'', branch_of n, join_path [worktree_base w, n], ''HEAD''] ''git worktree add'') (\<lambda>_.
            ret (worktree_at w n))))"

text \<open>A failure after the clone takes the clone away again; the two \<open>config\<close> commands may fail.\<close>

definition undo_clone :: "'e host \<Rightarrow> string \<Rightarrow> err \<Rightarrow> ('e, 'a) eff" where
  "undo_clone ho path x = andThen (ignoring (os_remove (ho_os ho) path)) (\<lambda>_. failing x)"

definition set_identity :: "'e host \<Rightarrow> string \<Rightarrow> ('e, unit) eff" where
  "set_identity ho path =
     andThen (git_ask ho path [''config'', ''user.email'', ''mad-trellis-agent'' @ CHR 0x40 # ''local'']) (\<lambda>_.
     andThen (git_ask ho path [''config'', ''user.name'', ''mad-trellis agent'']) (\<lambda>_. ret ()))"

definition drop_origin :: "'e host \<Rightarrow> wt_conf \<Rightarrow> string \<Rightarrow> ('e, worktree) eff" where
  "drop_origin ho w n =
     (let path = join_path [worktree_base w, n] in
      andThen (git_ask ho path [''remote'', ''remove'', ''origin'']) (\<lambda>(out, x).
        case x of
          Some t \<Rightarrow> (if contains (to_lower out) ''no such remote''
            then andThen (set_identity ho path) (\<lambda>_. ret (worktree_at w n))
            else undo_clone ho path (Msg (git_failed ''git remote remove origin'' t out)))
        | None \<Rightarrow> andThen (set_identity ho path) (\<lambda>_. ret (worktree_at w n))))"

definition own_branch :: "'e host \<Rightarrow> wt_conf \<Rightarrow> string \<Rightarrow> ('e, worktree) eff" where
  "own_branch ho w n =
     (let path = join_path [worktree_base w, n] in
      andThen (git_ask ho path [''checkout'', ''-q'', ''-b'', branch_of n]) (\<lambda>(out, x).
        case x of
          Some t \<Rightarrow> undo_clone ho path (Msg (git_failed (''git checkout -b '' @ branch_of n) t out))
        | None \<Rightarrow> drop_origin ho w n))"

definition clear_stale :: "'e host \<Rightarrow> string \<Rightarrow> ('e, unit) eff" where
  "clear_stale ho path e =
     (if ho_stat ho e path \<noteq> Present then (Inr (), e)
      else case os_remove (ho_os ho) path e of
          (Inl x, e') \<Rightarrow> (Inl (Wrapped (''worktree: clear stale clone '' @ path) x), e')
        | (Inr _, e') \<Rightarrow> (Inr (), e'))"

definition wt_clone :: "'e host \<Rightarrow> wt_conf \<Rightarrow> string \<Rightarrow> ('e, worktree) eff" where
  "wt_clone ho w n =
     (if \<not> safe_name n then failing (unsafe_name n)
      else case abs_path (os_cwd (ho_os ho)) (wt_repo w) of
          None \<Rightarrow> failing (Msg ''getwd'')
        | Some repo \<Rightarrow>
            (let path = join_path [worktree_base w, n] in
             andThen (os_mkdir (ho_os ho) (worktree_base w)) (\<lambda>_.
             andThen (clear_stale ho path) (\<lambda>_.
             andThen (git_do ho repo [''clone'', ''--no-hardlinks'', ''--single-branch'', ''--quiet'', repo, path] ''git clone'') (\<lambda>_.
             own_branch ho w n)))))"

definition wt_path :: "string option \<Rightarrow> wt_conf \<Rightarrow> string \<Rightarrow> err + string" where
  "wt_path cwd w n =
     (if \<not> safe_name n then Inl (Fmt ''worktree: unsafe name %q'' [n])
      else case abs_path cwd (wt_repo w) of
          None \<Rightarrow> Inl (Msg ''getwd'')
        | Some _ \<Rightarrow> Inr (join_path [worktree_base w, n]))"

definition wt_remove :: "'e host \<Rightarrow> string \<Rightarrow> string \<Rightarrow> ('e, unit) eff" where
  "wt_remove ho repo path = git_do ho repo [''worktree'', ''remove'', ''--force'', path] ''git worktree remove''"

section \<open>The worktree grain\<close>

text \<open>The grain's mutex makes each operation one step.\<close>

definition wt_grain_provision :: "'e host \<Rightarrow> wt_conf \<Rightarrow> string \<Rightarrow> 'e \<Rightarrow> (boundary \<times> err option) \<times> 'e" where
  "wt_grain_provision ho w slug e =
     (case wt_create ho w slug e of
        (Inl x, e') \<Rightarrow> ((no_boundary, Some x), e')
      | (Inr k, e') \<Rightarrow>
          ((\<lparr>bd_cwd = wk_path k, bd_branch = wk_branch k, bd_worktree = wk_path k, bd_container = []\<rparr>, None), e'))"

definition wt_grain_teardown :: "'e host \<Rightarrow> wt_conf \<Rightarrow> boundary \<Rightarrow> ('e, unit) eff" where
  "wt_grain_teardown ho w b =
     (let path = (if bd_worktree b = [] then bd_cwd b else bd_worktree b) in
      if path = [] then ret () else wt_remove ho (wt_repo w) path)"

fun worktree_not_found :: "err \<Rightarrow> bool" where
  "worktree_not_found (Msg m) =
     (let t = to_lower m in
      contains t ''is not a working tree'' \<or> contains t ''not a working tree'' \<or> contains t ''no such'' \<or> contains t ''not found'')"
| "worktree_not_found _ = False"

definition wt_grain_reclaim :: "'e host \<Rightarrow> wt_conf \<Rightarrow> string \<Rightarrow> ('e, unit) eff" where
  "wt_grain_reclaim ho w slug e =
     (case wt_path (os_cwd (ho_os ho)) w slug of
        Inl x \<Rightarrow> (Inl x, e)
      | Inr path \<Rightarrow>
          (if ho_stat ho e path = Absent then ignoring (wt_remove ho (wt_repo w) path) e
           else case wt_remove ho (wt_repo w) path e of
               (Inl x, e') \<Rightarrow> (if worktree_not_found x then Inr () else Inl x, e')
             | (Inr _, e') \<Rightarrow> (Inr (), e')))"

definition worktree_grain :: "'e host \<Rightarrow> wt_conf \<Rightarrow> 'e grain" where
  "worktree_grain ho w = \<lparr>gr_name = ''worktree'', gr_provision = wt_grain_provision ho w,
     gr_teardown = wt_grain_teardown ho w, gr_reclaim = wt_grain_reclaim ho w\<rparr>"

text \<open>\<open>substrate.New\<close> reads the dial: an explicit name, else the environment, else the worktree grain.\<close>

definition pick_grain :: "'e grain \<Rightarrow> 'e grain \<Rightarrow> string \<Rightarrow> string \<Rightarrow> err + 'e grain" where
  "pick_grain tree container opt env =
     (let dial = (if trim_space opt = [] then trim_space env else trim_space opt); low = to_lower dial in
      if low = ''container'' then Inr container
      else if low = [] \<or> low = ''worktree'' then Inr tree
      else Inl (Fmt ''substrate: unknown grain %q (want worktree|container)'' [dial]))"

section \<open>The substrate's methods\<close>

definition res_step :: "string \<Rightarrow> json \<Rightarrow> res_req \<Rightarrow> res_req option" where
  "res_step k v r =
     (if same_key k ''name'' then into as_str (\<lambda>x. r\<lparr>rr_name := x\<rparr>) r v
      else if same_key k ''domain'' then into as_str (\<lambda>x. r\<lparr>rr_domain := x\<rparr>) r v
      else if same_key k ''ref'' then into as_str (\<lambda>x. r\<lparr>rr_ref := x\<rparr>) r v
      else Some r)"

definition as_res :: "json \<Rightarrow> res_req option" where
  "as_res j = into_struct res_step j \<lparr>rr_name = [], rr_domain = [], rr_ref = []\<rparr>"

definition provision_params :: "json option \<Rightarrow> rpc_error + prov_req" where
  "provision_params p =
     (case params_optional p of
        Inl x \<Rightarrow> Inl x
      | Inr kvs \<Rightarrow>
          (case (int_field ''ports'' kvs, field (as_list as_res) ''resources'' [] kvs) of
             (Some n, Some rs) \<Rightarrow> Inr \<lparr>pq_ports = n, pq_resources = rs\<rparr>
           | _ \<Rightarrow> Inl invalid_params))"

text \<open>The session is the connection's; the parameters of a teardown are not read.\<close>

definition provision_call :: "string \<Rightarrow> json option \<Rightarrow> rpc_error + phase" where
  "provision_call session p = map_sum id (Provisioning session) (provision_params p)"

definition string_map :: "(string \<times> string) list \<Rightarrow> json" where
  "string_map kvs = JObj (map (\<lambda>(k, v). (k, JStr v)) (sort_key fst kvs))"

definition unless_empty :: "string \<Rightarrow> string \<Rightarrow> (string \<times> json) list" where
  "unless_empty k v = (if v = [] then [] else [(k, JStr v)])"

definition wire :: "env_spec \<Rightarrow> json" where
  "wire sp = JObj ([(''session'', JStr (es_session sp)), (''grain'', JStr (es_grain sp)),
       (''cwd'', JStr (bd_cwd (es_boundary sp))), (''branch'', JStr (bd_branch (es_boundary sp)))]
     @ unless_empty ''host_worktree'' (bd_worktree (es_boundary sp)) @ unless_empty ''container_id'' (bd_container (es_boundary sp))
     @ [(''ports'', JArr (map JInt (es_ports sp))), (''env'', string_map (es_env sp)), (''state_dirs'', string_map (es_dirs sp)),
        (''deferred'', JArr (map (\<lambda>(n, k). JObj [(''name'', JStr n), (''kind'', JStr (kind_string k))]) (es_deferred sp)))])"

text \<open>What the caller is told once its call has returned.\<close>

fun call_reply :: "phase \<Rightarrow> (rpc_error + json) option" where
  "call_reply (Provisioned sp) = Some (Inr (wire sp))"
| "call_reply (Refused x) = Some (Inl (new_error code_internal x))"
| "call_reply (TornDown None) = Some (Inr (JObj [(''ok'', JBool True)]))"
| "call_reply (TornDown (Some x)) = Some (Inl (new_error code_internal x))"
| "call_reply _ = None"

text \<open>\<open>StateRoot\<close> for the tools, guarded against an empty or a traversing slug.\<close>

definition guarded_state_root :: "'e sub_conf \<Rightarrow> string \<Rightarrow> string" where
  "guarded_state_root cf slug =
     (if slug = [] \<or> contains slug ''/'' \<or> contains slug [CHR 0x5C] \<or> contains slug ''..'' then [] else state_root cf slug)"

text \<open>A teardown that runs alone, as the recoverer calls it.\<close>

definition sub_teardown :: "'e sub_conf \<Rightarrow> string \<Rightarrow> ('e sub, unit) eff" where
  "sub_teardown cf session s =
     (case advance_n cf 5 (Tearing session, s) of
        (p, s') \<Rightarrow> (case p of TornDown (Some x) \<Rightarrow> Inl x | _ \<Rightarrow> Inr (), s'))"

end
