(* ===== verification/WorktreeFacts.thy ===== *)
theory WorktreeFacts
  imports Worktree
begin

text \<open>
  Slugs are safe names, a worktree and a state root are found again from the slug alone, different slugs
  have directories apart, and every call of the substrate returns.
\<close>

section \<open>Slugs\<close>

lemma slug_char_props: "slug_char c \<Longrightarrow> byte c < 128 \<and> c \<noteq> slash \<and> c \<noteq> CHR ''.''"
  by (auto simp: slug_char_def is_alnum_def is_upper_def is_lower_def is_digit_def)

lemma decode_rune_high:
  assumes "128 \<le> byte c"
  shows "128 \<le> fst (decode_rune c s)"
proof -
  have two: "128 \<le> (byte c - 192) * 64 + x" if "194 \<le> byte c" for x using that by linarith
  have three: "128 \<le> (byte c - 224) * 4096 + (y - 128) * 64 + x"
    if "224 \<le> byte c" "(if byte c = 224 then 160 else z) \<le> y" for x y z :: nat
    using that by (cases "byte c = 224") simp_all
  have four: "128 \<le> (byte c - 240) * 262144 + (y - 128) * 4096 + v + x"
    if "240 \<le> byte c" "(if byte c = 240 then 144 else z) \<le> y" for x y z v :: nat
    using that by (cases "byte c = 240") simp_all
  consider "194 \<le> byte c \<and> byte c \<le> 223" | "224 \<le> byte c \<and> byte c \<le> 239" | "240 \<le> byte c \<and> byte c \<le> 244"
    | "byte c < 194" | "244 < byte c" by linarith
  then show ?thesis
  proof cases
    case 1
    then show ?thesis using two by (simp add: decode_rune_def Let_def split: list.split)
  next
    case 2
    then have "byte c \<noteq> 240" by simp
    then show ?thesis using 2 three by (auto simp: decode_rune_def Let_def continuation_def split: list.split)
  next
    case 3
    then have "byte c \<noteq> 224" by simp
    then show ?thesis using 3 four by (auto simp: decode_rune_def Let_def continuation_def split: list.split)
  next
    case 4
    then show ?thesis using assms by (simp add: decode_rune_def Let_def)
  next
    case 5
    then show ?thesis by (simp add: decode_rune_def Let_def)
  qed
qed

lemma rune_steps_low:
  "\<forall>(r, k) \<in> set (rune_steps n s). r < 128 \<Longrightarrow> length s \<le> n \<Longrightarrow> \<forall>c \<in> set s. byte c < 128"
proof (induction n s rule: rune_steps.induct)
  case (3 n c s)
  then have "fst (decode_rune c s) < 128" by (cases "decode_rune c s") auto
  then have low: "byte c < 128" using decode_rune_high [of c s] by linarith
  then have "decode_rune c s = (byte c, 1)" by (simp add: decode_rune_def Let_def)
  then show ?case using 3 low by simp
qed simp_all

lemma safe_name_chars: "safe_name n \<Longrightarrow> list_all slug_char n"
proof -
  assume safe: "safe_name n"
  then have "\<forall>c \<in> set n. byte c < 128"
    by (intro rune_steps_low [of "length n"]) (auto simp: safe_name_def runes_def list_all_iff)
  then show ?thesis using safe runes_ascii [of n] by (simp add: safe_name_def list_all_iff)
qed

lemma safe_name_iff: "list_all slug_char s \<Longrightarrow> safe_name s \<longleftrightarrow> s \<noteq> []"
  using runes_ascii [of s] by (auto simp: safe_name_def list_all_iff slug_char_props)

lemma sanitize_chars: "list_all slug_char (sanitize s)"
  by (auto simp: sanitize_def list_all_iff slug_char_def)

lemma trim_chars: "list_all P s \<Longrightarrow> list_all P (trim_set cs s)"
  by (auto simp: trim_set_def list_all_iff dest!: set_dropWhileD)

lemma hex_digit_char:
  assumes "n < 16"
  shows "slug_char (hex_digit n)"
proof -
  have "n \<in> {0, 1, 2, 3, 4, 5, 6, 7, 8, 9, 10, 11, 12, 13, 14, 15}" using assms by (simp, presburger)
  then show ?thesis
    by (elim insertE emptyE)
      (simp_all add: hex_digit_def slug_char_def is_alnum_def is_upper_def is_lower_def is_digit_def take_bit_eq_mod)
qed

lemma hex_chars: "list_all slug_char (hex_encode s)"
proof -
  have "byte c div 16 < 16" for c by (rule less_mult_imp_div_less) (simp add: of_char_lt)
  then show ?thesis by (auto simp: hex_encode_def list_all_iff hex_digit_char)
qed

lemma safe_slug_chars: "list_all slug_char (safe_slug sha s)"
proof -
  have "slug_char CHR ''-''" by (simp add: slug_char_def)
  then show ?thesis
    using trim_chars [OF sanitize_chars, of "{CHR ''-'', CHR ''_''}" s] hex_chars by (auto simp: safe_slug_def Let_def)
qed

lemma safe_slug_name: "safe_slug sha s \<noteq> [] \<Longrightarrow> safe_name (safe_slug sha s)"
  using safe_name_iff [OF safe_slug_chars] by blast

lemma slug_plain: "list_all slug_char s \<Longrightarrow> s \<noteq> [] \<Longrightarrow> plain_comp s"
proof -
  assume s: "list_all slug_char s" "s \<noteq> []"
  have none: "c \<notin> set s" if "\<not> slug_char c" for c using s(1) that by (auto simp: list_all_iff)
  have "\<not> slug_char slash" "\<not> slug_char CHR ''.''" using slug_char_props by blast+
  then have "slash \<notin> set s" "CHR ''.'' \<notin> set s" using none by blast+
  then show "plain_comp s" using s(2) by (auto simp: plain_comp_def)
qed

section \<open>Paths below a base\<close>

lemma clean_comps_append: "clean_comps r out (xs @ ys) = clean_comps r (rev (clean_comps r out xs)) ys"
proof (induction r out xs rule: clean_comps.induct)
  case (2 r out c cs)
  then show ?case by (cases "c = [] \<or> c = ''.''"; cases "c = ''..''"; cases "out \<noteq> [] \<and> hd out \<noteq> ''..''"; cases r) auto
qed simp

lemma split_on_append: "split_on d (s @ d # t) = split_on d s @ split_on d t"
  by (induction d s rule: split_on.induct) (auto split: list.splits)

lemma comps_join:
  assumes "rooted b" and "list_all plain_comp cs" and "cs \<noteq> []"
  shows "comps (join_path [b, join_with [slash] cs]) = comps b @ cs"
proof -
  have "b \<noteq> []" using assms(1) by (auto simp: rooted_def)
  then have j: "join_path [b, join_with [slash] cs] = clean (b @ slash # join_with [slash] cs)" by (simp add: join_path_def)
  have r: "rooted (b @ slash # join_with [slash] cs)" using assms(1) by (auto simp: rooted_def)
  have "comps (b @ slash # join_with [slash] cs) = clean_comps True [] (split_on slash b @ cs)"
    using r assms(2,3) split_join [of cs] by (auto simp: comps_def split_on_append list_all_iff plain_comp_def)
  then show ?thesis
    using comps_clean [OF r] assms(1) clean_comps_plain [OF assms(2)] by (simp add: j clean_comps_append comps_def)
qed

lemma comps_join_one: "rooted b \<Longrightarrow> plain_comp c \<Longrightarrow> comps (join_path [b, c]) = comps b @ [c]"
  using comps_join [of b "[c]"] by simp

text \<open>C31: a worktree is found again from its slug. The path that \<open>Path\<close> derives is the one \<open>Create\<close> used, one
  level below the repository's base; worktrees of different names have different paths and branches.\<close>

theorem worktree_found_again:
  assumes "rooted (worktree_base w)" and "wt_create ho w n e = (Inr k, e')" and "wt_create ho w m e1 = (Inr k', e1')"
  shows "wt_path (os_cwd (ho_os ho)) w n = Inr (wk_path k) \<and> comps (wk_path k) = comps (worktree_base w) @ [n]
    \<and> (n \<noteq> m \<longrightarrow> wk_path k \<noteq> wk_path k' \<and> wk_branch k \<noteq> wk_branch k')"
proof -
  have made: "safe_name n \<and> k = worktree_at w n \<and> abs_path (os_cwd (ho_os ho)) (wt_repo w) \<noteq> None"
    if "wt_create ho w n e = (Inr k, e')" for n e k e'
    using that by (auto simp: wt_create_def andThen_eq split: if_splits option.splits sum.splits)
  have plain: "plain_comp n" if "safe_name n" for n
    using slug_plain [OF safe_name_chars [OF that]] that by (auto simp: safe_name_def)
  have below: "comps (wk_path k) = comps (worktree_base w) @ [n] \<and> wk_branch k = branch_of n"
    if "wt_create ho w n e = (Inr k, e')" for n e k e'
    using made [OF that] comps_join_one [OF assms(1) plain [of n]] by (simp add: worktree_at_def)
  have "wt_path (os_cwd (ho_os ho)) w n = Inr (wk_path k)"
    using made [OF assms(2)] by (auto simp: wt_path_def worktree_at_def)
  moreover have "n = m" if "wk_path k = wk_path k' \<or> wk_branch k = wk_branch k'"
    using that below [OF assms(2)] below [OF assms(3)] by (auto simp: branch_of_def)
  ultimately show ?thesis using below [OF assms(2)] by blast
qed

section \<open>State directories\<close>

lemma comps_place:
  assumes "rooted root" and "plain_comp p"
  shows "comps (place cf root p) = comps root @ [p]"
  using comps_join_one [of "clean root" p] assms by (simp add: place_def abs_path_def clean_rooted comps_abs_of comps_plain)

lemma comps_role_dir:
  assumes "rooted (state_base cf)" and "boundary_ok cf h sp" and "(r, p) \<in> set (es_dirs sp)"
  shows "comps p = comps (state_base cf) @ [h, r]" and "r \<in> set state_roles"
proof -
  have h: "plain_comp h" "es_root sp = state_root cf h" "es_dirs sp = role_dirs cf (es_root sp) state_roles"
    using assms(2) slug_plain [OF safe_slug_chars] by (auto simp: boundary_ok_def)
  then show r: "r \<in> set state_roles" using assms(3) by (auto simp: role_dirs_def)
  then have "plain_comp r" by (auto simp: state_roles_def plain_comp_def)
  moreover have "rooted (state_root cf h)" using join_rooted(2) [OF assms(1)] by (simp add: state_root_def)
  moreover have "p = place cf (state_root cf h) r" using h assms(3) by (auto simp: role_dirs_def)
  ultimately show "comps p = comps (state_base cf) @ [h, r]"
    using comps_place [of "state_root cf h" r cf] comps_join_one [OF assms(1) h(1)] by (simp add: state_root_def)
qed

text \<open>Private state. Two different directories given to live boundaries, of one boundary or of two, never
  lie inside each other, and the slug and the role spell out each of them below the repository's base.\<close>

theorem state_dirs_apart:
  assumes "absolute_os (sc_os cf)" and "rooted (state_base cf)" and "sub_reaches cf ([], fresh_sub e) (ops, s)"
    and "sb_live s h = Some sp" and "sb_live s g = Some sp'"
    and "(r, p) \<in> set (es_dirs sp)" and "(r', p') \<in> set (es_dirs sp')" and "(h, r) \<noteq> (g, r')"
  shows "comps p = comps (state_base cf) @ [h, r] \<and> \<not> prefix (comps p) (comps p')"
proof -
  have p: "comps p = comps (state_base cf) @ [h, r]" "comps p' = comps (state_base cf) @ [g, r']"
    using comps_role_dir(1) [OF assms(2) live_spec_ok [OF assms(1,3,4)] assms(6)]
      comps_role_dir(1) [OF assms(2) live_spec_ok [OF assms(1,3,5)] assms(7)] by simp_all
  then show ?thesis using assms(8) by simp
qed

section \<open>Every call returns\<close>

fun steps_left :: "phase \<Rightarrow> nat" where
  "steps_left (Provisioning session q) = 13 + length (pq_resources q)"
| "steps_left (Building AtGrain b) = 12 + length (pq_resources (bl_req b))"
| "steps_left (Building AtPorts b) = 11 + length (pq_resources (bl_req b))"
| "steps_left (Building (AtDirs rs) b) = 7 + length rs + length (pq_resources (bl_req b))"
| "steps_left (Building AtEnv b) = 6 + length (pq_resources (bl_req b))"
| "steps_left (Building (AtRoute rs) b) = 5 + length rs"
| "steps_left (GiveBack x b) = 4"
| "steps_left (GivePorts x b) = 3"
| "steps_left (GiveState x b) = 2"
| "steps_left (GiveGrain x b) = 1"
| "steps_left (Tearing session) = 5"
| "steps_left (Orphan slug) = 2"
| "steps_left (OrphanState slug) = 1"
| "steps_left (DropPorts slug sp) = 4"
| "steps_left (DropState slug sp) = 3"
| "steps_left (DropGrain slug sp x) = 2"
| "steps_left (Unreserve slug x) = 1"
| "steps_left _ = 0"

lemma returned_iff: "call_reply p \<noteq> None \<or> p = Panicked \<longleftrightarrow> steps_left p = 0"
proof -
  have "call_reply (TornDown x) \<noteq> None" for x by (cases x) simp_all
  then show ?thesis by (cases p rule: steps_left.cases) auto
qed

lemma op_step_closer:
  assumes st: "op_step cf p s = (p', s')"
  shows "steps_left p' \<le> steps_left p - 1"
proof (cases "(cf, p, s)" rule: op_step.cases)
  case (1 cf' session q s1)
  then show ?thesis using st by (auto simp: reserve_def Let_def split: if_splits)
next
  case (2 cf' b s1)
  then show ?thesis using st by (auto simp: make_boundary_def Let_def split: prod.splits option.splits if_splits)
next
  case (3 cf' b s1)
  then show ?thesis using st by (auto simp: take_ports_def state_roles_def Let_def split: prod.splits sum.splits if_splits)
next
  case (4 cf' r rs b s1)
  then show ?thesis using st by (auto simp: make_state_def split: prod.splits sum.splits)
next
  case (6 cf' b s1)
  then show ?thesis using st by (auto simp: start_env_def split: if_splits)
next
  case (7 cf' r rs b s1)
  then show ?thesis using st by (auto simp: route_resource_def Let_def split: prod.splits sum.splits option.splits if_splits)
next
  case (13 cf' session s1)
  then show ?thesis using st by (auto simp: begin_teardown_def Let_def split: option.splits if_splits)
qed (use st in \<open>auto simp: publish_def split: prod.splits\<close>)

text \<open>A call whose own steps find the substrate in the given states, whatever happened in between.\<close>

fun driven :: "'e sub_conf \<Rightarrow> phase \<Rightarrow> 'e sub list \<Rightarrow> phase" where
  "driven cf p [] = p"
| "driven cf p (s # ss) = driven cf (fst (op_step cf p s)) ss"

lemma driven_returns: "steps_left p \<le> length ss \<Longrightarrow> call_reply (driven cf p ss) \<noteq> None \<or> driven cf p ss = Panicked"
proof (induction ss arbitrary: p)
  case Nil
  then show ?case using returned_iff [of p] by simp
next
  case (Cons s ss)
  have "steps_left (fst (op_step cf p s)) \<le> steps_left p - 1"
    using op_step_closer [of cf p s "fst (op_step cf p s)" "snd (op_step cf p s)"] by simp
  then show ?case using Cons by simp
qed

text \<open>The ports that a call asks for fit into a slice.\<close>

fun modest :: "'e sub_conf \<Rightarrow> phase \<Rightarrow> bool" where
  "modest cf (Provisioning session q) = (int (wanted_ports cf q) \<le> max_slice)"
| "modest cf (Building st b) = (int (wanted_ports cf (bl_req b)) \<le> max_slice)"
| "modest cf (GiveBack x b) = (x \<noteq> slice_panic)"
| "modest cf (GivePorts x b) = (x \<noteq> slice_panic)"
| "modest cf (GiveState x b) = (x \<noteq> slice_panic)"
| "modest cf (GiveGrain x b) = (x \<noteq> slice_panic)"
| "modest cf Panicked = False"
| "modest cf _ = True"

lemma op_step_modest:
  assumes st: "op_step cf p s = (p', s')" and m: "modest cf p"
  shows "modest cf p'"
proof (cases "(cf, p, s)" rule: op_step.cases)
  case (1 cf' session q s1)
  then show ?thesis using st m by (auto simp: reserve_def Let_def split: if_splits)
next
  case (2 cf' b s1)
  then show ?thesis
    using st m by (auto simp: make_boundary_def slice_panic_def Let_def split: prod.splits option.splits if_splits)
next
  case (3 cf' b s1)
  then show ?thesis
    using st m by (auto simp: take_ports_def slice_panic_def wanted_ports_def Let_def split: prod.splits sum.splits if_splits)
next
  case (4 cf' r rs b s1)
  then show ?thesis using st m by (auto simp: make_state_def slice_panic_def split: prod.splits sum.splits)
next
  case (6 cf' b s1)
  then show ?thesis using st m by (auto simp: start_env_def slice_panic_def split: if_splits)
next
  case (7 cf' r rs b s1)
  then show ?thesis
    using st m by (auto simp: route_resource_def slice_panic_def Let_def split: prod.splits sum.splits option.splits if_splits)
next
  case (13 cf' session s1)
  then show ?thesis using st m by (auto simp: begin_teardown_def Let_def split: option.splits if_splits)
qed (use st m in \<open>auto simp: publish_def split: prod.splits\<close>)

lemma driven_modest: "modest cf p \<Longrightarrow> modest cf (driven cf p ss)"
proof (induction ss arbitrary: p)
  case (Cons s ss)
  then show ?case using op_step_modest [of cf p s "fst (op_step cf p s)" "snd (op_step cf p s)"] by simp
qed simp


end
