(* ===== verification/Container.thy ===== *)
theory Container
  imports WorktreeFacts
begin

text \<open>
  The container grain (\<open>internal/substrate/container.go\<close>): a clone of the repository mounted into a container, the
  flags it runs with, the credentials it is given, and the harvest of its branch before the clone goes. The
  container runtime, the key chain, files and temporary names are parameters.
\<close>

section \<open>The outside world\<close>

text \<open>The environment variables the grain reads; an unset one is empty.\<close>

record knobs =
  kn_image :: string
  kn_network :: string
  kn_confined :: string
  kn_home :: string
  kn_credentials :: string
  kn_platform :: string
  kn_no_autostart :: string

record 'e runtime =
  rt_host :: "'e host"
  rt_cli :: "string list \<Rightarrow> 'e \<Rightarrow> (string \<times> string option) \<times> 'e"
  rt_temp :: "('e, string) eff"
  rt_unlink :: "string \<Rightarrow> ('e, unit) eff"
  rt_read :: "'e \<Rightarrow> string \<Rightarrow> string option"
  rt_write :: "string \<Rightarrow> string \<Rightarrow> ('e, unit) eff"
  rt_keychain :: "'e \<Rightarrow> string option"
  rt_json :: "string \<Rightarrow> json option"
  rt_compact :: "string \<Rightarrow> string"
  rt_home :: string
  rt_arch :: string

definition on_fail :: "('e, 'a) eff \<Rightarrow> (err \<Rightarrow> ('e, 'a) eff) \<Rightarrow> ('e, 'a) eff" where
  "on_fail m h e = (case m e of (Inl x, e') \<Rightarrow> h x e' | (Inr y, e') \<Rightarrow> (Inr y, e'))"

text \<open>\<open>defer\<close> of an action whose error is dropped.\<close>

definition deferred :: "('e, unit) eff \<Rightarrow> ('e, 'a) eff \<Rightarrow> ('e, 'a) eff" where
  "deferred c m e = (case m e of (r, e') \<Rightarrow> (r, snd (c e')))"

definition run_container :: "'e runtime \<Rightarrow> string list \<Rightarrow> ('e, string \<times> string option) eff" where
  "run_container rt args e = (case rt_cli rt args e of ((out, x), e') \<Rightarrow> (Inr (trim_space out, x), e'))"

definition rm_container :: "'e runtime \<Rightarrow> string \<Rightarrow> ('e, unit) eff" where
  "rm_container rt n = ignoring (run_container rt [''rm'', ''-f'', n])"

definition is_not_found :: "string \<Rightarrow> bool" where
  "is_not_found out \<longleftrightarrow> (let o' = to_lower out in
     contains o' ''not found'' \<or> contains o' ''no such'' \<or> contains o' ''does not exist'')"

section \<open>Values from the environment\<close>

definition truthy :: "string \<Rightarrow> bool" where
  "truthy s \<longleftrightarrow> to_lower (trim_space s) \<in> {''1'', ''true'', ''on'', ''yes''}"

definition path_char :: "char \<Rightarrow> bool" where
  "path_char c \<longleftrightarrow> is_alnum c \<or> c \<in> set ''._/-''"

definition ascii_all :: "(char \<Rightarrow> bool) \<Rightarrow> string \<Rightarrow> bool" where
  "ascii_all ok s \<longleftrightarrow> list_all (\<lambda>r. r < 128 \<and> ok (char_of r)) (runes s)"

definition is_safe_home :: "string \<Rightarrow> bool" where
  "is_safe_home s \<longleftrightarrow> has_prefix s ''/'' \<and> ascii_all path_char s"

definition arg_char :: "char \<Rightarrow> bool" where
  "arg_char c \<longleftrightarrow> is_alnum c \<or> c \<in> set ''._/:,=-'' \<or> c = CHR 0x40"

definition is_safe_arg :: "string \<Rightarrow> bool" where
  "is_safe_arg s \<longleftrightarrow> s \<noteq> [] \<and> \<not> has_prefix s ''-'' \<and> ascii_all arg_char s"

definition container_home :: "knobs \<Rightarrow> string" where
  "container_home kn = (let h = trim_space (kn_home kn) in if is_safe_home h then h else ''/root'')"

definition container_image :: "knobs \<Rightarrow> string" where
  "container_image kn = (let i = trim_space (kn_image kn) in
     if i \<noteq> [] \<and> is_safe_arg i then i else ''alpine:latest'')"

definition resolve_network :: "knobs \<Rightarrow> bool \<Rightarrow> string" where
  "resolve_network kn confined =
     (let raw = trim_space (kn_network kn); raw' = (if raw \<noteq> [] \<and> \<not> is_safe_arg raw then [] else raw) in
      if raw' \<noteq> [] then raw' else if confined then ''none'' else [])"

definition container_platform :: "knobs \<Rightarrow> string \<Rightarrow> string" where
  "container_platform kn arch = (let p = trim_space (kn_platform kn) in
     if p \<noteq> [] \<and> is_safe_arg p then p else ''linux/'' @ arch)"

text \<open>An unknown value leaves forwarding on.\<close>

definition credentials_off :: "knobs \<Rightarrow> bool" where
  "credentials_off kn \<longleftrightarrow> to_lower (trim_space (kn_credentials kn)) \<in> {''off'', ''0'', ''false'', ''no''}"

section \<open>Credentials\<close>

definition cooperative_mounts :: "'e runtime \<Rightarrow> knobs \<Rightarrow> bool \<Rightarrow> 'e \<Rightarrow> (string \<times> string) list" where
  "cooperative_mounts rt kn confined e =
     (if confined \<or> rt_home rt = [] \<or> credentials_off kn then []
      else let src = join_path [rt_home rt, ''.codex''] in
        if ho_stat (rt_host rt) e src = Present \<and> ho_is_dir (rt_host rt) e src
        then [(src, container_home kn @ ''/'' @ ''.codex'')] else [])"

definition normalize_claude :: "'e runtime \<Rightarrow> string \<Rightarrow> string option" where
  "normalize_claude rt raw =
     (case rt_json rt raw of
        None \<Rightarrow> None
      | Some j \<Rightarrow> (case obj_fields j of
          None \<Rightarrow> None
        | Some kvs \<Rightarrow>
            (if map_of kvs ''claudeAiOauth'' \<noteq> None then Some raw
             else if map_of kvs ''accessToken'' \<noteq> None
               then Some ([CHR 0x7B, CHR 0x22] @ ''claudeAiOauth'' @ [CHR 0x22, CHR '':''] @ rt_compact rt raw @ [CHR 0x7D])
             else None)))"

definition keychain_claude :: "'e runtime \<Rightarrow> 'e \<Rightarrow> string option" where
  "keychain_claude rt e = Option.bind (rt_keychain rt e) (\<lambda>out. let v = trim_space out in if v = [] then None else Some v)"

definition live_claude :: "'e runtime \<Rightarrow> 'e \<Rightarrow> string option" where
  "live_claude rt e =
     (case Option.bind (keychain_claude rt e) (normalize_claude rt) of
        Some c \<Rightarrow> Some c
      | None \<Rightarrow>
          (if rt_home rt = [] then None
           else Option.bind (rt_read rt e (join_path [rt_home rt, ''.claude'', ''.credentials.json''])) (normalize_claude rt)))"

definition claude_mount :: "'e runtime \<Rightarrow> knobs \<Rightarrow> string \<Rightarrow> bool \<Rightarrow> ('e, (string \<times> string) list) eff" where
  "claude_mount rt kn state confined e =
     (if confined \<or> credentials_off kn then (Inr [], e)
      else case live_claude rt e of
          None \<Rightarrow> (Inr [], e)
        | Some creds \<Rightarrow>
            (let dir = join_path [state, ''claude-home'', ''.claude''] in
             on_fail (andThen (os_mkdir (ho_os (rt_host rt)) dir) (\<lambda>_.
                      andThen (rt_write rt (join_path [dir, ''.credentials.json'']) creds) (\<lambda>_.
                      ret [(dir, container_home kn @ ''/.claude'')])))
               (\<lambda>_. ret []) e))"

section \<open>The apiserver\<close>

definition apiserver_down :: "string \<Rightarrow> bool" where
  "apiserver_down status \<longleftrightarrow> (let s = to_lower status in
     contains s ''not running'' \<or> contains s ''not registered'' \<or> \<not> contains s ''running'')"

datatype api_action = ApiOk | ApiStart | ApiRestart

fun classify_health :: "bool \<times> bool \<Rightarrow> api_action" where
  "classify_health (True, True) = ApiOk"
| "classify_health (True, False) = ApiRestart"
| "classify_health (False, _) = ApiStart"

definition api_health :: "'e runtime \<Rightarrow> ('e, bool \<times> bool) eff" where
  "api_health rt = andThen (run_container rt [''system'', ''status'']) (\<lambda>(out, x).
     if x = None \<and> \<not> apiserver_down out
     then andThen (run_container rt [''ls'']) (\<lambda>(_, y). ret (True, y = None))
     else ret (False, False))"

definition api_start :: "'e runtime \<Rightarrow> ('e, unit) eff" where
  "api_start rt = ignoring (run_container rt [''system'', ''start'', ''--disable-kernel-install'', ''--timeout'', ''60''])"

definition api_recheck :: "'e runtime \<Rightarrow> ('e, unit) eff" where
  "api_recheck rt = andThen (api_health rt) (\<lambda>h. if classify_health h = ApiOk then ret ()
     else failing (Fmt ''container apiserver not healthy after recovery: status-ok=%v probe-ok=%v''
       (map (\<lambda>b. if b then ''true'' else ''false'') [fst h, snd h])))"

definition ensure_api :: "'e runtime \<Rightarrow> knobs \<Rightarrow> ('e, unit) eff" where
  "ensure_api rt kn = andThen (api_health rt) (\<lambda>h. case classify_health h of
       ApiOk \<Rightarrow> ret ()
     | ApiStart \<Rightarrow>
         (if truthy (kn_no_autostart kn) then failing (Msg ''container apiserver is not running (auto-start disabled via MAD_CONTAINER_NO_AUTOSTART); run `container system start`'')
          else andThen (api_start rt) (\<lambda>_. api_recheck rt))
     | ApiRestart \<Rightarrow>
         (if truthy (kn_no_autostart kn) then failing (Msg ''container apiserver is degraded'')
          else andThen (ignoring (run_container rt [''system'', ''stop''])) (\<lambda>_. andThen (api_start rt) (\<lambda>_. api_recheck rt))))"

text \<open>The message of a degraded apiserver is shortened. A failing \<open>ls\<close> counts as running.\<close>

definition container_running :: "'e runtime \<Rightarrow> string \<Rightarrow> ('e, bool) eff" where
  "container_running rt n = andThen (run_container rt [''ls'']) (\<lambda>(out, x). ret (x \<noteq> None \<or> contains out n))"

section \<open>The grain\<close>

record cgrain =
  cg_wt :: wt_conf
  cg_state :: "string \<Rightarrow> string"
  cg_knobs :: knobs
  cg_image :: string
  cg_network :: string
  cg_confined :: bool

definition new_container_grain :: "wt_conf \<Rightarrow> (string \<Rightarrow> string) \<Rightarrow> knobs \<Rightarrow> cgrain" where
  "new_container_grain w st kn = \<lparr>cg_wt = w, cg_state = st, cg_knobs = kn, cg_image = container_image kn,
     cg_network = resolve_network kn (truthy (kn_confined kn)), cg_confined = truthy (kn_confined kn)\<rparr>"

definition bind_mount :: "string \<Rightarrow> string \<Rightarrow> string list" where
  "bind_mount src dst = [''--mount'', ''type=bind,source='' @ src @ '',target='' @ dst]"

definition work_mount :: string where "work_mount = ''/work''"

definition run_args :: "string \<Rightarrow> string \<Rightarrow> string \<Rightarrow> string \<Rightarrow> string \<Rightarrow> string \<Rightarrow> bool \<Rightarrow> (string \<times> string) list \<Rightarrow> string \<Rightarrow> string list" where
  "run_args n cid clone state img network confined creds platform =
     [''run'', ''-d'', ''--name'', n, ''--cidfile'', cid] @ bind_mount clone work_mount @ bind_mount state state @ [''-w'', work_mount]
     @ (if platform = [] then [] else [''--platform'', platform])
     @ concat (map (\<lambda>(src, dst). bind_mount src dst) creds)
     @ (if confined then [''--cap-drop'', ''ALL'', ''--read-only''] else [])
     @ (if network = [] then [] else [''--network'', network])
     @ [''--tmpfs'', ''/tmp'', ''--entrypoint'', ''sleep'', img, ''infinity'']"

definition container_name :: "string \<Rightarrow> string" where "container_name slug = ''nm-'' @ slug"

definition cred_mounts :: "'e runtime \<Rightarrow> cgrain \<Rightarrow> string \<Rightarrow> ('e, (string \<times> string) list) eff" where
  "cred_mounts rt cg state e =
     andThen (claude_mount rt (cg_knobs cg) state (cg_confined cg)) (\<lambda>claude.
       ret (cooperative_mounts rt (cg_knobs cg) (cg_confined cg) e @ claude)) e"

text \<open>The command line of the container that \<open>Provision\<close> starts.\<close>

definition boundary_args :: "'e runtime \<Rightarrow> cgrain \<Rightarrow> string \<Rightarrow> string \<Rightarrow> string \<Rightarrow> (string \<times> string) list \<Rightarrow> string list" where
  "boundary_args rt cg slug clone cid creds = run_args (container_name slug) cid clone (cg_state cg slug)
     (cg_image cg) (cg_network cg) (cg_confined cg) creds (container_platform (cg_knobs cg) (rt_arch rt))"

definition read_cid :: "'e runtime \<Rightarrow> string \<Rightarrow> ('e, string) eff" where
  "read_cid rt path e =
     (case rt_read rt e path of
        None \<Rightarrow> (Inl (Msg ''read cidfile''), e)
      | Some b \<Rightarrow> (if trim_space b = [] then Inl (Fmt ''empty cidfile %q'' [path]) else Inr (trim_space b), e))"

definition drop_clone :: "'e runtime \<Rightarrow> string \<Rightarrow> err \<Rightarrow> ('e, 'a) eff" where
  "drop_clone rt path x = andThen (ignoring (os_remove (ho_os (rt_host rt)) path)) (\<lambda>_. failing x)"

definition drop_started :: "'e runtime \<Rightarrow> string \<Rightarrow> string \<Rightarrow> err \<Rightarrow> ('e, 'a) eff" where
  "drop_started rt n path x = andThen (rm_container rt n) (\<lambda>_. drop_clone rt path x)"

definition check_started :: "'e runtime \<Rightarrow> string \<Rightarrow> worktree \<Rightarrow> string \<Rightarrow> ('e, boundary) eff" where
  "check_started rt n wt cid = andThen (container_running rt n) (\<lambda>up.
     if up then ret \<lparr>bd_cwd = work_mount, bd_branch = wk_branch wt, bd_worktree = wk_path wt, bd_container = cid\<rparr>
     else andThen (run_container rt [''logs'', cid]) (\<lambda>(logs, _).
       drop_started rt n (wk_path wt) (Fmt ''container %q exited immediately after run (image/platform mismatch?): %s'' [n, trim_space logs])))"

definition run_boundary :: "'e runtime \<Rightarrow> cgrain \<Rightarrow> string \<Rightarrow> worktree \<Rightarrow> string \<Rightarrow> ('e, boundary) eff" where
  "run_boundary rt cg slug wt cidp =
     andThen (cred_mounts rt cg (cg_state cg slug)) (\<lambda>creds.
     andThen (run_container rt (boundary_args rt cg slug (wk_path wt) cidp creds)) (\<lambda>(out, x). case x of
       Some t \<Rightarrow> drop_started rt (container_name slug) (wk_path wt) (Msg (git_failed ''container run'' t out))
     | None \<Rightarrow> andThen
         (on_fail (read_cid rt cidp) (\<lambda>y. drop_started rt (container_name slug) (wk_path wt) (Wrapped ''container: capture id'' y)))
         (check_started rt (container_name slug) wt)))"

definition start_boundary :: "'e runtime \<Rightarrow> cgrain \<Rightarrow> string \<Rightarrow> worktree \<Rightarrow> ('e, boundary) eff" where
  "start_boundary rt cg slug wt =
     andThen (on_fail (os_mkdir (ho_os (rt_host rt)) (cg_state cg slug))
        (\<lambda>x. drop_clone rt (wk_path wt) (Wrapped ''container: per-agent state dir'' x))) (\<lambda>_.
     andThen (rm_container rt (container_name slug)) (\<lambda>_.
     andThen (on_fail (rt_temp rt) (\<lambda>x. drop_clone rt (wk_path wt) (Wrapped ''container: cidfile'' x))) (\<lambda>cidp.
     andThen (ignoring (rt_unlink rt cidp)) (\<lambda>_.
     deferred (rt_unlink rt cidp) (run_boundary rt cg slug wt cidp)))))"

definition cg_provision :: "'e runtime \<Rightarrow> cgrain \<Rightarrow> string \<Rightarrow> ('e, boundary) eff" where
  "cg_provision rt cg slug =
     andThen (ensure_api rt (cg_knobs cg)) (\<lambda>_.
     andThen (wt_clone (rt_host rt) (cg_wt cg) slug) (\<lambda>wt. start_boundary rt cg slug wt))"

definition harvest_branch :: "'e runtime \<Rightarrow> cgrain \<Rightarrow> string \<Rightarrow> string \<Rightarrow> ('e, unit) eff" where
  "harvest_branch rt cg clone branch e =
     (if clone = [] \<or> branch = [] \<or> ho_stat (rt_host rt) e clone \<noteq> Present then (Inr (), e)
      else git_do (rt_host rt) (wt_repo (cg_wt cg))
        [''fetch'', ''--no-tags'', ''--quiet'', clone, CHR ''+'' # branch @ '':'' @ branch] (''harvest '' @ branch @ '' from '' @ clone) e)"

text \<open>The first error wins; a failed harvest ends the teardown with the clone in place.\<close>

definition first_error :: "err option \<Rightarrow> ('e, 'a) eff \<Rightarrow> ('e, 'a) eff" where
  "first_error first m = on_fail m (\<lambda>x. failing (case first of Some y \<Rightarrow> y | None \<Rightarrow> x))"

definition harvest_then_remove :: "'e runtime \<Rightarrow> cgrain \<Rightarrow> string \<Rightarrow> string \<Rightarrow> ('e, unit) eff" where
  "harvest_then_remove rt cg clone branch =
     andThen (harvest_branch rt cg clone branch) (\<lambda>_. os_remove (ho_os (rt_host rt)) clone)"

definition remove_container :: "'e runtime \<Rightarrow> string \<Rightarrow> ('e, err option) eff" where
  "remove_container rt cid =
     (if cid = [] then ret None
      else andThen (run_container rt [''rm'', ''-f'', cid]) (\<lambda>(out, x).
        ret (case x of None \<Rightarrow> None | Some t \<Rightarrow> if is_not_found out then None else Some (Msg (git_failed ''container rm'' t out)))))"

definition cg_teardown :: "'e runtime \<Rightarrow> cgrain \<Rightarrow> boundary \<Rightarrow> ('e, unit) eff" where
  "cg_teardown rt cg b =
     andThen (remove_container rt (bd_container b)) (\<lambda>first.
     andThen (if bd_worktree b = [] then ret ()
       else first_error first (harvest_then_remove rt cg (bd_worktree b) (bd_branch b))) (\<lambda>_.
     case first of Some y \<Rightarrow> failing y | None \<Rightarrow> ret ()))"

definition reclaim_clone :: "'e runtime \<Rightarrow> cgrain \<Rightarrow> string \<Rightarrow> ('e, unit) eff" where
  "reclaim_clone rt cg slug e =
     (case wt_path (os_cwd (ho_os (rt_host rt))) (cg_wt cg) slug of
        Inl x \<Rightarrow> (Inl x, e)
      | Inr path \<Rightarrow>
          (if path = [] \<or> ho_stat (rt_host rt) e path = Absent then (Inr (), e)
           else harvest_then_remove rt cg path (branch_of slug) e))"

definition cg_reclaim :: "'e runtime \<Rightarrow> cgrain \<Rightarrow> string \<Rightarrow> ('e, unit) eff" where
  "cg_reclaim rt cg slug =
     andThen (run_container rt [''rm'', ''-f'', container_name slug]) (\<lambda>(out, x). case x of
       Some t \<Rightarrow> (if is_not_found out then reclaim_clone rt cg slug
         else andThen (ignoring (reclaim_clone rt cg slug)) (\<lambda>_. failing (Fmt ''container reclaim rm %q: %s: %s'' [container_name slug, t, out])))
     | None \<Rightarrow> reclaim_clone rt cg slug)"

definition container_provision :: "'e runtime \<Rightarrow> cgrain \<Rightarrow> string \<Rightarrow> 'e \<Rightarrow> (boundary \<times> err option) \<times> 'e" where
  "container_provision rt cg slug e =
     (case cg_provision rt cg slug e of (Inl x, e') \<Rightarrow> ((no_boundary, Some x), e') | (Inr b, e') \<Rightarrow> ((b, None), e'))"

definition container_grain :: "'e runtime \<Rightarrow> cgrain \<Rightarrow> 'e grain" where
  "container_grain rt cg = \<lparr>gr_name = ''container'', gr_provision = container_provision rt cg,
     gr_teardown = cg_teardown rt cg, gr_reclaim = cg_reclaim rt cg\<rparr>"

text \<open>\<open>ExecGate\<close>: \<open>exec\<close> answers the exit code, if the process ran, its output and the error.\<close>

definition exec_gate :: "(string list \<Rightarrow> 'e \<Rightarrow> (int option \<times> string \<times> string option) \<times> 'e) \<Rightarrow> string \<Rightarrow> string \<Rightarrow> 'e
    \<Rightarrow> (int \<times> string \<times> err option) \<times> 'e" where
  "exec_gate exec cid gate e =
     (if cid = [] then ((-1, [], Some (Msg ''container exec gate: empty container id'')), e)
      else if has_prefix cid ''-'' then ((-1, [], Some (Fmt ''container exec gate: unsafe container id %q'' [cid])), e)
      else case exec [''exec'', cid, ''sh'', ''-c'', gate] e of
          ((code, out, None), e') \<Rightarrow> ((0, out, None), e')
        | ((code, out, Some t), e') \<Rightarrow> ((case code of Some c \<Rightarrow> c | None \<Rightarrow> -1, out, Some (Msg t)), e'))"

end
