(* ===== verification/ContainerFacts.thy ===== *)
theory ContainerFacts
  imports Container
begin

text \<open>
  What a confined container can reach, what the environment can put on its command line, and that the clone
  of an agent is not removed before its branch has been harvested.
\<close>

section \<open>Values from the environment\<close>

lemma safe_arg_no_flag: "is_safe_arg s \<Longrightarrow> \<not> has_prefix s ''-''"
  by (simp add: is_safe_arg_def)

lemma image_no_flag: "\<not> has_prefix (container_image kn) ''-''"
  by (auto simp: container_image_def Let_def is_safe_arg_def has_prefix_def)

lemma network_no_flag: "\<not> has_prefix (resolve_network kn confined) ''-''"
  by (auto simp: resolve_network_def Let_def is_safe_arg_def has_prefix_def)

lemma platform_no_flag: "\<not> has_prefix (container_platform kn arch) ''-''"
  by (auto simp: container_platform_def Let_def is_safe_arg_def has_prefix_def)

lemma home_rooted: "has_prefix (container_home kn) ''/''"
  by (auto simp: container_home_def Let_def is_safe_home_def has_prefix_def)

section \<open>The command line\<close>

text \<open>The values that a flag is given on a command line.\<close>

fun values_of :: "string \<Rightarrow> string list \<Rightarrow> string list" where
  "values_of f [] = []"
| "values_of f [a] = []"
| "values_of f (a # b # r) = (if a = f then b # values_of f r else values_of f (b # r))"

lemma values_of_skip: "a \<noteq> f \<Longrightarrow> values_of f (a # r) = values_of f r"
  by (cases r) simp_all

lemma no_flag_neq: "\<not> has_prefix a ''-'' \<Longrightarrow> a \<noteq> CHR ''-'' # r"
  by (auto simp: has_prefix_def)

definition mount_value :: "string \<Rightarrow> string \<Rightarrow> string" where
  "mount_value src dst = ''type=bind,source='' @ src @ '',target='' @ dst"


section \<open>Harvest before removal\<close>

definition fetch_branch :: "'e runtime \<Rightarrow> cgrain \<Rightarrow> string \<Rightarrow> string \<Rightarrow> 'e \<Rightarrow> (string \<times> string option) \<times> 'e" where
  "fetch_branch rt cg clone branch =
     ho_git (rt_host rt) (wt_repo (cg_wt cg)) [''fetch'', ''--no-tags'', ''--quiet'', clone, CHR ''+'' # branch @ '':'' @ branch]"

text \<open>How the removal of a clone may have gone: there was none, the branch was fetched first, or the clone was kept.\<close>

definition harvested :: "'e runtime \<Rightarrow> cgrain \<Rightarrow> string \<Rightarrow> string \<Rightarrow> 'e \<Rightarrow> bool \<Rightarrow> 'e \<Rightarrow> bool" where
  "harvested rt cg clone branch e ok e' \<longleftrightarrow>
     (if ho_stat (rt_host rt) e clone \<noteq> Present then e' = e \<or> e' = snd (os_remove (ho_os (rt_host rt)) clone e)
      else case fetch_branch rt cg clone branch e of
          ((out, None), e1) \<Rightarrow> e' = snd (os_remove (ho_os (rt_host rt)) clone e1)
        | ((out, Some t), e1) \<Rightarrow> e' = e1 \<and> \<not> ok)"

lemma harvest_cases:
  assumes "clone \<noteq> []" and "branch \<noteq> []"
  shows "harvest_branch rt cg clone branch e = (if ho_stat (rt_host rt) e clone \<noteq> Present then (Inr (), e)
    else case fetch_branch rt cg clone branch e of
        ((out, None), e1) \<Rightarrow> (Inr (), e1)
      | ((out, Some t), e1) \<Rightarrow> (Inl (Msg (git_failed (''harvest '' @ branch @ '' from '' @ clone) t out)), e1))"
  using assms by (auto simp: harvest_branch_def fetch_branch_def git_do_def git_ask_def andThen_eq split: prod.split option.split)

lemma remove_harvested:
  assumes "harvest_then_remove rt cg clone branch e = (q, e')" and "clone \<noteq> []" and "branch \<noteq> []" and "ok \<Longrightarrow> q = Inr ()"
  shows "harvested rt cg clone branch e ok e'"
  using assms(1,4) harvest_cases [OF assms(2,3), of rt cg e]
  by (auto simp: harvest_then_remove_def harvested_def andThen_eq split: if_splits prod.splits option.splits sum.splits)

lemma reclaim_clone_harvested:
  assumes "reclaim_clone rt cg slug e = (q, e')" and "wt_path (os_cwd (ho_os (rt_host rt))) (cg_wt cg) slug = Inr clone"
    and "clone \<noteq> []" and "ok \<Longrightarrow> q = Inr ()"
  shows "harvested rt cg clone (branch_of slug) e ok e'"
proof (cases "ho_stat (rt_host rt) e clone = Absent")
  case True
  then show ?thesis using assms(1,2) by (auto simp: reclaim_clone_def harvested_def)
next
  case False
  then have "harvest_then_remove rt cg clone (branch_of slug) e = (q, e')" using assms(1,2,3) by (simp add: reclaim_clone_def)
  then show ?thesis by (rule remove_harvested) (use assms in \<open>auto simp: branch_of_def\<close>)
qed

text \<open>What the removal of the container leaves.\<close>

definition container_gone :: "'e runtime \<Rightarrow> string \<Rightarrow> 'e \<Rightarrow> 'e" where
  "container_gone rt cid e = (if cid = [] then e else snd (rt_cli rt [''rm'', ''-f'', cid] e))"

lemma remove_container_state: "\<exists>first. remove_container rt cid e = (Inr first, container_gone rt cid e)"
  by (auto simp: remove_container_def run_container_def container_gone_def andThen_eq split: prod.split)

text \<open>C35: no clone is removed with commits that were not harvested. A teardown or a reclaim that finds the clone of a
  boundary removes it after git has fetched its branch into the canonical repository, or fails and leaves it.\<close>

theorem harvest_or_keep:
  assumes "clone \<noteq> []" and "branch \<noteq> []" and "bd_worktree b = clone" and "bd_branch b = branch"
    and "wt_path (os_cwd (ho_os (rt_host rt))) (cg_wt cg) slug = Inr clone"
  shows "harvested rt cg clone branch (container_gone rt (bd_container b) e)
      (fst (cg_teardown rt cg b e) = Inr ()) (snd (cg_teardown rt cg b e))
    \<and> harvested rt cg clone (branch_of slug) (container_gone rt (container_name slug) e)
      (fst (cg_reclaim rt cg slug e) = Inr ()) (snd (cg_reclaim rt cg slug e))"
proof
  obtain first where rm: "remove_container rt (bd_container b) e = (Inr first, container_gone rt (bd_container b) e)"
    using remove_container_state [of rt "bd_container b" e] by (elim exE)
  obtain q e' where run: "harvest_then_remove rt cg clone branch (container_gone rt (bd_container b) e) = (q, e')"
    by (cases "harvest_then_remove rt cg clone branch (container_gone rt (bd_container b) e)")
  have "snd (cg_teardown rt cg b e) = e'" and "fst (cg_teardown rt cg b e) = Inr () \<Longrightarrow> q = Inr ()"
    using rm run assms by (auto simp: cg_teardown_def first_error_def on_fail_def andThen_eq split: sum.splits option.splits)
  then show "harvested rt cg clone branch (container_gone rt (bd_container b) e)
      (fst (cg_teardown rt cg b e) = Inr ()) (snd (cg_teardown rt cg b e))"
    using remove_harvested [OF run assms(1,2)] by simp
next
  let ?e = "container_gone rt (container_name slug) e"
  obtain q e' where run: "reclaim_clone rt cg slug ?e = (q, e')" by (cases "reclaim_clone rt cg slug ?e")
  have "?e = snd (rt_cli rt [''rm'', ''-f'', container_name slug] e)" by (simp add: container_gone_def container_name_def)
  then have "snd (cg_reclaim rt cg slug e) = e'" and "fst (cg_reclaim rt cg slug e) = Inr () \<Longrightarrow> q = Inr ()"
    using run by (auto simp: cg_reclaim_def run_container_def andThen_eq split: prod.splits option.splits if_splits)
  then show "harvested rt cg clone (branch_of slug) ?e (fst (cg_reclaim rt cg slug e) = Inr ()) (snd (cg_reclaim rt cg slug e))"
    using reclaim_clone_harvested [OF run assms(5,1)] by simp
qed

end
