(* ===== verification/Despawn.thy ===== *)
theory Despawn
  imports WorktreeFacts
begin

text \<open>
  \<open>mad-trellis despawn\<close> (\<open>cmd/mad-trellis/despawn.go\<close>): the client-side removal of an abandoned boundary, its
  safety gate and its treatment of worktrees that another tool has locked; then what a refusal leaves behind.
\<close>

section \<open>Questions to git\<close>

record 'e tools =
  tl_host :: "'e host"
  tl_wt :: "string \<Rightarrow> wt_conf"
  tl_sub :: "string \<Rightarrow> 'e sub_conf"

definition newline :: char where "newline = CHR 0x0A"

definition answer :: "'e host \<Rightarrow> string \<Rightarrow> string list \<Rightarrow> (string \<Rightarrow> 'a) \<Rightarrow> 'a \<Rightarrow> ('e, 'a) eff" where
  "answer ho dir args yes no = andThen (git_ask ho dir args) (\<lambda>(out, x). ret (if x = None then yes out else no))"

definition branch_ref_tip :: "'e host \<Rightarrow> string \<Rightarrow> string \<Rightarrow> ('e, string option) eff" where
  "branch_ref_tip ho dir branch = answer ho dir [''rev-parse'', ''--verify'', ''--quiet'', ''refs/heads/'' @ branch]
     (\<lambda>out. if trim_space out = [] then None else Some (trim_space out)) None"

definition git_head :: "'e host \<Rightarrow> string \<Rightarrow> ('e, string option) eff" where
  "git_head ho dir = answer ho dir [''rev-parse'', ''HEAD''] (\<lambda>out. Some (trim_space out)) None"

text \<open>No answer when the probe fails.\<close>

definition git_dirty :: "'e host \<Rightarrow> string \<Rightarrow> ('e, bool option) eff" where
  "git_dirty ho dir = answer ho dir [''status'', ''--porcelain''] (\<lambda>out. Some (trim_space out \<noteq> [])) None"

definition commit_integrated :: "'e host \<Rightarrow> string \<Rightarrow> string \<Rightarrow> ('e, bool) eff" where
  "commit_integrated ho repo c = answer ho repo [''merge-base'', ''--is-ancestor'', c, ''HEAD''] (\<lambda>_. True) False"

definition is_safe_slug :: "string \<Rightarrow> bool" where
  "is_safe_slug s \<longleftrightarrow> s \<noteq> [] \<and> list_all (\<lambda>r. r < 128 \<and> slug_char (char_of r)) (runes s)"

definition is_linked_worktree :: "'e host \<Rightarrow> 'e \<Rightarrow> string \<Rightarrow> bool" where
  "is_linked_worktree ho e path \<longleftrightarrow>
     ho_stat ho e (join_path [path, ''.git'']) = Present \<and> \<not> ho_is_dir ho e (join_path [path, ''.git''])"

section \<open>The list of worktrees\<close>

definition same_path :: "(string \<Rightarrow> string option) \<Rightarrow> string \<Rightarrow> string \<Rightarrow> bool" where
  "same_path ev a b \<longleftrightarrow> clean a = clean b \<or> (ev a \<noteq> None \<and> ev a = ev b)"

fun lock_scan :: "(string \<Rightarrow> bool) \<Rightarrow> bool \<Rightarrow> string list \<Rightarrow> bool \<times> string" where
  "lock_scan target here [] = (False, [])"
| "lock_scan target here (raw # ls) =
     (let line = rev (dropWhile (\<lambda>c. c = CHR 0x0D) (rev raw)) in
      if has_prefix line ''worktree '' then lock_scan target (target (trim_space (trim_prefix line ''worktree ''))) ls
      else if here \<and> (line = ''locked'' \<or> has_prefix line ''locked '') then (True, trim_space (trim_prefix line ''locked''))
      else lock_scan target here ls)"

definition worktree_lock_reason :: "'e host \<Rightarrow> string \<Rightarrow> string \<Rightarrow> ('e, bool \<times> string) eff" where
  "worktree_lock_reason ho repo path e =
     (case ho_git ho repo [''worktree'', ''list'', ''--porcelain''] e of
        ((out, x), e') \<Rightarrow> (Inr (if x = None
          then lock_scan (\<lambda>p. same_path (os_eval (ho_os ho) e') p path) False (split_on newline out) else (False, [])), e'))"

fun first_worktree :: "string list \<Rightarrow> string option" where
  "first_worktree [] = None"
| "first_worktree (line # ls) =
     (if has_prefix line ''worktree '' then Some (trim_space (trim_prefix line ''worktree '')) else first_worktree ls)"

definition repo_toplevel :: "'e host \<Rightarrow> ('e, string) eff" where
  "repo_toplevel ho =
     (case os_cwd (ho_os ho) of
        None \<Rightarrow> failing (Msg ''getwd'')
      | Some wd \<Rightarrow>
          andThen (answer ho wd [''worktree'', ''list'', ''--porcelain''] (\<lambda>out. first_worktree (split_on newline out)) None) (\<lambda>found.
            case found of
              Some dir \<Rightarrow> ret dir
            | None \<Rightarrow> answer ho wd [''rev-parse'', ''--show-toplevel'']
                (\<lambda>out. if trim_space out = [] then wd else trim_space out) wd))"

section \<open>The safety gate\<close>

definition unclean :: "string \<Rightarrow> err" where
  "unclean path = Fmt ''%s has uncommitted changes (or is unprobeable)'' [path]"

definition unintegrated :: "string \<Rightarrow> err" where
  "unintegrated branch = Fmt ''branch %s has commits not integrated into the current trunk'' [branch]"

definition clean_gate :: "'e host \<Rightarrow> string \<Rightarrow> bool \<Rightarrow> ('e, unit) eff" where
  "clean_gate ho path on_disk =
     (if \<not> on_disk then ret ()
      else andThen (git_dirty ho path) (\<lambda>d. if d = Some False then ret () else failing (unclean path)))"

text \<open>The tip to check: the canonical branch's, else the clone's own branch, else the clone's HEAD.\<close>

definition work_tip :: "'e host \<Rightarrow> string \<Rightarrow> string \<Rightarrow> bool \<Rightarrow> string option \<Rightarrow> ('e, string option) eff" where
  "work_tip ho path branch on_disk canon =
     (if canon \<noteq> None \<or> \<not> on_disk then ret canon
      else andThen (branch_ref_tip ho path branch) (\<lambda>t. if t \<noteq> None then ret t else git_head ho path))"

definition despawn_gate :: "'e host \<Rightarrow> string \<Rightarrow> string \<Rightarrow> string \<Rightarrow> bool \<Rightarrow> string option \<Rightarrow> ('e, unit) eff" where
  "despawn_gate ho repo path branch on_disk canon =
     andThen (clean_gate ho path on_disk) (\<lambda>_.
     andThen (work_tip ho path branch on_disk canon) (\<lambda>t. case t of
       None \<Rightarrow> ret ()
     | Some c \<Rightarrow> andThen (commit_integrated ho repo c) (\<lambda>ok. if ok then ret () else failing (unintegrated branch))))"

section \<open>Removal\<close>

definition locked_worktree :: "string \<Rightarrow> string \<Rightarrow> err" where
  "locked_worktree path reason = Fmt ''worktree %s is LOCKED by a foreign tool (lock reason: %s)''
     [path, if trim_space reason = [] then ''no reason recorded'' else trim_space reason]"

text \<open>The value tells whether a lock was broken.\<close>

definition remove_linked_worktree :: "'e host \<Rightarrow> string \<Rightarrow> string \<Rightarrow> bool \<Rightarrow> ('e, bool) eff" where
  "remove_linked_worktree ho repo path force_unlock =
     andThen (worktree_lock_reason ho repo path) (\<lambda>(locked, reason).
       if locked then
         (if \<not> force_unlock then failing (locked_worktree path reason)
          else andThen (git_ask ho repo [''worktree'', ''unlock'', ''--'', path]) (\<lambda>_.
               andThen (git_do ho repo [''worktree'', ''remove'', ''--force'', ''--force'', ''--'', path]
                 (''force-unlock+remove worktree '' @ path)) (\<lambda>_. ret True)))
       else andThen (wt_remove ho repo path) (\<lambda>_. ret False))"

definition remove_tree :: "'e host \<Rightarrow> string \<Rightarrow> string \<Rightarrow> bool \<Rightarrow> bool \<Rightarrow> ('e, string list) eff" where
  "remove_tree ho repo path on_disk force_unlock e =
     (if \<not> on_disk then (Inr [], e)
      else if is_linked_worktree ho e path then
        andThen (remove_linked_worktree ho repo path force_unlock) (\<lambda>forced.
          ret [if forced then ''worktree '' @ path @ '' (force-unlocked)'' else ''worktree '' @ path]) e
      else case os_remove (ho_os ho) path e of
          (Inl x, e') \<Rightarrow> (Inl (Wrapped (''remove clone '' @ path) x), e')
        | (Inr _, e') \<Rightarrow> (Inr [''worktree '' @ path], e'))"

definition remove_branch :: "'e host \<Rightarrow> string \<Rightarrow> string \<Rightarrow> bool \<Rightarrow> string option \<Rightarrow> ('e, string list) eff" where
  "remove_branch ho repo branch force canon =
     (if canon = None then ret []
      else andThen (git_ask ho repo [''branch'', if force then ''-D'' else ''-d'', branch]) (\<lambda>(out, x). case x of
          None \<Rightarrow> ret [''branch '' @ branch]
        | Some t \<Rightarrow> if force then ret []
            else failing (Fmt ''git refused to delete branch %s (likely unmerged): %v'' [branch, t])))"

definition remove_state_dir :: "'e host \<Rightarrow> string \<Rightarrow> ('e, string list) eff" where
  "remove_state_dir ho sr e =
     (if sr = [] \<or> ho_stat ho e sr \<noteq> Present then (Inr [], e)
      else case os_remove (ho_os ho) sr e of
          (Inl _, e') \<Rightarrow> (Inr [], e')
        | (Inr _, e') \<Rightarrow> (Inr [''state '' @ sr], e'))"

definition remove_boundary :: "'e tools \<Rightarrow> string \<Rightarrow> string \<Rightarrow> string \<Rightarrow> bool \<Rightarrow> bool \<Rightarrow> bool \<Rightarrow> string option \<Rightarrow> ('e, string list) eff" where
  "remove_boundary tt repo path slug on_disk force force_unlock canon =
     (let ho = tl_host tt in
      andThen (remove_tree ho repo path on_disk force_unlock) (\<lambda>a.
      andThen (git_ask ho repo [''worktree'', ''prune'']) (\<lambda>_.
      andThen (remove_branch ho repo (branch_of slug) force canon) (\<lambda>b.
      andThen (remove_state_dir ho (guarded_state_root (tl_sub tt repo) slug)) (\<lambda>c.
      ret (a @ b @ c))))))"

text \<open>The command: what it removed, or why it refused.\<close>

definition despawn_at :: "'e tools \<Rightarrow> string \<Rightarrow> string \<Rightarrow> string \<Rightarrow> bool \<Rightarrow> bool \<Rightarrow> ('e, string list) eff" where
  "despawn_at tt repo path slug force force_unlock e =
     (let ho = tl_host tt; on_disk = (ho_stat ho e path = Present) in
      andThen (branch_ref_tip ho repo (branch_of slug)) (\<lambda>canon.
      andThen (if force then ret () else despawn_gate ho repo path (branch_of slug) on_disk canon) (\<lambda>_.
      remove_boundary tt repo path slug on_disk force force_unlock canon)) e)"

definition despawn :: "'e tools \<Rightarrow> bool \<Rightarrow> bool \<Rightarrow> string \<Rightarrow> ('e, string list) eff" where
  "despawn tt force force_unlock arg =
     (let slug = trim_prefix (trim_space arg) ''nm/''; ho = tl_host tt in
      if \<not> is_safe_slug slug then failing (Fmt ''invalid boundary id %q (expect a spawn branch nm/<slug> or its <slug>)'' [arg])
      else andThen (repo_toplevel ho) (\<lambda>repo.
        case wt_path (os_cwd (ho_os ho)) (tl_wt tt repo) slug of
          Inl x \<Rightarrow> failing (Wrapped (''cannot derive the boundary path for '' @ slug) x)
        | Inr path \<Rightarrow> despawn_at tt repo path slug force force_unlock))"

section \<open>What a refusal leaves\<close>

text \<open>The questions do not change the repository.\<close>

definition reads_only :: "'e host \<Rightarrow> bool" where
  "reads_only ho \<longleftrightarrow> (\<forall>dir args e. hd args \<in> {''rev-parse'', ''status'', ''merge-base''} \<or> take 2 args = [''worktree'', ''list'']
     \<longrightarrow> snd (ho_git ho dir args e) = e)"

lemma answer_keeps:
  assumes "reads_only ho" and "hd args \<in> {''rev-parse'', ''status'', ''merge-base''} \<or> take 2 args = [''worktree'', ''list'']"
  shows "answer ho dir args yes no e = (Inr (if snd (fst (ho_git ho dir args e)) = None then yes (fst (fst (ho_git ho dir args e))) else no), e)"
proof -
  have "snd (ho_git ho dir args e) = e" using assms unfolding reads_only_def by blast
  then show ?thesis by (auto simp: answer_def git_ask_def andThen_eq split: prod.split)
qed

definition query :: "'e host \<Rightarrow> 'e \<Rightarrow> string \<Rightarrow> string list \<Rightarrow> string option" where
  "query ho e dir args = (case fst (ho_git ho dir args e) of (out, None) \<Rightarrow> Some out | _ \<Rightarrow> None)"

lemma answer_reads:
  assumes "reads_only ho" and "hd args \<in> {''rev-parse'', ''status'', ''merge-base''} \<or> take 2 args = [''worktree'', ''list'']"
  shows "answer ho dir args yes no e = (Inr (case query ho e dir args of Some out \<Rightarrow> yes out | None \<Rightarrow> no), e)"
  using answer_keeps [OF assms, of dir yes no e] by (auto simp: query_def split: prod.split option.split)

text \<open>What must hold before anything is removed, read off the repository as it is.\<close>

definition tip_of :: "'e host \<Rightarrow> 'e \<Rightarrow> string \<Rightarrow> string \<Rightarrow> string option" where
  "tip_of ho e dir branch = (case query ho e dir [''rev-parse'', ''--verify'', ''--quiet'', ''refs/heads/'' @ branch] of
     None \<Rightarrow> None | Some out \<Rightarrow> if trim_space out = [] then None else Some (trim_space out))"

definition checked_tip :: "'e host \<Rightarrow> 'e \<Rightarrow> string \<Rightarrow> string \<Rightarrow> string \<Rightarrow> bool \<Rightarrow> string option" where
  "checked_tip ho e repo path branch on_disk =
     (if tip_of ho e repo branch \<noteq> None \<or> \<not> on_disk then tip_of ho e repo branch
      else if tip_of ho e path branch \<noteq> None then tip_of ho e path branch
      else map_option trim_space (query ho e path [''rev-parse'', ''HEAD'']))"

definition safe_to_remove :: "'e host \<Rightarrow> 'e \<Rightarrow> string \<Rightarrow> string \<Rightarrow> string \<Rightarrow> bool" where
  "safe_to_remove ho e repo path branch \<longleftrightarrow>
     (let on_disk = (ho_stat ho e path = Present) in
      (on_disk \<longrightarrow> map_option trim_space (query ho e path [''status'', ''--porcelain'']) = Some [])
      \<and> (case checked_tip ho e repo path branch on_disk of
           None \<Rightarrow> True | Some c \<Rightarrow> query ho e repo [''merge-base'', ''--is-ancestor'', c, ''HEAD''] \<noteq> None))"

lemma tip_reads: "reads_only ho \<Longrightarrow> branch_ref_tip ho dir branch e = (Inr (tip_of ho e dir branch), e)"
  by (simp add: branch_ref_tip_def tip_of_def answer_reads)

lemma work_tip_reads:
  "reads_only ho \<Longrightarrow> work_tip ho path branch on_disk (tip_of ho e repo branch) e
     = (Inr (checked_tip ho e repo path branch on_disk), e)"
  by (auto simp: work_tip_def checked_tip_def tip_reads git_head_def answer_reads andThen_eq split: option.split)

lemma gate_reads:
  assumes "reads_only ho"
  shows "\<exists>x. despawn_gate ho repo path branch (ho_stat ho e path = Present) (tip_of ho e repo branch) e
     = (if safe_to_remove ho e repo path branch then Inr () else Inl x, e)"
proof -
  have "\<exists>x. clean_gate ho path (ho_stat ho e path = Present) e = (if ho_stat ho e path = Present
      \<longrightarrow> map_option trim_space (query ho e path [''status'', ''--porcelain'']) = Some [] then Inr () else Inl x, e)"
    using assms by (auto simp: clean_gate_def git_dirty_def answer_reads andThen_eq split: option.split)
  then show ?thesis
    using assms
    by (auto simp: despawn_gate_def safe_to_remove_def Let_def andThen_eq work_tip_reads commit_integrated_def answer_reads
        split: option.split)
qed

lemma toplevel_reads: "reads_only ho \<Longrightarrow> snd (repo_toplevel ho e) = e"
  by (auto simp: repo_toplevel_def andThen_eq answer_reads split: option.split)

text \<open>C32: despawn never discards work silently. If a run without \<open>--force\<close> changed anything, then the boundary
  was clean, and the tip that the gate looks at was an ancestor of the trunk's HEAD.\<close>

theorem despawn_safe:
  assumes "reads_only (tl_host tt)" and "despawn tt False fu arg e = (r, e')" and "e' \<noteq> e"
  shows "\<exists>repo path. fst (repo_toplevel (tl_host tt) e) = Inr repo
    \<and> wt_path (os_cwd (ho_os (tl_host tt))) (tl_wt tt repo) (trim_prefix (trim_space arg) ''nm/'') = Inr path
    \<and> safe_to_remove (tl_host tt) e repo path (branch_of (trim_prefix (trim_space arg) ''nm/''))"
proof -
  define slug where "slug = trim_prefix (trim_space arg) ''nm/''"
  note top = toplevel_reads [OF assms(1), of e]
  from assms(2,3) obtain repo where repo: "fst (repo_toplevel (tl_host tt) e) = Inr repo"
    using top by (auto simp: despawn_def Let_def andThen_eq split: if_splits sum.splits)
  from assms(2,3) obtain path where path: "wt_path (os_cwd (ho_os (tl_host tt))) (tl_wt tt repo) slug = Inr path"
    using top repo by (auto simp: despawn_def slug_def Let_def andThen_eq split: if_splits sum.splits)
  have run: "despawn_at tt repo path slug False fu e = (r, e')"
    using assms(2,3) top repo path by (auto simp: despawn_def slug_def Let_def andThen_eq split: if_splits)
  have "safe_to_remove (tl_host tt) e repo path (branch_of slug)"
  proof (rule ccontr)
    assume "\<not> safe_to_remove (tl_host tt) e repo path (branch_of slug)"
    then have "snd (despawn_at tt repo path slug False fu e) = e"
      using gate_reads [OF assms(1), of repo path "branch_of slug" e] tip_reads [OF assms(1)]
      by (auto simp: despawn_at_def Let_def andThen_eq)
    then show False using run assms(3) by simp
  qed
  with repo path show ?thesis by (auto simp: slug_def)
qed


end
