(* ===== verification/SubstrateScenarios.thy ===== *)
theory SubstrateScenarios
  imports Despawn
begin

text \<open>
  Small runs of the substrate over a toy disk: instances of the theorems, and interleavings that the code
  does not guard against.
\<close>

section \<open>A toy disk\<close>

record disk =
  dk_paths :: "string list"
  dk_ports :: nat

definition add_path :: "string \<Rightarrow> disk \<Rightarrow> disk" where
  "add_path p d = d\<lparr>dk_paths := p # dk_paths d\<rparr>"

definition drop_path :: "string \<Rightarrow> disk \<Rightarrow> disk" where
  "drop_path p d = d\<lparr>dk_paths := filter (\<lambda>q. q \<noteq> p \<and> \<not> has_prefix q (p @ ''/'')) (dk_paths d)\<rparr>"

definition toy_mkdir :: "string \<Rightarrow> (disk, unit) eff" where "toy_mkdir p d = (Inr (), add_path p d)"

definition toy_remove :: "string \<Rightarrow> (disk, unit) eff" where "toy_remove p d = (Inr (), drop_path p d)"

definition toy_listen :: "int list \<Rightarrow> (disk, int) eff" where
  "toy_listen probes d = (if length probes < dk_ports d then Inr (7 + int (length probes)) else Inl (DbErr ''too many open files''), d)"

definition toy_eval :: "disk \<Rightarrow> string \<Rightarrow> string option" where "toy_eval d p = None"

definition toy_os :: "disk os" where
  "toy_os = \<lparr>os_mkdir = toy_mkdir, os_remove = toy_remove, os_listen = toy_listen, os_eval = toy_eval, os_cwd = Some ''/''\<rparr>"

definition toy_sha :: "string \<Rightarrow> string" where "toy_sha s = ''h''"

definition toy_git :: "string \<Rightarrow> string list \<Rightarrow> disk \<Rightarrow> (string \<times> string option) \<times> disk" where
  "toy_git dir args d =
     (if take 2 args = [''worktree'', ''add''] then
        (if args ! 4 \<in> set (dk_paths d) then ((''already exists'', Some ''exit status 128''), d) else (([], None), add_path (args ! 4) d))
      else if take 2 args = [''worktree'', ''remove''] then
        (if args ! 3 \<in> set (dk_paths d) then (([], None), drop_path (args ! 3) d) else ((''is not a working tree'', Some ''exit status 128''), d))
      else (([], Some ''exit status 1''), d))"

definition toy_stat :: "disk \<Rightarrow> string \<Rightarrow> stat" where
  "toy_stat d p = (if p \<in> set (dk_paths d) then Present else Absent)"

definition toy_dir :: "disk \<Rightarrow> string \<Rightarrow> bool" where "toy_dir d p = False"

definition toy_host :: "disk host" where
  "toy_host = \<lparr>ho_git = toy_git, ho_stat = toy_stat, ho_is_dir = toy_dir, ho_os = toy_os\<rparr>"

definition toy_wt :: wt_conf where
  "toy_wt = \<lparr>wt_repo = ''/r'', wt_env = ''/w'', wt_home = [], wt_canonical = ''/r'', wt_sha = toy_sha\<rparr>"

definition toy_conf :: "disk grain \<Rightarrow> disk sub_conf" where
  "toy_conf g = \<lparr>sc_repo = ''/r'', sc_cls = default_manifest, sc_grain = g, sc_os = toy_os, sc_default_ports = 1,
     sc_sha = toy_sha, sc_state_env = ''/s'', sc_home = [], sc_canonical = ''/r''\<rparr>"

definition tree_conf :: "disk sub_conf" where "tree_conf = toy_conf (worktree_grain toy_host toy_wt)"

text \<open>A grain that clears a stale boundary before it makes its own.\<close>

definition fresh_provision :: "string \<Rightarrow> disk \<Rightarrow> (boundary \<times> err option) \<times> disk" where
  "fresh_provision slug d = ((no_boundary\<lparr>bd_cwd := ''/w/'' @ slug\<rparr>, None), add_path (''/w/'' @ slug) (drop_path (''/w/'' @ slug) d))"

definition fresh_teardown :: "boundary \<Rightarrow> (disk, unit) eff" where
  "fresh_teardown b d = (Inr (), drop_path (bd_cwd b) d)"

definition fresh_grain :: "disk grain" where
  "fresh_grain = \<lparr>gr_name = ''fresh'', gr_provision = fresh_provision, gr_teardown = fresh_teardown, gr_reclaim = \<lambda>slug. ret ()\<rparr>"

section \<open>Runs\<close>

datatype move = Call phase | Go nat

fun settle :: "nat \<Rightarrow> phase list \<Rightarrow> phase \<times> 'e sub \<Rightarrow> phase list \<times> 'e sub" where
  "settle i ops (p, s) = (ops[i := p], s)"

fun play :: "'e sub_conf \<Rightarrow> move list \<Rightarrow> phase list \<times> 'e sub \<Rightarrow> phase list \<times> 'e sub" where
  "play cf [] c = c"
| "play cf (Call p # mvs) c = play cf mvs (fst c @ [p], snd c)"
| "play cf (Go i # mvs) c = play cf mvs (settle i (fst c) (op_step cf (fst c ! i) (snd c)))"

fun fair :: "nat \<Rightarrow> move list \<Rightarrow> bool" where
  "fair n [] = True"
| "fair n (Call (Provisioning session q) # mvs) = fair (Suc n) mvs"
| "fair n (Call (Tearing session) # mvs) = fair (Suc n) mvs"
| "fair n (Call p # mvs) = False"
| "fair n (Go i # mvs) = (i < n \<and> fair n mvs)"

lemma play_reaches: "fair (length (fst c)) mvs \<Longrightarrow> sub_reaches cf c (play cf mvs c)"
proof (induction "length (fst c)" mvs arbitrary: c rule: fair.induct)
  case 1
  then show ?case by (simp add: sub_reaches_def)
next
  case (2 session q mvs)
  have "sub_step cf c (fst c @ [Provisioning session q], snd c)" using sub_step.provision [of cf "fst c" "snd c"] by simp
  moreover have "sub_reaches cf (fst c @ [Provisioning session q], snd c) (play cf mvs (fst c @ [Provisioning session q], snd c))"
    using 2 by simp
  ultimately show ?case by (simp add: sub_reaches_def converse_rtranclp_into_rtranclp)
next
  case (3 session mvs)
  have "sub_step cf c (fst c @ [Tearing session], snd c)" using sub_step.teardown [of cf "fst c" "snd c"] by simp
  moreover have "sub_reaches cf (fst c @ [Tearing session], snd c) (play cf mvs (fst c @ [Tearing session], snd c))"
    using 3 by simp
  ultimately show ?case by (simp add: sub_reaches_def converse_rtranclp_into_rtranclp)
next
  case (5 i mvs)
  obtain p s where p: "op_step cf (fst c ! i) (snd c) = (p, s)" by (cases "op_step cf (fst c ! i) (snd c)")
  have "sub_step cf c ((fst c)[i := p], s)" using sub_step.advance [of i "fst c" cf "snd c" p s] p 5 by simp
  moreover have "sub_reaches cf ((fst c)[i := p], s) (play cf mvs ((fst c)[i := p], s))" using 5 by simp
  ultimately show ?case using p by (simp add: sub_reaches_def converse_rtranclp_into_rtranclp)
qed simp_all

definition plain_req :: prov_req where "plain_req = \<lparr>pq_ports = 0, pq_resources = []\<rparr>"

definition start :: "nat \<Rightarrow> phase list \<times> disk sub" where
  "start n = ([], fresh_sub \<lparr>dk_paths = [], dk_ports = n\<rparr>)"

definition build_moves :: "nat \<Rightarrow> string \<Rightarrow> prov_req \<Rightarrow> move list" where
  "build_moves i session q = Call (Provisioning session q) # replicate (9 + length (pq_resources q)) (Go i)"

text \<open>Two boundaries, made one after the other.\<close>

definition two_agents :: "phase list \<times> disk sub" where
  "two_agents = play tree_conf (build_moves 0 ''a'' plain_req @ build_moves 1 ''b'' plain_req) (start 9)"

definition live_of :: "string \<Rightarrow> phase list \<times> disk sub \<Rightarrow> env_spec option" where
  "live_of h c = sb_live (snd c) h"

lemma two_agents_reached: "sub_reaches tree_conf ([], fresh_sub \<lparr>dk_paths = [], dk_ports = 9\<rparr>) two_agents"
proof -
  have "sub_reaches tree_conf (start 9) two_agents"
    unfolding two_agents_def by (rule play_reaches) (simp add: start_def build_moves_def plain_req_def numeral_eq_Suc)
  then show ?thesis by (simp add: start_def)
qed

lemma two_agents_now: "sub_reaches tree_conf ([], fresh_sub \<lparr>dk_paths = [], dk_ports = 9\<rparr>) (fst two_agents, snd two_agents)"
  using two_agents_reached by simp

lemma toy_absolute: "absolute_os (sc_os (toy_conf g))"
  by (simp add: absolute_os_def toy_conf_def toy_os_def toy_eval_def rooted_def)

lemma two_agents_ports:
  "map_option es_ports (live_of ''a'' two_agents) = Some [7]" "map_option es_ports (live_of ''b'' two_agents) = Some [8]"
  by code_simp+

lemma two_agents_dirs:
  "map_option es_dirs (live_of ''a'' two_agents) = Some [(''scratch'', ''/s/68/a/scratch''), (''cache'', ''/s/68/a/cache''), (''state'', ''/s/68/a/state'')]"
  "map_option es_dirs (live_of ''b'' two_agents) = Some [(''scratch'', ''/s/68/b/scratch''), (''cache'', ''/s/68/b/cache''), (''state'', ''/s/68/b/state'')]"
  by code_simp+

text \<open>Both agents are live, each with a port of its own.\<close>

theorem boundaries_apart_witness:
  "\<exists>sp sp'. live_of ''a'' two_agents = Some sp \<and> live_of ''b'' two_agents = Some sp'
     \<and> set (es_ports sp) \<inter> set (es_ports sp') = {} \<and> es_ports sp = [7]"
proof -
  obtain sp sp' where sp: "live_of ''a'' two_agents = Some sp" "live_of ''b'' two_agents = Some sp'" "es_ports sp = [7]"
    using two_agents_ports by auto
  have "set (es_ports sp) \<inter> set (es_ports sp') = {}"
    using conjunct1 [OF conjunct2 [OF boundaries_apart [OF two_agents_now]], rule_format, of "''a''" sp "''b''" sp'] sp
    by (simp add: live_of_def)
  with sp show ?thesis by blast
qed


theorem state_dirs_apart_witness: "\<not> prefix (comps ''/s/68/a/scratch'') (comps ''/s/68/b/scratch'')"
proof -
  obtain sp sp' where sp: "live_of ''a'' two_agents = Some sp" "live_of ''b'' two_agents = Some sp'"
    "(''scratch'', ''/s/68/a/scratch'') \<in> set (es_dirs sp)" "(''scratch'', ''/s/68/b/scratch'') \<in> set (es_dirs sp')"
    using two_agents_dirs by auto
  have "comps ''/s/68/a/scratch'' = comps (state_base tree_conf) @ [''a'', ''scratch''] \<and> \<not> prefix (comps ''/s/68/a/scratch'') (comps ''/s/68/b/scratch'')"
  proof (rule state_dirs_apart [OF _ _ two_agents_now])
    show "rooted (state_base tree_conf)" by code_simp
    show "absolute_os (sc_os tree_conf)" by (simp add: tree_conf_def toy_absolute)
    show "sb_live (snd two_agents) ''a'' = Some sp" "sb_live (snd two_agents) ''b'' = Some sp'"
      using sp by (simp_all add: live_of_def)
    show "(''scratch'', ''/s/68/a/scratch'') \<in> set (es_dirs sp)" "(''scratch'', ''/s/68/b/scratch'') \<in> set (es_dirs sp')"
      by (fact sp)+
  qed simp
  then show ?thesis by blast
qed


definition empty_disk :: disk where "empty_disk = \<lparr>dk_paths = [], dk_ports = 9\<rparr>"

lemma toy_created:
  "wt_create toy_host toy_wt ''a'' empty_disk = (Inr (worktree_at toy_wt ''a''), snd (wt_create toy_host toy_wt ''a'' empty_disk))"
  "wt_create toy_host toy_wt ''b'' empty_disk = (Inr (worktree_at toy_wt ''b''), snd (wt_create toy_host toy_wt ''b'' empty_disk))"
  by (rule prod_eqI, code_simp, simp)+

theorem worktree_found_again_witness:
  "wt_path (Some ''/'') toy_wt ''a'' = Inr ''/w/68/a'' \<and> wk_path (worktree_at toy_wt ''a'') \<noteq> wk_path (worktree_at toy_wt ''b'')"
proof -
  have base: "rooted (worktree_base toy_wt)" by code_simp
  have path: "wk_path (worktree_at toy_wt ''a'') = ''/w/68/a''" by code_simp
  show ?thesis
    using worktree_found_again [OF base toy_created] path
    by (auto simp: toy_host_def toy_os_def)
qed

section \<open>What the substrate does not guard against\<close>

text \<open>A client names the number of ports: one that no slice can hold ends the call, and the daemon, in a panic.\<close>

theorem huge_port_count_panics:
  "fst (advance_n tree_conf 7 (Provisioning ''a'' (plain_req\<lparr>pq_ports := 2 ^ 62\<rparr>), snd (start 9))) = Panicked"
  by code_simp

fun cwd_of :: "env_spec option \<Rightarrow> string option" where
  "cwd_of None = None"
| "cwd_of (Some sp) = Some (bd_cwd (es_boundary sp))"

text \<open>The steps each call has left, where the live boundary of \<open>a\<close> is, and what is on the disk.\<close>

fun summary :: "phase list \<times> disk sub \<Rightarrow> nat list \<times> string option \<times> string list" where
  "summary (ops, s) = (map steps_left ops, cwd_of (sb_live s ''a''), dk_paths (sb_env s))"

text \<open>
  A failed allocation keeps what it has reserved: the rollback is not told these ports. Afterwards nothing
  is live, no call is under way, and the next agent finds no port.
\<close>

definition greedy :: "phase list \<times> disk sub" where
  "greedy = play tree_conf (Call (Provisioning ''a'' (plain_req\<lparr>pq_ports := 3\<rparr>)) # replicate 9 (Go 0)
     @ build_moves 1 ''b'' plain_req) (start 2)"

theorem failed_allocation_keeps_ports:
  "summary greedy = ([0, 0], None, [''/w/68'', ''/w/68''])" "live_of ''b'' greedy = None"
  "7 \<in> sb_reserved (snd greedy) \<and> 8 \<in> sb_reserved (snd greedy)"
  by code_simp+

text \<open>
  The rollback gives the slug back before it has removed the state and the boundary. A provision of the same slug that
  starts in between completes, and the rollback then removes what it has made.
\<close>

definition overtaken :: "phase list \<times> disk sub" where
  "overtaken = play (toy_conf fresh_grain)
     (Call (Provisioning ''a'' (plain_req\<lparr>pq_resources := [\<lparr>rr_name = [], rr_domain = [], rr_ref = []\<rparr>]\<rparr>)) # replicate 10 (Go 0)
      @ build_moves 1 ''a'' plain_req @ replicate 3 (Go 0)) (start 9)"

theorem rollback_removes_successor:
  "summary overtaken = ([0, 0], Some ''/w/a'', [])"
  by code_simp

text \<open>
  A teardown that finds nothing live does not take the slug before it reclaims an orphan. A provision that
  completes in between loses its worktree and its state.
\<close>

definition swept :: "phase list \<times> disk sub" where
  "swept = play tree_conf (Call (Tearing ''a'') # Go 0 # build_moves 1 ''a'' plain_req @ [Go 0, Go 0]) (start 9)"

theorem orphan_sweep_removes_live:
  "summary swept = ([0, 0], Some ''/w/68/a'', [''/w/68''])"
  by code_simp

text \<open>A session without a safe slug stands, in a teardown, for the base of every agent's state.\<close>

definition wiped :: "phase list \<times> disk sub" where
  "wiped = play tree_conf (build_moves 0 ''a'' plain_req @ Call (Tearing ''__'') # replicate 3 (Go 1)) (start 9)"

theorem empty_slug_removes_state_base:
  "summary wiped = ([0, 0], Some ''/w/68/a'', [''/w/68/a'', ''/w/68''])"
  by code_simp

text \<open>A reclaim without a git to run takes the failure for an absent worktree.\<close>

definition no_git :: "string \<Rightarrow> string list \<Rightarrow> disk \<Rightarrow> (string \<times> string option) \<times> disk" where
  "no_git dir args d = (([], Some ''exec: git: executable file not found in $PATH''), d)"

theorem reclaim_without_git:
  "wt_grain_reclaim (toy_host\<lparr>ho_git := no_git\<rparr>) toy_wt ''a'' \<lparr>dk_paths = [''/w/68/a''], dk_ports = 9\<rparr>
     = (Inr (), \<lparr>dk_paths = [''/w/68/a''], dk_ports = 9\<rparr>)"
  by code_simp

section \<open>Despawning\<close>

definition clone_answer :: "string \<Rightarrow> string list \<Rightarrow> string \<times> string option" where
  "clone_answer dir args =
     (if take 2 args = [''worktree'', ''list''] then (''worktree /r'', None)
      else if take 1 args = [''rev-parse''] then (if dir = ''/r'' then ''c1'' else ''c2'', None)
      else if take 1 args = [''merge-base''] then ([], if args ! 2 = ''c1'' then None else Some ''exit status 1'')
      else ([], None))"

definition clone_git :: "string \<Rightarrow> string list \<Rightarrow> disk \<Rightarrow> (string \<times> string option) \<times> disk" where
  "clone_git dir args d = (clone_answer dir args, d)"

definition wt_at :: "string \<Rightarrow> wt_conf" where "wt_at repo = toy_wt\<lparr>wt_repo := repo\<rparr>"

definition sub_at :: "string \<Rightarrow> disk sub_conf" where "sub_at repo = tree_conf\<lparr>sc_repo := repo\<rparr>"

definition clone_tools :: "disk tools" where
  "clone_tools = \<lparr>tl_host = toy_host\<lparr>ho_git := clone_git\<rparr>, tl_wt = wt_at, tl_sub = sub_at\<rparr>"

definition clone_disk :: disk where "clone_disk = \<lparr>dk_paths = [''/w/68/a''], dk_ports = 0\<rparr>"

definition despawned :: "(err + string list) \<times> disk" where "despawned = despawn clone_tools False False ''nm/a'' clone_disk"

lemma clone_reads: "reads_only (tl_host clone_tools)"
  by (simp add: reads_only_def clone_tools_def clone_git_def)

lemma despawned_result: "fst despawned = Inr [''worktree /w/68/a'', ''branch nm/a'']" "dk_paths (snd despawned) = []"
  by code_simp+

theorem despawn_safe_witness:
  "\<exists>repo path. safe_to_remove (tl_host clone_tools) clone_disk repo path (branch_of ''a'')"
proof -
  have run: "despawn clone_tools False False ''nm/a'' clone_disk = (fst despawned, snd despawned)" by (simp add: despawned_def)
  have slug: "trim_prefix (trim_space ''nm/a'') ''nm/'' = ''a''" by code_simp
  have "snd despawned \<noteq> clone_disk" using despawned_result(2) by (auto simp: clone_disk_def)
  from despawn_safe [OF clone_reads run this] show ?thesis unfolding slug by blast
qed

text \<open>
  The gate asks the canonical branch only, if there is one. Once \<open>integrate --from\<close> has fetched the clone's
  branch, later commits of the clone are not looked at: they are not in the trunk, and the clone is removed all the same.
\<close>

theorem clone_commits_discarded:
  "tip_of (tl_host clone_tools) clone_disk ''/w/68/a'' ''nm/a'' = Some ''c2''"
  "query (tl_host clone_tools) clone_disk ''/r'' [''merge-base'', ''--is-ancestor'', ''c2'', ''HEAD''] = None"
  "fst despawned = Inr [''worktree /w/68/a'', ''branch nm/a'']" "dk_paths (snd despawned) = []"
  by (code_simp, code_simp, fact despawned_result(1), fact despawned_result(2))

definition locked_answer :: "string \<Rightarrow> string list \<Rightarrow> disk \<Rightarrow> (string \<times> string option) \<times> disk" where
  "locked_answer dir args d =
     ((if take 2 args = [''worktree'', ''list'']
       then ''worktree /r'' @ [newline] @ ''worktree /w/68/a'' @ [newline] @ ''locked owner'' else [], None), d)"

definition locked_tools :: "disk tools" where
  "locked_tools = \<lparr>tl_host = toy_host\<lparr>ho_git := locked_answer\<rparr>, tl_wt = wt_at, tl_sub = sub_at\<rparr>"

definition locked_disk :: disk where "locked_disk = \<lparr>dk_paths = [''/w/68/a'', ''/w/68/a/.git''], dk_ports = 0\<rparr>"


end
