(* ===== verification/ContainerScenarios.thy ===== *)
theory ContainerScenarios
  imports ContainerFacts SubstrateScenarios
begin

text \<open>Small runs of the container grain over the toy disk of \<open>SubstrateScenarios\<close>.\<close>

section \<open>A toy runtime\<close>

text \<open>This git refuses to fetch into a branch, as it does when the canonical repository has it checked out.\<close>

definition refusing_git :: "string \<Rightarrow> string list \<Rightarrow> disk \<Rightarrow> (string \<times> string option) \<times> disk" where
  "refusing_git dir args d =
     (if take 1 args = [''fetch''] then ((''refusing to fetch into branch'', Some ''exit status 128''), d)
      else if take 1 args = [''clone''] then (([], None), add_path (last args) d)
      else (([], None), d))"

definition toy_cli :: "string list \<Rightarrow> disk \<Rightarrow> (string \<times> string option) \<times> disk" where
  "toy_cli args d = ((if args = [''system'', ''status''] then ''running'' else if args = [''ls''] then ''nm-a'' else [], None), d)"

definition toy_temp :: "(disk, string) eff" where "toy_temp = ret ''/t/c''"
definition toy_unlink :: "string \<Rightarrow> (disk, unit) eff" where "toy_unlink p = ret ()"
definition toy_read :: "disk \<Rightarrow> string \<Rightarrow> string option" where "toy_read d p = (if p = ''/t/c'' then Some ''c1'' else None)"
definition toy_write :: "string \<Rightarrow> string \<Rightarrow> (disk, unit) eff" where "toy_write p c d = (Inr (), add_path p d)"
definition toy_keychain :: "disk \<Rightarrow> string option" where "toy_keychain d = Some ''token''"
definition toy_json :: "string \<Rightarrow> json option" where "toy_json s = Some (JObj [(''claudeAiOauth'', JNull)])"
definition toy_compact :: "string \<Rightarrow> string" where "toy_compact s = s"

definition toy_runtime :: "disk runtime" where
  "toy_runtime = \<lparr>rt_host = toy_host\<lparr>ho_git := refusing_git\<rparr>, rt_cli = toy_cli, rt_temp = toy_temp, rt_unlink = toy_unlink,
     rt_read = toy_read, rt_write = toy_write, rt_keychain = toy_keychain, rt_json = toy_json, rt_compact = toy_compact,
     rt_home = ''/h'', rt_arch = ''arm64''\<rparr>"

definition toy_state :: "string \<Rightarrow> string" where "toy_state slug = join_path [''/s/68'', slug]"

definition knobs_of :: "string \<Rightarrow> string \<Rightarrow> knobs" where
  "knobs_of confined network = \<lparr>kn_image = [], kn_network = network, kn_confined = confined, kn_home = [], kn_credentials = [],
     kn_platform = [], kn_no_autostart = []\<rparr>"

definition open_grain :: cgrain where "open_grain = new_container_grain toy_wt toy_state (knobs_of [] [])"

definition closed_grain :: cgrain where "closed_grain = new_container_grain toy_wt toy_state (knobs_of ''1'' [])"

section \<open>Instances\<close>


fun made :: "(err + boundary) \<times> disk \<Rightarrow> boundary" where
  "made (Inr b, d) = b"
| "made (Inl x, d) = no_boundary"

definition first_run :: "(err + boundary) \<times> disk" where "first_run = cg_provision toy_runtime open_grain ''a'' empty_disk"

text \<open>The agent commits, and the teardown cannot harvest.\<close>

definition torn :: "(err + unit) \<times> disk" where
  "torn = cg_teardown toy_runtime open_grain (made first_run) (add_path ''/w/68/a/c2'' (snd first_run))"

theorem harvest_or_keep_witness: "''/w/68/a/c2'' \<in> set (dk_paths (snd torn)) \<and> fst torn \<noteq> Inr ()"
proof -
  let ?e = "container_gone toy_runtime (bd_container (made first_run)) (add_path ''/w/68/a/c2'' (snd first_run))"
  have b: "bd_worktree (made first_run) = ''/w/68/a''" "bd_branch (made first_run) = ''nm/a''" by code_simp+
  have p: "wt_path (os_cwd (ho_os (rt_host toy_runtime))) (cg_wt open_grain) ''a'' = Inr ''/w/68/a''" by code_simp
  have there: "ho_stat (rt_host toy_runtime) ?e ''/w/68/a'' = Present" "''/w/68/a/c2'' \<in> set (dk_paths ?e)" by code_simp+
  have refused: "fetch_branch toy_runtime open_grain ''/w/68/a'' ''nm/a'' e = ((''refusing to fetch into branch'', Some ''exit status 128''), e)" for e
    by (simp add: fetch_branch_def toy_runtime_def refusing_git_def)
  have "harvested toy_runtime open_grain ''/w/68/a'' ''nm/a'' ?e (fst torn = Inr ()) (snd torn)"
    using harvest_or_keep [of "''/w/68/a''" "''nm/a''" "made first_run" toy_runtime open_grain "''a''"] b p unfolding torn_def by blast
  then show ?thesis using there refused by (simp add: harvested_def)
qed

section \<open>What the grain does not guard against\<close>

text \<open>
  The clone that a failed harvest has preserved is at the path of the slug. The next provision of the slug clears
  that path as a stale clone, and the commits are gone.
\<close>

definition second_run :: "(err + boundary) \<times> disk" where "second_run = cg_provision toy_runtime open_grain ''a'' (snd torn)"

theorem preserved_clone_dropped:
  "''/w/68/a/c2'' \<in> set (dk_paths (snd torn))" "bd_worktree (made second_run) = ''/w/68/a''"
  "''/w/68/a/c2'' \<notin> set (dk_paths (snd second_run))"
  by code_simp+

text \<open>
  Credentials are staged in the session's state directory, which is mounted in both modes. After a restart in
  confined mode the directory of a resumed session still holds them.
\<close>

definition confined_run :: "(err + boundary) \<times> disk" where "confined_run = cg_provision toy_runtime closed_grain ''a'' (snd first_run)"

theorem staged_credentials_stay:
  "bd_container (made confined_run) = ''c1''" "''/s/68/a/claude-home/.claude/.credentials.json'' \<in> set (dk_paths (snd confined_run))"
  "mount_value ''/s/68/a'' ''/s/68/a'' \<in> set (values_of ''--mount'' (boundary_args toy_runtime closed_grain ''a'' ''/w/68/a'' ''/t/c'' []))"
  by code_simp+

text \<open>An unsafe network name is not taken for the cooperative default where the container is confined.\<close>

theorem unsafe_network_confined: "resolve_network (knobs_of ''1'' ''--cap-add'') True = ''none''"
  by code_simp

end

