(* ===== verification/Tunnel.thy ===== *)
theory Tunnel
  imports Frame
begin

text \<open>
  The tunnel between an adapter in a container and the daemon: the relay (\<open>cmd/mad-trellis-relay/main.go\<close>) and the
  pump of the launcher (\<open>internal/launcher/coop.go\<close>) multiplex connections over two pipes. Both are built from the
  same parts. A state change of a goroutine is one action; the two ends take their actions in any order.
\<close>

section \<open>Streams\<close>

definition conn_queue :: nat where "conn_queue = 256"
definition out_queue :: nat where "out_queue = 256"
definition read_buffer :: nat where "read_buffer = 32 * 1024"

text \<open>The goroutine that reads a connection; \<open>Ended b\<close> has given up the chunk \<open>b\<close>.\<close>

datatype reader = NoReader | Reading | Holding string | Ended string

text \<open>The goroutine that serves a stream; \<open>Telling True\<close> sends its CLOSE whoever closed first.\<close>

datatype serving = Announcing | Dialing | Writing | Leaving | Telling bool | Gone

text \<open>A stream and its connection: the chunks passed on from it, those written to it, and the last one if it was cut.\<close>

record mux_stream =
  ms_id :: "32 word"
  ms_queue :: "string list"
  ms_closed :: bool
  ms_peer :: bool
  ms_conn :: bool
  ms_shut :: bool
  ms_reader :: reader
  ms_serve :: serving
  ms_read :: "string list"
  ms_wrote :: "string list"
  ms_cut :: string

text \<open>One end: streams by id, all streams it ever had, the frames for its writer, and what a shutdown has still to close.\<close>

record mux =
  mx_streams :: "32 word \<Rightarrow> nat option"
  mx_tab :: "mux_stream list"
  mx_out :: "string list"
  mx_done :: bool
  mx_closed :: bool
  mx_doomed :: "nat list"
  mx_reading :: bool
  mx_writing :: bool
  mx_next :: "32 word"
  mx_ready :: bool

definition on_stream :: "nat \<Rightarrow> (mux_stream \<Rightarrow> mux_stream option) \<Rightarrow> mux \<Rightarrow> mux option" where
  "on_stream k f m = (if k < length (mx_tab m)
     then map_option (\<lambda>s. m\<lparr>mx_tab := (mx_tab m)[k := s]\<rparr>) (f (mx_tab m ! k)) else None)"

definition close_stream :: "nat \<Rightarrow> mux \<Rightarrow> mux" where
  "close_stream k m = m\<lparr>mx_tab := (mx_tab m)[k := (mx_tab m ! k)\<lparr>ms_closed := True\<rparr>]\<rparr>"

text \<open>The send of \<open>enqueue\<close>; it does not happen while the channel is full.\<close>

definition put_frame :: "32 word \<Rightarrow> frame_type \<Rightarrow> string \<Rightarrow> mux \<Rightarrow> mux option" where
  "put_frame i t p m = (case encode_frame i t p of
       Inl _ \<Rightarrow> None
     | Inr b \<Rightarrow> if length (mx_out m) < out_queue then Some (m\<lparr>mx_out := mx_out m @ [b]\<rparr>) else None)"

section \<open>The reader of a connection\<close>

definition read_chunk :: "string \<Rightarrow> mux_stream \<Rightarrow> mux_stream option" where
  "read_chunk b s = (if ms_reader s = Reading \<and> \<not> ms_shut s \<and> b \<noteq> [] \<and> length b \<le> read_buffer
     then Some (s\<lparr>ms_reader := Holding b\<rparr>) else None)"

definition passed :: "string \<Rightarrow> mux_stream \<Rightarrow> mux_stream option" where
  "passed b s = Some (s\<lparr>ms_reader := Reading, ms_read := ms_read s @ [b]\<rparr>)"

definition pass_chunk :: "nat \<Rightarrow> mux \<Rightarrow> mux option" where
  "pass_chunk k m = (if k < length (mx_tab m) then (case ms_reader (mx_tab m ! k) of
       Holding b \<Rightarrow> Option.bind (put_frame (ms_id (mx_tab m ! k)) frame_data b m) (on_stream k (passed b))
     | _ \<Rightarrow> None) else None)"

definition drop_chunk :: "bool \<Rightarrow> mux_stream \<Rightarrow> mux_stream option" where
  "drop_chunk fin s = (case ms_reader s of
       Holding b \<Rightarrow> if ms_closed s \<or> fin then Some (s\<lparr>ms_reader := Ended b\<rparr>) else None
     | _ \<Rightarrow> None)"

definition end_read :: "mux_stream \<Rightarrow> mux_stream option" where
  "end_read s = (if ms_reader s = Reading then Some (s\<lparr>ms_reader := Ended []\<rparr>) else None)"

definition wake_writer :: "mux_stream \<Rightarrow> mux_stream option" where
  "wake_writer s = (case ms_reader s of Ended _ \<Rightarrow> Some (s\<lparr>ms_closed := True\<rparr>) | _ \<Rightarrow> None)"

text \<open>
  The second half of \<open>signalClose\<close> and \<open>teardown\<close>. That further callers wait for it is left out, which leaves
  the model more interleavings than the code has.
\<close>

definition shut_conn :: "mux_stream \<Rightarrow> mux_stream option" where
  "shut_conn s = (if ms_closed s \<and> ms_conn s then Some (s\<lparr>ms_shut := True\<rparr>) else None)"

section \<open>The writer of a connection\<close>

definition write_chunk :: "mux_stream \<Rightarrow> mux_stream option" where
  "write_chunk s = (case ms_queue s of
       [] \<Rightarrow> None
     | b # q \<Rightarrow> if ms_serve s = Writing \<and> \<not> ms_shut s then Some (s\<lparr>ms_queue := q, ms_wrote := ms_wrote s @ [b]\<rparr>) else None)"

text \<open>A write that fails after \<open>n\<close> bytes.\<close>

definition write_failed :: "nat \<Rightarrow> mux_stream \<Rightarrow> mux_stream option" where
  "write_failed n s = (case ms_queue s of
       [] \<Rightarrow> None
     | b # q \<Rightarrow> if ms_serve s = Writing \<and> (ms_shut s \<longrightarrow> n = 0)
         then Some (s\<lparr>ms_queue := q, ms_cut := take n b, ms_serve := Leaving\<rparr>) else None)"

definition leave :: "bool \<Rightarrow> mux_stream \<Rightarrow> mux_stream option" where
  "leave fin s = (if ms_serve s = Writing \<and> (ms_closed s \<or> fin) then Some (s\<lparr>ms_serve := Leaving\<rparr>) else None)"

definition serving_at :: "serving \<Rightarrow> mux_stream \<Rightarrow> mux_stream option" where
  "serving_at x s = Some (s\<lparr>ms_serve := x\<rparr>)"

text \<open>The CLOSE at the end of a stream; a shutdown may take the place of the send.\<close>

definition tell_close :: "nat \<Rightarrow> mux \<Rightarrow> mux option" where
  "tell_close k m = (if k < length (mx_tab m) then (let s = mx_tab m ! k in case ms_serve s of
       Telling always \<Rightarrow>
         if ms_peer s \<and> \<not> always then on_stream k (serving_at Gone) m
         else Option.bind (put_frame (ms_id s) frame_close [] m) (on_stream k (serving_at Gone))
     | _ \<Rightarrow> None) else None)"

definition skip_close :: "bool \<Rightarrow> mux_stream \<Rightarrow> mux_stream option" where
  "skip_close fin s = (case ms_serve s of Telling _ \<Rightarrow> if fin then Some (s\<lparr>ms_serve := Gone\<rparr>) else None | _ \<Rightarrow> None)"

section \<open>Frames that come in\<close>

text \<open>
  \<open>dispatch\<close> and \<open>dispatchData\<close>: the select has a send, a receive of \<open>closed\<close> and a default. Where both cases are
  ready, \<open>choice\<close> is what Go's select picks; the default is taken when neither is.
\<close>

definition dispatch_data :: "bool \<Rightarrow> 32 word \<Rightarrow> string \<Rightarrow> mux \<Rightarrow> mux option" where
  "dispatch_data choice i p m = (case mx_streams m i of
       None \<Rightarrow> Some m
     | Some k \<Rightarrow> (let s = mx_tab m ! k in
         if choice
         then (if length (ms_queue s) < conn_queue
           then Some (m\<lparr>mx_tab := (mx_tab m)[k := s\<lparr>ms_queue := ms_queue s @ [p]\<rparr>]\<rparr>) else None)
         else if ms_closed s then Some m
         else if length (ms_queue s) < conn_queue then None
         else Some (close_stream k m)))"

definition peer_close :: "32 word \<Rightarrow> mux \<Rightarrow> mux" where
  "peer_close i m = (case mx_streams m i of
       None \<Rightarrow> m
     | Some k \<Rightarrow> m\<lparr>mx_tab := (mx_tab m)[k := (mx_tab m ! k)\<lparr>ms_peer := True, ms_closed := True\<rparr>]\<rparr>)"

definition relay_frame :: "bool \<Rightarrow> frame \<Rightarrow> mux \<Rightarrow> mux option" where
  "relay_frame choice f m =
     (if f_type f = frame_data then dispatch_data choice (f_stream f) (f_payload f) m
      else if f_type f = frame_close then Some (peer_close (f_stream f) m)
      else Some m)"

definition new_stream :: "32 word \<Rightarrow> bool \<Rightarrow> serving \<Rightarrow> mux_stream" where
  "new_stream i conn x = \<lparr>ms_id = i, ms_queue = [], ms_closed = False, ms_peer = False, ms_conn = conn, ms_shut = False,
     ms_reader = NoReader, ms_serve = x, ms_read = [], ms_wrote = [], ms_cut = []\<rparr>"

definition add_stream :: "mux_stream \<Rightarrow> mux \<Rightarrow> mux" where
  "add_stream s m = m\<lparr>mx_streams := (mx_streams m)(ms_id s \<mapsto> length (mx_tab m)), mx_tab := mx_tab m @ [s]\<rparr>"

definition open_stream :: "32 word \<Rightarrow> mux \<Rightarrow> mux" where
  "open_stream i m = (if mx_closed m then m else if mx_streams m i \<noteq> None then m
     else add_stream (new_stream i False Dialing) m)"

definition pump_frame :: "bool \<Rightarrow> frame \<Rightarrow> mux \<Rightarrow> mux option" where
  "pump_frame choice f m =
     (if f_type f = frame_ready then Some (m\<lparr>mx_ready := True\<rparr>)
      else if f_type f = frame_open then Some (open_stream (f_stream f) m)
      else if f_type f = frame_data then dispatch_data choice (f_stream f) (f_payload f) m
      else if f_type f = frame_close then Some (peer_close (f_stream f) m)
      else Some m)"

section \<open>What the two ends share\<close>

text \<open>An end with the bytes that still come in and the bytes it has sent that were not read.\<close>

type_synonym side = "mux \<times> string \<times> string"

definition local :: "(mux \<Rightarrow> mux option) \<Rightarrow> side \<Rightarrow> side option" where
  "local f = (\<lambda>(m, ins, outs). map_option (\<lambda>m'. (m', ins, outs)) (f m))"

definition receive :: "(frame \<Rightarrow> mux \<Rightarrow> mux option) \<Rightarrow> side \<Rightarrow> side option" where
  "receive handler = (\<lambda>(m, ins, outs).
     if mx_reading m then (case read_frame ins of
         Inl _ \<Rightarrow> None
       | Inr (f, rest) \<Rightarrow> map_option (\<lambda>m'. (m', rest, outs)) (handler f m))
     else None)"

definition write_out :: "side \<Rightarrow> side option" where
  "write_out = (\<lambda>(m, ins, outs). case mx_out m of
       [] \<Rightarrow> None
     | b # r \<Rightarrow> if mx_writing m then Some (m\<lparr>mx_out := r\<rparr>, ins, outs @ b) else None)"

text \<open>A write to the pipe that fails ends the loop, which shuts the end down.\<close>

definition write_broken :: "nat \<Rightarrow> side \<Rightarrow> side option" where
  "write_broken n = (\<lambda>(m, ins, outs). case mx_out m of
       [] \<Rightarrow> None
     | b # r \<Rightarrow> if mx_writing m \<and> n < length b
         then Some (m\<lparr>mx_out := r, mx_writing := False, mx_done := True\<rparr>, ins, outs @ take n b) else None)"

definition stop_writing :: "mux \<Rightarrow> mux option" where
  "stop_writing m = (if mx_writing m \<and> mx_done m then Some (m\<lparr>mx_writing := False\<rparr>) else None)"

definition registered :: "mux \<Rightarrow> nat \<Rightarrow> bool" where
  "registered m k \<longleftrightarrow> k < length (mx_tab m) \<and> mx_streams m (ms_id (mx_tab m ! k)) = Some k"

definition live_streams :: "mux \<Rightarrow> nat list" where
  "live_streams m = filter (registered m) [0 ..< length (mx_tab m)]"

definition doom :: "nat \<Rightarrow> mux \<Rightarrow> mux option" where
  "doom k m = (if k \<in> set (mx_doomed m) \<and> k < length (mx_tab m) then Some (close_stream k m) else None)"

datatype act =
    WriteOut | WriteBroken nat | StopWriting | StopReading | Halt | Collect | Doom nat
  | ReadChunk nat string | PassChunk nat | DropChunk nat | EndRead nat | WakeWriter nat | ShutConn nat
  | WriteChunk nat | WriteFailed nat nat | Leave nat | Cleanup nat | TellClose nat | SkipClose nat
  | Receive bool | Accept | Announce nat | Unannounced nat | Dial nat bool

fun shared_act :: "act \<Rightarrow> side \<Rightarrow> side option" where
  "shared_act WriteOut d = write_out d"
| "shared_act (WriteBroken n) d = write_broken n d"
| "shared_act StopWriting d = local stop_writing d"
| "shared_act StopReading d = local (\<lambda>m. Some (m\<lparr>mx_reading := False\<rparr>)) d"
| "shared_act Halt d = local (\<lambda>m. Some (m\<lparr>mx_done := True\<rparr>)) d"
| "shared_act (Doom k) d = local (doom k) d"
| "shared_act (ReadChunk k b) d = local (on_stream k (read_chunk b)) d"
| "shared_act (PassChunk k) d = local (pass_chunk k) d"
| "shared_act (DropChunk k) d = local (\<lambda>m. on_stream k (drop_chunk (mx_done m)) m) d"
| "shared_act (EndRead k) d = local (on_stream k end_read) d"
| "shared_act (WakeWriter k) d = local (on_stream k wake_writer) d"
| "shared_act (ShutConn k) d = local (on_stream k shut_conn) d"
| "shared_act (WriteChunk k) d = local (on_stream k write_chunk) d"
| "shared_act (WriteFailed k n) d = local (on_stream k (write_failed n)) d"
| "shared_act (Leave k) d = local (\<lambda>m. on_stream k (leave (mx_done m)) m) d"
| "shared_act (TellClose k) d = local (tell_close k) d"
| "shared_act (SkipClose k) d = local (\<lambda>m. on_stream k (skip_close (mx_done m)) m) d"
| "shared_act _ d = None"

section \<open>The relay\<close>

definition relay_collect :: "mux \<Rightarrow> mux option" where
  "relay_collect m = (if mx_done m
     then Some (m\<lparr>mx_doomed := mx_doomed m @ live_streams m, mx_streams := \<lambda>_. None\<rparr>) else None)"

text \<open>The accept loop: one connection at a time is between its entry in the table and its OPEN.\<close>

definition relay_accept :: "mux \<Rightarrow> mux option" where
  "relay_accept m = (if mx_done m \<or> list_ex (\<lambda>s. ms_serve s = Announcing) (mx_tab m) then None
     else Some (add_stream (new_stream (mx_next m + 1) True Announcing) (m\<lparr>mx_next := mx_next m + 1\<rparr>)))"

definition start_serving :: "mux_stream \<Rightarrow> mux_stream option" where
  "start_serving s = Some (s\<lparr>ms_serve := Writing, ms_reader := Reading\<rparr>)"

definition relay_announce :: "nat \<Rightarrow> mux \<Rightarrow> mux option" where
  "relay_announce k m = (if k < length (mx_tab m) \<and> ms_serve (mx_tab m ! k) = Announcing
     then Option.bind (put_frame (ms_id (mx_tab m ! k)) frame_open [] m) (on_stream k start_serving) else None)"

definition tear_down_stream :: "32 word \<Rightarrow> mux \<Rightarrow> mux" where
  "tear_down_stream i m = (case mx_streams m i of
       None \<Rightarrow> m
     | Some k \<Rightarrow> close_stream k (m\<lparr>mx_streams := (mx_streams m)(i := None)\<rparr>))"

definition relay_unannounced :: "nat \<Rightarrow> mux \<Rightarrow> mux option" where
  "relay_unannounced k m = (if k < length (mx_tab m) \<and> ms_serve (mx_tab m ! k) = Announcing \<and> mx_done m
     then on_stream k (serving_at Gone) (tear_down_stream (ms_id (mx_tab m ! k)) m) else None)"

definition relay_cleanup :: "nat \<Rightarrow> mux \<Rightarrow> mux option" where
  "relay_cleanup k m = (if k < length (mx_tab m) \<and> ms_serve (mx_tab m ! k) = Leaving
     then on_stream k (serving_at (Telling False)) (tear_down_stream (ms_id (mx_tab m ! k)) m) else None)"

fun relay_act :: "act \<Rightarrow> side \<Rightarrow> side option" where
  "relay_act (Receive choice) d = receive (relay_frame choice) d"
| "relay_act Collect d = local relay_collect d"
| "relay_act Accept d = local relay_accept d"
| "relay_act (Announce k) d = local (relay_announce k) d"
| "relay_act (Unannounced k) d = local (relay_unannounced k) d"
| "relay_act (Cleanup k) d = local (relay_cleanup k) d"
| "relay_act a d = shared_act a d"

section \<open>The pump\<close>

definition pump_collect :: "mux \<Rightarrow> mux option" where
  "pump_collect m = (if mx_done m
     then Some (m\<lparr>mx_doomed := mx_doomed m @ live_streams m, mx_closed := True\<rparr>) else None)"

definition remove_stream :: "32 word \<Rightarrow> mux \<Rightarrow> mux" where
  "remove_stream i m = m\<lparr>mx_streams := (mx_streams m)(i := None)\<rparr>"

definition connected :: "mux_stream \<Rightarrow> mux_stream option" where
  "connected s = Some (s\<lparr>ms_conn := True, ms_serve := Writing, ms_reader := Reading\<rparr>)"

text \<open>The dial of a stream: it fails, or the stream was closed meanwhile, or the stream has its connection.\<close>

definition pump_dial :: "nat \<Rightarrow> bool \<Rightarrow> mux \<Rightarrow> mux option" where
  "pump_dial k ok m = (if k < length (mx_tab m) \<and> ms_serve (mx_tab m ! k) = Dialing
     then (let s = mx_tab m ! k in
       if \<not> ok then on_stream k (serving_at (Telling True)) (remove_stream (ms_id s) m)
       else if ms_closed s then on_stream k (serving_at (Telling False)) (remove_stream (ms_id s) m)
       else on_stream k connected m)
     else None)"

definition pump_cleanup :: "nat \<Rightarrow> mux \<Rightarrow> mux option" where
  "pump_cleanup k m = (if k < length (mx_tab m) \<and> ms_serve (mx_tab m ! k) = Leaving
     then on_stream k (serving_at (Telling False)) (remove_stream (ms_id (mx_tab m ! k)) (close_stream k m)) else None)"

fun pump_act :: "act \<Rightarrow> side \<Rightarrow> side option" where
  "pump_act (Receive choice) d = receive (pump_frame choice) d"
| "pump_act Collect d = local pump_collect d"
| "pump_act (Dial k ok) d = local (pump_dial k ok) d"
| "pump_act (Cleanup k) d = local (pump_cleanup k) d"
| "pump_act a d = shared_act a d"

section \<open>The tunnel\<close>

record tunnel =
  tn_relay :: mux
  tn_pump :: mux
  tn_up :: string
  tn_down :: string

definition idle_mux :: mux where
  "idle_mux = \<lparr>mx_streams = \<lambda>_. None, mx_tab = [], mx_out = [], mx_done = False, mx_closed = False, mx_doomed = [],
     mx_reading = True, mx_writing = True, mx_next = 0, mx_ready = False\<rparr>"

definition ready_frame :: frame where "ready_frame = \<lparr>f_stream = 0, f_type = frame_ready, f_payload = []\<rparr>"

text \<open>The relay listens and has queued its READY.\<close>

definition new_tunnel :: tunnel where
  "new_tunnel = \<lparr>tn_relay = idle_mux\<lparr>mx_out := [wire ready_frame]\<rparr>, tn_pump = idle_mux, tn_up = [], tn_down = []\<rparr>"

definition relay_does :: "act \<Rightarrow> tunnel \<Rightarrow> tunnel option" where
  "relay_does a t = map_option (\<lambda>(m, ins, outs). t\<lparr>tn_relay := m, tn_down := ins, tn_up := outs\<rparr>)
     (relay_act a (tn_relay t, tn_down t, tn_up t))"

definition pump_does :: "act \<Rightarrow> tunnel \<Rightarrow> tunnel option" where
  "pump_does a t = map_option (\<lambda>(m, ins, outs). t\<lparr>tn_pump := m, tn_up := ins, tn_down := outs\<rparr>)
     (pump_act a (tn_pump t, tn_up t, tn_down t))"

inductive tunnel_step :: "tunnel \<Rightarrow> tunnel \<Rightarrow> bool" where
  relay: "relay_does a t = Some t' \<Longrightarrow> tunnel_step t t'"
| pump: "pump_does a t = Some t' \<Longrightarrow> tunnel_step t t'"

inductive tunnel_reaches :: "tunnel \<Rightarrow> bool" where
  start: "tunnel_reaches new_tunnel"
| step: "tunnel_reaches t \<Longrightarrow> tunnel_step t t' \<Longrightarrow> tunnel_reaches t'"

end
