(* ===== verification/TunnelFacts.thy ===== *)
theory TunnelFacts
  imports Tunnel
begin

text \<open>
  What the tunnel promises of the bytes it carries: every connection at one end receives what the connection with
  the same stream id at the other end gave, in order, never those of another one, and without a gap
  while the receiving stream is open.
\<close>

section \<open>Bytes of a stream\<close>

text \<open>The bytes read from a connection and the bytes written to it.\<close>

definition taken :: "mux_stream \<Rightarrow> string" where
  "taken s = concat (ms_read s) @ (case ms_reader s of Holding b \<Rightarrow> b | Ended b \<Rightarrow> b | _ \<Rightarrow> [])"

definition written :: "mux_stream \<Rightarrow> string" where
  "written s = concat (ms_wrote s) @ ms_cut s"

definition active :: "mux_stream \<Rightarrow> bool" where
  "active s \<longleftrightarrow> ms_serve s \<in> {Announcing, Dialing, Writing}"

text \<open>A stream has done justice to the chunks that were dispatched to it; \<open>r\<close> tells whether its table still knows it.\<close>

definition serves :: "bool \<Rightarrow> mux_stream \<Rightarrow> string list \<Rightarrow> bool" where
  "serves r s d \<longleftrightarrow>
     (active s \<longrightarrow> ms_cut s = [] \<and> subseq (ms_wrote s @ ms_queue s) d
        \<and> (\<not> ms_closed s \<longrightarrow> prefix (ms_wrote s @ ms_queue s) d \<and> (r \<longrightarrow> ms_wrote s @ ms_queue s = d)))
   \<and> (\<not> active s \<longrightarrow> subseq (written s) (concat d) \<and> (\<not> ms_closed s \<longrightarrow> prefix (written s) (concat d)))"

lemma subseq_concat: "subseq xs ys \<Longrightarrow> subseq (concat xs) (concat ys)"
  by (induction rule: list_emb.induct) (auto intro: list_emb_append_mono simp: list_emb_append2)

lemma prefix_concat: "prefix xs ys \<Longrightarrow> prefix (concat xs) (concat ys)"
  by (auto simp: prefix_def)

lemma subseq_cut: "subseq (xs @ b # q) d \<Longrightarrow> subseq (concat xs @ take n b) (concat d)"
  by (drule subseq_concat, erule subseq_order.trans [rotated]) (auto intro!: list_emb_append_mono take_is_prefix [THEN prefix_imp_subseq] simp: list_emb_append2)

lemma prefix_cut: "prefix (xs @ b # q) d \<Longrightarrow> prefix (concat xs @ take n b) (concat d)"
  by (auto simp: prefix_def) (metis append_assoc append_take_drop_id)

lemma subseq_part: "subseq (xs @ ys) d \<Longrightarrow> subseq (concat xs) (concat d)"
  using subseq_concat [of "xs @ ys" d] by (auto elim: subseq_order.trans [rotated])

lemma prefix_part: "prefix (xs @ ys) d \<Longrightarrow> prefix (concat xs) (concat d)"
  using prefix_concat [of "xs @ ys" d] by (auto dest: append_prefixD)

lemma serves_written: "serves r s d \<Longrightarrow> subseq (written s) (concat d) \<and> (\<not> ms_closed s \<longrightarrow> prefix (written s) (concat d))"
  using subseq_part [of "ms_wrote s" "ms_queue s" d] prefix_part [of "ms_wrote s" "ms_queue s" d]
  by (cases "active s") (simp_all add: serves_def written_def)

lemma serves_stopped:
  assumes "serves r s d" and "active s" and "\<not> active s'" and "ms_wrote s' = ms_wrote s" and "ms_closed s \<Longrightarrow> ms_closed s'"
    and "ms_cut s' = ms_cut s \<or> (\<exists>b q n. ms_queue s = b # q \<and> ms_cut s' = take n b)"
  shows "serves r s' d"
proof -
  have cut: "ms_cut s = []" and sub: "subseq (ms_wrote s @ ms_queue s) d"
    and pre: "\<not> ms_closed s \<Longrightarrow> prefix (ms_wrote s @ ms_queue s) d"
    using assms(1,2) by (auto simp: serves_def)
  from assms(6) have "subseq (concat (ms_wrote s) @ ms_cut s') (concat d)
    \<and> (\<not> ms_closed s \<longrightarrow> prefix (concat (ms_wrote s) @ ms_cut s') (concat d))"
  proof
    assume "ms_cut s' = ms_cut s"
    then show ?thesis using subseq_part [OF sub] prefix_part [OF pre] cut by simp
  next
    assume "\<exists>b q n. ms_queue s = b # q \<and> ms_cut s' = take n b"
    then obtain b q n where "ms_queue s = b # q" "ms_cut s' = take n b" by blast
    then show ?thesis using subseq_cut [of "ms_wrote s" b q d n] prefix_cut [of "ms_wrote s" b q d n] sub pre by simp
  qed
  then show ?thesis using assms(3-5) by (auto simp: serves_def written_def)
qed

lemma serves_mono: "serves r s d \<Longrightarrow> (r' \<longrightarrow> r) \<Longrightarrow> serves r' s d"
  by (auto simp: serves_def)

lemma serves_more: "serves r s d \<Longrightarrow> ms_closed s \<or> \<not> r \<or> \<not> active s \<Longrightarrow> serves r s (d @ [p])"
  by (auto simp: serves_def intro: prefix_order.trans list_emb_append_mono)

lemma serves_queued:
  assumes "serves True s d"
  shows "serves True (s\<lparr>ms_queue := ms_queue s @ [p]\<rparr>) (d @ [p])"
proof (cases "active s")
  case True
  then have "subseq (ms_wrote s @ ms_queue s @ [p]) (d @ [p])"
    using assms list_emb_append_mono [of "(=)" "ms_wrote s @ ms_queue s" d "[p]" "[p]"] by (simp add: serves_def)
  then show ?thesis using assms True by (auto simp: serves_def active_def)
next
  case False
  then show ?thesis using assms by (auto simp: serves_def active_def written_def)
qed

lemma serves_kept:
  assumes "serves r s d" and "active s' = active s" and "ms_wrote s' @ ms_queue s' = ms_wrote s @ ms_queue s"
    and "active s \<or> ms_wrote s' = ms_wrote s" and "ms_cut s' = ms_cut s" and "ms_closed s \<Longrightarrow> ms_closed s'"
  shows "serves r s' d"
  using assms by (cases "active s"; cases "ms_closed s") (auto simp: serves_def written_def)

text \<open>An update of a stream that neither passes on nor takes a chunk, whatever was dispatched to it.\<close>

definition quiet :: "mux_stream \<Rightarrow> bool" where
  "quiet s \<longleftrightarrow> (ms_serve s \<in> {Announcing, Dialing} \<longrightarrow> ms_reader s = NoReader)"

definition benign :: "mux_stream \<Rightarrow> mux_stream \<Rightarrow> bool" where
  "benign s s' \<longleftrightarrow> ms_id s' = ms_id s \<and> ms_read s' = ms_read s \<and> (ms_serve s' = Announcing \<longrightarrow> ms_serve s = Announcing)
     \<and> length (ms_queue s') \<le> length (ms_queue s) \<and> (quiet s \<longrightarrow> quiet s') \<and> (\<forall>r d. serves r s d \<longrightarrow> serves r s' d)"

lemma benign_refl [simp]: "benign s s" by (simp add: benign_def)

lemma benign_trans: "benign a b \<Longrightarrow> benign b c \<Longrightarrow> benign a c"
  by (auto simp: benign_def)

lemma benign_kept:
  assumes "ms_id s' = ms_id s" and "ms_read s' = ms_read s" and "ms_serve s' = Announcing \<Longrightarrow> ms_serve s = Announcing"
    and "length (ms_queue s') \<le> length (ms_queue s)" and "quiet s \<Longrightarrow> quiet s'" and "active s' = active s"
    and "ms_wrote s' @ ms_queue s' = ms_wrote s @ ms_queue s" and "active s \<or> ms_wrote s' = ms_wrote s"
    and "ms_cut s' = ms_cut s" and "ms_closed s \<Longrightarrow> ms_closed s'"
  shows "benign s s'"
  using assms(1-5) serves_kept [OF _ assms(6-10)] by (auto simp: benign_def)

lemma benign_closed [simp]: "benign s (s\<lparr>ms_closed := True\<rparr>)" "benign s (s\<lparr>ms_peer := True, ms_closed := True\<rparr>)"
  by (auto simp: active_def quiet_def intro!: benign_kept)

lemma benign_reads:
  "read_chunk b s = Some s' \<Longrightarrow> benign s s'" "drop_chunk x s = Some s' \<Longrightarrow> benign s s'" "end_read s = Some s' \<Longrightarrow> benign s s'"
  "wake_writer s = Some s' \<Longrightarrow> benign s s'" "shut_conn s = Some s' \<Longrightarrow> benign s s'"
  by (rule benign_kept; auto simp: active_def quiet_def read_chunk_def drop_chunk_def end_read_def wake_writer_def shut_conn_def
      split: if_splits reader.splits)+

lemma benign_write: "write_chunk s = Some s' \<Longrightarrow> benign s s'"
  by (rule benign_kept) (auto simp: active_def quiet_def write_chunk_def split: list.splits if_splits)

lemma benign_stopped:
  assumes "active s" and "\<not> active s'" and "ms_id s' = ms_id s" and "ms_read s' = ms_read s" and "ms_wrote s' = ms_wrote s"
    and "ms_closed s \<Longrightarrow> ms_closed s'" and "length (ms_queue s') \<le> length (ms_queue s)"
    and "ms_cut s' = ms_cut s \<or> (\<exists>b q n. ms_queue s = b # q \<and> ms_cut s' = take n b)"
  shows "benign s s'"
  using assms(2-4,7) serves_stopped [OF _ assms(1,2,5,6,8)] by (auto simp: benign_def active_def quiet_def)

lemma benign_failed: "write_failed n s = Some s' \<Longrightarrow> benign s s'"
  by (rule benign_stopped) (auto simp: active_def write_failed_def split: list.splits if_splits)

lemma benign_leave: "leave x s = Some s' \<Longrightarrow> benign s s'"
  by (rule benign_stopped) (auto simp: active_def leave_def split: if_splits)

lemma benign_skip: "skip_close x s = Some s' \<Longrightarrow> benign s s'"
  by (rule benign_kept) (auto simp: active_def quiet_def skip_close_def split: if_splits serving.splits)

lemma benign_serving:
  assumes "serving_at x s = Some s'" and "x = Gone \<or> x = Telling y"
  shows "benign s s'"
proof (cases "active s")
  case True
  then show ?thesis by (rule benign_stopped) (use assms in \<open>auto simp: active_def serving_at_def\<close>)
next
  case False
  then show ?thesis by (intro benign_kept) (use assms in \<open>auto simp: active_def quiet_def serving_at_def\<close>)
qed

lemma benign_start:
  assumes "ms_serve s = Announcing \<or> ms_serve s = Dialing" and "start_serving s = Some s' \<or> connected s = Some s'"
  shows "benign s s'"
  by (rule benign_kept) (use assms in \<open>auto simp: active_def quiet_def start_serving_def connected_def\<close>)

section \<open>Ends\<close>

definition ids :: "mux \<Rightarrow> 32 word list" where "ids m = map ms_id (mx_tab m)"

definition mux_ok :: "mux \<Rightarrow> bool" where
  "mux_ok m \<longleftrightarrow> distinct (ids m) \<and> (\<forall>i k. mx_streams m i = Some k \<longrightarrow> k < length (ids m) \<and> ids m ! k = i)
     \<and> (\<forall>s \<in> set (mx_tab m). quiet s \<and> length (ms_queue s) \<le> conn_queue) \<and> length (mx_out m) \<le> out_queue"

text \<open>A change that sends nothing and is benign to every stream.\<close>

definition calm :: "mux \<Rightarrow> mux \<Rightarrow> bool" where
  "calm m m' \<longleftrightarrow> list_all2 benign (mx_tab m) (mx_tab m') \<and> (\<forall>i k. mx_streams m' i = Some k \<longrightarrow> mx_streams m i = Some k)
     \<and> mx_out m' = mx_out m \<and> (mx_writing m' \<longrightarrow> mx_writing m) \<and> mx_next m' = mx_next m"

lemma benign_all_refl [simp]: "list_all2 benign xs xs"
  by (simp add: list_all2_refl)

lemma calm_refl [simp]: "calm m m" by (simp add: calm_def)

lemma calm_trans [trans]: "calm a b \<Longrightarrow> calm b c \<Longrightarrow> calm a c"
  unfolding calm_def using list_all2_trans [of benign benign benign] by (metis benign_trans)

lemma calm_update:
  assumes "benign (mx_tab m ! k) s"
  shows "calm m (m\<lparr>mx_tab := (mx_tab m)[k := s]\<rparr>)"
  using assms by (cases "k < length (mx_tab m)") (auto simp: calm_def list_all2_conv_all_nth nth_list_update)

lemma calm_on_stream:
  assumes "on_stream k f m = Some m'" and "\<And>s'. f (mx_tab m ! k) = Some s' \<Longrightarrow> benign (mx_tab m ! k) s'"
  shows "calm m m'"
  using assms by (auto simp: on_stream_def split: if_splits intro: calm_update)

lemma calm_close [simp]: "calm m (close_stream k m)"
  by (simp add: close_stream_def calm_update)

lemma calm_forget: "(\<And>i k. g i = Some k \<Longrightarrow> mx_streams m i = Some k) \<Longrightarrow> calm m (m\<lparr>mx_streams := g\<rparr>)"
  by (simp add: calm_def)

lemma calm_remove [simp]: "calm m (remove_stream i m)"
  unfolding remove_stream_def by (rule calm_forget) (auto split: if_splits)

lemma calm_tear_down [simp]: "calm m (tear_down_stream i m)"
  unfolding tear_down_stream_def
  by (auto split: option.split intro!: calm_trans [OF calm_forget calm_close] split: if_splits)

lemma calm_peer [simp]: "calm m (peer_close i m)"
  by (auto simp: peer_close_def split: option.split intro: calm_update)

lemma calm_fields [simp]:
  "calm m (m\<lparr>mx_done := b\<rparr>)" "calm m (m\<lparr>mx_reading := b\<rparr>)" "calm m (m\<lparr>mx_ready := b\<rparr>)" "calm m (m\<lparr>mx_writing := False\<rparr>)"
  "calm m (m\<lparr>mx_doomed := ks, mx_closed := b\<rparr>)" "calm m (m\<lparr>mx_doomed := ks, mx_streams := \<lambda>_. None\<rparr>)"
  by (simp_all add: calm_def)

lemma calm_ids: "calm m m' \<Longrightarrow> ids m' = ids m"
  unfolding calm_def ids_def list_all2_conv_all_nth by (auto simp: benign_def intro: nth_equalityI)

lemma calm_nth: "calm m m' \<Longrightarrow> k < length (mx_tab m) \<Longrightarrow> benign (mx_tab m ! k) (mx_tab m' ! k)"
  by (simp add: calm_def list_all2_nthD)

lemma calm_length: "calm m m' \<Longrightarrow> length (mx_tab m') = length (mx_tab m)"
  unfolding calm_def by (metis list_all2_lengthD)

lemma mux_ok_calm:
  assumes "mux_ok m" and "calm m m'"
  shows "mux_ok m'"
proof -
  have "quiet s' \<and> length (ms_queue s') \<le> conn_queue" if "s' \<in> set (mx_tab m')" for s'
  proof -
    obtain k where k: "k < length (mx_tab m)" "s' = mx_tab m' ! k"
      using \<open>s' \<in> _\<close> calm_length [OF assms(2)] by (auto simp: in_set_conv_nth)
    then have "quiet (mx_tab m ! k)" "length (ms_queue (mx_tab m ! k)) \<le> conn_queue"
      using assms(1) by (auto simp: mux_ok_def)
    then show ?thesis using calm_nth [OF assms(2) k(1)] k(2) by (auto simp: benign_def)
  qed
  moreover have "k < length (ids m) \<and> ids m ! k = i" if "mx_streams m' i = Some k" for i k
    using assms that unfolding calm_def mux_ok_def by blast
  moreover have "mx_out m' = mx_out m" using assms(2) by (simp add: calm_def)
  ultimately show ?thesis using assms(1) unfolding mux_ok_def calm_ids [OF assms(2)] by auto
qed

text \<open>What was passed on from the connections with an id.\<close>

definition source :: "mux \<Rightarrow> 32 word \<Rightarrow> string list" where
  "source m i = concat (map ms_read (filter (\<lambda>s. ms_id s = i) (mx_tab m)))"

lemma source_calm: "calm m m' \<Longrightarrow> source m' i = source m i"
proof -
  assume "calm m m'"
  then have "list_all2 benign (mx_tab m) (mx_tab m')" by (simp add: calm_def)
  then have "map ms_read (filter (\<lambda>s. ms_id s = i) (mx_tab m')) = map ms_read (filter (\<lambda>s. ms_id s = i) (mx_tab m))"
    by (induction rule: list_all2_induct) (auto simp: benign_def)
  then show ?thesis by (simp add: source_def)
qed

lemma source_fresh: "i \<notin> set (ids m) \<Longrightarrow> source m i = []"
  by (auto simp: source_def ids_def filter_empty_conv)

lemma source_nth:
  assumes "distinct (ids m)" and "k < length (mx_tab m)"
  shows "source m (ms_id (mx_tab m ! k)) = ms_read (mx_tab m ! k)"
proof -
  let ?s = "mx_tab m ! k"
  have split: "mx_tab m = take k (mx_tab m) @ ?s # drop (Suc k) (mx_tab m)" using assms(2) by (simp add: id_take_nth_drop)
  then have "ids m = map ms_id (take k (mx_tab m)) @ ms_id ?s # map ms_id (drop (Suc k) (mx_tab m))"
    unfolding ids_def by (metis list.simps(9) map_append)
  then have "filter (\<lambda>s. ms_id s = ms_id ?s) (take k (mx_tab m)) = []" "filter (\<lambda>s. ms_id s = ms_id ?s) (drop (Suc k) (mx_tab m)) = []"
    using assms(1) by (auto simp: filter_empty_conv image_iff)
  then have "filter (\<lambda>s. ms_id s = ms_id ?s) (mx_tab m) = [?s]" by (subst split) simp
  then show ?thesis by (simp add: source_def)
qed

lemma filter_update: "k < length xs \<Longrightarrow> \<not> P y \<Longrightarrow> \<not> P (xs ! k) \<Longrightarrow> filter P (xs[k := y]) = filter P xs"
  by (induction xs arbitrary: k) (auto split: nat.split)

lemma source_outside:
  "k < length (mx_tab m) \<Longrightarrow> ms_id s = ms_id (mx_tab m ! k) \<Longrightarrow> i \<noteq> ms_id s
     \<Longrightarrow> source (m\<lparr>mx_tab := (mx_tab m)[k := s]\<rparr>) i = source m i"
  by (simp add: source_def filter_update)

section \<open>Frames on the way\<close>

definition data_of :: "32 word \<Rightarrow> frame list \<Rightarrow> string list" where
  "data_of i fs = map f_payload (filter (\<lambda>f. f_type f = frame_data \<and> f_stream f = i) fs)"

lemma data_of_simps [simp]:
  "data_of i [] = []"
  "data_of i (f # fs) = (if f_type f = frame_data \<and> f_stream f = i then f_payload f # data_of i fs else data_of i fs)"
  "data_of i (fs @ gs) = data_of i fs @ data_of i gs"
  by (simp_all add: data_of_def)

text \<open>What follows the first OPEN of a stream.\<close>

fun after_open :: "32 word \<Rightarrow> frame list \<Rightarrow> frame list option" where
  "after_open i [] = None"
| "after_open i (f # fs) = (if f_type f = frame_open \<and> f_stream f = i then Some fs else after_open i fs)"

lemma after_open_append:
  "after_open i (fs @ gs) = (case after_open i fs of Some hs \<Rightarrow> Some (hs @ gs) | None \<Rightarrow> after_open i gs)"
  by (induction fs) auto

lemma after_open_data: "after_open i fs = Some gs \<Longrightarrow> length (data_of i gs) \<le> length (data_of i fs)"
  by (induction fs) (auto split: if_splits)

lemma data_not_first: "p # data_of i fs = data_of i gs \<Longrightarrow> after_open i fs = Some gs \<Longrightarrow> False"
  by (drule after_open_data) (metis impossible_Cons)

lemma no_open: "after_open i fs = None \<longleftrightarrow> (\<forall>f \<in> set fs. f_type f = frame_open \<longrightarrow> f_stream f \<noteq> i)"
  by (induction fs) auto

lemma frame_types [simp]: "frame_open \<noteq> frame_data" "frame_data \<noteq> frame_open" "frame_close \<noteq> frame_data" "frame_close \<noteq> frame_open"
  "frame_ready \<noteq> frame_data" "frame_ready \<noteq> frame_open" "frame_data \<noteq> frame_close" "frame_open \<noteq> frame_close"
  "frame_data \<noteq> frame_ready" "frame_open \<noteq> frame_ready" "frame_close \<noteq> frame_ready" "frame_ready \<noteq> frame_close"
  by (simp_all add: frame_open_def frame_data_def frame_close_def frame_ready_def)

text \<open>The whole frames of a pipe and those its writer still holds; a writer that stopped leaves a part of a frame.\<close>

definition line :: "mux \<Rightarrow> string \<Rightarrow> frame list \<Rightarrow> frame list \<Rightarrow> bool" where
  "line m pipe P Q \<longleftrightarrow> mx_out m = map wire Q \<and> (\<forall>f \<in> set (P @ Q). frame_wf f)
     \<and> (\<exists>part g. pipe = concat (map wire P) @ part \<and> frame_wf g \<and> strict_prefix part (wire g) \<and> (mx_writing m \<longrightarrow> part = []))"

definition pending :: "mux \<Rightarrow> frame list \<Rightarrow> frame list \<Rightarrow> frame list" where
  "pending m P Q = P @ (if mx_writing m then Q else [])"

lemma strict_prefix_wire [simp]: "strict_prefix [] (wire f)"
  by (simp add: wire_def strict_prefix_def)

lemma line_read:
  assumes "line m pipe P Q" and "read_frame pipe = Inr (f, rest)"
  obtains P' where "P = f # P'" and "line m rest P' Q"
proof -
  obtain part g where p: "pipe = concat (map wire P) @ part" "frame_wf g" "strict_prefix part (wire g)" "mx_writing m \<longrightarrow> part = []"
    and q: "mx_out m = map wire Q" and wf: "\<forall>f \<in> set (P @ Q). frame_wf f"
    using assms(1) unfolding line_def by blast
  show thesis
  proof (cases P)
    case Nil
    then show ?thesis using p(1) assms(2) read_truncated [OF p(2,3)] by simp
  next
    case (Cons h P')
    then have "read_frame pipe = Inr (h, concat (map wire P') @ part)" using p(1) wf by (simp add: read_wire_append)
    then have "f = h" "rest = concat (map wire P') @ part" using assms(2) by auto
    moreover from this have "line m rest P' Q" using p(2-4) q wf Cons unfolding line_def by auto
    ultimately show ?thesis using that Cons by blast
  qed
qed

lemma line_calm: "line m pipe P Q \<Longrightarrow> calm m m' \<Longrightarrow> line m' pipe P Q"
  by (auto simp: line_def calm_def)

lemma line_send: "line m pipe P Q \<Longrightarrow> frame_wf f \<Longrightarrow> mx_out m' = mx_out m @ [wire f] \<Longrightarrow> mx_writing m' = mx_writing m \<Longrightarrow> line m' pipe P (Q @ [f])"
  by (auto simp: line_def)

section \<open>Flows\<close>

text \<open>The stream \<open>s\<close> serves what was dispatched to it of what the other end passed on; the rest is on the way or lost.\<close>

definition carries :: "mux \<Rightarrow> frame list \<Rightarrow> bool \<Rightarrow> mux_stream \<Rightarrow> bool" where
  "carries a fs r s \<longleftrightarrow> (\<exists>d lost. source a (ms_id s) = d @ data_of (ms_id s) fs @ lost \<and> (mx_writing a \<longrightarrow> lost = []) \<and> serves r s d)"

definition flow :: "mux \<Rightarrow> mux \<Rightarrow> frame list \<Rightarrow> bool" where
  "flow a b fs \<longleftrightarrow> (\<forall>k < length (mx_tab b). carries a fs (registered b k) (mx_tab b ! k))
     \<and> (\<forall>f \<in> set fs. f_type f = frame_data \<longrightarrow> f_stream f \<in> set (ids a))"

lemma carriesI:
  "source a (ms_id s) = d @ data_of (ms_id s) fs @ lost \<Longrightarrow> (mx_writing a \<longrightarrow> lost = []) \<Longrightarrow> serves r s d \<Longrightarrow> carries a fs r s"
  unfolding carries_def by blast

lemma carries_mono: "carries a fs r s \<Longrightarrow> (r' \<longrightarrow> r) \<Longrightarrow> carries a fs r' s"
  by (auto simp: carries_def intro: serves_mono)

lemma carries_benign: "carries a fs r s \<Longrightarrow> benign s s' \<Longrightarrow> carries a fs r s'"
  unfolding carries_def benign_def by metis

lemma registered_calm: "calm m m' \<Longrightarrow> k < length (mx_tab m) \<Longrightarrow> registered m' k \<Longrightarrow> registered m k"
  using calm_nth [of m m' k] by (auto simp: registered_def calm_def benign_def)

lemma flow_receiver: "flow a b fs \<Longrightarrow> calm b b' \<Longrightarrow> flow a b' fs"
  unfolding flow_def using calm_length [of b b'] calm_nth [of b b'] registered_calm [of b b']
  by (metis carries_benign carries_mono)

text \<open>A sender that stops writing loses what it holds.\<close>

lemma flow_sender:
  assumes "flow a b (pending a P Q)" and "\<And>i. source a' i = source a i" and "ids a' = ids a" and "mx_writing a' \<longrightarrow> mx_writing a"
  shows "flow a' b (pending a' P Q)"
proof -
  have "carries a' (pending a' P Q) r s" if "carries a (pending a P Q) r s" for r s
  proof -
    obtain d lost where d: "source a (ms_id s) = d @ data_of (ms_id s) (pending a P Q) @ lost" "mx_writing a \<longrightarrow> lost = []" "serves r s d"
      using \<open>carries a _ r s\<close> by (auto simp: carries_def)
    show ?thesis
    proof (cases "mx_writing a' = mx_writing a")
      case True
      then show ?thesis using d assms(2) by (auto simp: carries_def pending_def)
    next
      case False
      then have "source a' (ms_id s) = d @ data_of (ms_id s) (pending a' P Q) @ data_of (ms_id s) Q"
        using d(1,2) assms(2,4) by (simp add: pending_def)
      then show ?thesis using d(3) False assms(4) by (auto simp: carries_def)
    qed
  qed
  moreover have "set (pending a' P Q) \<subseteq> set (pending a P Q)" using assms(4) by (auto simp: pending_def)
  ultimately show ?thesis using assms(1,3) by (auto simp: flow_def)
qed

lemma pending_send: "pending m P (Q @ [f]) = pending m P Q @ (if mx_writing m then [f] else [])"
  by (simp add: pending_def)

lemma pending_cong: "mx_writing m' = mx_writing m \<Longrightarrow> pending m' P Q = pending m P Q"
  by (simp add: pending_def)

lemma flow_send:
  assumes "flow a b (pending a P Q)" and "\<And>i. source a' i = source a i" and "ids a' = ids a" and "mx_writing a' = mx_writing a"
    and "f_type f \<noteq> frame_data"
  shows "flow a' b (pending a' P (Q @ [f]))"
  using assms by (auto simp: flow_def carries_def pending_send pending_cong [OF assms(4)])

lemma flow_pass:
  assumes flow: "flow a b (pending a P Q)"
    and src: "\<And>j. source a' j = source a j @ (if j = i then [p] else [])" and "ids a' = ids a" and "mx_writing a' = mx_writing a"
    and "i \<in> set (ids a)" and f: "f_type f = frame_data" "f_stream f = i" "f_payload f = p"
  shows "flow a' b (pending a' P (Q @ [f]))"
proof -
  have "carries a' (pending a' P (Q @ [f])) r s" if c: "carries a (pending a P Q) r s" for r s
  proof -
    obtain d lost where d: "source a (ms_id s) = d @ data_of (ms_id s) (pending a P Q) @ lost" "mx_writing a \<longrightarrow> lost = []" "serves r s d"
      using c by (auto simp: carries_def)
    show ?thesis
    proof (cases "mx_writing a")
      case True
      then show ?thesis using d assms by (auto simp: carries_def pending_send pending_cong [OF assms(4)])
    next
      case False
      then have "source a' (ms_id s) = d @ data_of (ms_id s) (pending a' P (Q @ [f])) @ lost @ (if ms_id s = i then [p] else [])"
        using d src assms(4) by (simp add: pending_def)
      then show ?thesis using d(3) False assms(4) unfolding carries_def by blast
    qed
  qed
  then show ?thesis using assms by (auto simp: flow_def pending_send pending_cong [OF assms(4)])
qed

lemma flow_wider:
  assumes "flow a b fs" and "\<And>i. source a' i = source a i" and "set (ids a) \<subseteq> set (ids a')" and "mx_writing a' = mx_writing a"
  shows "flow a' b fs"
  using assms by (auto simp: flow_def carries_def)

lemma registered_add:
  "k < length (mx_tab b) \<Longrightarrow> registered (add_stream s b) k \<Longrightarrow> registered b k"
  by (auto simp: registered_def add_stream_def nth_append split: if_splits)

text \<open>A stream that is new at the receiver.\<close>

lemma flow_add:
  assumes "flow a b fs" and "ms_wrote s = []" "ms_queue s = []" "ms_cut s = []" "active s"
    and "source a (ms_id s) = data_of (ms_id s) fs @ lost" and "mx_writing a \<longrightarrow> lost = []"
  shows "flow a (add_stream s b) fs"
proof -
  have "serves r s []" for r using assms(2-5) by (simp add: serves_def)
  then have new: "carries a fs r s" for r using assms(6,7) by (force simp: carries_def)
  have "carries a fs (registered (add_stream s b) k) (mx_tab (add_stream s b) ! k)" if "k < length (mx_tab (add_stream s b))" for k
  proof (cases "k < length (mx_tab b)")
    case True
    then have "carries a fs (registered b k) (mx_tab b ! k)" using assms(1) by (simp add: flow_def)
    then show ?thesis using registered_add [OF True] True by (auto simp: add_stream_def nth_append intro: carries_mono)
  next
    case False
    then show ?thesis using that new by (simp add: add_stream_def nth_append)
  qed
  then show ?thesis using assms(1) by (auto simp: flow_def)
qed

lemma flow_skip: "flow a b (f # fs) \<Longrightarrow> f_type f \<noteq> frame_data \<Longrightarrow> flow a b fs"
  by (auto simp: flow_def carries_def)

text \<open>A DATA frame reaches the stream that the table names, or is dropped by every stream with its id.\<close>

lemma carries_dropped:
  assumes "carries a (f # fs) r s" and "ms_closed s \<or> \<not> r \<or> \<not> active s \<or> ms_id s \<noteq> f_stream f"
  shows "carries a fs r s"
proof -
  obtain d lost where d: "source a (ms_id s) = d @ data_of (ms_id s) (f # fs) @ lost" "mx_writing a \<longrightarrow> lost = []" "serves r s d"
    using assms(1) by (auto simp: carries_def)
  show ?thesis
  proof (cases "f_type f = frame_data \<and> f_stream f = ms_id s")
    case True
    then have "source a (ms_id s) = (d @ [f_payload f]) @ data_of (ms_id s) fs @ lost" using d(1) by simp
    moreover have "serves r s (d @ [f_payload f])" using d(3) assms(2) True by (intro serves_more) auto
    ultimately show ?thesis using d(2) unfolding carries_def by blast
  next
    case False
    then show ?thesis using d by (auto simp: carries_def)
  qed
qed

lemma carries_queued:
  assumes "carries a (f # fs) True s" and "f_type f = frame_data" and "f_stream f = ms_id s"
  shows "carries a fs True (s\<lparr>ms_queue := ms_queue s @ [f_payload f]\<rparr>)"
proof -
  obtain d lost where d: "source a (ms_id s) = d @ data_of (ms_id s) (f # fs) @ lost" "mx_writing a \<longrightarrow> lost = []" "serves True s d"
    using assms(1) by (auto simp: carries_def)
  then have "source a (ms_id s) = (d @ [f_payload f]) @ data_of (ms_id s) fs @ lost" using assms(2,3) by simp
  then show ?thesis using d(2) serves_queued [OF d(3)] by (intro carriesI [where d = "d @ [f_payload f]"]) auto
qed

lemma same_id: "distinct (ids m) \<Longrightarrow> k < length (mx_tab m) \<Longrightarrow> j < length (mx_tab m) \<Longrightarrow> ms_id (mx_tab m ! k) = ms_id (mx_tab m ! j) \<Longrightarrow> k = j"
  by (auto simp: ids_def distinct_conv_nth)

lemma entry:
  assumes "mux_ok m" and "mx_streams m i = Some k"
  shows "k < length (mx_tab m) \<and> ms_id (mx_tab m ! k) = i \<and> registered m k"
proof -
  have "k < length (ids m) \<and> ids m ! k = i" using assms by (simp add: mux_ok_def)
  then show ?thesis using assms(2) by (auto simp: ids_def registered_def)
qed

definition announcing :: "mux \<Rightarrow> 32 word \<Rightarrow> bool" where
  "announcing m i \<longleftrightarrow> (\<exists>s \<in> set (mx_tab m). ms_id s = i \<and> ms_serve s = Announcing)"

text \<open>What the sender of an end looks like from outside stays as it is.\<close>

definition steady :: "mux \<Rightarrow> mux \<Rightarrow> bool" where
  "steady a a' \<longleftrightarrow> (\<forall>i. source a' i = source a i) \<and> ids a' = ids a \<and> mx_out a' = mx_out a \<and> mx_next a' = mx_next a
     \<and> (mx_writing a' \<longrightarrow> mx_writing a) \<and> (\<forall>i. announcing a' i \<longrightarrow> announcing a i)"

definition alike :: "mux_stream \<Rightarrow> mux_stream \<Rightarrow> bool" where
  "alike s s' \<longleftrightarrow> ms_id s' = ms_id s \<and> ms_read s' = ms_read s \<and> (ms_serve s' = Announcing \<longrightarrow> ms_serve s = Announcing)"

lemma alike_tabs:
  assumes "list_all2 alike (mx_tab a) (mx_tab a')"
  shows "(\<forall>i. source a' i = source a i) \<and> ids a' = ids a \<and> (\<forall>i. announcing a' i \<longrightarrow> announcing a i)"
  unfolding source_def ids_def announcing_def using assms
  by (induction rule: list_all2_induct) (auto simp: alike_def)

lemma alike_steady:
  "list_all2 alike (mx_tab a) (mx_tab a') \<Longrightarrow> mx_out a' = mx_out a \<Longrightarrow> mx_next a' = mx_next a \<Longrightarrow> (mx_writing a' \<longrightarrow> mx_writing a) \<Longrightarrow> steady a a'"
  using alike_tabs unfolding steady_def by blast

lemma calm_steady: "calm a a' \<Longrightarrow> steady a a'"
  by (rule alike_steady) (auto simp: calm_def alike_def benign_def elim: list_all2_mono)

lemma alike_update: "alike (xs ! k) y \<Longrightarrow> list_all2 alike xs (xs[k := y])"
  by (cases "k < length xs") (auto simp: list_all2_conv_all_nth nth_list_update alike_def)

lemma steady_queue: "steady m (m\<lparr>mx_tab := (mx_tab m)[k := (mx_tab m ! k)\<lparr>ms_queue := q\<rparr>]\<rparr>)"
  by (rule alike_steady) (simp_all add: alike_update alike_def)

lemma flow_steady:
  "flow a b (pending a P Q) \<Longrightarrow> steady a a' \<Longrightarrow> flow a' b (pending a' P Q)"
  by (rule flow_sender) (auto simp: steady_def)

text \<open>What a frame does to the stream that it names.\<close>

lemma dispatch_cases:
  assumes "dispatch_data choice i p m = Some m'"
  obtains "mx_streams m i = None" "m' = m"
  | k where "mx_streams m i = Some k" "length (ms_queue (mx_tab m ! k)) < conn_queue"
      "m' = m\<lparr>mx_tab := (mx_tab m)[k := (mx_tab m ! k)\<lparr>ms_queue := ms_queue (mx_tab m ! k) @ [p]\<rparr>]\<rparr>"
  | k where "mx_streams m i = Some k" "ms_closed (mx_tab m ! k)" "m' = m"
  | k where "mx_streams m i = Some k" "m' = close_stream k m"
proof (cases "mx_streams m i")
  case None
  then have "m' = m" using assms by (simp add: dispatch_data_def)
  then show ?thesis by (rule that(1) [OF None])
next
  case (Some k)
  note run = assms [unfolded dispatch_data_def Some option.case Let_def]
  consider "choice" | "\<not> choice" "ms_closed (mx_tab m ! k)" | "\<not> choice" "\<not> ms_closed (mx_tab m ! k)" by blast
  then show ?thesis
  proof cases
    case 1
    with run have "length (ms_queue (mx_tab m ! k)) < conn_queue"
      and "m' = m\<lparr>mx_tab := (mx_tab m)[k := (mx_tab m ! k)\<lparr>ms_queue := ms_queue (mx_tab m ! k) @ [p]\<rparr>]\<rparr>"
      by (simp_all split: if_splits)
    then show ?thesis by (rule that(2) [OF Some])
  next
    case 2
    with run have "m' = m" by simp
    with 2 show ?thesis by (intro that(3) [OF Some])
  next
    case 3
    with run have "m' = close_stream k m" by (simp split: if_splits)
    then show ?thesis by (rule that(4) [OF Some])
  qed
qed

lemma dispatch_ok:
  assumes ok: "mux_ok b" and "dispatch_data choice i p b = Some b'"
  shows "mux_ok b' \<and> steady b b'"
  using assms(2)
proof (cases rule: dispatch_cases)
  case (2 k)
  have k: "k < length (mx_tab b)" using entry [OF ok 2(1)] by simp
  have st: "steady b b'" unfolding 2(3) by (rule steady_queue)
  moreover have "quiet s \<and> length (ms_queue s) \<le> conn_queue" if "s \<in> set (mx_tab b')" for s
    using that ok k 2(2) unfolding 2(3) by (auto simp: mux_ok_def quiet_def dest!: set_update_subset_insert [THEN subsetD])
  ultimately show ?thesis using ok unfolding mux_ok_def by (auto simp: steady_def 2(3))
qed (use ok in \<open>auto intro: calm_steady mux_ok_calm\<close>)

lemma flow_dispatch:
  assumes ok: "mux_ok b" and flow: "flow a b (f # fs)" and f: "f_type f = frame_data"
    and go: "dispatch_data choice (f_stream f) (f_payload f) b = Some b'"
  shows "flow a b' fs"
proof -
  have old: "carries a (f # fs) (registered b k) (mx_tab b ! k)" if "k < length (mx_tab b)" for k
    using flow that by (simp add: flow_def)
  have other: "carries a fs (registered b k) (mx_tab b ! k)"
    if "k < length (mx_tab b)" "mx_streams b (f_stream f) \<noteq> Some k \<or> ms_closed (mx_tab b ! k)" for k
    using that by (intro carries_dropped [OF old]) (auto simp: registered_def)
  have ids: "\<forall>g \<in> set fs. f_type g = frame_data \<longrightarrow> f_stream g \<in> set (ids a)" using flow by (simp add: flow_def)
  from go show ?thesis
  proof (cases rule: dispatch_cases)
    case 1
    then show ?thesis using other ids by (simp add: flow_def)
  next
    case (2 k)
    let ?s = "mx_tab b ! k"
    have k: "k < length (mx_tab b)" "ms_id ?s = f_stream f" "registered b k" using entry [OF ok 2(1)] by auto
    have "carries a fs True (?s\<lparr>ms_queue := ms_queue ?s @ [f_payload f]\<rparr>)"
      by (rule carries_queued) (use old [OF k(1)] k f in auto)
    moreover have "registered b' j \<longrightarrow> registered b j" if "j < length (mx_tab b)" for j
      using that k by (auto simp: registered_def 2(3) nth_list_update split: if_splits)
    ultimately have "carries a fs (registered b' j) (mx_tab b' ! j)" if "j < length (mx_tab b)" for j
      using other [of j] 2(1) that k(1) by (cases "j = k") (auto simp: 2(3) nth_list_update intro: carries_mono)
    then show ?thesis using ids by (simp add: flow_def 2(3))
  next
    case (3 k)
    then show ?thesis using other ids by (auto simp: flow_def)
  next
    case (4 k)
    let ?b = "close_stream k b"
    have k: "k < length (mx_tab b)" using entry [OF ok 4(1)] by simp
    have closed: "flow a ?b (f # fs)" by (rule flow_receiver [OF flow calm_close])
    have "carries a fs (registered ?b j) (mx_tab ?b ! j)" if j: "j < length (mx_tab b)" for j
    proof (cases "j = k")
      case True
      have "ms_closed (mx_tab ?b ! j)" using True j by (simp add: close_stream_def)
      moreover have "carries a (f # fs) (registered ?b j) (mx_tab ?b ! j)"
        using closed j calm_length [OF calm_close, of k b] unfolding flow_def by simp
      ultimately show ?thesis using carries_dropped by blast
    next
      case False
      then have "mx_tab ?b ! j = mx_tab b ! j" "registered ?b j = registered b j"
        by (simp_all add: close_stream_def registered_def)
      then show ?thesis using other [OF j] False 4(1) by simp
    qed
    then show ?thesis using ids 4(2) by (simp add: flow_def close_stream_def)
  qed
qed

section \<open>Announcements\<close>

text \<open>The pump learns of a stream by its OPEN, which the relay sends once and before the data.\<close>

definition opens_well :: "mux \<Rightarrow> mux \<Rightarrow> frame list \<Rightarrow> 32 word \<Rightarrow> bool" where
  "opens_well a b fs i \<longleftrightarrow>
     (announcing a i \<longrightarrow> after_open i fs = None \<and> data_of i fs = [] \<and> i \<notin> set (ids b) \<and> source a i = [])
   \<and> (\<forall>gs. after_open i fs = Some gs \<longrightarrow> i \<notin> set (ids b) \<and> after_open i gs = None \<and> data_of i fs = data_of i gs
       \<and> (\<exists>lost. source a i = data_of i gs @ lost \<and> (mx_writing a \<longrightarrow> lost = [])))"

definition announces :: "mux \<Rightarrow> mux \<Rightarrow> frame list \<Rightarrow> bool" where
  "announces a b fs \<longleftrightarrow> set (ids b) \<subseteq> set (ids a) \<and> (\<forall>f \<in> set fs. f_type f = frame_open \<longrightarrow> f_stream f \<in> set (ids a))
     \<and> (\<forall>i \<in> set (ids a). opens_well a b fs i)"

lemma announces_receiver: "announces a b fs \<Longrightarrow> ids b' = ids b \<Longrightarrow> announces a b' fs"
  by (simp add: announces_def opens_well_def)

lemma announces_sender:
  assumes "announces a b (pending a P Q)" and "steady a a'"
  shows "announces a' b (pending a' P Q)"
proof -
  have "opens_well a' b (pending a' P Q) i" if "opens_well a b (pending a P Q) i" for i
  proof (cases "mx_writing a' = mx_writing a")
    case True
    then show ?thesis using that assms(2) by (auto simp: opens_well_def steady_def pending_def)
  next
    case False
    then have w: "mx_writing a" "\<not> mx_writing a'" using assms(2) by (auto simp: steady_def)
    then have well: "opens_well a b (P @ Q) i" using that by (simp add: pending_def)
    have "opens_well a' b P i" unfolding opens_well_def
    proof (intro conjI impI allI)
      assume "announcing a' i"
      then have "announcing a i" using assms(2) by (simp add: steady_def)
      then show "after_open i P = None" "data_of i P = []" "i \<notin> set (ids b)" "source a' i = []"
        using well assms(2) by (auto simp: opens_well_def after_open_append steady_def split: option.splits)
    next
      fix gs assume "after_open i P = Some gs"
      then have "after_open i (P @ Q) = Some (gs @ Q)" by (simp add: after_open_append)
      then have *: "i \<notin> set (ids b)" "after_open i (gs @ Q) = None" "data_of i (P @ Q) = data_of i (gs @ Q)"
        "source a i = data_of i (gs @ Q)"
        using well w unfolding opens_well_def by auto
      then show "i \<notin> set (ids b)" "after_open i gs = None" "data_of i P = data_of i gs"
        by (auto simp: after_open_append split: option.splits)
      show "\<exists>lost. source a' i = data_of i gs @ lost \<and> (mx_writing a' \<longrightarrow> lost = [])"
        using *(4) w(2) assms(2) by (simp add: steady_def)
    qed
    then show ?thesis using w(2) by (simp add: pending_def)
  qed
  moreover have "set (pending a' P Q) \<subseteq> set (pending a P Q)" using assms(2) by (auto simp: pending_def steady_def)
  ultimately show ?thesis using assms unfolding announces_def by (auto simp: steady_def)
qed

text \<open>Same as \<open>steady\<close>, but for what is held for the writer.\<close>

definition sends :: "frame \<Rightarrow> mux \<Rightarrow> mux \<Rightarrow> bool" where
  "sends f a a' \<longleftrightarrow> frame_wf f \<and> length (mx_out a) < out_queue \<and> mx_out a' = mx_out a @ [wire f] \<and> ids a' = ids a
     \<and> mx_writing a' = mx_writing a \<and> mx_next a' = mx_next a"

lemma announces_send:
  assumes "announces a b (pending a P Q)" and "sends f a a'" and "\<And>i. source a' i = source a i" and "\<And>i. announcing a' i \<Longrightarrow> announcing a i"
    and "f_type f \<noteq> frame_data" and "f_type f \<noteq> frame_open"
  shows "announces a' b (pending a' P (Q @ [f]))"
  using assms unfolding announces_def opens_well_def sends_def
  by (auto simp: pending_send pending_cong [of a' a] after_open_append split: option.splits)

lemma announces_announce:
  assumes op: "announces a b (pending a P Q)" and "sends f a a'" and "\<And>i. source a' i = source a i" and "\<And>i. announcing a' i \<Longrightarrow> announcing a i"
    and f: "f_type f = frame_open" "f_stream f = i" and i: "i \<in> set (ids a)" "announcing a i" "\<not> announcing a' i"
  shows "announces a' b (pending a' P (Q @ [f]))"
proof -
  have "opens_well a' b (pending a' P (Q @ [f])) j" if "j \<in> set (ids a)" for j
  proof (cases "j = i")
    case True
    have "opens_well a b (pending a P Q) i" using op i(1) by (simp add: announces_def)
    then show ?thesis using True assms(2,3) f i(2,3)
      by (auto simp: opens_well_def sends_def pending_send pending_cong [of a' a] after_open_append split: option.splits)
  next
    case False
    have "opens_well a b (pending a P Q) j" using op that by (simp add: announces_def)
    then show ?thesis using False assms(2-4) f
      by (auto simp: opens_well_def sends_def pending_send pending_cong [of a' a] after_open_append split: option.splits)
  qed
  then show ?thesis using op assms(2) f i(1)
    by (auto simp: announces_def sends_def pending_send pending_cong [of a' a])
qed

lemma announces_pass:
  assumes op: "announces a b (pending a P Q)" and "sends f a a'" and src: "\<And>j. source a' j = source a j @ (if j = i then [p] else [])"
    and "\<And>i. announcing a' i \<Longrightarrow> announcing a i" and f: "f_type f = frame_data" "f_stream f = i" "f_payload f = p" and i: "\<not> announcing a i"
  shows "announces a' b (pending a' P (Q @ [f]))"
proof -
  have "opens_well a' b (pending a' P (Q @ [f])) j" if "j \<in> set (ids a)" for j
  proof (cases "mx_writing a")
    case True
    have "opens_well a b (pending a P Q) j" using op that by (simp add: announces_def)
    then show ?thesis using True assms
      by (auto simp: opens_well_def sends_def pending_send pending_cong [of a' a] after_open_append split: option.splits)
  next
    case False
    have "opens_well a b (pending a P Q) j" using op that by (simp add: announces_def)
    then show ?thesis using False assms
      by (auto simp: opens_well_def sends_def pending_def split: option.splits)
  qed
  then show ?thesis using op assms(2) f
    by (auto simp: announces_def sends_def pending_send pending_cong [of a' a])
qed

lemma announces_skip:
  assumes "announces a b (f # fs)" and "f_type f \<noteq> frame_open"
  shows "announces a b fs"
proof -
  have "opens_well a b fs i" if "opens_well a b (f # fs) i" for i
    using that assms(2) by (auto simp: opens_well_def split: if_splits dest: data_not_first)
  then show ?thesis using assms(1) by (auto simp: announces_def)
qed

section \<open>Actions of an end\<close>

lemma set_ids: "k < length (mx_tab m) \<Longrightarrow> ms_id (mx_tab m ! k) \<in> set (ids m)"
  by (simp add: ids_def)

lemma put_frameD:
  "put_frame i t p m = Some m' \<Longrightarrow> valid_type t \<Longrightarrow>
     m' = m\<lparr>mx_out := mx_out m @ [wire \<lparr>f_stream = i, f_type = t, f_payload = p\<rparr>]\<rparr>
     \<and> frame_wf \<lparr>f_stream = i, f_type = t, f_payload = p\<rparr> \<and> length (mx_out m) < out_queue"
  using encode_frameD [of "\<lparr>f_stream = i, f_type = t, f_payload = p\<rparr>"]
  by (auto simp: put_frame_def frame_wf_def split: sum.splits if_splits)

lemma valid_types [simp]: "valid_type frame_data" "valid_type frame_open" "valid_type frame_close" "valid_type frame_ready"
  by (simp_all add: valid_type_def)

lemma local_Some: "local f (m, ins, outs) = Some d \<longleftrightarrow> (\<exists>m'. f m = Some m' \<and> d = (m', ins, outs))"
  by (auto simp: local_def)

lemma tell_cases:
  assumes "tell_close k m = Some m'"
  shows "calm m m' \<or> (\<exists>f a. f_type f = frame_close \<and> frame_wf f \<and> length (mx_out m) < out_queue
     \<and> a = m\<lparr>mx_out := mx_out m @ [wire f]\<rparr> \<and> calm a m')"
proof -
  let ?s = "mx_tab m ! k" and ?f = "\<lparr>f_stream = ms_id (mx_tab m ! k), f_type = frame_close, f_payload = []\<rparr>"
  have gone: "calm a a'" if "on_stream k (serving_at Gone) a = Some a'" for a a'
    using that by (rule calm_on_stream) (erule benign_serving [where y = True], simp)
  obtain always where run: "(if ms_peer ?s \<and> \<not> always then on_stream k (serving_at Gone) m
      else Option.bind (put_frame (ms_id ?s) frame_close [] m) (on_stream k (serving_at Gone))) = Some m'"
    using assms by (auto simp: tell_close_def Let_def split: if_splits serving.splits)
  show ?thesis
  proof (cases "ms_peer ?s \<and> \<not> always")
    case True
    then show ?thesis using run gone by simp
  next
    case False
    then obtain a where "put_frame (ms_id ?s) frame_close [] m = Some a" "on_stream k (serving_at Gone) a = Some m'"
      using run by (auto simp: bind_eq_Some_conv)
    then show ?thesis using put_frameD [of "ms_id ?s" frame_close "[]" m a] gone
      by (intro disjI2 exI [of _ ?f] exI [of _ a]) simp
  qed
qed

text \<open>The end at index \<open>k\<close> passes on a chunk.\<close>

definition passes :: "nat \<Rightarrow> string \<Rightarrow> mux \<Rightarrow> mux \<Rightarrow> bool" where
  "passes k b m m' \<longleftrightarrow> k < length (mx_tab m) \<and> ms_reader (mx_tab m ! k) = Holding b \<and> length (mx_out m) < out_queue
     \<and> frame_wf \<lparr>f_stream = ms_id (mx_tab m ! k), f_type = frame_data, f_payload = b\<rparr>
     \<and> m' = m\<lparr>mx_out := mx_out m @ [wire \<lparr>f_stream = ms_id (mx_tab m ! k), f_type = frame_data, f_payload = b\<rparr>],
         mx_tab := (mx_tab m)[k := (mx_tab m ! k)\<lparr>ms_reader := Reading, ms_read := ms_read (mx_tab m ! k) @ [b]\<rparr>]\<rparr>"

lemma pass_cases:
  assumes "pass_chunk k m = Some m'"
  shows "\<exists>b. passes k b m m'"
proof -
  obtain b a where b: "k < length (mx_tab m)" "ms_reader (mx_tab m ! k) = Holding b"
    "put_frame (ms_id (mx_tab m ! k)) frame_data b m = Some a" "on_stream k (passed b) a = Some m'"
    using assms by (auto simp: pass_chunk_def bind_eq_Some_conv split: if_splits reader.splits)
  then show ?thesis using put_frameD [OF b(3)] by (intro exI [of _ b]) (auto simp: passes_def on_stream_def passed_def)
qed

lemma shared_cases:
  assumes "shared_act x (m, ins, outs) = Some (m', ins', outs')"
  obtains (calm) "calm m m'" "ins' = ins" "outs' = outs"
  | (close) f a where "f_type f = frame_close" "frame_wf f" "length (mx_out m) < out_queue"
      "a = m\<lparr>mx_out := mx_out m @ [wire f]\<rparr>" "calm a m'" "ins' = ins" "outs' = outs"
  | (pass) k b where "passes k b m m'" "ins' = ins" "outs' = outs"
  | (out) b r where "mx_out m = b # r" "mx_writing m" "m' = m\<lparr>mx_out := r\<rparr>" "ins' = ins" "outs' = outs @ b"
  | (broken) b r n where "mx_out m = b # r" "mx_writing m" "n < length b"
      "m' = m\<lparr>mx_out := r, mx_writing := False, mx_done := True\<rparr>" "ins' = ins" "outs' = outs @ take n b"
proof -
  have local: thesis if "local f (m, ins, outs) = Some (m', ins', outs')" "\<And>a. f m = Some a \<Longrightarrow> calm m a" for f
    using that calm by (auto simp: local_Some)
  have stream: thesis if "local (\<lambda>m. on_stream k (f m) m) (m, ins, outs) = Some (m', ins', outs')" "\<And>s s'. f m s = Some s' \<Longrightarrow> benign s s'" for k f
    using that(1) by (rule local) (erule calm_on_stream, erule that(2))
  show thesis
  proof (cases x)
    case WriteOut
    then show ?thesis using assms out by (auto simp: write_out_def split: list.splits if_splits)
  next
    case (WriteBroken n)
    then show ?thesis using assms broken by (auto simp: write_broken_def split: list.splits if_splits)
  next
    case (PassChunk k)
    then obtain "pass_chunk k m = Some m'" "ins' = ins" "outs' = outs" using assms by (auto simp: local_Some)
    then show ?thesis using pass_cases [of k m m'] pass by blast
  next
    case (TellClose k)
    then obtain "tell_close k m = Some m'" "ins' = ins" "outs' = outs" using assms by (auto simp: local_Some)
    then show ?thesis using tell_cases [of k m m'] calm close by blast
  next
    case (Doom k)
    show ?thesis by (rule local [of "doom k"]) (use assms Doom in \<open>auto simp: doom_def split: if_splits\<close>)
  next
    case StopWriting
    show ?thesis by (rule local [of stop_writing]) (use assms StopWriting in \<open>auto simp: stop_writing_def split: if_splits\<close>)
  qed (use assms in \<open>auto intro: benign_reads benign_write benign_failed benign_leave benign_skip elim!: local stream\<close>)
qed

section \<open>The invariant\<close>

text \<open>An end that sends to \<open>b\<close>, with the frames \<open>fs\<close> that \<open>b\<close> has on the way to it.\<close>

definition wired :: "mux \<Rightarrow> mux \<Rightarrow> string \<Rightarrow> frame list \<Rightarrow> frame list \<Rightarrow> frame list \<Rightarrow> bool" where
  "wired a b outs P Q fs \<longleftrightarrow> mux_ok a \<and> line a outs P Q \<and> flow a b (pending a P Q) \<and> flow b a fs"

lemma wired_calm:
  assumes "wired a b outs P Q fs" and "calm a a'"
  shows "wired a' b outs P Q fs"
  using assms flow_steady [OF _ calm_steady] flow_receiver line_calm mux_ok_calm unfolding wired_def by blast

lemma wired_send:
  assumes "wired a b outs P Q fs" and "frame_wf f" and "length (mx_out a) < out_queue" and "f_type f \<noteq> frame_data"
    and a': "a' = a\<lparr>mx_out := mx_out a @ [wire f]\<rparr>"
  shows "wired a' b outs P (Q @ [f]) fs"
proof -
  have same: "source a' i = source a i" "ids a' = ids a" "mx_writing a' = mx_writing a" for i
    by (simp_all add: a' source_def ids_def)
  have "mux_ok a'" using assms(1,3) unfolding wired_def mux_ok_def same(2) by (simp add: a')
  moreover have "line a' outs P (Q @ [f])" by (rule line_send) (use assms in \<open>auto simp: wired_def\<close>)
  moreover have "flow a' b (pending a' P (Q @ [f]))"
    by (rule flow_send [OF _ same assms(4)]) (use assms(1) in \<open>simp add: wired_def\<close>)
  moreover have "flow b a' fs" using assms(1) by (simp add: wired_def flow_def a' registered_def)
  ultimately show ?thesis by (simp add: wired_def)
qed

lemma source_pass:
  assumes "distinct (ids a)" and "passes k b a a'"
  shows "source a' j = source a j @ (if j = ms_id (mx_tab a ! k) then [b] else [])"
proof -
  let ?s = "(mx_tab a ! k)\<lparr>ms_reader := Reading, ms_read := ms_read (mx_tab a ! k) @ [b]\<rparr>"
  have k: "k < length (mx_tab a)" and tab: "mx_tab a' = (mx_tab a)[k := ?s]" using assms(2) by (auto simp: passes_def)
  have same: "source a' j = source (a\<lparr>mx_tab := (mx_tab a)[k := ?s]\<rparr>) j" by (simp add: source_def tab)
  show ?thesis
  proof (cases "j = ms_id (mx_tab a ! k)")
    case True
    have "ids a' = ids a" unfolding ids_def tab by (simp add: map_update) (metis list_update_id map_update)
    then have "source a' (ms_id (mx_tab a' ! k)) = ms_read (mx_tab a' ! k)" using assms(1) k tab by (intro source_nth) auto
    then show ?thesis using True source_nth [OF assms(1) k] k tab by simp
  next
    case False
    then show ?thesis using same source_outside [OF k, of ?s j] by simp
  qed
qed

lemma passes_same:
  assumes "passes k b a a'"
  shows "ids a' = ids a" "mx_writing a' = mx_writing a" "mx_next a' = mx_next a" "mx_streams a' = mx_streams a"
    "announcing a' i \<Longrightarrow> announcing a i"
proof -
  let ?s = "(mx_tab a ! k)\<lparr>ms_reader := Reading, ms_read := ms_read (mx_tab a ! k) @ [b]\<rparr>"
  have tab: "mx_tab a' = (mx_tab a)[k := ?s]" and k: "k < length (mx_tab a)" using assms by (auto simp: passes_def)
  show "ids a' = ids a" unfolding ids_def tab by (simp add: map_update) (metis list_update_id map_update)
  show "announcing a i" if ann: "announcing a' i"
  proof -
    obtain s where s: "s \<in> set (mx_tab a')" "ms_id s = i" "ms_serve s = Announcing" using ann by (auto simp: announcing_def)
    then have "s = ?s \<or> s \<in> set (mx_tab a)" using set_update_subset_insert [of "mx_tab a" k ?s] by (auto simp: tab)
    then show ?thesis using s(2,3) nth_mem [OF k] by (auto simp: announcing_def)
  qed
qed (use assms in \<open>simp_all add: passes_def\<close>)

lemma wired_pass:
  assumes w: "wired a b outs P Q fs" and p: "passes k c a a'"
  shows "\<exists>f. wired a' b outs P (Q @ [f]) fs \<and> f_type f = frame_data \<and> f_stream f = ms_id (mx_tab a ! k) \<and> f_payload f = c \<and> sends f a a'"
proof -
  define f where "f = \<lparr>f_stream = ms_id (mx_tab a ! k), f_type = frame_data, f_payload = c\<rparr>"
  note same = passes_same [OF p]
  have a': "mx_out a' = mx_out a @ [wire f]" "frame_wf f" "k < length (mx_tab a)" "length (mx_out a) < out_queue"
    and tab: "mx_tab a' = (mx_tab a)[k := (mx_tab a ! k)\<lparr>ms_reader := Reading, ms_read := ms_read (mx_tab a ! k) @ [c]\<rparr>]"
    using p by (auto simp: passes_def f_def)
  have ok: "mux_ok a" using w by (simp add: wired_def)
  have holding: "ms_reader (mx_tab a ! k) = Holding c" using p by (simp add: passes_def)
  have "quiet (mx_tab a ! k)" using ok a'(3) by (simp add: mux_ok_def)
  then have "quiet s \<and> length (ms_queue s) \<le> conn_queue" if "s \<in> set (mx_tab a')" for s
    using that ok a'(3) holding unfolding tab by (auto simp: mux_ok_def quiet_def dest!: set_update_subset_insert [THEN subsetD])
  then have "mux_ok a'" using ok a'(1,4) unfolding mux_ok_def same(1,4) by simp
  moreover have "line a' outs P (Q @ [f])" by (rule line_send) (use w a' same in \<open>auto simp: wired_def\<close>)
  moreover have "flow a' b (pending a' P (Q @ [f]))"
    by (rule flow_pass [where i = "ms_id (mx_tab a ! k)" and p = c])
       (use w ok source_pass [OF _ p] same a'(3) in \<open>auto simp: wired_def mux_ok_def f_def set_ids\<close>)
  moreover have "flow b a' fs"
  proof -
    have "carries b fs (registered a' j) (mx_tab a' ! j)" if j: "j < length (mx_tab a)" for j
    proof -
      have "mx_tab a' ! j = (if j = k then (mx_tab a ! k)\<lparr>ms_reader := Reading, ms_read := ms_read (mx_tab a ! k) @ [c]\<rparr> else mx_tab a ! j)"
        using j by (simp add: tab nth_list_update)
      then have eq: "ms_serve (mx_tab a' ! j) = ms_serve (mx_tab a ! j)" "ms_wrote (mx_tab a' ! j) = ms_wrote (mx_tab a ! j)"
        "ms_queue (mx_tab a' ! j) = ms_queue (mx_tab a ! j)" "ms_cut (mx_tab a' ! j) = ms_cut (mx_tab a ! j)"
        "ms_closed (mx_tab a' ! j) = ms_closed (mx_tab a ! j)" "ms_id (mx_tab a' ! j) = ms_id (mx_tab a ! j)"
        by simp_all
      have reg: "registered a' j = registered a j" using same(4) tab j eq(6) by (simp add: registered_def)
      have kept: "serves r (mx_tab a' ! j) d" if "serves r (mx_tab a ! j) d" for r d
        using that by (rule serves_kept) (simp_all add: eq active_def)
      have "carries b fs (registered a j) (mx_tab a ! j)" using w j by (simp add: wired_def flow_def)
      then obtain d lost where "source b (ms_id (mx_tab a ! j)) = d @ data_of (ms_id (mx_tab a ! j)) fs @ lost"
        "mx_writing b \<longrightarrow> lost = []" "serves (registered a j) (mx_tab a ! j) d"
        unfolding carries_def by (elim exE conjE)
      then show ?thesis unfolding reg by (intro carriesI [of b _ d fs lost]) (simp_all only: eq(6) kept)
    qed
    then show ?thesis using w tab by (simp add: wired_def flow_def)
  qed
  ultimately show ?thesis using a' same by (intro exI [of _ f]) (auto simp: wired_def f_def sends_def)
qed

lemma take_strict_prefix: "n < length xs \<Longrightarrow> strict_prefix (take n xs) xs"
  by (metis length_take min.absorb4 less_irrefl strict_prefix_def take_is_prefix)

lemma line_write:
  assumes "line a outs P Q" and "mx_out a = b # r" and "mx_writing a"
  obtains f Q' where "Q = f # Q'" "b = wire f" "frame_wf f" "line (a\<lparr>mx_out := r\<rparr>) (outs @ b) (P @ [f]) Q'"
    "\<And>n. n < length b \<Longrightarrow> line (a\<lparr>mx_out := r, mx_writing := False, mx_done := True\<rparr>) (outs @ take n b) P Q'"
proof -
  have q: "mx_out a = map wire Q" "\<forall>f \<in> set (P @ Q). frame_wf f" "outs = concat (map wire P)"
    using assms(1,3) by (auto simp: line_def)
  then obtain f Q' where f: "Q = f # Q'" "b = wire f" "r = map wire Q'" using assms(2) by auto
  have "line (a\<lparr>mx_out := r\<rparr>) (outs @ b) (P @ [f]) Q'" using q f by (auto simp: line_def)
  moreover have "line (a\<lparr>mx_out := r, mx_writing := False, mx_done := True\<rparr>) (outs @ take n b) P Q'" if "n < length b" for n
  proof -
    have "strict_prefix (take n b) (wire f)" using that f(2) by (simp add: take_strict_prefix)
    then show ?thesis using q f unfolding line_def by auto
  qed
  ultimately show ?thesis using f q(2) that by simp
qed

lemma wired_fields:
  assumes "mux_ok a" and "flow b a fs" and "mx_tab a' = mx_tab a" and "mx_streams a' = mx_streams a" and "length (mx_out a') \<le> length (mx_out a)"
  shows "mux_ok a' \<and> flow b a' fs \<and> ids a' = ids a \<and> (\<forall>i. source a' i = source a i) \<and> (\<forall>i. announcing a' i = announcing a i)"
proof -
  have ids: "ids a' = ids a" using assms(3) by (simp add: ids_def)
  then have "mux_ok a'" using assms(1,3-5) unfolding mux_ok_def by simp
  then show ?thesis using assms ids by (auto simp: flow_def registered_def source_def announcing_def)
qed

lemma shared_wired:
  assumes w: "wired a b outs P Q fs" and act: "shared_act x (a, ins, outs) = Some (a', ins', outs')"
  shows "\<exists>P' Q'. wired a' b outs' P' Q' fs \<and> ins' = ins \<and> ids a' = ids a \<and> mx_next a' = mx_next a
    \<and> (announces a b (pending a P Q) \<longrightarrow> announces a' b (pending a' P' Q'))"
  using act
proof (cases rule: shared_cases)
  case calm
  have "announces a b (pending a P Q) \<longrightarrow> announces a' b (pending a' P Q)"
    using announces_sender calm_steady [OF calm(1)] by blast
  moreover have "ids a' = ids a" "mx_next a' = mx_next a" using calm(1) calm_ids by (auto simp: calm_def)
  ultimately show ?thesis using wired_calm [OF w calm(1)] calm(2,3) by blast
next
  case (close f m)
  have "f_type f \<noteq> frame_data" "f_type f \<noteq> frame_open" using close(1) by simp_all
  have w': "wired m b outs P (Q @ [f]) fs" by (rule wired_send [OF w close(2,3) _ close(4)]) (simp add: close(1))
  have "sends f a m" using close by (simp add: sends_def ids_def)
  then have "announces a b (pending a P Q) \<longrightarrow> announces m b (pending m P (Q @ [f]))"
    using close(1,4) by (auto intro!: announces_send simp: source_def announcing_def)
  then have "announces a b (pending a P Q) \<longrightarrow> announces a' b (pending a' P (Q @ [f]))"
    using announces_sender calm_steady [OF close(5)] by blast
  moreover have "ids a' = ids a" "mx_next a' = mx_next a"
    using close(4,5) calm_ids [OF close(5)] by (auto simp: calm_def ids_def)
  ultimately show ?thesis using wired_calm [OF w' close(5)] close(6,7) by blast
next
  case (pass k c)
  obtain f where f: "wired a' b outs P (Q @ [f]) fs" "f_type f = frame_data" "f_stream f = ms_id (mx_tab a ! k)" "f_payload f = c" "sends f a a'"
    using wired_pass [OF w pass(1)] by blast
  have ok: "mux_ok a" using w by (simp add: wired_def)
  have k: "k < length (mx_tab a)" "ms_reader (mx_tab a ! k) = Holding c" using pass(1) by (simp_all add: passes_def)
  have "\<not> announcing a (ms_id (mx_tab a ! k))"
  proof
    assume "announcing a (ms_id (mx_tab a ! k))"
    then obtain j where j: "j < length (mx_tab a)" "ms_id (mx_tab a ! j) = ms_id (mx_tab a ! k)" "ms_serve (mx_tab a ! j) = Announcing"
      by (auto simp: announcing_def in_set_conv_nth)
    then have "j = k" using ok k(1) same_id by (auto simp: mux_ok_def)
    moreover have "quiet (mx_tab a ! k)" using ok k(1) by (simp add: mux_ok_def)
    ultimately show False using j(3) k(2) by (simp add: quiet_def)
  qed
  then have "announces a b (pending a P Q) \<longrightarrow> announces a' b (pending a' P (Q @ [f]))"
    using announces_pass [OF _ f(5) source_pass [OF _ pass(1)] passes_same(5) [OF pass(1)] f(2-4)] ok
    by (auto simp: mux_ok_def)
  then show ?thesis using f(1) pass(2,3) passes_same [OF pass(1)] by blast
next
  case (out c r)
  obtain f Q' where f: "Q = f # Q'" "line a' outs' (P @ [f]) Q'"
    using w out line_write [of a outs P Q c r] unfolding wired_def by metis
  have same: "mux_ok a' \<and> flow b a' fs \<and> ids a' = ids a \<and> (\<forall>i. source a' i = source a i) \<and> (\<forall>i. announcing a' i = announcing a i)"
    by (rule wired_fields) (use w out in \<open>auto simp: wired_def\<close>)
  have pend: "pending a' (P @ [f]) Q' = pending a P Q" using f(1) out by (simp add: pending_def)
  have writing: "mx_writing a' = mx_writing a" using out by simp
  have "flow a' b (pending a' (P @ [f]) Q')" unfolding pend
    by (rule flow_wider) (use w same writing in \<open>auto simp: wired_def\<close>)
  moreover have "announces a b (pending a P Q) \<longrightarrow> announces a' b (pending a' (P @ [f]) Q')"
    unfolding pend announces_def opens_well_def using same writing by simp
  ultimately show ?thesis using f(2) same out(3,4)
    by (intro exI [of _ "P @ [f]"] exI [of _ Q']) (simp add: wired_def)
next
  case (broken c r n)
  obtain f Q' where f: "Q = f # Q'" "line a' outs' P Q'"
    using w broken line_write [of a outs P Q c r] unfolding wired_def by metis
  have same: "mux_ok a' \<and> flow b a' fs \<and> ids a' = ids a \<and> (\<forall>i. source a' i = source a i) \<and> (\<forall>i. announcing a' i = announcing a i)"
    by (rule wired_fields) (use w broken in \<open>auto simp: wired_def\<close>)
  let ?m = "a\<lparr>mx_writing := False\<rparr>"
  have pend: "pending a' P Q' = pending ?m P Q" using broken by (simp add: pending_def)
  have "flow ?m b (pending ?m P Q)"
    by (rule flow_steady [OF _ calm_steady]) (use w in \<open>auto simp: wired_def\<close>)
  then have "flow a' b (pending a' P Q')" unfolding pend
    by (rule flow_wider) (use same broken(4) in \<open>auto simp: source_def ids_def\<close>)
  moreover have "announces a b (pending a P Q) \<longrightarrow> announces a' b (pending a' P Q')"
  proof
    assume "announces a b (pending a P Q)"
    then have "announces ?m b (pending ?m P Q)" by (rule announces_sender) (simp add: calm_steady)
    then show "announces a' b (pending a' P Q')"
      unfolding pend using broken(4) by (simp add: announces_def opens_well_def announcing_def ids_def source_def)
  qed
  ultimately show ?thesis using f(2) same broken(4,5)
    by (intro exI [of _ P] exI [of _ Q']) (simp add: wired_def)
qed

definition numbered :: "mux \<Rightarrow> bool" where
  "numbered m \<longleftrightarrow> mx_next m = of_nat (length (mx_tab m)) \<and> ids m = map of_nat [1 ..< Suc (length (mx_tab m))]"

definition linked :: "mux \<Rightarrow> mux \<Rightarrow> string \<Rightarrow> string \<Rightarrow> frame list \<Rightarrow> frame list \<Rightarrow> frame list \<Rightarrow> frame list \<Rightarrow> bool" where
  "linked a b up down P Q R S \<longleftrightarrow> mux_ok a \<and> mux_ok b \<and> line a up P Q \<and> line b down R S
     \<and> flow a b (pending a P Q) \<and> flow b a (pending b R S) \<and> announces a b (pending a P Q) \<and> numbered a"

lemma linked_relay: "linked a b up down P Q R S \<Longrightarrow> wired a b up P Q (pending b R S)"
  by (simp add: linked_def wired_def)

lemma linked_pump: "linked a b up down P Q R S \<Longrightarrow> wired b a down R S (pending a P Q)"
  by (simp add: linked_def wired_def)

lemma numbered_same: "numbered a \<Longrightarrow> ids a' = ids a \<Longrightarrow> mx_next a' = mx_next a \<Longrightarrow> numbered a'"
  unfolding numbered_def ids_def by (metis length_map)

lemma linked_shared_relay:
  assumes "linked a b up down P Q R S" and "shared_act x (a, down, up) = Some (a', down', up')"
  shows "\<exists>P' Q'. linked a' b up' down' P' Q' R S"
proof -
  obtain P' Q' where "wired a' b up' P' Q' (pending b R S)" "down' = down" "ids a' = ids a" "mx_next a' = mx_next a"
      "announces a b (pending a P Q) \<longrightarrow> announces a' b (pending a' P' Q')"
    using shared_wired [OF linked_relay [OF assms(1)] assms(2)] by blast
  then have "linked a' b up' down' P' Q' R S"
    using assms(1) numbered_same [of a a'] by (simp add: linked_def wired_def)
  then show ?thesis by blast
qed

lemma linked_shared_pump:
  assumes "linked a b up down P Q R S" and "shared_act x (b, up, down) = Some (b', up', down')"
  shows "\<exists>R' S'. linked a b' up' down' P Q R' S'"
proof -
  obtain R' S' where "wired b' a down' R' S' (pending a P Q)" "up' = up" "ids b' = ids b"
    using shared_wired [OF linked_pump [OF assms(1)] assms(2)] by blast
  then have "linked a b' up' down' P Q R' S'"
    using assms(1) announces_receiver [of a b "pending a P Q" b'] by (simp add: linked_def wired_def)
  then show ?thesis by blast
qed

lemma linked_calm_relay: "linked a b up down P Q R S \<Longrightarrow> calm a a' \<Longrightarrow> linked a' b up down P Q R S"
  using wired_calm [OF linked_relay, of a b up down P Q R S a'] calm_ids [of a a'] numbered_same [of a a']
    announces_sender [of a b P Q a'] calm_steady [of a a']
  by (auto simp: linked_def wired_def calm_def)

lemma linked_calm_pump: "linked a b up down P Q R S \<Longrightarrow> calm b b' \<Longrightarrow> linked a b' up down P Q R S"
  using wired_calm [OF linked_pump, of a b up down P Q R S b'] calm_ids [of b b'] announces_receiver [of a b "pending a P Q" b']
  by (auto simp: linked_def wired_def)

lemma steady_linked_relay:
  assumes "linked a b up down P Q R S" and "mux_ok a'" and "steady a a'" and "line b down' R' S" and "flow b a' (pending b R' S)"
  shows "linked a' b up down' P Q R' S"
proof -
  have "line a' up P Q" using assms(1,3) by (auto simp: linked_def line_def steady_def)
  moreover have "numbered a'" using assms(1,3) numbered_same by (auto simp: linked_def steady_def)
  ultimately show ?thesis
    using assms flow_steady [of a b P Q a'] announces_sender [of a b P Q a'] by (auto simp: linked_def)
qed

lemma steady_linked_pump:
  assumes "linked a b up down P Q R S" and "mux_ok b'" and "steady b b'" and "line a up' P' Q" and "flow a b' (pending a P' Q)"
    and "announces a b' (pending a P' Q)"
  shows "linked a b' up' down P' Q R S"
proof -
  have "line b' down R S" using assms(1,3) by (auto simp: linked_def line_def steady_def)
  then show ?thesis using assms flow_steady [of b a R S b'] by (auto simp: linked_def)
qed

lemma pending_Cons [simp]: "pending m (f # P) Q = f # pending m P Q"
  by (simp add: pending_def)

lemma receive_cases:
  assumes "receive h (m, ins, outs) = Some (m', ins', outs')" and "line peer ins P Q"
  obtains f P' where "P = f # P'" "line peer ins' P' Q" "h f m = Some m'" "outs' = outs"
  using assms by (auto simp: receive_def split: if_splits sum.splits elim!: line_read [OF assms(2)])

lemma relay_receives:
  assumes l: "linked a b up down P Q R S" and "receive (relay_frame c) (a, down, up) = Some (a', down', up')"
  shows "\<exists>R'. linked a' b up' down' P Q R' S"
proof -
  have "line b down R S" using l by (simp add: linked_def)
  with assms(2) obtain f R' where f: "R = f # R'" "line b down' R' S" "relay_frame c f a = Some a'" "up' = up"
    by (rule receive_cases)
  have ok: "mux_ok a" and fl: "flow b a (f # pending b R' S)" using l f(1) by (simp_all add: linked_def)
  have "mux_ok a' \<and> steady a a' \<and> flow b a' (pending b R' S)"
  proof (cases "f_type f = frame_data")
    case True
    then have d: "dispatch_data c (f_stream f) (f_payload f) a = Some a'" using f(3) by (simp add: relay_frame_def)
    then show ?thesis using dispatch_ok [OF ok d] flow_dispatch [OF ok fl True d] by simp
  next
    case False
    then have "calm a a'" using f(3) by (auto simp: relay_frame_def split: if_splits)
    then show ?thesis using ok flow_receiver [OF flow_skip [OF fl False]] by (auto intro: mux_ok_calm calm_steady)
  qed
  then show ?thesis using steady_linked_relay [OF l _ _ f(2)] f(4) by blast
qed

lemma ids_add [simp]: "ids (add_stream s m) = ids m @ [ms_id s]"
  by (simp add: ids_def add_stream_def)

lemma source_add: "ms_read s = [] \<Longrightarrow> source (add_stream s m) i = source m i"
  by (auto simp: source_def add_stream_def)

lemma add_fields [simp]: "mx_writing (add_stream s m) = mx_writing m" "mx_out (add_stream s m) = mx_out m" "mx_next (add_stream s m) = mx_next m"
  by (simp_all add: add_stream_def)

lemma line_add: "line m outs P Q \<Longrightarrow> line (add_stream s m) outs P Q"
  by (simp add: line_def)

lemma mux_ok_add:
  assumes "mux_ok m" and "ms_id s \<notin> set (ids m)" and "quiet s" and "ms_queue s = []"
  shows "mux_ok (add_stream s m)"
proof -
  have "k < length (ids (add_stream s m)) \<and> ids (add_stream s m) ! k = i" if "mx_streams (add_stream s m) i = Some k" for i k
  proof (cases "i = ms_id s")
    case True
    then have "k = length (ids m)" using that by (simp add: add_stream_def ids_def)
    then show ?thesis using True by simp
  next
    case False
    then have "mx_streams m i = Some k" using that by (simp add: add_stream_def)
    then have "k < length (ids m) \<and> ids m ! k = i" using assms(1) by (simp add: mux_ok_def)
    then show ?thesis by (simp add: nth_append)
  qed
  moreover have "set (mx_tab (add_stream s m)) = insert s (set (mx_tab m))" by (simp add: add_stream_def)
  ultimately show ?thesis using assms by (simp add: mux_ok_def)
qed

lemma announces_head:
  assumes "announces a b (f # fs)" and "f_type f = frame_open"
  shows "f_stream f \<notin> set (ids b)" "f_stream f \<in> set (ids a)"
    "\<exists>lost. source a (f_stream f) = data_of (f_stream f) fs @ lost \<and> (mx_writing a \<longrightarrow> lost = [])"
    "set (ids b') \<subseteq> insert (f_stream f) (set (ids b)) \<Longrightarrow> announces a b' fs"
proof -
  have i: "f_stream f \<in> set (ids a)" and well: "\<And>j. j \<in> set (ids a) \<Longrightarrow> opens_well a b (f # fs) j"
    using assms by (auto simp: announces_def)
  then have here: "opens_well a b (f # fs) (f_stream f)" by blast
  show "f_stream f \<in> set (ids a)" by (rule i)
  show "f_stream f \<notin> set (ids b)" "\<exists>lost. source a (f_stream f) = data_of (f_stream f) fs @ lost \<and> (mx_writing a \<longrightarrow> lost = [])"
    using here assms(2) by (simp_all add: opens_well_def)
  show "announces a b' fs" if b': "set (ids b') \<subseteq> insert (f_stream f) (set (ids b))"
  proof -
    have "opens_well a b' fs j" if "j \<in> set (ids a)" for j
    proof (cases "j = f_stream f")
      case True
      then show ?thesis using here assms(2) by (simp add: opens_well_def)
    next
      case False
      then show ?thesis using well [OF that] b' by (auto simp: opens_well_def)
    qed
    then show ?thesis using assms(1) b' i by (auto simp: announces_def)
  qed
qed

lemma pump_receives:
  assumes l: "linked a b up down P Q R S" and "receive (pump_frame c) (b, up, down) = Some (b', up', down')"
  shows "\<exists>P'. linked a b' up' down' P' Q R S"
proof -
  have "line a up P Q" using l by (simp add: linked_def)
  with assms(2) obtain f P' where f: "P = f # P'" "line a up' P' Q" "pump_frame c f b = Some b'" "down' = down"
    by (rule receive_cases)
  have ok: "mux_ok b" and fl: "flow a b (f # pending a P' Q)" and an: "announces a b (f # pending a P' Q)"
    using l f(1) by (simp_all add: linked_def)
  consider (data) "f_type f = frame_data" | (opn) "f_type f = frame_open" | (other) "f_type f \<noteq> frame_data" "f_type f \<noteq> frame_open" by blast
  then show ?thesis
  proof cases
    case data
    then have d: "dispatch_data c (f_stream f) (f_payload f) b = Some b'" using f(3) by (simp add: pump_frame_def)
    then have "mux_ok b' \<and> steady b b'" by (rule dispatch_ok [OF ok])
    moreover from this have "ids b' = ids b" by (simp add: steady_def)
    then have "announces a b' (pending a P' Q)"
      by (rule announces_receiver [OF announces_skip [OF an], rotated]) (simp add: data)
    ultimately show ?thesis using steady_linked_pump [OF l _ _ f(2) flow_dispatch [OF ok fl data d]] f(4) by blast
  next
    case other
    then have "calm b b'" using f(3) by (auto simp: pump_frame_def split: if_splits)
    moreover have "announces a b' (pending a P' Q)"
      by (rule announces_receiver [OF announces_skip [OF an other(2)] calm_ids [OF \<open>calm b b'\<close>]])
    moreover have "flow a b' (pending a P' Q)" using flow_receiver [OF flow_skip [OF fl other(1)]] \<open>calm b b'\<close> by simp
    ultimately show ?thesis
      using steady_linked_pump [OF l mux_ok_calm [OF ok] calm_steady f(2)] f(4) by blast
  next
    case opn
    note head = announces_head [OF an opn]
    have b': "b' = open_stream (f_stream f) b" using f(3) opn by (simp add: pump_frame_def)
    have skip: "flow a b (pending a P' Q)" by (rule flow_skip [OF fl]) (simp add: opn)
    show ?thesis
    proof (cases "b' = b")
      case True
      have "announces a b (pending a P' Q)" by (rule head(4)) blast
      then have "linked a b' up' down' P' Q R S" unfolding True using l f(2,4) skip by (simp add: linked_def)
      then show ?thesis by blast
    next
      case False
      let ?s = "new_stream (f_stream f) False Dialing"
      have add: "b' = add_stream ?s b" using b' False by (auto simp: open_stream_def split: if_splits)
      have s: "ms_id ?s = f_stream f" "ms_read ?s = []" "ms_wrote ?s = []" "ms_queue ?s = []" "ms_cut ?s = []" "active ?s" "quiet ?s"
        by (simp_all add: new_stream_def active_def quiet_def)
      obtain lost where "source a (f_stream f) = data_of (f_stream f) (pending a P' Q) @ lost" "mx_writing a \<longrightarrow> lost = []"
        using head(3) by blast
      then have "flow a b' (pending a P' Q)" unfolding add by (intro flow_add [OF skip s(3-6)]) (simp_all add: s(1))
      moreover have "flow b' a (pending b' R S)"
        by (rule flow_wider [where a = b]) (use l in \<open>auto simp: linked_def pending_def add source_add s(2)\<close>)
      moreover have "mux_ok b'" unfolding add by (rule mux_ok_add) (use ok head(1) s in auto)
      moreover have "announces a b' (pending a P' Q)" by (rule head(4)) (auto simp: add s(1))
      moreover have "line b' down R S" using l by (simp add: linked_def add line_add)
      ultimately have "linked a b' up' down' P' Q R S" using l f(2,4) by (simp add: linked_def)
      then show ?thesis by blast
    qed
  qed
qed

lemma distinct_numbers: "n < 2 ^ 32 \<Longrightarrow> distinct (map (of_nat :: nat \<Rightarrow> 32 word) [1 ..< Suc n])"
proof -
  assume n: "n < 2 ^ 32"
  have "inj_on (of_nat :: nat \<Rightarrow> 32 word) (set [1 ..< Suc n])"
  proof (rule inj_onI)
    fix x y assume xy: "x \<in> set [1 ..< Suc n]" "y \<in> set [1 ..< Suc n]" "(of_nat x :: 32 word) = of_nat y"
    then have "unat (of_nat x :: 32 word) = unat (of_nat y :: 32 word)" by simp
    moreover have "x < 2 ^ 32" "y < 2 ^ 32" using xy(1,2) n by auto
    ultimately show "x = y" by (simp add: unat_of_nat)
  qed
  then show ?thesis by (simp only: distinct_map distinct_upt)
qed

lemma relay_accepts:
  assumes l: "linked a b up down P Q R S" and "relay_accept a = Some a'" and small: "length (mx_tab a') < 2 ^ 32"
  shows "linked a' b up down P Q R S"
proof -
  let ?i = "mx_next a + 1"
  let ?s = "new_stream ?i True Announcing" and ?a = "a\<lparr>mx_next := ?i\<rparr>"
  have add: "a' = add_stream ?s ?a" using assms(2) by (simp add: relay_accept_def split: if_splits)
  have s: "ms_id ?s = ?i" "ms_read ?s = []" "ms_wrote ?s = []" "ms_queue ?s = []" "ms_cut ?s = []" "active ?s" "quiet ?s"
    "ms_serve ?s = Announcing"
    by (simp_all add: new_stream_def active_def quiet_def)
  have same: "ids ?a = ids a" "source ?a j = source a j" "pending ?a P Q = pending a P Q" for j
    by (simp_all add: ids_def source_def pending_def)
  have n: "length (mx_tab a') = Suc (length (mx_tab a))" "ids a' = ids a @ [?i]" "mx_next a' = ?i"
    by (simp_all add: add same s(1)) (simp add: add_stream_def)
  have up: "[1 ..< Suc (Suc k)] = [1 ..< Suc k] @ [Suc k]" for k by simp
  have num: "numbered a'"
    using l unfolding linked_def numbered_def n up by (simp del: upt_Suc add: add.commute)
  then have "distinct (ids a')" using distinct_numbers [OF small] by (simp add: numbered_def)
  then have fresh: "?i \<notin> set (ids a)" by (simp add: add same s(1))
  have ok: "mux_ok ?a" using l unfolding linked_def mux_ok_def same(1) by simp
  have sub: "set (ids b) \<subseteq> set (ids a)" and opens: "\<forall>f \<in> set (pending a P Q). f_type f = frame_open \<longrightarrow> f_stream f \<in> set (ids a)"
    and well: "\<And>j. j \<in> set (ids a) \<Longrightarrow> opens_well a b (pending a P Q) j"
    using l by (auto simp: linked_def announces_def)
  have datas: "\<forall>f \<in> set (pending a P Q). f_type f = frame_data \<longrightarrow> f_stream f \<in> set (ids a)"
    "\<forall>f \<in> set (pending b R S). f_type f = frame_data \<longrightarrow> f_stream f \<in> set (ids b)"
    using l by (auto simp: linked_def flow_def)
  have none: "data_of ?i (pending a P Q) = []" "data_of ?i (pending b R S) = []" "source b ?i = []" "source a ?i = []"
    using datas fresh sub source_fresh [of ?i b] source_fresh [of ?i a] by (auto simp: data_of_def filter_empty_conv)
  have "mux_ok a'" unfolding add by (rule mux_ok_add [OF ok]) (use fresh s in \<open>auto simp: same\<close>)
  moreover have "flow a' b (pending a' P Q)"
    by (rule flow_wider [where a = a]) (use l in \<open>auto simp: linked_def pending_def add source_add s(2) same\<close>)
  moreover have "flow b a' (pending b R S)"
  proof -
    have "flow b ?a (pending b R S)" using l by (simp add: linked_def flow_def registered_def)
    then show ?thesis unfolding add by (rule flow_add [OF _ s(3-6), where lost = "[]"]) (simp_all add: none s(1))
  qed
  moreover have "announces a' b (pending a' P Q)"
  proof -
    have pend: "pending a' P Q = pending a P Q" by (simp add: pending_def add)
    have "opens_well a' b (pending a P Q) j" if "j \<in> set (ids a)" for j
    proof -
      have "announcing a' j \<longrightarrow> announcing a j" using fresh that by (auto simp: announcing_def add add_stream_def s(1))
      moreover have "source a' j = source a j" by (simp add: add source_add s(2) same)
      ultimately show ?thesis using well [OF that] by (auto simp: opens_well_def add)
    qed
    moreover have "opens_well a' b (pending a P Q) ?i"
    proof -
      have "after_open ?i (pending a P Q) = None" using opens fresh by (auto simp: no_open)
      then show ?thesis using fresh sub none by (auto simp: opens_well_def add source_add s(2) same)
    qed
    ultimately show ?thesis unfolding pend using sub opens by (auto simp: announces_def add s(1) same)
  qed
  moreover have "line a' up P Q" using l by (simp add: linked_def line_def add)
  ultimately show ?thesis using l num by (simp add: linked_def)
qed

lemma relay_announces:
  assumes l: "linked a b up down P Q R S" and run: "relay_announce k a = Some a'"
  shows "\<exists>Q'. linked a' b up down P Q' R S"
proof -
  define f where "f = \<lparr>f_stream = ms_id (mx_tab a ! k), f_type = frame_open, f_payload = []\<rparr>"
  obtain m where k: "k < length (mx_tab a)" "ms_serve (mx_tab a ! k) = Announcing"
    and put: "put_frame (ms_id (mx_tab a ! k)) frame_open [] a = Some m" and start: "on_stream k start_serving m = Some a'"
    using run by (auto simp: relay_announce_def bind_eq_Some_conv split: if_splits)
  have m: "m = a\<lparr>mx_out := mx_out a @ [wire f]\<rparr>" "frame_wf f" "length (mx_out a) < out_queue"
    using put_frameD [OF put] by (auto simp: f_def)
  have calm: "calm m a'" using start by (rule calm_on_stream) (rule benign_start, use k in \<open>auto simp: m(1)\<close>)
  have "wired m b up P (Q @ [f]) (pending b R S)"
    by (rule wired_send [OF linked_relay [OF l] m(2,3) _ m(1)]) (simp add: f_def)
  then have w: "wired a' b up P (Q @ [f]) (pending b R S)" using calm by (rule wired_calm)
  have tab: "mx_tab a' = (mx_tab a)[k := (mx_tab a ! k)\<lparr>ms_serve := Writing, ms_reader := Reading\<rparr>]"
    and same: "mx_out a' = mx_out m" "mx_writing a' = mx_writing a" "mx_next a' = mx_next a"
    using start by (auto simp: on_stream_def start_serving_def m(1) split: if_splits)
  have ids: "ids a' = ids a" using calm_ids [OF calm] by (simp add: m(1) ids_def)
  have src: "source a' i = source a i" for i using source_calm [OF calm, of i] by (simp add: m(1) source_def)
  have ann: "announcing a i" if "announcing a' i" for i
    using calm_steady [OF calm] that by (simp add: steady_def m(1) announcing_def)
  have dist: "distinct (ids a)" using l by (simp add: linked_def mux_ok_def)
  have "\<not> announcing a' (ms_id (mx_tab a ! k))"
  proof
    assume "announcing a' (ms_id (mx_tab a ! k))"
    then obtain j where j: "j < length (mx_tab a)" "ms_id (mx_tab a' ! j) = ms_id (mx_tab a ! k)" "ms_serve (mx_tab a' ! j) = Announcing"
      by (auto simp: announcing_def in_set_conv_nth tab)
    then have "j \<noteq> k" by (auto simp: tab)
    then have "ms_id (mx_tab a ! j) = ms_id (mx_tab a ! k)" using j(2) by (simp add: tab)
    then show False using same_id [OF dist j(1) k(1)] \<open>j \<noteq> k\<close> by simp
  qed
  moreover have "sends f a a'" using m ids same by (simp add: sends_def)
  moreover have "announcing a (ms_id (mx_tab a ! k))" using k nth_mem [OF k(1)] by (auto simp: announcing_def)
  ultimately have "announces a' b (pending a' P (Q @ [f]))"
    using l src ann set_ids [OF k(1)] by (intro announces_announce [where a = a]) (auto simp: linked_def f_def)
  moreover have "numbered a'" using l numbered_same [OF _ ids same(3)] by (simp add: linked_def)
  ultimately have "linked a' b up down P (Q @ [f]) R S" using l w by (simp add: linked_def wired_def)
  then show ?thesis by blast
qed

lemma calm_relay:
  "relay_collect a = Some a' \<Longrightarrow> calm a a'" "relay_unannounced k a = Some a' \<Longrightarrow> calm a a'" "relay_cleanup k a = Some a' \<Longrightarrow> calm a a'"
proof -
  show "relay_collect a = Some a' \<Longrightarrow> calm a a'" by (auto simp: relay_collect_def split: if_splits)
  have serve: "on_stream k (serving_at x) (tear_down_stream i a) = Some a' \<Longrightarrow> x = Gone \<or> x = Telling False \<Longrightarrow> calm a a'" for x i
    by (rule calm_trans [OF calm_tear_down]) (erule calm_on_stream, erule benign_serving)
  show "relay_unannounced k a = Some a' \<Longrightarrow> calm a a'" "relay_cleanup k a = Some a' \<Longrightarrow> calm a a'"
    by (auto simp: relay_unannounced_def relay_cleanup_def split: if_splits intro: serve)
qed

lemma calm_pump:
  "pump_collect b = Some b' \<Longrightarrow> calm b b'" "pump_dial k ok b = Some b' \<Longrightarrow> calm b b'" "pump_cleanup k b = Some b' \<Longrightarrow> calm b b'"
proof -
  show "pump_collect b = Some b' \<Longrightarrow> calm b b'" by (auto simp: pump_collect_def split: if_splits)
  have serve: "on_stream k (serving_at x) (remove_stream i c) = Some b' \<Longrightarrow> calm b c \<Longrightarrow> x = Gone \<or> x = Telling y \<Longrightarrow> calm b b'" for x i y c
    by (erule calm_trans [OF calm_trans [OF _ calm_remove]]) (erule calm_on_stream, erule benign_serving)
  show "pump_cleanup k b = Some b' \<Longrightarrow> calm b b'"
    by (auto simp: pump_cleanup_def split: if_splits intro: serve)
  show "pump_dial k ok b = Some b' \<Longrightarrow> calm b b'"
    by (auto simp: pump_dial_def Let_def split: if_splits intro: serve elim!: calm_on_stream intro!: benign_start)
qed

lemma relay_linked:
  assumes l: "linked a b up down P Q R S" and act: "relay_act x (a, down, up) = Some (a', down', up')"
    and small: "length (mx_tab a') < 2 ^ 32"
  shows "\<exists>P' Q' R'. linked a' b up' down' P' Q' R' S"
proof -
  have calm: "\<exists>P' Q' R'. linked a' b up' down' P' Q' R' S"
    if "local g (a, down, up) = Some (a', down', up')" "\<And>c. g a = Some c \<Longrightarrow> calm a c" for g
    using that linked_calm_relay [OF l] by (auto simp: local_Some)
  have shared: "shared_act x (a, down, up) = Some (a', down', up') \<Longrightarrow> \<exists>P' Q' R'. linked a' b up' down' P' Q' R' S"
    using linked_shared_relay [OF l] by blast
  show ?thesis
  proof (cases x)
    case (Receive c)
    then show ?thesis using relay_receives [OF l] act by fastforce
  next
    case Accept
    then show ?thesis using act relay_accepts [OF l _ small] by (auto simp: local_Some)
  next
    case (Announce k)
    then show ?thesis using act relay_announces [OF l] by (fastforce simp: local_Some)
  next
    case Collect
    then show ?thesis using act calm calm_relay(1) by fastforce
  next
    case (Unannounced k)
    then show ?thesis using act calm calm_relay(2) by fastforce
  next
    case (Cleanup k)
    then show ?thesis using act calm calm_relay(3) by fastforce
  qed ((rule shared, use act in \<open>simp only: relay_act.simps\<close>)+)
qed

lemma pump_linked:
  assumes l: "linked a b up down P Q R S" and act: "pump_act x (b, up, down) = Some (b', up', down')"
  shows "\<exists>P' R' S'. linked a b' up' down' P' Q R' S'"
proof -
  have calm: "\<exists>P' R' S'. linked a b' up' down' P' Q R' S'"
    if "local g (b, up, down) = Some (b', up', down')" "\<And>c. g b = Some c \<Longrightarrow> calm b c" for g
    using that linked_calm_pump [OF l] by (auto simp: local_Some)
  have shared: "shared_act x (b, up, down) = Some (b', up', down') \<Longrightarrow> \<exists>P' R' S'. linked a b' up' down' P' Q R' S'"
    using linked_shared_pump [OF l] by blast
  show ?thesis
  proof (cases x)
    case (Receive c)
    then show ?thesis using pump_receives [OF l] act by fastforce
  next
    case Collect
    then show ?thesis using act calm calm_pump(1) by fastforce
  next
    case (Dial k ok)
    then show ?thesis using act calm calm_pump(2) by fastforce
  next
    case (Cleanup k)
    then show ?thesis using act calm calm_pump(3) by fastforce
  qed ((rule shared, use act in \<open>simp only: pump_act.simps\<close>)+)
qed

lemma linked_new: "linked (tn_relay new_tunnel) (tn_pump new_tunnel) (tn_up new_tunnel) (tn_down new_tunnel) [] [ready_frame] [] []"
proof -
  have wf: "frame_wf ready_frame" by (simp add: frame_wf_def ready_frame_def)
  then show ?thesis
    unfolding linked_def line_def
    by (auto simp: new_tunnel_def idle_mux_def mux_ok_def ids_def flow_def announces_def numbered_def pending_def out_queue_def
        ready_frame_def intro!: exI [of _ ready_frame])
qed

lemma relay_does_cases:
  assumes "relay_does x t = Some t'"
  shows "relay_act x (tn_relay t, tn_down t, tn_up t) = Some (tn_relay t', tn_down t', tn_up t') \<and> tn_pump t' = tn_pump t"
  using assms by (auto simp: relay_does_def)

lemma pump_does_cases:
  assumes "pump_does x t = Some t'"
  shows "pump_act x (tn_pump t, tn_up t, tn_down t) = Some (tn_pump t', tn_up t', tn_down t') \<and> tn_relay t' = tn_relay t"
  using assms by (auto simp: pump_does_def)

text \<open>No end ever loses a row of its table.\<close>

lemma frame_length: "dispatch_data c i p m = Some m' \<Longrightarrow> length (mx_tab m') = length (mx_tab m)"
  by (erule dispatch_cases) (simp_all add: close_stream_def)

lemma shared_length: "shared_act x (m, ins, outs) = Some (m', ins', outs') \<Longrightarrow> length (mx_tab m') = length (mx_tab m)"
  by (erule shared_cases) (auto simp: passes_def dest: calm_length)

lemma relay_grows:
  assumes "relay_act x (a, down, up) = Some (a', down', up')"
  shows "length (mx_tab a) \<le> length (mx_tab a')"
proof -
  have shared: "shared_act x (a, down, up) = Some (a', down', up') \<Longrightarrow> ?thesis" by (simp add: shared_length)
  show ?thesis
  proof (cases x)
    case (Receive c)
    then obtain f where "relay_frame c f a = Some a'"
      using assms by (auto simp: receive_def split: if_splits sum.splits)
    then have "calm a a' \<or> dispatch_data c (f_stream f) (f_payload f) a = Some a'" by (auto simp: relay_frame_def split: if_splits)
    then show ?thesis using calm_length [of a a'] frame_length [of c _ _ a a'] by auto
  next
    case Accept
    then show ?thesis using assms by (auto simp: local_Some relay_accept_def add_stream_def split: if_splits)
  next
    case (Announce k)
    then obtain m where "put_frame (ms_id (mx_tab a ! k)) frame_open [] a = Some m" "on_stream k start_serving m = Some a'"
      using assms by (auto simp: local_Some relay_announce_def bind_eq_Some_conv split: if_splits)
    then show ?thesis by (auto simp: on_stream_def dest!: put_frameD split: if_splits)
  next
    case Collect
    then show ?thesis using assms calm_relay(1) [of a a'] calm_length [of a a'] by (auto simp: local_Some)
  next
    case (Unannounced k)
    then show ?thesis using assms calm_relay(2) [of k a a'] calm_length [of a a'] by (auto simp: local_Some)
  next
    case (Cleanup k)
    then show ?thesis using assms calm_relay(3) [of k a a'] calm_length [of a a'] by (auto simp: local_Some)
  qed ((rule shared, use assms in \<open>simp only: relay_act.simps\<close>)+)
qed

text \<open>Stream ids are 32 bits wide and wrap around, so the connections of a tunnel are counted.\<close>

lemma reaches_linked:
  assumes "tunnel_reaches t" and "length (mx_tab (tn_relay t)) < 2 ^ 32"
  shows "\<exists>P Q R S. linked (tn_relay t) (tn_pump t) (tn_up t) (tn_down t) P Q R S"
  using assms
proof (induction rule: tunnel_reaches.induct)
  case start
  show ?case using linked_new by blast
next
  case (step t t')
  from step.hyps(2) show ?case
  proof cases
    case (relay x)
    note act = relay_does_cases [OF relay]
    have "length (mx_tab (tn_relay t)) < 2 ^ 32" using relay_grows [OF act [THEN conjunct1]] step.prems by linarith
    then obtain P Q R S where "linked (tn_relay t) (tn_pump t) (tn_up t) (tn_down t) P Q R S" using step.IH by blast
    then show ?thesis using relay_linked [OF _ act [THEN conjunct1] step.prems] act by metis
  next
    case (pump x)
    note act = pump_does_cases [OF pump]
    then obtain P Q R S where "linked (tn_relay t) (tn_pump t) (tn_up t) (tn_down t) P Q R S" using step.IH step.prems by auto
    then show ?thesis using pump_linked [OF _ act [THEN conjunct1]] act by metis
  qed
qed

section \<open>What the tunnel promises\<close>

lemma carries_bytes:
  assumes "carries a fs r s" and "source a (ms_id s) = ms_read x"
  shows "subseq (written s) (taken x) \<and> (\<not> ms_closed s \<longrightarrow> prefix (written s) (taken x))"
proof -
  obtain d lost where d: "ms_read x = d @ data_of (ms_id s) fs @ lost" "serves r s d"
    using assms by (auto simp: carries_def)
  then have "prefix (concat d) (taken x)" by (simp add: taken_def)
  then show ?thesis using serves_written [OF d(2)] by (meson prefix_imp_subseq prefix_order.trans subseq_order.trans)
qed

text \<open>C36: bytes of one connection never reach another. In every state a tunnel can come to by whatever order of actions,
  with fewer than 2^32 connections so far, each connection that the pump opened to the daemon belongs to one
  connection of the relay; what was written to either is in the order in which it was read from the other, and
  without a gap as long as its stream is open. A connection of the relay that the pump does not know got nothing.\<close>

theorem tunnel_apart:
  assumes "tunnel_reaches t" and "length (mx_tab (tn_relay t)) < 2 ^ 32"
  shows "distinct (map ms_id (mx_tab (tn_relay t))) \<and> distinct (map ms_id (mx_tab (tn_pump t)))
    \<and> (\<forall>y \<in> set (mx_tab (tn_pump t)). \<exists>x \<in> set (mx_tab (tn_relay t)). ms_id x = ms_id y
        \<and> subseq (written y) (taken x) \<and> subseq (written x) (taken y)
        \<and> (\<not> ms_closed y \<longrightarrow> prefix (written y) (taken x)) \<and> (\<not> ms_closed x \<longrightarrow> prefix (written x) (taken y)))
    \<and> (\<forall>x \<in> set (mx_tab (tn_relay t)). ms_id x \<notin> ms_id ` set (mx_tab (tn_pump t)) \<longrightarrow> written x = [])"
proof -
  obtain P Q R S where l: "linked (tn_relay t) (tn_pump t) (tn_up t) (tn_down t) P Q R S"
    using reaches_linked [OF assms] by blast
  define a b where "a = tn_relay t" and "b = tn_pump t"
  note l' = l [folded a_def b_def, unfolded linked_def]
  have dist: "distinct (ids a)" "distinct (ids b)" using l' by (simp_all add: mux_ok_def)
  have up: "carries a (pending a P Q) (registered b k) (mx_tab b ! k)" if "k < length (mx_tab b)" for k
    using l' that by (simp add: flow_def)
  have down: "carries b (pending b R S) (registered a j) (mx_tab a ! j)" if "j < length (mx_tab a)" for j
    using l' that by (simp add: flow_def)
  have "\<exists>x \<in> set (mx_tab a). ms_id x = ms_id y \<and> subseq (written y) (taken x) \<and> subseq (written x) (taken y)
      \<and> (\<not> ms_closed y \<longrightarrow> prefix (written y) (taken x)) \<and> (\<not> ms_closed x \<longrightarrow> prefix (written x) (taken y))"
    if y: "y \<in> set (mx_tab b)" for y
  proof -
    obtain k where k: "k < length (mx_tab b)" "y = mx_tab b ! k" using y by (auto simp: in_set_conv_nth)
    have "ms_id y \<in> set (ids a)" using l' set_ids [OF k(1)] k(2) by (auto simp: announces_def)
    then obtain j where j: "j < length (mx_tab a)" "ms_id (mx_tab a ! j) = ms_id y"
      unfolding ids_def by (auto simp: in_set_conv_nth)
    let ?x = "mx_tab a ! j"
    have "subseq (written y) (taken ?x) \<and> (\<not> ms_closed y \<longrightarrow> prefix (written y) (taken ?x))"
      unfolding k(2) by (rule carries_bytes [OF up [OF k(1)]]) (use source_nth [OF dist(1) j(1)] j(2) k(2) in simp)
    moreover have "subseq (written ?x) (taken y) \<and> (\<not> ms_closed ?x \<longrightarrow> prefix (written ?x) (taken y))"
      by (rule carries_bytes [OF down [OF j(1)]]) (use source_nth [OF dist(2) k(1)] j(2) k(2) in simp)
    ultimately show ?thesis using j(2) nth_mem [OF j(1)] by blast
  qed
  moreover have "written x = []" if x: "x \<in> set (mx_tab a)" "ms_id x \<notin> ms_id ` set (mx_tab b)" for x
  proof -
    obtain j where j: "j < length (mx_tab a)" "x = mx_tab a ! j" using x(1) by (auto simp: in_set_conv_nth)
    have "source b (ms_id x) = []" using x(2) by (intro source_fresh) (simp add: ids_def)
    then have "subseq (written x) []"
      using carries_bytes [OF down [OF j(1)], of "x\<lparr>ms_read := [], ms_reader := NoReader\<rparr>"] j(2) by (simp add: taken_def)
    then show ?thesis by simp
  qed
  ultimately show ?thesis using dist unfolding a_def b_def ids_def by blast
qed

text \<open>The DATA frames of a stream that are in a pipe or with its writer.\<close>

definition in_flight :: "32 word \<Rightarrow> mux \<Rightarrow> string \<Rightarrow> string list" where
  "in_flight i m pipe = data_of i (fst (read_frames (pipe @ concat (mx_out m))))"

lemma in_flight_line:
  assumes "line m pipe P Q" and "mx_writing m"
  shows "in_flight i m pipe = data_of i (pending m P Q)"
proof -
  have "pipe @ concat (mx_out m) = concat (map wire (P @ Q)) @ []" "\<forall>f \<in> set (P @ Q). frame_wf f"
    using assms by (auto simp: line_def)
  moreover have "fst (read_frames []) = []" by (simp add: read_frames.simps read_frame_def read_full_def header_len_def)
  ultimately have "fst (read_frames (pipe @ concat (mx_out m))) = P @ Q"
    using read_frames_wires [of "P @ Q" "[]"] by (simp only: fst_conv append_Nil2)
  then show ?thesis using assms(2) by (simp add: in_flight_def pending_def)
qed

lemma carries_all:
  assumes "carries a (pending a P Q) r s" and "line a pipe P Q" and "mx_writing a" and "r" and "active s" and "\<not> ms_closed s"
  shows "source a (ms_id s) = ms_wrote s @ ms_queue s @ in_flight (ms_id s) a pipe"
  using assms in_flight_line [OF assms(2,3)] by (auto simp: carries_def serves_def)

text \<open>C37: nothing is lost while both ends live. The chunks that were read from a connection and passed on are, in this
  order, those written at the other end, those in the queue of the open stream there, and those on the way.\<close>

theorem tunnel_conserves:
  assumes "tunnel_reaches t" and "length (mx_tab (tn_relay t)) < 2 ^ 32"
    and "j < length (mx_tab (tn_relay t))" and "x = mx_tab (tn_relay t) ! j"
    and "k < length (mx_tab (tn_pump t))" and "y = mx_tab (tn_pump t) ! k" and "ms_id x = ms_id y"
  shows "(mx_writing (tn_relay t) \<and> registered (tn_pump t) k \<and> active y \<and> \<not> ms_closed y
        \<longrightarrow> ms_read x = ms_wrote y @ ms_queue y @ in_flight (ms_id y) (tn_relay t) (tn_up t))
    \<and> (mx_writing (tn_pump t) \<and> registered (tn_relay t) j \<and> active x \<and> \<not> ms_closed x
        \<longrightarrow> ms_read y = ms_wrote x @ ms_queue x @ in_flight (ms_id x) (tn_pump t) (tn_down t))"
proof -
  obtain P Q R S where "linked (tn_relay t) (tn_pump t) (tn_up t) (tn_down t) P Q R S"
    using reaches_linked [OF assms(1,2)] by blast
  note l = this [unfolded linked_def]
  have dist: "distinct (ids (tn_relay t))" "distinct (ids (tn_pump t))" using l by (simp_all add: mux_ok_def)
  have src: "source (tn_relay t) (ms_id y) = ms_read x" "source (tn_pump t) (ms_id x) = ms_read y"
    using source_nth [OF dist(1) assms(3)] source_nth [OF dist(2) assms(5)] assms(4,6,7) by simp_all
  have "carries (tn_relay t) (pending (tn_relay t) P Q) (registered (tn_pump t) k) y"
    and "carries (tn_pump t) (pending (tn_pump t) R S) (registered (tn_relay t) j) x"
    using l assms(3-6) by (simp_all add: flow_def)
  then show ?thesis using l carries_all src by metis
qed

text \<open>Queues are bounded, as the channels of the code are.\<close>

lemma tunnel_bounded:
  assumes "tunnel_reaches t" and "length (mx_tab (tn_relay t)) < 2 ^ 32" and "m = tn_relay t \<or> m = tn_pump t"
  shows "length (mx_out m) \<le> out_queue \<and> (\<forall>s \<in> set (mx_tab m). length (ms_queue s) \<le> conn_queue)"
  using reaches_linked [OF assms(1,2)] assms(3) by (auto simp: linked_def mux_ok_def)

lemma dispatch_enabled: "\<exists>c m'. dispatch_data c i p m = Some m'"
proof -
  have "dispatch_data True i p m \<noteq> None \<or> dispatch_data False i p m \<noteq> None"
    by (auto simp: dispatch_data_def Let_def split: option.split)
  then show ?thesis by (metis not_Some_eq)
qed

lemma dispatch_others:
  "dispatch_data c i p m = Some m' \<Longrightarrow> mx_streams m i \<noteq> Some k \<Longrightarrow> mx_tab m' ! k = mx_tab m ! k"
  by (erule dispatch_cases) (auto simp: close_stream_def nth_list_update)

lemma peer_close_others: "mx_streams m i \<noteq> Some k \<Longrightarrow> mx_tab (peer_close i m) ! k = mx_tab m ! k"
  by (auto simp: peer_close_def split: option.split)

lemma open_others: "k < length (mx_tab m) \<Longrightarrow> mx_tab (open_stream i m) ! k = mx_tab m ! k"
  by (simp add: open_stream_def add_stream_def nth_append)

text \<open>C38: a stuck connection never blocks the others. Whatever the queues of either end hold, a whole frame that has come
  in can be taken at once by its read loop, without any other goroutine moving, and however the select falls,
  it changes no stream but the one that the table names for its id.\<close>

theorem demux_never_blocks:
  assumes "mx_reading m" and "read_frame ins = Inr (f, rest)" and "handler \<in> {relay_frame, pump_frame}"
  shows "(\<exists>c m'. receive (handler c) (m, ins, outs) = Some (m', rest, outs))
    \<and> (\<forall>c m' ins' outs' k. receive (handler c) (m, ins, outs) = Some (m', ins', outs') \<and> k < length (mx_tab m)
         \<and> mx_streams m (f_stream f) \<noteq> Some k \<longrightarrow> mx_tab m' ! k = mx_tab m ! k)"
proof -
  obtain c m' where d: "dispatch_data c (f_stream f) (f_payload f) m = Some m'"
    using dispatch_enabled [of "f_stream f" "f_payload f" m] by blast
  have "\<exists>c m'. handler c f m = Some m'"
  proof (cases "f_type f = frame_data")
    case True
    then have "handler c f m = Some m'" using assms(3) d by (auto simp: relay_frame_def pump_frame_def)
    then show ?thesis by blast
  next
    case False
    then show ?thesis using assms(3) by (auto simp: relay_frame_def pump_frame_def)
  qed
  then have "\<exists>c m'. receive (handler c) (m, ins, outs) = Some (m', rest, outs)"
    using assms(1,2) by (auto simp: receive_def)
  moreover have "mx_tab n ! k = mx_tab m ! k"
    if "receive (handler c) (m, ins, outs) = Some (n, ins', outs')" "k < length (mx_tab m)" "mx_streams m (f_stream f) \<noteq> Some k"
    for c n ins' outs' k
  proof -
    have "handler c f m = Some n" using that(1) assms(1,2) by (auto simp: receive_def)
    then show ?thesis using assms(3) that(2,3)
      by (auto simp: relay_frame_def pump_frame_def peer_close_others open_others split: if_splits dest: dispatch_others)
  qed
  ultimately show ?thesis by blast
qed

end
