(* ===== verification/TunnelScenarios.thy ===== *)
theory TunnelScenarios
  imports TunnelFacts
begin

text \<open>Runs of the tunnel: actions of the relay and of the pump in the order they happen.\<close>

datatype turn = Relay act | Pump act

fun does :: "turn \<Rightarrow> tunnel \<Rightarrow> tunnel option" where
  "does (Relay a) t = relay_does a t"
| "does (Pump a) t = pump_does a t"

fun run :: "turn list \<Rightarrow> tunnel \<Rightarrow> tunnel option" where
  "run [] t = Some t"
| "run (a # as) t = Option.bind (does a t) (run as)"

lemma does_step: "does a t = Some t' \<Longrightarrow> tunnel_step t t'"
  by (cases a) (auto intro: tunnel_step.intros)

lemma run_reaches: "run as t = Some t' \<Longrightarrow> tunnel_reaches t \<Longrightarrow> tunnel_reaches t'"
  by (induction as t rule: run.induct) (auto simp: bind_eq_Some_conv dest: does_step intro: tunnel_reaches.step)

section \<open>Evaluation\<close>

text \<open>Frames are kept as \<open>wire f\<close>, which the read loop takes back whole.\<close>

definition mk :: "32 word \<Rightarrow> frame_type \<Rightarrow> string \<Rightarrow> frame" where
  "mk i t p = \<lparr>f_stream = i, f_type = t, f_payload = p\<rparr>"

lemma mk_fields [simp]: "f_stream (mk i t p) = i" "f_type (mk i t p) = t" "f_payload (mk i t p) = p"
  by (simp_all add: mk_def)

lemma encode_mk: "length p \<le> max_payload \<Longrightarrow> encode_frame i t p = Inr (wire (mk i t p))"
  by (simp add: encode_frame_def wire_def)

lemma wf_mk: "valid_type t \<Longrightarrow> length p \<le> max_payload \<Longrightarrow> frame_wf (mk i t p)"
  by (simp add: frame_wf_def)

lemma read_mk: "valid_type t \<Longrightarrow> length p \<le> max_payload \<Longrightarrow> read_frame (wire (mk i t p) @ rest) = Inr (mk i t p, rest)"
  "valid_type t \<Longrightarrow> length p \<le> max_payload \<Longrightarrow> read_frame (wire (mk i t p)) = Inr (mk i t p, [])"
  using read_wire_append [OF wf_mk] read_wire_append [OF wf_mk, of t p i "[]"] by simp_all

lemma ready_mk: "ready_frame = mk 0 frame_ready []"
  by (simp add: ready_frame_def mk_def)

lemmas run_defs = relay_does_def pump_does_def local_def receive_def write_out_def write_broken_def stop_writing_def
  on_stream_def close_stream_def put_frame_def read_chunk_def pass_chunk_def passed_def drop_chunk_def end_read_def wake_writer_def
  shut_conn_def write_chunk_def write_failed_def leave_def serving_at_def tell_close_def skip_close_def dispatch_data_def
  peer_close_def relay_frame_def pump_frame_def new_stream_def add_stream_def open_stream_def relay_accept_def
  start_serving_def relay_announce_def tear_down_stream_def relay_cleanup_def remove_stream_def connected_def pump_dial_def
  pump_cleanup_def encode_mk read_mk ready_mk Let_def
  max_payload_def read_buffer_def out_queue_def conn_queue_def

text \<open>A connection is accepted and announced, and the pump dials the daemon for it.\<close>

definition opening_turns :: "turn list" where
  "opening_turns = [Relay WriteOut, Pump (Receive False), Relay Accept, Relay (Announce 0), Relay WriteOut,
     Pump (Receive False), Pump (Dial 0 True)]"

definition opened_tunnel :: tunnel where
  "opened_tunnel =
     \<lparr>tn_relay = idle_mux\<lparr>mx_streams := [1 \<mapsto> 0], mx_next := 1,
        mx_tab := [(new_stream 1 True Writing)\<lparr>ms_reader := Reading\<rparr>]\<rparr>,
      tn_pump = idle_mux\<lparr>mx_streams := [1 \<mapsto> 0], mx_ready := True,
        mx_tab := [(new_stream 1 True Writing)\<lparr>ms_reader := Reading\<rparr>]\<rparr>,
      tn_up = [], tn_down = []\<rparr>"

lemma opened: "run opening_turns new_tunnel = Some opened_tunnel"
  by (simp add: opening_turns_def opened_tunnel_def new_tunnel_def idle_mux_def run_defs)

lemma opened_reaches: "tunnel_reaches opened_tunnel"
  by (rule run_reaches [OF opened tunnel_reaches.start])

section \<open>Instances\<close>

text \<open>The adapter sends a chunk, which the daemon receives, and the daemon's answer is on its way.\<close>

definition answered :: "turn list" where
  "answered = [Relay (ReadChunk 0 ''ask''), Relay (PassChunk 0), Relay WriteOut, Pump (Receive True), Pump (WriteChunk 0),
     Pump (ReadChunk 0 ''re''), Pump (PassChunk 0), Pump WriteOut]"

definition answered_tunnel :: tunnel where
  "answered_tunnel =
     \<lparr>tn_relay = idle_mux\<lparr>mx_streams := [1 \<mapsto> 0], mx_next := 1,
        mx_tab := [(new_stream 1 True Writing)\<lparr>ms_reader := Reading, ms_read := [''ask'']\<rparr>]\<rparr>,
      tn_pump = idle_mux\<lparr>mx_streams := [1 \<mapsto> 0], mx_ready := True,
        mx_tab := [(new_stream 1 True Writing)\<lparr>ms_reader := Reading, ms_read := [''re''], ms_wrote := [''ask'']\<rparr>]\<rparr>,
      tn_up = [], tn_down = wire (mk 1 frame_data ''re'')\<rparr>"

lemma answered_reaches: "tunnel_reaches answered_tunnel"
proof (rule run_reaches [OF _ opened_reaches])
  show "run answered opened_tunnel = Some answered_tunnel"
    by (simp add: answered_def opened_tunnel_def answered_tunnel_def idle_mux_def run_defs)
qed

lemma answered_small: "length (mx_tab (tn_relay answered_tunnel)) < 2 ^ 32"
  by (simp add: answered_tunnel_def)

theorem tunnel_apart_witness:
  "written (mx_tab (tn_pump answered_tunnel) ! 0) = ''ask'' \<and> prefix ''ask'' (taken (mx_tab (tn_relay answered_tunnel) ! 0))"
proof -
  have w: "written (mx_tab (tn_pump answered_tunnel) ! 0) = ''ask''"
    by (simp add: answered_tunnel_def written_def new_stream_def)
  show ?thesis
    using tunnel_apart [OF answered_reaches answered_small] w
    by (simp add: answered_tunnel_def new_stream_def)
qed

theorem tunnel_conserves_witness:
  "[''re''] = in_flight 1 (tn_pump answered_tunnel) (tn_down answered_tunnel)"
  using tunnel_conserves [OF answered_reaches answered_small, of 0 "mx_tab (tn_relay answered_tunnel) ! 0" 0
      "mx_tab (tn_pump answered_tunnel) ! 0"]
  by (simp add: answered_tunnel_def new_stream_def active_def registered_def idle_mux_def)

theorem demux_never_blocks_witness:
  "\<exists>c m'. receive (relay_frame c) (tn_relay answered_tunnel, tn_down answered_tunnel, []) = Some (m', [], [])"
  using demux_never_blocks [of "tn_relay answered_tunnel" "tn_down answered_tunnel" "mk 1 frame_data ''re''" "[]" relay_frame "[]"]
  by (simp add: answered_tunnel_def idle_mux_def read_mk max_payload_def)

section \<open>What the tunnel does not promise\<close>

text \<open>
  An adapter that writes and closes: the CLOSE overtakes the chunk, which waits in the queue of the pump, because the pump closes
  the connection to the daemon at once. Nobody failed, and the chunk is gone.
\<close>

definition hang_up :: "turn list" where
  "hang_up = [Relay (ReadChunk 0 ''bye''), Relay (PassChunk 0), Relay (EndRead 0), Relay (WakeWriter 0), Relay (ShutConn 0),
     Relay WriteOut, Pump (Receive True), Relay (Leave 0), Relay (Cleanup 0), Relay (TellClose 0), Relay WriteOut,
     Pump (Receive False), Pump (ShutConn 0), Pump (Leave 0), Pump (Cleanup 0), Pump (TellClose 0)]"

theorem graceful_close_truncates:
  "\<exists>t. run hang_up opened_tunnel = Some t \<and> tunnel_reaches t \<and> tn_up t = [] \<and> mx_out (tn_relay t) = [] \<and> \<not> mx_done (tn_pump t)
     \<and> taken (mx_tab (tn_relay t) ! 0) = ''bye'' \<and> written (mx_tab (tn_pump t) ! 0) = []
     \<and> ms_serve (mx_tab (tn_relay t) ! 0) = Gone \<and> ms_serve (mx_tab (tn_pump t) ! 0) = Gone"
proof -
  have "\<exists>t. run hang_up opened_tunnel = Some t \<and> tn_up t = [] \<and> mx_out (tn_relay t) = [] \<and> \<not> mx_done (tn_pump t)
     \<and> taken (mx_tab (tn_relay t) ! 0) = ''bye'' \<and> written (mx_tab (tn_pump t) ! 0) = []
     \<and> ms_serve (mx_tab (tn_relay t) ! 0) = Gone \<and> ms_serve (mx_tab (tn_pump t) ! 0) = Gone"
    by (simp add: hang_up_def opened_tunnel_def idle_mux_def run_defs taken_def written_def)
  then show ?thesis using run_reaches opened_reaches by blast
qed

text \<open>
  A teardown first closes the channel and then the connection. In between the select of the dispatch may drop a chunk
  and queue the next, and the writer may still write that one: the daemon receives a stream with a hole.
\<close>

definition race :: "turn list" where
  "race = [Relay (ReadChunk 0 ''one''), Relay (PassChunk 0), Relay WriteOut, Relay (ReadChunk 0 ''two''), Relay (PassChunk 0),
     Relay WriteOut, Pump (EndRead 0), Pump (WakeWriter 0), Pump (Receive False), Pump (Receive True), Pump (WriteChunk 0)]"

theorem teardown_leaves_hole:
  "\<exists>t. run race opened_tunnel = Some t \<and> tunnel_reaches t
     \<and> taken (mx_tab (tn_relay t) ! 0) = ''onetwo'' \<and> written (mx_tab (tn_pump t) ! 0) = ''two''"
proof -
  have "\<exists>t. run race opened_tunnel = Some t
     \<and> taken (mx_tab (tn_relay t) ! 0) = ''onetwo'' \<and> written (mx_tab (tn_pump t) ! 0) = ''two''"
    by (simp add: race_def opened_tunnel_def idle_mux_def run_defs taken_def written_def)
  then show ?thesis using run_reaches opened_reaches by blast
qed

text \<open>The number of connections has to be bounded: an id that wraps around replaces a live stream in the table.\<close>

theorem id_wraps_around:
  "\<exists>a'. relay_accept (idle_mux\<lparr>mx_streams := [1 \<mapsto> 0], mx_tab := [new_stream 1 True Writing], mx_next := 0\<rparr>) = Some a'
     \<and> mx_streams a' 1 = Some 1 \<and> ids a' = [1, 1]"
  by (simp add: relay_accept_def add_stream_def new_stream_def idle_mux_def ids_def)

end
