(* ===== verification/Converge.thy ===== *)
theory Converge
  imports Container Manifest
begin

text \<open>
  Convergence of a finished boundary: the conductor (\<open>internal/conductor/conductor.go\<close>), the launcher's choice of
  when and how to run it (\<open>internal/launcher/launcher.go\<close>) and the command that merges by hand
  (\<open>cmd/mad-trellis/integrate.go\<close>). Git, the shell and the daemon's answers are parameters; progress lines
  are left out.
\<close>

section \<open>The outside world\<close>

text \<open>
  A process gives its output and the text of an error, a shell its exit code if it has one; the daemon an error text
  or the decoded answer: the lease key of the trunk, and whether the lease was granted. \<open>cw_line\<close> is a git whose
  standard output alone is read, \<open>cw_stat\<close> tells whether a path is a directory.
\<close>

record 'e conv_world =
  cw_git :: "string \<Rightarrow> string list \<Rightarrow> 'e \<Rightarrow> (string \<times> string option) \<times> 'e"
  cw_line :: "string \<Rightarrow> string list \<Rightarrow> 'e \<Rightarrow> (string \<times> string option) \<times> 'e"
  cw_stat :: "'e \<Rightarrow> string \<Rightarrow> string + bool"
  cw_sh :: "string \<Rightarrow> string list \<Rightarrow> 'e \<Rightarrow> (int option \<times> string option) \<times> 'e"
  cw_dial :: "'e \<Rightarrow> string option \<times> 'e"
  cw_route :: "'e \<Rightarrow> (string + string) \<times> 'e"
  cw_acquire :: "string \<Rightarrow> int \<Rightarrow> 'e \<Rightarrow> (string + bool) \<times> 'e"
  cw_release :: "string \<Rightarrow> 'e \<Rightarrow> 'e"
  cw_pause :: "'e \<Rightarrow> 'e"

text \<open>\<open>git\<close> of the conductor and \<open>runGit\<close> of the commands.\<close>

definition trimmed_git :: "'e conv_world \<Rightarrow> string \<Rightarrow> string list \<Rightarrow> 'e \<Rightarrow> (string \<times> string option) \<times> 'e" where
  "trimmed_git w dir args e = (case cw_git w dir args e of ((out, x), e') \<Rightarrow> ((trim_space out, x), e'))"

definition em_dash :: string where "em_dash = '' '' @ map char_of [0xE2, 0x80, 0x94 :: nat] @ '' ''"

definition safe_branch_name :: "string \<Rightarrow> bool" where
  "safe_branch_name s \<longleftrightarrow> s \<noteq> [] \<and> \<not> has_prefix s ''-'' \<and> ascii_all path_char s"

section \<open>The conductor\<close>

record 'e conv_spec =
  cs_branch :: string
  cs_target :: string
  cs_repo :: string
  cs_boundary :: string
  cs_gate :: string
  cs_ttl :: int
  cs_from :: string
  cs_runner :: "(string \<Rightarrow> 'e \<Rightarrow> (int \<times> string option) \<times> 'e) option"

datatype conv_status = Converged | GateFailed | Conflict | Skipped | ConvError

record conv_result =
  cr_status :: conv_status
  cr_reason :: string
  cr_merge :: string

text \<open>A stage goes on with a value or ends the convergence with its result.\<close>

type_synonym ('e, 'a) stage = "'e \<Rightarrow> (conv_result + 'a) \<times> 'e"

definition go_on :: "'a \<Rightarrow> ('e, 'a) stage" where "go_on x e = (Inr x, e)"

definition ends :: "conv_status \<Rightarrow> string \<Rightarrow> ('e, 'a) stage" where
  "ends s r e = (Inl \<lparr>cr_status = s, cr_reason = r, cr_merge = []\<rparr>, e)"

definition after_stage :: "('e, 'a) stage \<Rightarrow> ('a \<Rightarrow> ('e, 'b) stage) \<Rightarrow> ('e, 'b) stage" where
  "after_stage m k e = (case m e of (Inl r, e') \<Rightarrow> (Inl r, e') | (Inr x, e') \<Rightarrow> k x e')"

definition quote :: "string \<Rightarrow> string" where "quote s = CHR 0x22 # s @ [CHR 0x22]"

definition git_stage :: "'e conv_world \<Rightarrow> string \<Rightarrow> string list \<Rightarrow> string \<Rightarrow> ('e, string) stage" where
  "git_stage w dir args what e = (case trimmed_git w dir args e of
       ((out, None), e') \<Rightarrow> go_on out e'
     | ((out, Some _), e') \<Rightarrow> ends ConvError (what @ '': '' @ out) e')"

definition check_names :: "'e conv_spec \<Rightarrow> ('e, unit) stage" where
  "check_names s =
     (if \<not> safe_branch_name (cs_branch s) then ends ConvError (''unsafe branch name '' @ quote (cs_branch s))
      else if \<not> safe_branch_name (cs_target s) then ends ConvError (''unsafe branch name '' @ quote (cs_target s))
      else go_on ())"

definition force_ref :: "string \<Rightarrow> string" where "force_ref b = CHR ''+'' # b @ '':'' @ b"

definition fetch_clone :: "'e conv_world \<Rightarrow> 'e conv_spec \<Rightarrow> ('e, unit) stage" where
  "fetch_clone w s e =
     (if cs_from s = [] then go_on () e
      else if has_prefix (cs_from s) ''-'' then ends ConvError (''unsafe --from '' @ quote (cs_from s)) e
      else if cw_stat w e (cs_from s) \<noteq> Inr True then ends ConvError (''container clone path not found: '' @ cs_from s) e
      else after_stage (git_stage w (cs_repo s) [''fetch'', ''--no-tags'', cs_from s, force_ref (cs_branch s)]
             ''fetch container branch'') (\<lambda>_. go_on ()) e)"

definition drift_guard :: "'e conv_world \<Rightarrow> 'e conv_spec \<Rightarrow> ('e, unit) stage" where
  "drift_guard w s = after_stage (git_stage w (cs_repo s) [''rev-parse'', ''--abbrev-ref'', ''HEAD''] ''rev-parse HEAD'')
     (\<lambda>h. if h \<noteq> cs_target s
        then ends Skipped (''target branch drifted (HEAD='' @ h @ '', expected '' @ cs_target s @ ''); run `mad-trellis integrate` manually'')
        else go_on ())"

definition new_commits :: "'e conv_world \<Rightarrow> 'e conv_spec \<Rightarrow> string \<Rightarrow> ('e, unit) stage" where
  "new_commits w s none = after_stage (git_stage w (cs_repo s) [''rev-list'', ''--count'', cs_target s @ ''..'' @ cs_branch s] ''rev-list count'')
     (\<lambda>n. if n = ''0'' then ends Skipped (none @ cs_branch s) else go_on ())"

definition clean_guard :: "'e conv_world \<Rightarrow> 'e conv_spec \<Rightarrow> ('e, unit) stage" where
  "clean_guard w s = after_stage (git_stage w (cs_repo s) [''status'', ''--porcelain'', ''--untracked-files=no''] ''status --porcelain'')
     (\<lambda>d. if trim_space d \<noteq> []
        then ends Skipped (cs_target s @ '' has uncommitted changes to tracked files; commit or stash, then run `mad-trellis integrate '' @ cs_branch s @ ''`'')
        else go_on ())"

text \<open>The default runner is the shell of the host in the boundary.\<close>

definition exit_code_of :: "int option \<times> string option \<Rightarrow> int" where
  "exit_code_of r = (case r of (_, None) \<Rightarrow> 0 | (Some code, Some _) \<Rightarrow> code | (None, Some _) \<Rightarrow> -1)"

definition host_gate_runner :: "'e conv_world \<Rightarrow> string \<Rightarrow> string \<Rightarrow> 'e \<Rightarrow> (int \<times> string option) \<times> 'e" where
  "host_gate_runner w dir gate e = (case cw_sh w dir [''-c'', gate] e of (r, e') \<Rightarrow> ((exit_code_of r, snd r), e'))"

definition gate_runner :: "'e conv_world \<Rightarrow> 'e conv_spec \<Rightarrow> string \<Rightarrow> 'e \<Rightarrow> (int \<times> string option) \<times> 'e" where
  "gate_runner w s = (case cs_runner s of Some r \<Rightarrow> r | None \<Rightarrow> host_gate_runner w (cs_boundary s))"

definition run_gate :: "'e conv_world \<Rightarrow> 'e conv_spec \<Rightarrow> ('e, unit) stage" where
  "run_gate w s e =
     (if cs_gate s = [] then go_on () e
      else case gate_runner w s (cs_gate s) e of
          ((code, Some t), e') \<Rightarrow> ends GateFailed (''gate command failed: '' @ t) e'
        | ((code, None), e') \<Rightarrow>
            (if code \<noteq> 0 then ends GateFailed (''gate command failed: exit status '' @ itoa code) e' else go_on () e'))"

definition trunk_lease_key :: "'e conv_world \<Rightarrow> ('e, string) stage" where
  "trunk_lease_key w e = (case cw_route w e of
       (Inl t, e') \<Rightarrow> ends ConvError (''classify.route: '' @ t) e'
     | (Inr k, e') \<Rightarrow> (if k = [] then ends ConvError ''daemon returned no trunk lease key'' e' else go_on k e'))"

definition default_lease_ttl :: int where "default_lease_ttl = 120000"

definition lease_ttl :: "'e conv_spec \<Rightarrow> int" where
  "lease_ttl s = (if cs_ttl s = 0 then default_lease_ttl else cs_ttl s)"

fun acquire_trunk :: "'e conv_world \<Rightarrow> string \<Rightarrow> int \<Rightarrow> nat \<Rightarrow> ('e, unit) stage" where
  "acquire_trunk w key ttl 0 e = ends ConvError ''trunk lease busy'' e"
| "acquire_trunk w key ttl (Suc n) e = (case cw_acquire w key ttl e of
       (Inl t, e') \<Rightarrow> ends ConvError (''lease.acquire: '' @ t) e'
     | (Inr True, e') \<Rightarrow> go_on () e'
     | (Inr False, e') \<Rightarrow> acquire_trunk w key ttl n (cw_pause w e'))"

definition acquire_tries :: nat where "acquire_tries = 120"

text \<open>What runs while the lease is held.\<close>

definition merge_branch :: "'e conv_world \<Rightarrow> 'e conv_spec \<Rightarrow> ('e, conv_result) stage" where
  "merge_branch w s =
     after_stage (new_commits w s ''already converged / no new commits on '') (\<lambda>_ e.
       case trimmed_git w (cs_repo s) [''merge'', ''--no-ff'', ''--no-edit'', cs_branch s] e of
         ((out, Some _), e') \<Rightarrow>
           (case trimmed_git w (cs_repo s) [''merge'', ''--abort''] e' of (_, e'') \<Rightarrow> ends Conflict (''merge conflict (aborted): '' @ out) e'')
       | ((out, None), e') \<Rightarrow>
           after_stage (git_stage w (cs_repo s) [''rev-parse'', ''HEAD''] ''rev-parse merge HEAD'')
             (\<lambda>oid. go_on \<lparr>cr_status = Converged, cr_reason = [], cr_merge = oid\<rparr>) e')"

definition before_merge :: "'e conv_world \<Rightarrow> 'e conv_spec \<Rightarrow> ('e, string) stage" where
  "before_merge w s =
     after_stage (check_names s) (\<lambda>_.
     after_stage (fetch_clone w s) (\<lambda>_.
     after_stage (drift_guard w s) (\<lambda>_.
     after_stage (new_commits w s ''no new commits on '') (\<lambda>_.
     after_stage (clean_guard w s) (\<lambda>_.
     after_stage (run_gate w s) (\<lambda>_.
     after_stage (trunk_lease_key w) (\<lambda>key.
     after_stage (acquire_trunk w key (lease_ttl s) acquire_tries) (\<lambda>_. go_on key))))))))"

definition converge :: "'e conv_world \<Rightarrow> 'e conv_spec \<Rightarrow> 'e \<Rightarrow> conv_result \<times> 'e" where
  "converge w s e = (case before_merge w s e of
       (Inl r, e') \<Rightarrow> (r, e')
     | (Inr key, e') \<Rightarrow> (case merge_branch w s e' of (r, e'') \<Rightarrow> (case_sum id id r, cw_release w key e'')))"

section \<open>The launcher's choice\<close>

text \<open>What the launch directory and its manifest say, before the agent runs.\<close>

record conv_policy =
  cp_target :: string
  cp_gate :: string
  cp_enabled :: bool

definition git_line :: "'e conv_world \<Rightarrow> string \<Rightarrow> string list \<Rightarrow> 'e \<Rightarrow> (string \<times> string option) \<times> 'e" where
  "git_line w dir args e = (case cw_line w dir args e of ((out, x), e') \<Rightarrow> ((trim_space out, x), e'))"

definition line_or_empty :: "string \<times> string option \<Rightarrow> string" where
  "line_or_empty r = (case r of (b, None) \<Rightarrow> b | (_, Some _) \<Rightarrow> [])"

definition launch_policy :: "'e conv_world \<Rightarrow> (string \<Rightarrow> manifest_file) \<Rightarrow> string \<Rightarrow> 'e \<Rightarrow> conv_policy \<times> 'e" where
  "launch_policy w load cwd e =
     (if cwd = [] then (\<lparr>cp_target = [], cp_gate = [], cp_enabled = False\<rparr>, e)
      else case git_line w cwd [''rev-parse'', ''--abbrev-ref'', ''HEAD''] e of (b, e1) \<Rightarrow>
        (case git_line w cwd [''rev-parse'', ''--show-toplevel''] e1 of (r, e2) \<Rightarrow>
          (case (if line_or_empty r = [] then Inl (Msg []) else load_manifest (load (line_or_empty r))) of
             Inl _ \<Rightarrow> (\<lparr>cp_target = line_or_empty b, cp_gate = [], cp_enabled = False\<rparr>, e2)
           | Inr m \<Rightarrow> (\<lparr>cp_target = line_or_empty b, cp_gate = m_gate m,
               cp_enabled = (m_conductor m \<and> safe_branch_name (line_or_empty b))\<rparr>, e2))))"

definition conductor_off :: "string \<Rightarrow> bool" where
  "conductor_off env \<longleftrightarrow> to_lower (trim_space env) \<in> {''off'', ''0'', ''false''}"

definition conductor_should_run :: "int \<Rightarrow> string option \<Rightarrow> bool \<Rightarrow> bool" where
  "conductor_should_run code serr enabled \<longleftrightarrow> serr = None \<and> code = 0 \<and> enabled"

record conv_decision =
  cd_converge :: bool
  cd_ask :: bool
  cd_off :: bool

definition converge_decision :: "string \<Rightarrow> bool \<Rightarrow> bool \<Rightarrow> conv_decision" where
  "converge_decision mode tty off =
     (if off \<or> mode = ''off'' then \<lparr>cd_converge = False, cd_ask = False, cd_off = True\<rparr>
      else if mode = ''prompt'' \<and> tty then \<lparr>cd_converge = False, cd_ask = True, cd_off = False\<rparr>
      else \<lparr>cd_converge = True, cd_ask = False, cd_off = False\<rparr>)"

text \<open>The line read at the prompt, and whether the read failed.\<close>

definition prompt_converge :: "string \<Rightarrow> bool \<Rightarrow> bool" where
  "prompt_converge line failed \<longleftrightarrow>
     (if failed \<and> trim_space line = [] then True else to_lower (trim_space line) \<notin> {''n'', ''no''})"

text \<open>Where to fetch from, the gate in force and what runs it; \<open>exec\<close> runs in the container, \<open>shown\<close> gives an error's text.\<close>

definition select_gate :: "(err \<Rightarrow> string) \<Rightarrow> (string list \<Rightarrow> 'e \<Rightarrow> (int option \<times> string \<times> string option) \<times> 'e)
    \<Rightarrow> string \<Rightarrow> string \<Rightarrow> string \<Rightarrow> string \<Rightarrow> string \<times> string \<times> (string \<Rightarrow> 'e \<Rightarrow> (int \<times> string option) \<times> 'e) option" where
  "select_gate shown exec grain cid clone gate =
     (if grain \<noteq> ''container'' then ([], gate, None)
      else if gate = [] then (clone, [], None)
      else if cid \<noteq> [] then (clone, gate, Some (\<lambda>g e. case exec_gate exec cid g e of
          ((code, out, x), e') \<Rightarrow> ((code, map_option shown x), e')))
      else (clone, [], None))"

text \<open>The boundary as provisioned, and how the run of an agent ends.\<close>

record launched =
  ls_grain :: string
  ls_container :: string
  ls_worktree :: string
  ls_branch :: string
  ls_cwd :: string

record run_end =
  re_code :: int
  re_error :: "string option"
  re_mode :: string
  re_tty :: bool
  re_off :: string
  re_line :: "string \<times> bool"

datatype closing = NotRun | Staged | NoDaemon string | Ran conv_result

definition wants_converge :: "conv_policy \<Rightarrow> run_end \<Rightarrow> bool option" where
  "wants_converge p x =
     (if \<not> conductor_should_run (re_code x) (re_error x) (cp_enabled p) then None
      else let d = converge_decision (to_lower (trim_space (re_mode x))) (re_tty x) (conductor_off (re_off x))
        in Some (if cd_ask d then prompt_converge (fst (re_line x)) (snd (re_line x)) else cd_converge d))"

definition launched_spec :: "(err \<Rightarrow> string) \<Rightarrow> (string list \<Rightarrow> 'e \<Rightarrow> (int option \<times> string \<times> string option) \<times> 'e)
    \<Rightarrow> conv_policy \<Rightarrow> launched \<Rightarrow> string \<Rightarrow> 'e conv_spec" where
  "launched_spec shown exec p b cwd =
     (case select_gate shown exec (ls_grain b) (ls_container b) (ls_worktree b) (cp_gate p) of (src, gate, runner) \<Rightarrow>
       \<lparr>cs_branch = ls_branch b, cs_target = cp_target p, cs_repo = cwd,
        cs_boundary = (if ls_worktree b = [] then ls_cwd b else ls_worktree b),
        cs_gate = gate, cs_ttl = 0, cs_from = src, cs_runner = runner\<rparr>)"

definition close_launch :: "'e conv_world \<Rightarrow> (err \<Rightarrow> string) \<Rightarrow> (string list \<Rightarrow> 'e \<Rightarrow> (int option \<times> string \<times> string option) \<times> 'e)
    \<Rightarrow> conv_policy \<Rightarrow> launched \<Rightarrow> string \<Rightarrow> run_end \<Rightarrow> 'e \<Rightarrow> closing \<times> 'e" where
  "close_launch w shown exec p b cwd x e = (case wants_converge p x of
       None \<Rightarrow> (NotRun, e)
     | Some False \<Rightarrow> (Staged, e)
     | Some True \<Rightarrow> (case cw_dial w e of
           (Some t, e') \<Rightarrow> (NoDaemon t, e')
         | (None, e') \<Rightarrow> (case converge w (launched_spec shown exec p b cwd) e' of (r, e'') \<Rightarrow> (Ran r, e''))))"

text \<open>The line on standard error, if there is one.\<close>

definition closing_notice :: "conv_policy \<Rightarrow> launched \<Rightarrow> closing \<Rightarrow> string option" where
  "closing_notice p b c = (let br = ls_branch b; tg = cp_target p in case c of
       NotRun \<Rightarrow> None
     | NoDaemon _ \<Rightarrow> None
     | Staged \<Rightarrow> Some (''mad-trellis: '' @ br @ '' staged onto '' @ tg @ em_dash @ ''run: mad-trellis integrate '' @ br)
     | Ran r \<Rightarrow> (case cr_status r of
           Converged \<Rightarrow> Some (''mad-trellis: converged '' @ br @ '' onto '' @ tg)
         | Conflict \<Rightarrow> Some (''mad-trellis: '' @ br @ '' conflicts with '' @ tg @ em_dash @ ''not merged; resolve with `mad-trellis integrate '' @ br @ ''`'')
         | GateFailed \<Rightarrow> Some (''mad-trellis: gate failed for '' @ br @ em_dash @ ''not merged ('' @ cr_reason r @ ''); fix and run `mad-trellis integrate '' @ br @ ''`'')
         | ConvError \<Rightarrow> Some (''mad-trellis: auto-converge unavailable ('' @ cr_reason r @ ''); run `mad-trellis integrate '' @ br @ ''` manually'')
         | Skipped \<Rightarrow> None))"

section \<open>The command\<close>

definition integrate_fetch :: "'e conv_world \<Rightarrow> string \<Rightarrow> string \<Rightarrow> string \<Rightarrow> 'e \<Rightarrow> err option \<times> 'e" where
  "integrate_fetch w wd src branch e =
     (if src = [] then (None, e)
      else if has_prefix src ''-'' then (Some (Fmt (''--from must not start with '' @ [CHR 0x27, CHR ''-'', CHR 0x27] @ '' (got %q)'') [src]), e)
      else case cw_stat w e src of
          Inl t \<Rightarrow> (Some (Fmt ''--from must be an existing clone directory (got %q): %v'' [src, t]), e)
        | Inr False \<Rightarrow> (Some (Fmt ''--from must be an existing clone directory (got %q): %v'' [src, ''<nil>'']), e)
        | Inr True \<Rightarrow> (case trimmed_git w wd [''fetch'', ''--no-tags'', src, force_ref branch] e of
              ((out, Some t), e') \<Rightarrow> (Some (Fmt (''fetch %s from %s: %w'' @ CHR 0x0A # ''%s'') [branch, src, t, out]), e')
            | ((out, None), e') \<Rightarrow> (None, e')))"

definition integrate_merge :: "'e conv_world \<Rightarrow> string \<Rightarrow> string \<Rightarrow> string \<Rightarrow> 'e \<Rightarrow> err option \<times> 'e" where
  "integrate_merge w wd src branch e =
     (if \<not> safe_branch_name branch
      then (Some (Fmt (''unsafe branch name %q (must be non-empty, not start with '' @ [CHR 0x27, CHR ''-'', CHR 0x27] @ '', and match [A-Za-z0-9._/-])'') [branch]), e)
      else case integrate_fetch w wd src branch e of
          (Some x, e1) \<Rightarrow> (Some x, e1)
        | (None, e1) \<Rightarrow> (case trimmed_git w wd [''merge'', ''--no-ff'', ''--no-edit'', branch] e1 of
              ((out, Some _), e2) \<Rightarrow> (case trimmed_git w wd [''merge'', ''--abort''] e2 of
                  (_, e3) \<Rightarrow> (Some (Fmt (''conflict integrating %s (merge aborted):'' @ CHR 0x0A # ''%s'') [branch, out]), e3))
            | ((out, None), e2) \<Rightarrow> (None, e2)))"

fun wait_for_trunk :: "'e conv_world \<Rightarrow> string \<Rightarrow> nat \<Rightarrow> 'e \<Rightarrow> err option \<times> 'e" where
  "wait_for_trunk w key 0 e = (Some (Msg ''could not acquire the trunk lease (still busy)''), e)"
| "wait_for_trunk w key (Suc n) e = (case cw_acquire w key 120000 e of
       (Inl t, e') \<Rightarrow> (Some (Msg t), e')
     | (Inr True, e') \<Rightarrow> (None, e')
     | (Inr False, e') \<Rightarrow> wait_for_trunk w key n (cw_pause w e'))"

text \<open>\<open>wd\<close> is the working directory; the line that reports success follows the merge and is left out.\<close>

definition integrate :: "'e conv_world \<Rightarrow> string \<Rightarrow> string \<Rightarrow> string \<Rightarrow> 'e \<Rightarrow> err option \<times> 'e" where
  "integrate w wd src branch e = (case cw_dial w e of
       (Some t, e1) \<Rightarrow> (Some (Fmt (''daemon not reachable (%w)'' @ em_dash @ ''start `mad-trellis daemon`'') [t]), e1)
     | (None, e1) \<Rightarrow> (case cw_route w e1 of
         (Inl t, e2) \<Rightarrow> (Some (Msg t), e2)
       | (Inr key, e2) \<Rightarrow>
           (if key = [] then (Some (Msg ''daemon returned no trunk lease key''), e2)
            else case wait_for_trunk w key 120 e2 of
                (Some x, e3) \<Rightarrow> (Some x, e3)
              | (None, e3) \<Rightarrow> (case integrate_merge w wd src branch e3 of (r, e4) \<Rightarrow> (r, cw_release w key e4)))))"

end
