(* ===== verification/ConvergeFacts.thy ===== *)
theory ConvergeFacts
  imports Converge
begin

text \<open>
  What a convergence does to the outside world, in which order: the calls are recorded, and the record obeys a
  discipline whatever git, the gate and the daemon answer.
\<close>

section \<open>Recording\<close>

datatype event =
    GitRun "string list" bool
  | GateRun bool
  | Acquired string bool
  | Released string

definition recorded :: "'e conv_world \<Rightarrow> ('e \<times> event list) conv_world" where
  "recorded w = \<lparr>
     cw_git = (\<lambda>dir args (e, l). case cw_git w dir args e of ((out, x), e') \<Rightarrow> ((out, x), e', l @ [GitRun args (x = None)])),
     cw_line = (\<lambda>dir args (e, l). case cw_line w dir args e of (r, e') \<Rightarrow> (r, e', l)),
     cw_stat = (\<lambda>(e, l) p. cw_stat w e p),
     cw_sh = (\<lambda>dir args (e, l). case cw_sh w dir args e of ((c, x), e') \<Rightarrow> ((c, x), e', l @ [GateRun (x = None)])),
     cw_dial = (\<lambda>(e, l). case cw_dial w e of (x, e') \<Rightarrow> (x, e', l)),
     cw_route = (\<lambda>(e, l). case cw_route w e of (r, e') \<Rightarrow> (r, e', l)),
     cw_acquire = (\<lambda>key ttl (e, l). case cw_acquire w key ttl e of (r, e') \<Rightarrow> (r, e', l @ [Acquired key (r = Inr True)])),
     cw_release = (\<lambda>key (e, l). (cw_release w key e, l @ [Released key])),
     cw_pause = (\<lambda>(e, l). (cw_pause w e, l))\<rparr>"

definition recorded_spec :: "'e conv_spec \<Rightarrow> ('e \<times> event list) conv_spec" where
  "recorded_spec s = \<lparr>cs_branch = cs_branch s, cs_target = cs_target s, cs_repo = cs_repo s, cs_boundary = cs_boundary s,
     cs_gate = cs_gate s, cs_ttl = cs_ttl s, cs_from = cs_from s,
     cs_runner = map_option (\<lambda>r g (e, l). case r g e of ((c, x), e') \<Rightarrow> ((c, x), e', l @ [GateRun (x = None \<and> c = 0)])) (cs_runner s)\<rparr>"

lemma recorded_spec_fields [simp]:
  "cs_branch (recorded_spec s) = cs_branch s" "cs_target (recorded_spec s) = cs_target s" "cs_repo (recorded_spec s) = cs_repo s"
  "cs_gate (recorded_spec s) = cs_gate s" "cs_ttl (recorded_spec s) = cs_ttl s" "cs_from (recorded_spec s) = cs_from s"
  by (simp_all add: recorded_spec_def)

text \<open>The recorded stage does what the stage does, and what it records is as \<open>Q\<close> says.\<close>

definition records :: "('e \<times> event list \<Rightarrow> 'r \<times> 'e \<times> event list) \<Rightarrow> ('e \<Rightarrow> 'r \<times> 'e) \<Rightarrow> ('r \<Rightarrow> event list \<Rightarrow> bool) \<Rightarrow> bool" where
  "records m' m Q \<longleftrightarrow> (\<forall>e l. \<exists>ev. m' (e, l) = (fst (m e), snd (m e), l @ ev) \<and> Q (fst (m e)) ev)"

lemma recordsI: "(\<And>e l. \<exists>ev. m' (e, l) = (fst (m e), snd (m e), l @ ev) \<and> Q (fst (m e)) ev) \<Longrightarrow> records m' m Q"
  by (simp add: records_def)

lemma records_weaken: "records m' m Q \<Longrightarrow> (\<And>r ev. Q r ev \<Longrightarrow> R r ev) \<Longrightarrow> records m' m R"
  unfolding records_def by blast

lemma records_go_on [intro]: "Q (Inr x) [] \<Longrightarrow> records (go_on x) (go_on x) Q"
  by (simp add: records_def go_on_def)

lemma records_ends [intro]: "Q (Inl \<lparr>cr_status = s, cr_reason = r, cr_merge = []\<rparr>) [] \<Longrightarrow> records (ends s r) (ends s r) Q"
  by (simp add: records_def ends_def)

lemma records_after:
  assumes m: "records m' m P" and k: "\<And>x. records (k' x) (k x) (R x)"
    and stop: "\<And>r ev. P (Inl r) ev \<Longrightarrow> Q (Inl r) ev" and go: "\<And>x y ev ev'. P (Inr x) ev \<Longrightarrow> R x y ev' \<Longrightarrow> Q y (ev @ ev')"
  shows "records (after_stage m' k') (after_stage m k) Q"
proof (rule recordsI)
  fix e l
  obtain ev where ev: "m' (e, l) = (fst (m e), snd (m e), l @ ev)" "P (fst (m e)) ev"
    using m unfolding records_def by blast
  show "\<exists>ev. after_stage m' k' (e, l) = (fst (after_stage m k e), snd (after_stage m k e), l @ ev) \<and> Q (fst (after_stage m k e)) ev"
  proof (cases "m e")
    case (Pair r e1)
    show ?thesis
    proof (cases r)
      case (Inl a)
      then show ?thesis using ev stop Pair by (auto simp: after_stage_def)
    next
      case (Inr x)
      obtain ev' where "k' x (e1, l @ ev) = (fst (k x e1), snd (k x e1), (l @ ev) @ ev')" "R x (fst (k x e1)) ev'"
        using k [of x] unfolding records_def by blast
      then show ?thesis using ev go Pair Inr by (auto simp: after_stage_def)
    qed
  qed
qed

section \<open>What each stage records\<close>

text \<open>Nothing that changes the target or takes the lease.\<close>

fun tame :: "event \<Rightarrow> bool" where
  "tame (GitRun args ok) \<longleftrightarrow> take 1 args \<noteq> [''merge'']"
| "tame (GateRun ok) \<longleftrightarrow> False"
| "tame (Acquired key granted) \<longleftrightarrow> False"
| "tame (Released key) \<longleftrightarrow> False"

definition tamely :: "conv_result + 'a \<Rightarrow> event list \<Rightarrow> bool" where
  "tamely r ev \<longleftrightarrow> list_all tame ev \<and> (\<forall>x. r = Inl x \<longrightarrow> cr_status x \<in> {Skipped, ConvError})"

lemma git_records:
  assumes "take 1 args \<noteq> [''merge'']"
  shows "records (git_stage (recorded w) dir args what) (git_stage w dir args what) tamely"
  using assms by (intro recordsI) (auto simp: git_stage_def trimmed_git_def recorded_def go_on_def ends_def tamely_def
      split: prod.split option.split)

lemma tamely_after:
  assumes "records m' m tamely" and "\<And>x. records (k' x) (k x) tamely"
  shows "records (after_stage m' k') (after_stage m k) tamely"
  by (rule records_after [OF assms(1), where R = "\<lambda>_. tamely"]) (use assms(2) in \<open>auto simp: tamely_def\<close>)

lemma tamely_ends: "s \<in> {Skipped, ConvError} \<Longrightarrow> records (ends s r) (ends s r) tamely"
  by (rule records_ends) (simp add: tamely_def)

lemma tamely_go_on: "records (go_on x) (go_on x) tamely"
  by (rule records_go_on) (simp add: tamely_def)

lemmas tamely_rules = tamely_after git_records tamely_go_on tamely_ends

lemma check_records: "records (check_names (recorded_spec s)) (check_names s) tamely"
  by (simp add: check_names_def tamely_rules)

lemma drift_records: "records (drift_guard (recorded w) (recorded_spec s)) (drift_guard w s) tamely"
  unfolding drift_guard_def by (auto intro!: tamely_rules)

lemma commits_records: "records (new_commits (recorded w) (recorded_spec s) none) (new_commits w s none) tamely"
  unfolding new_commits_def by (auto intro!: tamely_rules)

lemma clean_records: "records (clean_guard (recorded w) (recorded_spec s)) (clean_guard w s) tamely"
  unfolding clean_guard_def by (auto intro!: tamely_rules)

lemma fetch_records: "records (fetch_clone (recorded w) (recorded_spec s)) (fetch_clone w s) tamely"
proof (rule recordsI)
  fix e :: 'a and l
  have fetch: "records (after_stage (git_stage (recorded w) (cs_repo s) [''fetch'', ''--no-tags'', cs_from s, force_ref (cs_branch s)]
         ''fetch container branch'') (\<lambda>_. go_on ()))
      (after_stage (git_stage w (cs_repo s) [''fetch'', ''--no-tags'', cs_from s, force_ref (cs_branch s)] ''fetch container branch'')
         (\<lambda>_. go_on ())) tamely"
    by (auto intro!: tamely_rules)
  have dir: "cw_stat (recorded w) (e, l) p = cw_stat w e p" for p by (simp add: recorded_def)
  show "\<exists>ev. fetch_clone (recorded w) (recorded_spec s) (e, l) = (fst (fetch_clone w s e), snd (fetch_clone w s e), l @ ev)
      \<and> tamely (fst (fetch_clone w s e)) ev"
    using fetch [unfolded records_def] by (simp add: fetch_clone_def dir go_on_def ends_def tamely_def)
qed

lemma route_records: "records (trunk_lease_key (recorded w)) (trunk_lease_key w) tamely"
  by (rule recordsI) (auto simp: trunk_lease_key_def recorded_def go_on_def ends_def tamely_def split: prod.split sum.split)

text \<open>The gate: it passed, or the convergence ends with its failure; without a gate nothing runs.\<close>

definition gated :: "string \<Rightarrow> conv_result + unit \<Rightarrow> event list \<Rightarrow> bool" where
  "gated gate r ev \<longleftrightarrow> (case r of
       Inl x \<Rightarrow> cr_status x = GateFailed \<and> ev = [GateRun False]
     | Inr _ \<Rightarrow> ev = (if gate = [] then [] else [GateRun True]))"

lemma gate_records: "records (run_gate (recorded w) (recorded_spec s)) (run_gate w s) (gated (cs_gate s))"
proof (rule recordsI)
  fix e :: 'a and l
  have "gate_runner (recorded w) (recorded_spec s) g (e, l)
      = (case gate_runner w s g e of ((c, x), e') \<Rightarrow> ((c, x), e', l @ [GateRun (x = None \<and> c = 0)]))" for g
    by (auto simp: gate_runner_def host_gate_runner_def exit_code_of_def recorded_spec_def recorded_def split: option.split prod.split)
  then show "\<exists>ev. run_gate (recorded w) (recorded_spec s) (e, l) = (fst (run_gate w s e), snd (run_gate w s e), l @ ev)
      \<and> gated (cs_gate s) (fst (run_gate w s e)) ev"
    by (auto simp: run_gate_def gated_def go_on_def ends_def split: prod.split option.split)
qed

text \<open>The lease: refused requests, then the grant, if the stage goes on.\<close>

definition waited :: "string \<Rightarrow> conv_result + unit \<Rightarrow> event list \<Rightarrow> bool" where
  "waited key r ev \<longleftrightarrow> (case r of
       Inl x \<Rightarrow> cr_status x = ConvError \<and> set ev \<subseteq> {Acquired key False}
     | Inr _ \<Rightarrow> (\<exists>no. ev = no @ [Acquired key True] \<and> set no \<subseteq> {Acquired key False}))"

lemma acquire_records: "records (acquire_trunk (recorded w) key ttl n) (acquire_trunk w key ttl n) (waited key)"
proof (induction n)
  case 0
  show ?case by (rule recordsI) (simp add: ends_def waited_def)
next
  case (Suc n)
  show ?case
  proof (rule recordsI)
    fix e :: 'a and l
    obtain r e1 where a: "cw_acquire w key ttl e = (r, e1)" by (cases "cw_acquire w key ttl e")
    have a': "cw_acquire (recorded w) key ttl (e, l) = (r, e1, l @ [Acquired key (r = Inr True)])"
      and pause: "cw_pause (recorded w) (e1, l') = (cw_pause w e1, l')" for l'
      by (simp_all add: recorded_def a)
    obtain ev where ev: "acquire_trunk (recorded w) key ttl n (cw_pause w e1, l @ [Acquired key False])
        = (fst (acquire_trunk w key ttl n (cw_pause w e1)), snd (acquire_trunk w key ttl n (cw_pause w e1)), (l @ [Acquired key False]) @ ev)"
      "waited key (fst (acquire_trunk w key ttl n (cw_pause w e1))) ev"
      using Suc unfolding records_def by blast
    consider t where "r = Inl t" | "r = Inr True" | "r = Inr False" by (cases r) auto
    then show "\<exists>ev. acquire_trunk (recorded w) key ttl (Suc n) (e, l)
        = (fst (acquire_trunk w key ttl (Suc n) e), snd (acquire_trunk w key ttl (Suc n) e), l @ ev)
        \<and> waited key (fst (acquire_trunk w key ttl (Suc n) e)) ev"
    proof cases
      case 3
      have "waited key (fst (acquire_trunk w key ttl n (cw_pause w e1))) (Acquired key False # ev)"
        using ev(2) by (auto simp: waited_def split: sum.splits)
      then show ?thesis using a a' pause ev(1) 3 by simp
    qed (use a a' in \<open>auto simp: ends_def go_on_def waited_def\<close>)
  qed
qed

section \<open>Landing under the lease\<close>

definition merge_run :: "string \<Rightarrow> bool \<Rightarrow> event" where
  "merge_run branch ok = GitRun [''merge'', ''--no-ff'', ''--no-edit'', branch] ok"

definition abort_run :: "bool \<Rightarrow> event" where "abort_run ok = GitRun [''merge'', ''--abort''] ok"

text \<open>
  A look at the commits; then nothing, or a merge that fails and is aborted, or a merge that succeeds and
  further looks. The status tells which.
\<close>

definition landing :: "string \<Rightarrow> conv_status \<Rightarrow> event list \<Rightarrow> bool" where
  "landing branch st ev \<longleftrightarrow> (\<exists>look rest. ev = look @ rest \<and> list_all tame look \<and>
     (rest = [] \<and> st \<in> {Skipped, ConvError}
      \<or> (\<exists>ok. rest = [merge_run branch False, abort_run ok]) \<and> st = Conflict
      \<or> (\<exists>ok. rest = [merge_run branch True, GitRun [''rev-parse'', ''HEAD''] ok] \<and> st = (if ok then Converged else ConvError))))"

lemma merge_records:
  "records (merge_branch (recorded w) (recorded_spec s)) (merge_branch w s)
     (\<lambda>r. landing (cs_branch s) (cr_status (case_sum id id r)))"
proof -
  let ?land = "\<lambda>w' s' x e. case trimmed_git w' (cs_repo s') [''merge'', ''--no-ff'', ''--no-edit'', cs_branch s'] e of
         ((out, Some _), e') \<Rightarrow>
           (case trimmed_git w' (cs_repo s') [''merge'', ''--abort''] e' of (_, e'') \<Rightarrow> ends Conflict (''merge conflict (aborted): '' @ out) e'')
       | ((out, None), e') \<Rightarrow>
           after_stage (git_stage w' (cs_repo s') [''rev-parse'', ''HEAD''] ''rev-parse merge HEAD'')
             (\<lambda>oid. go_on \<lparr>cr_status = Converged, cr_reason = [], cr_merge = oid\<rparr>) e'"
  have land: "records (?land (recorded w) (recorded_spec s) x) (?land w s x) (\<lambda>r ev.
      (\<exists>ok. ev = [merge_run (cs_branch s) False, abort_run ok]) \<and> cr_status (case_sum id id r) = Conflict
      \<or> (\<exists>ok. ev = [merge_run (cs_branch s) True, GitRun [''rev-parse'', ''HEAD''] ok]
          \<and> cr_status (case_sum id id r) = (if ok then Converged else ConvError)))" for x
    by (rule recordsI) (auto simp: trimmed_git_def git_stage_def after_stage_def recorded_def go_on_def ends_def merge_run_def abort_run_def
        split: prod.split option.split)
  show ?thesis unfolding merge_branch_def
  proof (rule records_after [OF commits_records land])
    fix r :: conv_result and ev
    assume t: "tamely (Inl r :: conv_result + unit) ev"
    show "landing (cs_branch s) (cr_status (case_sum id id (Inl r :: conv_result + conv_result))) ev"
      unfolding landing_def by (rule exI [of _ ev], rule exI [of _ "[]"]) (use t in \<open>auto simp: tamely_def\<close>)
  next
    fix x :: unit and y :: "conv_result + conv_result" and ev ev'
    assume t: "tamely (Inr x :: conv_result + unit) ev" and r: "(\<exists>ok. ev' = [merge_run (cs_branch s) False, abort_run ok])
        \<and> cr_status (case_sum id id y) = Conflict
      \<or> (\<exists>ok. ev' = [merge_run (cs_branch s) True, GitRun [''rev-parse'', ''HEAD''] ok]
          \<and> cr_status (case_sum id id y) = (if ok then Converged else ConvError))"
    show "landing (cs_branch s) (cr_status (case_sum id id y)) (ev @ ev')"
      unfolding landing_def by (rule exI [of _ ev], rule exI [of _ ev']) (use t r in \<open>simp add: tamely_def\<close>)
  qed
qed

section \<open>The whole convergence\<close>

fun quiet :: "event \<Rightarrow> bool" where
  "quiet (Acquired key granted) \<longleftrightarrow> \<not> granted"
| "quiet (GateRun ok) \<longleftrightarrow> True"
| "quiet ev \<longleftrightarrow> tame ev"

definition prepared :: "string \<Rightarrow> conv_result + string \<Rightarrow> event list \<Rightarrow> bool" where
  "prepared gate r ev \<longleftrightarrow> (case r of
       Inl x \<Rightarrow> list_all quiet ev \<and> cr_status x \<in> {Skipped, ConvError, GateFailed} \<and> (cr_status x = GateFailed \<longleftrightarrow> GateRun False \<in> set ev)
     | Inr key \<Rightarrow> (\<exists>pre. ev = pre @ [Acquired key True] \<and> list_all quiet pre \<and> (gate \<noteq> [] \<longrightarrow> GateRun True \<in> set pre)
         \<and> GateRun False \<notin> set pre))"

lemma tame_quiet: "tame ev \<Longrightarrow> quiet ev" by (cases ev) auto

lemma tame_list: "list_all tame ev \<Longrightarrow> list_all quiet ev \<and> GateRun ok \<notin> set ev"
  by (induction ev) (auto intro: tame_quiet)

lemma refused_list: "set ev \<subseteq> {Acquired key False} \<Longrightarrow> list_all quiet ev \<and> GateRun ok \<notin> set ev"
  by (induction ev) auto

lemma prepared_stop [simp]: "prepared gate (Inl x) ev \<longleftrightarrow>
    list_all quiet ev \<and> cr_status x \<in> {Skipped, ConvError, GateFailed} \<and> (cr_status x = GateFailed \<longleftrightarrow> GateRun False \<in> set ev)"
  by (simp add: prepared_def)

lemma prepared_go: "prepared gate (Inr key) ev \<longleftrightarrow> (\<exists>pre. ev = pre @ [Acquired key True] \<and> list_all quiet pre
    \<and> (gate \<noteq> [] \<longrightarrow> GateRun True \<in> set pre) \<and> GateRun False \<notin> set pre)"
  by (simp add: prepared_def)

lemma prepared_tame: "list_all tame ev \<Longrightarrow> prepared gate r ev' \<Longrightarrow> prepared gate r (ev @ ev')"
proof (cases r)
  case (Inr key)
  assume "list_all tame ev" "prepared gate r ev'"
  moreover obtain pre where "ev' = pre @ [Acquired key True]" "list_all quiet pre" "gate \<noteq> [] \<longrightarrow> GateRun True \<in> set pre"
      "GateRun False \<notin> set pre"
    using \<open>prepared gate r ev'\<close> unfolding Inr prepared_go by blast
  ultimately show ?thesis unfolding Inr prepared_go
    by (intro exI [of _ "ev @ pre"]) (simp add: tame_list)
qed (use tame_list in auto)

lemma prepared_after:
  assumes "records m' m tamely" and "\<And>x. records (k' x) (k x) (prepared gate)"
  shows "records (after_stage m' k') (after_stage m k) (prepared gate)"
proof (rule records_after [OF assms])
  fix r :: conv_result and ev
  assume "tamely (Inl r :: conv_result + 'b) ev"
  then show "prepared gate (Inl r) ev" using tame_list [of ev] by (auto simp: tamely_def)
qed (auto simp: tamely_def intro: prepared_tame)

lemma lease_records:
  "records (after_stage (acquire_trunk (recorded w) key ttl n) (\<lambda>_. go_on key))
     (after_stage (acquire_trunk w key ttl n) (\<lambda>_. go_on key)) (prepared [])"
proof (rule records_after [OF acquire_records, where R = "\<lambda>_ r ev. r = Inr key \<and> ev = []"])
  show "records (go_on key) (go_on key) (\<lambda>r ev. r = Inr key \<and> ev = [])" for x :: unit by (rule records_go_on) simp
next
  fix r :: conv_result and ev
  assume "waited key (Inl r) ev"
  then show "prepared [] (Inl r) ev" using refused_list [of ev key] by (auto simp: waited_def)
next
  fix x :: unit and y :: "conv_result + string" and ev ev' :: "event list"
  assume a: "waited key (Inr x) ev" and b: "y = Inr key \<and> ev' = []"
  from a obtain no where "ev = no @ [Acquired key True]" "set no \<subseteq> {Acquired key False}" by (auto simp: waited_def)
  then show "prepared [] y (ev @ ev')" using b refused_list [of no key] by (auto simp: prepared_go)
qed

lemma gated_records:
  assumes "records k' k (prepared [])"
  shows "records (after_stage (run_gate (recorded w) (recorded_spec s)) (\<lambda>_. k')) (after_stage (run_gate w s) (\<lambda>_. k))
    (prepared (cs_gate s))"
proof (rule records_after [OF gate_records assms])
  fix x :: unit and y :: "conv_result + string" and ev ev'
  assume g: "gated (cs_gate s) (Inr x) ev" and p: "prepared [] y ev'"
  have ev: "ev = (if cs_gate s = [] then [] else [GateRun True])" using g by (simp add: gated_def)
  show "prepared (cs_gate s) y (ev @ ev')"
  proof (cases y)
    case (Inr key)
    obtain pre where "ev' = pre @ [Acquired key True]" "list_all quiet pre" "GateRun False \<notin> set pre"
      using p unfolding Inr prepared_go by blast
    then show ?thesis unfolding Inr prepared_go by (intro exI [of _ "ev @ pre"]) (auto simp: ev)
  qed (use p ev in auto)
qed (auto simp: gated_def)

lemma before_records: "records (before_merge (recorded w) (recorded_spec s)) (before_merge w s) (prepared (cs_gate s))"
  unfolding before_merge_def lease_ttl_def recorded_spec_fields
  by (intro prepared_after check_records fetch_records drift_records commits_records clean_records gated_records
      prepared_after [OF route_records] lease_records)

lemma recorded_release: "cw_release (recorded w) key (e, l) = (cw_release w key e, l @ [Released key])"
  by (simp add: recorded_def)

text \<open>The calls of a convergence that ends with a status: refused, or landed under the lease.\<close>

definition orderly :: "string \<Rightarrow> string \<Rightarrow> conv_status \<Rightarrow> event list \<Rightarrow> bool" where
  "orderly gate branch st ev \<longleftrightarrow>
     list_all quiet ev \<and> st \<in> {Skipped, ConvError, GateFailed} \<and> (st = GateFailed \<longleftrightarrow> GateRun False \<in> set ev)
     \<or> (\<exists>pre key mid. ev = pre @ [Acquired key True] @ mid @ [Released key] \<and> list_all quiet pre
          \<and> (gate \<noteq> [] \<longrightarrow> GateRun True \<in> set pre) \<and> GateRun False \<notin> set pre \<and> landing branch st mid)"


section \<open>The command\<close>

text \<open>The same discipline for \<open>integrate\<close>, which has no gate and no guards.\<close>

definition merged_by_hand :: "string \<Rightarrow> err option \<Rightarrow> event list \<Rightarrow> bool" where
  "merged_by_hand branch r ev \<longleftrightarrow> (\<exists>look rest. ev = look @ rest \<and> list_all tame look \<and>
     (rest = [] \<and> r \<noteq> None
      \<or> (\<exists>ok. rest = [merge_run branch False, abort_run ok]) \<and> r \<noteq> None
      \<or> rest = [merge_run branch True] \<and> r = None))"

lemma hand_fetch_records: "records (integrate_fetch (recorded w) wd src branch) (integrate_fetch w wd src branch) (\<lambda>r ev. list_all tame ev)"
  by (rule recordsI) (auto simp: integrate_fetch_def trimmed_git_def recorded_def split: prod.split option.split sum.split bool.split)

lemma hand_merge_records: "records (integrate_merge (recorded w) wd src branch) (integrate_merge w wd src branch) (merged_by_hand branch)"
proof (rule recordsI)
  fix e :: 'a and l
  let ?m = "\<lambda>w'. integrate_merge w' wd src branch" and ?f = "integrate_fetch w wd src branch e"
  obtain ev where f: "integrate_fetch (recorded w) wd src branch (e, l) = (fst ?f, snd ?f, l @ ev)" and ev: "list_all tame ev"
    using hand_fetch_records [of w wd src branch] unfolding records_def by blast
  show "\<exists>ev. integrate_merge (recorded w) wd src branch (e, l) = (fst (integrate_merge w wd src branch e), snd (integrate_merge w wd src branch e), l @ ev)
      \<and> merged_by_hand branch (fst (integrate_merge w wd src branch e)) ev"
  proof (cases "safe_branch_name branch")
    case False
    then show ?thesis by (simp add: integrate_merge_def merged_by_hand_def)
  next
    case True
    obtain r e1 where r: "?f = (r, e1)" by (cases ?f)
    have stop: "merged_by_hand branch (Some x) ev" for x
      unfolding merged_by_hand_def by (rule exI [of _ ev], rule exI [of _ "[]"]) (simp add: ev)
    have aborted: "merged_by_hand branch (Some x) (ev @ [merge_run branch False, abort_run ok])" for x ok
      unfolding merged_by_hand_def by (rule exI [of _ ev], rule exI [of _ "[merge_run branch False, abort_run ok]"]) (auto simp: ev)
    have merged: "merged_by_hand branch None (ev @ [merge_run branch True])"
      unfolding merged_by_hand_def by (rule exI [of _ ev], rule exI [of _ "[merge_run branch True]"]) (simp add: ev)
    show ?thesis using True f r stop aborted merged
      by (cases r) (auto simp: integrate_merge_def trimmed_git_def recorded_def merge_run_def abort_run_def split: prod.split option.split)
  qed
qed

lemma wait_records:
  "records (wait_for_trunk (recorded w) key n) (wait_for_trunk w key n)
     (\<lambda>r ev. if r = None then (\<exists>no. ev = no @ [Acquired key True] \<and> set no \<subseteq> {Acquired key False}) else set ev \<subseteq> {Acquired key False})"
proof (induction n)
  case 0
  show ?case by (rule recordsI) simp
next
  case (Suc n)
  let ?Q = "\<lambda>r ev. if r = (None :: err option) then (\<exists>no. ev = no @ [Acquired key True] \<and> set no \<subseteq> {Acquired key False}) else set ev \<subseteq> {Acquired key False}"
  show ?case
  proof (rule recordsI)
    fix e :: 'a and l
    obtain r e1 where a: "cw_acquire w key 120000 e = (r, e1)" by (cases "cw_acquire w key 120000 e")
    have a': "cw_acquire (recorded w) key 120000 (e, l) = (r, e1, l @ [Acquired key (r = Inr True)])"
      and pause: "cw_pause (recorded w) (e1, l') = (cw_pause w e1, l')" for l'
      by (simp_all add: recorded_def a)
    let ?r = "wait_for_trunk w key n (cw_pause w e1)"
    obtain ev where ev: "wait_for_trunk (recorded w) key n (cw_pause w e1, l @ [Acquired key False]) = (fst ?r, snd ?r, (l @ [Acquired key False]) @ ev)"
      "?Q (fst ?r) ev"
      using Suc unfolding records_def by blast
    have more: "?Q (fst ?r) (Acquired key False # ev)" using ev(2) by (auto split: if_splits)
    consider t where "r = Inl t" | "r = Inr True" | "r = Inr False" by (cases r) auto
    then show "\<exists>ev. wait_for_trunk (recorded w) key (Suc n) (e, l)
        = (fst (wait_for_trunk w key (Suc n) e), snd (wait_for_trunk w key (Suc n) e), l @ ev)
        \<and> ?Q (fst (wait_for_trunk w key (Suc n) e)) ev"
    proof cases
      case 3
      then show ?thesis using a a' pause ev(1) more by simp
    qed (use a a' in auto)
  qed
qed

definition orderly_by_hand :: "string \<Rightarrow> err option \<Rightarrow> event list \<Rightarrow> bool" where
  "orderly_by_hand branch r ev \<longleftrightarrow>
     list_all quiet ev \<and> r \<noteq> None
     \<or> (\<exists>pre key mid. ev = pre @ [Acquired key True] @ mid @ [Released key] \<and> list_all quiet pre \<and> merged_by_hand branch r mid)"

theorem integrate_orderly:
  "fst (integrate (recorded w) wd src branch (e, [])) = fst (integrate w wd src branch e)
   \<and> fst (snd (integrate (recorded w) wd src branch (e, []))) = snd (integrate w wd src branch e)
   \<and> orderly_by_hand branch (fst (integrate w wd src branch e)) (snd (snd (integrate (recorded w) wd src branch (e, []))))"
proof -
  obtain d e1 where d: "cw_dial w e = (d, e1)" by (cases "cw_dial w e")
  obtain k e2 where k: "cw_route w e1 = (k, e2)" by (cases "cw_route w e1")
  have d': "cw_dial (recorded w) (e, l) = (d, e1, l)" and k': "cw_route (recorded w) (e1, l) = (k, e2, l)" for l
    by (simp_all add: recorded_def d k)
  show ?thesis
  proof (cases "d = None \<and> (\<exists>key. k = Inr key \<and> key \<noteq> [])")
    case False
    then show ?thesis by (cases d; cases k) (auto simp: integrate_def d k d' k' orderly_by_hand_def)
  next
    case True
    then obtain key where key: "d = None" "k = Inr key" "key \<noteq> []" by blast
    obtain r e3 where r: "wait_for_trunk w key 120 e2 = (r, e3)" by (cases "wait_for_trunk w key 120 e2")
    obtain ev where ev: "wait_for_trunk (recorded w) key 120 (e2, []) = (r, e3, ev)"
      "if r = None then (\<exists>no. ev = no @ [Acquired key True] \<and> set no \<subseteq> {Acquired key False}) else set ev \<subseteq> {Acquired key False}"
      using wait_records [of w key 120] r unfolding records_def by (metis append_Nil fst_conv snd_conv)
    show ?thesis
    proof (cases r)
      case (Some x)
      then show ?thesis using ev refused_list [of ev key]
        by (simp add: integrate_def d k d' k' key r orderly_by_hand_def)
    next
      case None
      then obtain no where no: "ev = no @ [Acquired key True]" "set no \<subseteq> {Acquired key False}" using ev(2) by auto
      obtain x e4 where x: "integrate_merge w wd src branch e3 = (x, e4)" by (cases "integrate_merge w wd src branch e3")
      obtain mid where mid: "integrate_merge (recorded w) wd src branch (e3, ev) = (x, e4, ev @ mid)" "merged_by_hand branch x mid"
        using hand_merge_records [of w wd src branch] x unfolding records_def by (metis fst_conv snd_conv)
      have "orderly_by_hand branch x (ev @ mid @ [Released key])" unfolding orderly_by_hand_def
        by (rule disjI2, rule exI [of _ no], rule exI [of _ key], rule exI [of _ mid]) (use no mid(2) refused_list [of no key] in simp)
      then show ?thesis using ev(1) None mid(1)
        by (simp add: integrate_def d k d' k' key r x recorded_release)
    qed
  qed
qed

section \<open>The gate of a container\<close>

text \<open>A convergence calls the host's shell only through a gate without a runner.\<close>

definition same_but_shell :: "'e conv_world \<Rightarrow> 'e conv_world \<Rightarrow> bool" where
  "same_but_shell w v \<longleftrightarrow> cw_git w = cw_git v \<and> cw_stat w = cw_stat v \<and> cw_route w = cw_route v \<and> cw_acquire w = cw_acquire v
     \<and> cw_release w = cw_release v \<and> cw_pause w = cw_pause v"

lemma same_stages:
  assumes "same_but_shell w v"
  shows "trimmed_git w = trimmed_git v" "git_stage w = git_stage v" "drift_guard w = drift_guard v"
    "new_commits w = new_commits v" "clean_guard w = clean_guard v" "trunk_lease_key w = trunk_lease_key v"
    "fetch_clone w = fetch_clone v" "merge_branch w = merge_branch v"
proof -
  show t: "trimmed_git w = trimmed_git v" using assms by (intro ext) (simp add: trimmed_git_def same_but_shell_def)
  show g: "git_stage w = git_stage v" by (intro ext) (simp add: git_stage_def t)
  show "drift_guard w = drift_guard v" by (intro ext) (simp add: drift_guard_def g)
  show n: "new_commits w = new_commits v" by (intro ext) (simp add: new_commits_def g)
  show "clean_guard w = clean_guard v" by (intro ext) (simp add: clean_guard_def g)
  show "trunk_lease_key w = trunk_lease_key v" using assms by (intro ext) (simp add: trunk_lease_key_def same_but_shell_def)
  show "fetch_clone w = fetch_clone v" using assms by (intro ext) (simp add: fetch_clone_def g same_but_shell_def)
  show "merge_branch w = merge_branch v" unfolding merge_branch_def n t g by (rule refl)
qed

lemma same_acquire: "same_but_shell w v \<Longrightarrow> acquire_trunk w key ttl n e = acquire_trunk v key ttl n e"
  by (induction n arbitrary: e) (simp_all add: same_but_shell_def split: prod.split sum.split bool.split)

lemma same_converge:
  assumes "same_but_shell w v" and "run_gate w s = run_gate v t"
    and "cs_branch s = cs_branch t" "cs_target s = cs_target t" "cs_repo s = cs_repo t" "cs_ttl s = cs_ttl t" "cs_from s = cs_from t"
  shows "converge w s e = converge v t e"
proof -
  have a: "acquire_trunk w = acquire_trunk v" using same_acquire [OF assms(1)] by (intro ext) simp
  note fields = assms(3-7)
  have c: "check_names s = check_names t" unfolding check_names_def fields by (rule refl)
  have l: "lease_ttl s = lease_ttl t" unfolding lease_ttl_def fields by (rule refl)
  have f: "fetch_clone v s = fetch_clone v t" by (intro ext) (unfold fetch_clone_def fields, rule refl)
  have d: "drift_guard v s = drift_guard v t" unfolding drift_guard_def fields by (rule refl)
  have n: "new_commits v s = new_commits v t" by (intro ext) (unfold new_commits_def fields, rule refl)
  have k: "clean_guard v s = clean_guard v t" unfolding clean_guard_def fields by (rule refl)
  have m: "merge_branch v s = merge_branch v t" unfolding merge_branch_def fields n by (rule refl)
  have b: "before_merge w s = before_merge v t"
    unfolding before_merge_def same_stages [OF assms(1)] assms(2) a c l f d n k by (rule refl)
  have r: "cw_release w = cw_release v" using assms(1) by (simp add: same_but_shell_def)
  show ?thesis unfolding converge_def same_stages [OF assms(1)] b m r by (rule refl)
qed

text \<open>C40: When a container's run ends, what follows does not depend on the host's shell, and of what can be
  executed in the container only on one call, the shell of that very container with the configured gate: with any other
  shell of the host, and any runtime that answers that call alike, the closing is the same.\<close>

theorem container_gate_inside:
  assumes "ls_grain b = ''container''"
    and "exec' [''exec'', ls_container b, ''sh'', ''-c'', cp_gate p] = exec [''exec'', ls_container b, ''sh'', ''-c'', cp_gate p]"
  shows "close_launch (w\<lparr>cw_sh := sh'\<rparr>) shown exec' p b cwd x e = close_launch w shown exec p b cwd x e"
proof -
  have same: "same_but_shell (w\<lparr>cw_sh := sh'\<rparr>) w" by (simp add: same_but_shell_def)
  let ?s = "launched_spec shown exec p b cwd" and ?s' = "launched_spec shown exec' p b cwd"
  have "exec_gate exec' (ls_container b) (cp_gate p) = exec_gate exec (ls_container b) (cp_gate p)"
    using assms(2) by (intro ext) (simp add: exec_gate_def)
  then have "run_gate (w\<lparr>cw_sh := sh'\<rparr>) ?s' = run_gate w ?s"
    using assms(1) by (intro ext) (simp add: run_gate_def gate_runner_def launched_spec_def select_gate_def)
  moreover have "converge (w\<lparr>cw_sh := sh'\<rparr>) ?s' e1 = converge w ?s e1" if "run_gate (w\<lparr>cw_sh := sh'\<rparr>) ?s' = run_gate w ?s" for e1
    using assms(1) by (intro same_converge [OF same that]) (simp_all add: launched_spec_def select_gate_def)
  ultimately show ?thesis by (simp add: close_launch_def split: option.split bool.split prod.split)
qed

end
