(* ===== verification/ConvergeScenarios.thy ===== *)
theory ConvergeScenarios
  imports ConvergeFacts
begin

text \<open>
  Runs of the conductor and of \<open>integrate\<close> on small repositories: a container whose gate passes, a target that drifts
  while the gate runs, and a merge by hand over a merge in progress.
\<close>

section \<open>A small repository\<close>

text \<open>The branch that is checked out, the branches merged, onto which each, and the merge in progress.\<close>

record repo =
  rp_head :: string
  rp_merged :: "(string \<times> string) list"
  rp_merging :: "string option"

definition small_repo :: "string \<Rightarrow> string list \<Rightarrow> repo \<Rightarrow> (string \<times> string option) \<times> repo" where
  "small_repo dir args e =
     (if args = [''rev-parse'', ''--abbrev-ref'', ''HEAD''] then ((rp_head e, None), e)
      else if take 1 args = [''rev-list''] then ((''1'', None), e)
      else if args = [''rev-parse'', ''HEAD''] then ((''c1'', None), e)
      else if args = [''merge'', ''--abort''] then (([], None), e\<lparr>rp_merging := None\<rparr>)
      else if take 1 args = [''merge''] then
        (if rp_merging e \<noteq> None then ((''fatal: You have not concluded your merge (MERGE_HEAD exists).'', Some ''exit status 128''), e)
         else (([], None), e\<lparr>rp_merged := (rp_head e, last args) # rp_merged e\<rparr>))
      else (([], None), e))"

text \<open>The gate that runs on the host may be any command: here somebody switches the branch meanwhile.\<close>

definition small_conv :: "(repo \<Rightarrow> repo) \<Rightarrow> repo conv_world" where
  "small_conv meanwhile = \<lparr>cw_git = small_repo, cw_line = small_repo, cw_stat = (\<lambda>e p. Inr True),
     cw_sh = (\<lambda>dir args e. ((Some 0, None), meanwhile e)), cw_dial = (\<lambda>e. (None, e)), cw_route = (\<lambda>e. (Inr ''trunk'', e)),
     cw_acquire = (\<lambda>key ttl e. (Inr True, e)), cw_release = (\<lambda>key e. e), cw_pause = (\<lambda>e. e)\<rparr>"

definition on_main :: repo where "on_main = \<lparr>rp_head = ''main'', rp_merged = [], rp_merging = None\<rparr>"

definition in_container :: launched where
  "in_container = \<lparr>ls_grain = ''container'', ls_container = ''c7'', ls_worktree = ''/w/clone'', ls_branch = ''nm/a'', ls_cwd = ''/work''\<rparr>"

definition gated_policy :: conv_policy where
  "gated_policy = \<lparr>cp_target = ''main'', cp_gate = ''make test'', cp_enabled = True\<rparr>"

definition clean_end :: run_end where
  "clean_end = \<lparr>re_code = 0, re_error = None, re_mode = [], re_tty = False, re_off = [], re_line = ([], False)\<rparr>"

definition passing_exec :: "string list \<Rightarrow> repo \<Rightarrow> (int option \<times> string \<times> string option) \<times> repo" where
  "passing_exec args e = ((Some 0, ''ok'', None), e)"

definition only_exec :: "string list \<Rightarrow> string list \<Rightarrow> repo \<Rightarrow> (int option \<times> string \<times> string option) \<times> repo" where
  "only_exec ok args e = (if args = ok then passing_exec args e else ((None, [], Some ''no such process''), e))"

section \<open>A gate inside the container\<close>

lemma container_gate_inside_witness:
  "ls_grain in_container = ''container''
   \<and> only_exec [''exec'', ''c7'', ''sh'', ''-c'', ''make test''] [''exec'', ''c7'', ''sh'', ''-c'', ''make test'']
       = passing_exec [''exec'', ''c7'', ''sh'', ''-c'', ''make test'']
   \<and> close_launch ((small_conv id)\<lparr>cw_sh := (\<lambda>dir args e. ((Some 1, Some ''exit status 1''), e))\<rparr>) (\<lambda>_. [])
       (only_exec [''exec'', ''c7'', ''sh'', ''-c'', ''make test'']) gated_policy in_container ''/work'' clean_end on_main
     = (Ran \<lparr>cr_status = Converged, cr_reason = [], cr_merge = ''c1''\<rparr>, on_main\<lparr>rp_merged := [(''main'', ''nm/a'')]\<rparr>)"
proof -
  have container: "ls_grain in_container = ''container''"
    and id: "ls_container in_container = ''c7''" "cp_gate gated_policy = ''make test''"
    by (simp_all add: in_container_def gated_policy_def)
  have same: "only_exec [''exec'', ''c7'', ''sh'', ''-c'', ''make test''] [''exec'', ''c7'', ''sh'', ''-c'', ''make test'']
       = passing_exec [''exec'', ''c7'', ''sh'', ''-c'', ''make test'']"
    by (intro ext) (simp add: only_exec_def)
  have run: "close_launch (small_conv id) (\<lambda>_. []) passing_exec gated_policy in_container ''/work'' clean_end on_main
     = (Ran \<lparr>cr_status = Converged, cr_reason = [], cr_merge = ''c1''\<rparr>, on_main\<lparr>rp_merged := [(''main'', ''nm/a'')]\<rparr>)"
    by code_simp
  show ?thesis
    using container same run container_gate_inside [of in_container "only_exec [''exec'', ''c7'', ''sh'', ''-c'', ''make test'']" gated_policy passing_exec, unfolded id, OF container same] by simp
qed

section \<open>A target that drifts while the gate runs\<close>

text \<open>
  HEAD is compared with the target before the gate and not again under the lease: when the branch is switched while
  a host gate runs, the merge lands on the other branch and the convergence reports the target as converged.
\<close>

definition drifting_spec :: "repo conv_spec" where
  "drifting_spec = \<lparr>cs_branch = ''nm/a'', cs_target = ''main'', cs_repo = ''/work'', cs_boundary = ''/w/a'',
     cs_gate = ''make test'', cs_ttl = 0, cs_from = [], cs_runner = None\<rparr>"

theorem drifted_merge:
  "converge (small_conv (rp_head_update (\<lambda>_. ''release''))) drifting_spec on_main
   = (\<lparr>cr_status = Converged, cr_reason = [], cr_merge = ''c1''\<rparr>, on_main\<lparr>rp_head := ''release'', rp_merged := [(''release'', ''nm/a'')]\<rparr>)"
  by code_simp

section \<open>A merge in progress\<close>

text \<open>
  \<open>integrate\<close> aborts after any failure of its merge, also when git refused because a merge of the user was in
  progress: it is the user's merge that is aborted.
\<close>

theorem integrate_aborts_other_merge:
  "integrate (small_conv id) ''/work'' [] ''nm/a'' (on_main\<lparr>rp_merging := Some ''feature''\<rparr>)
   = (Some (Fmt (''conflict integrating %s (merge aborted):'' @ CHR 0x0A # ''%s'')
       [''nm/a'', ''fatal: You have not concluded your merge (MERGE_HEAD exists).'']), on_main)"
  by code_simp

end
