(* ===== verification/Spec2Isabelle.thy ===== *)
theory Spec2Isabelle
  imports LedgerRpc ManifestFacts Singular IntegratorRpc ReviewRpc Frame DaemonFacts Lifecycle RecoveryScenarios ContainerScenarios TunnelScenarios ConvergeScenarios
begin

text \<open>
  \<^bold>\<open>mad-trellis: a verification library of the coordination daemon.\<close>

  The daemon of \<open>src/\<close> lets several coding agents work on one repository. One process per socket
  (\<open>internal/daemon\<close>) answers JSON-RPC requests of connections; each connection acts as a session that the
  daemon names. Behind the registry stand: the lease ledger (\<open>internal/lease\<close>), which grants named locks
  with an expiry and a fence and keeps the audit log; the manifest (\<open>internal/manifest\<close>), which sorts
  resources into three classes and routes them to lease keys; the singular gate (\<open>internal/singular\<close>);
  the trunk integrator (\<open>internal/integrator\<close>), the only writer of the trunk; the review plane
  (\<open>internal/integration\<close>); the session tokens (\<open>internal/session\<close>); and the recovery pass
  (\<open>internal/liveness\<close>), which frees what dead sessions held; and the isolation substrate
  (\<open>internal/substrate\<close>, \<open>internal/worktree\<close>), which makes and removes the directory, ports and environment that an
  agent works in. \<open>internal/app/compose.go\<close> wires them over one ledger. \<open>internal/coop/frame.go\<close> is the codec of the tunnel into containers.

  \<^bold>\<open>How code is rendered.\<close> A method that can fail and has state is an \<open>eff\<close> of the prelude: a function
  from the state to an error or a value, and the state afterwards. A SQL database is a \<open>db\<close>: its tables
  and a script that says which of the coming statements fail; a statement is one step, a transaction
  restores the tables unless it reached its commit. Error values are the datatype \<open>err\<close>, whose constructors
  are the sentinels of the packages and the shapes of \<open>fmt.Errorf\<close>. Parameters are parsed JSON. Times are
  nanoseconds in \<open>int\<close>; where the code multiplies or adds 64-bit durations the wrap-around is written out.
  Operations that interleave (the integrator) are programs of atomic actions; a rely-guarantee
  judgement in \<open>Resume\<close> carries invariants to every interleaving. Partial loops are
  \<open>partial_function (option)\<close>.

  \<^bold>\<open>The theories.\<close>
  \<^item> \<open>Prelude\<close>, \<open>GoText\<close>: errors, effects, databases; Go's text functions (runes, trimming, \<open>%q\<close>, numbers, base64, hex).
  \<^item> \<open>Wire\<close>: \<open>internal/protocol\<close>, the envelopes, the error codes and the decoding of parameters.
  \<^item> \<open>Ledger\<close>, \<open>LeaseFacts\<close>, \<open>LedgerRpc\<close>: \<open>internal/lease\<close>. Exclusion of holders, growth of fences, the FIFO of
    waiters, the append-only log, and that a session reaches only its own leases.
  \<^item> \<open>Manifest\<close>, \<open>ManifestFacts\<close>: \<open>internal/manifest\<close>. The strictest declaration wins, globs mean what they
    say, routing keys identify their resource, and where they do not.
  \<^item> \<open>LockService\<close>, \<open>Singular\<close>: the contract \<open>lock_service\<close> of leases, met by the ledger, and the gate proved over it.
  \<^item> \<open>Resume\<close>, \<open>Trunk\<close>, \<open>Integrator\<close>, \<open>TrunkSafety\<close>, \<open>SmallGit\<close>, \<open>TrunkLaws\<close>, \<open>IntegratorRpc\<close>:
    \<open>internal/integrator\<close>. Git is a parameter; \<open>git_doc\<close> states what its manual documents and \<open>SmallGit\<close> is a
    small repository that meets it. The trunk only grows, under any interleaving and any failures.
  \<^item> \<open>Review\<close>, \<open>ReviewFacts\<close>, \<open>ReviewRpc\<close>: \<open>internal/integration\<close>. A refinement to the life cycle of a review,
    the delivery of events, and their handlers.
  \<^item> \<open>Session\<close>, \<open>SessionFacts\<close>, \<open>SessionWorld\<close>: \<open>internal/session\<close> over two token tables; the locale
    \<open>session_host\<close> states what the table and the lease reader promise. Who can act as whom.
  \<^item> \<open>Daemon\<close>, \<open>DaemonFacts\<close>, \<open>Lifecycle\<close>: \<open>internal/daemon\<close>. Answers in order, rebinding by \<open>session.attach\<close>
    alone, one daemon per socket.
  \<^item> \<open>Liveness\<close>, \<open>LivenessFacts\<close>, \<open>Recovery\<close>, \<open>RecoveryScenarios\<close>: \<open>internal/liveness\<close>; the locale \<open>lease_plane\<close>
    is what a pass relies on, met by the recoverer as \<open>Build\<close> wires it.
  \<^item> \<open>Frame\<close>, \<open>Tunnel\<close>, \<open>TunnelFacts\<close>, \<open>TunnelScenarios\<close>: the codec \<open>internal/coop/frame.go\<close>, and the relay
    (\<open>cmd/mad-trellis-relay\<close>) and the pump (\<open>internal/launcher/coop.go\<close>) as the actions of their goroutines over two pipes of
    bytes. One invariant follows every chunk from the connection it was read from to the one it is written to:
    bytes of different connections stay apart, in order, and complete while their streams are open. The bound of
    2^32 connections in these theorems is the width of a stream id. The scenarios show what a close and a teardown lose.
  \<^item> \<open>Paths\<close>, \<open>Substrate\<close>, \<open>SubstrateFacts\<close>, \<open>BoundaryFacts\<close>, \<open>Worktree\<close>, \<open>WorktreeFacts\<close>, \<open>SubstrateScenarios\<close>:
    Go's \<open>filepath\<close>, the containment of paths, and the substrate as steps that concurrent provisions and teardowns
    interleave. The steps refine an abstract book of reservations, whose invariant keeps ports and slugs
    apart; what a live boundary contains; that every call returns; and interleavings that lose a boundary.
  \<^item> \<open>Container\<close>, \<open>ContainerFacts\<close>, \<open>ContainerScenarios\<close>: \<open>internal/substrate/container.go\<close>, the grain that mounts a
    clone into a container. What a confined container is given, that a clone goes only after its harvest, and
    runs in which commits or credentials end where they should not.
  \<^item> \<open>Despawn\<close>: \<open>cmd/mad-trellis/despawn.go\<close>, the removal of an abandoned boundary and its safety gate.
  \<^item> \<open>Converge\<close>, \<open>ConvergeFacts\<close>, \<open>ConvergeScenarios\<close>: \<open>internal/conductor\<close>, the launcher's choice when a run has ended
    (\<open>internal/launcher/launcher.go\<close>) and \<open>cmd/mad-trellis/integrate.go\<close>. The calls to git, the gate and the daemon
    are recorded; the record obeys the discipline of lease, gate and merge whatever they answer.

  \<^bold>\<open>Parameters and bounds.\<close> The random source, the clock and SHA-256 are a \<open>host\<close>; statements about
  times assume a clock that does not go back only where they say so. No theorem needs fuel, except that rune
  decoding and number printing recurse on a bound which is the length of the text or the number itself.
  When the unbounded loop of \<open>Mint\<close> ends is a theorem of \<open>SessionWorld\<close>.

  \<^bold>\<open>Not modelled.\<close> Opening, migrating and closing databases and files; JSON and YAML syntax; the bodies
  of git commands; the accept loop and its cap on connections; reading peer credentials from the kernel.
  Processes and terminals (the rest of \<open>internal/launcher\<close> and the other commands
  of \<open>cmd\<close>), the client side
  (\<open>internal/rpcclient\<close>, \<open>internal/coopclient\<close>, \<open>internal/mcp\<close>), the views (\<open>internal/watch\<close>) and the
  conformance checks are outside this library so far.
\<close>

end
